(* ===== verification/Prelude.thy ===== *)
theory Prelude
  imports Main "HOL-Library.Word"
begin

text \<open>
  Shared vocabulary of the development: the machine types of the arm64 build, the errno
  values the sources return negated, the little-endian layout of a machine word in memory,
  and the collections of rewrite rules the component theories extend.

  Conventions.  A C \<open>int\<close> status is an \<open>int\<close>; an error is the negated errno, as in the
  sources.  A \<open>word_t\<close>, a \<open>size_t\<close> and a pointer are \<open>64 word\<close>s.  A C string is a
  \<open>char list\<close> without its terminator.  Undefined behaviour (an out-of-bounds access, the
  use of freed memory, a failed assertion) is the value \<open>None\<close> of an option.
\<close>

unbundle bit_operations_syntax

section \<open>Types\<close>

type_synonym byte = "8 word"
type_synonym u16 = "16 word"
type_synonym u32 = "32 word"
type_synonym u64 = "64 word"
type_synonym pid = int

section \<open>Collections\<close>

named_theorems reg_simps \<open>reading a register bank after an update of it\<close>
named_theorems frame_simps \<open>fields an operation leaves alone\<close>
named_theorems mem_laws \<open>what the kernel's memory calls promise\<close>

section \<open>Errno values (asm-generic)\<close>

abbreviation EPERM :: int where "EPERM \<equiv> 1"
abbreviation ENOENT :: int where "ENOENT \<equiv> 2"
abbreviation ESRCH :: int where "ESRCH \<equiv> 3"
abbreviation EIO :: int where "EIO \<equiv> 5"
abbreviation E2BIG :: int where "E2BIG \<equiv> 7"
abbreviation ENOEXEC :: int where "ENOEXEC \<equiv> 8"
abbreviation EBADF :: int where "EBADF \<equiv> 9"
abbreviation ECHILD :: int where "ECHILD \<equiv> 10"
abbreviation ENOMEM :: int where "ENOMEM \<equiv> 12"
abbreviation EACCES :: int where "EACCES \<equiv> 13"
abbreviation EFAULT :: int where "EFAULT \<equiv> 14"
abbreviation ENOTDIR :: int where "ENOTDIR \<equiv> 20"
abbreviation EINVAL :: int where "EINVAL \<equiv> 22"
abbreviation ERANGE :: int where "ERANGE \<equiv> 34"
abbreviation ENAMETOOLONG :: int where "ENAMETOOLONG \<equiv> 36"
abbreviation ENOSYS :: int where "ENOSYS \<equiv> 38"
abbreviation ELOOP :: int where "ELOOP \<equiv> 40"
abbreviation ENOTSUP :: int where "ENOTSUP \<equiv> 95"

abbreviation PATH_MAX :: nat where "PATH_MAX \<equiv> 4096"

section \<open>Errors\<close>

text \<open>
  A result that is undefined (\<open>None\<close>), a negated errno (\<open>Inl\<close>) or a value (\<open>Inr\<close>), and the
  C idiom \<open>if (status < 0) return status\<close>.
\<close>

type_synonym 'a result = "(int + 'a) option"

definition bind_ok :: "'a result \<Rightarrow> ('a \<Rightarrow> 'b result) \<Rightarrow> 'b result" where
  "bind_ok m f =
     (case m of None \<Rightarrow> None | Some (Inl status) \<Rightarrow> Some (Inl status) | Some (Inr x) \<Rightarrow> f x)"

lemma bind_ok_simps [simp]:
  "bind_ok None f = None"
  "bind_ok (Some (Inl status)) f = Some (Inl status)"
  "bind_ok (Some (Inr x)) f = f x"
  by (simp_all add: bind_ok_def)

lemma bind_ok_Inr: "bind_ok m f = Some (Inr y) \<longleftrightarrow> (\<exists>x. m = Some (Inr x) \<and> f x = Some (Inr y))"
  by (auto simp: bind_ok_def split: option.splits sum.splits)

section \<open>Little-endian words\<close>

text \<open>
  The eight bytes a word occupies in memory, least significant first, and the word eight
  such bytes denote.
\<close>

definition le_bytes :: "u64 \<Rightarrow> byte list" where
  "le_bytes w = map (\<lambda>i. ucast (drop_bit (8 * i) w)) [0..<8]"

primrec of_le :: "byte list \<Rightarrow> u64" where
  "of_le [] = 0"
| "of_le (b # bs) = push_bit 8 (of_le bs) OR ucast b"

lemma length_le_bytes [simp]: "length (le_bytes w) = 8"
  by (simp add: le_bytes_def)

lemma bit_of_le:
  "bit (of_le bs) n \<longleftrightarrow> n < 64 \<and> n div 8 < length bs \<and> bit (bs ! (n div 8)) (n mod 8)"
proof (induction bs arbitrary: n)
  case Nil
  then show ?case by simp
next
  case (Cons b bs)
  show ?case
  proof (cases "n < 8")
    case True
    then show ?thesis by (simp add: bit_or_iff bit_push_bit_iff bit_ucast_iff)
  next
    case False
    then obtain m where n: "n = m + 8" by (metis add.commute le_Suc_ex not_less)
    have "\<not> bit (ucast b :: u64) n"
      using False bit_imp_le_length [of b n] by (auto simp: bit_ucast_iff)
    moreover have "(m + 8) div 8 = Suc (m div 8)" "(m + 8) mod 8 = m mod 8" by simp_all
    ultimately show ?thesis
      using n by (auto simp: bit_or_iff bit_push_bit_iff Cons.IH simp del: div_add_self2)
  qed
qed

lemma nth_le_bytes: "i < 8 \<Longrightarrow> le_bytes w ! i = ucast (drop_bit (8 * i) w)"
  by (simp add: le_bytes_def)

lemma of_le_bytes [simp]: "of_le (le_bytes w) = w"
proof (rule bit_eqI)
  fix n :: nat
  assume "possible_bit TYPE(u64) n"
  then have n: "n < 64" by simp
  then have d: "n div 8 < 8" by simp
  have m: "8 * (n div 8) + n mod 8 = n" by simp
  show "bit (of_le (le_bytes w)) n \<longleftrightarrow> bit w n"
    using n m by (auto simp: bit_of_le nth_le_bytes d bit_ucast_iff bit_drop_bit_eq)
qed

lemma le_bytes_of_le: "length bs = 8 \<Longrightarrow> le_bytes (of_le bs) = bs"
proof (rule nth_equalityI)
  assume len: "length bs = 8"
  then show "length (le_bytes (of_le bs)) = length bs" by simp
  fix i assume "i < length (le_bytes (of_le bs))"
  then have i: "i < 8" by simp
  show "le_bytes (of_le bs) ! i = bs ! i"
  proof (rule bit_eqI)
    fix n :: nat
    assume "possible_bit TYPE(byte) n"
    then have n: "n < 8" by simp
    then have "8 * i + n < 64" "(8 * i + n) div 8 = i" "(8 * i + n) mod 8 = n" using i by auto
    then show "bit (le_bytes (of_le bs) ! i) n \<longleftrightarrow> bit (bs ! i) n"
      using i n len by (simp add: nth_le_bytes bit_ucast_iff bit_drop_bit_eq bit_of_le)
  qed
qed

section \<open>Machine arithmetic\<close>

lemma bit_mask32: "bit (0xFFFFFFFF :: u64) n \<longleftrightarrow> n < 32"
proof -
  have "(0xFFFFFFFF :: u64) = mask 32" by (simp add: mask_eq_exp_minus_1)
  then have "bit (0xFFFFFFFF :: u64) n \<longleftrightarrow> bit (mask 32 :: u64) n" by (rule arg_cong)
  also have "\<dots> \<longleftrightarrow> n < 32" by (simp only: bit_mask_iff) auto
  finally show ?thesis .
qed

lemma low_ucast: "(v :: u64) AND 0xFFFFFFFF = ucast (ucast v :: u32)"
  by (rule bit_eqI) (simp only: bit_and_iff bit_mask32 bit_ucast_iff, auto)

lemma unat_plus_nowrap: "unat (a::u64) + unat b < 2 ^ 64 \<Longrightarrow> unat (a + b) = unat a + unat b"
  by (simp add: unat_word_ariths)

lemma unat_of_nat_u64: "n < 2 ^ 64 \<Longrightarrow> unat (of_nat n :: u64) = n"
  by (simp add: unat_of_nat)

lemma of_nat_u64_inj: "m < 2 ^ 64 \<Longrightarrow> n < 2 ^ 64 \<Longrightarrow> (of_nat m :: u64) = of_nat n \<longleftrightarrow> m = n"
  by (metis unat_of_nat_u64)

end
