(* ===== verification/CmnUtils.thy ===== *)
theory CmnUtils
  imports Prelude "HOL-Library.Sublist"
begin

text \<open>
  String helpers (src/library/src/main/jni/cmn/cmn_utils.c).  A nullable \<open>const char *\<close>
  is a \<open>string option\<close>; the result of \<open>strstr\<close> is the offset of the match.  A write past
  the end of an allocation is \<open>None\<close>.
\<close>

section \<open>Definitions\<close>

text \<open>The libc functions the sources call, on strings without their terminator.\<close>

fun strstr :: "string \<Rightarrow> string \<Rightarrow> nat option" where
  "strstr [] sub = (if sub = [] then Some 0 else None)"
| "strstr (c # cs) sub =
     (if prefix sub (c # cs) then Some 0 else map_option Suc (strstr cs sub))"

definition strncmp_eq :: "string \<Rightarrow> string \<Rightarrow> nat \<Rightarrow> bool" where
  "strncmp_eq a b n \<longleftrightarrow> take n a = take n b"

definition cmn_utils_string_starts_With :: "string option \<Rightarrow> string option \<Rightarrow> bool" where
  "cmn_utils_string_starts_With str sub_str =
     (case str of
        None \<Rightarrow> sub_str = None
      | Some s \<Rightarrow>
          (case sub_str of
             None \<Rightarrow> False
           | Some t \<Rightarrow> if length s = 0 then length t = 0 else strstr s t = Some 0))"

definition cmn_utils_string_ends_With :: "string option \<Rightarrow> string option \<Rightarrow> bool" where
  "cmn_utils_string_ends_With str sub_str =
     (case str of
        None \<Rightarrow> sub_str = None
      | Some s \<Rightarrow>
          (case sub_str of
             None \<Rightarrow> False
           | Some t \<Rightarrow>
               if length s = 0 then length t = 0
               else if length s < length t then False
               else strncmp_eq (drop (length s - length t) s) t (length s - length t)))"

text \<open>
  Both allocations ask for \<open>sizeof (str_len + 1)\<close> bytes, which is the size of a
  \<open>size_t\<close>, whatever the length is.
\<close>

abbreviation sizeof_size_t :: nat where "sizeof_size_t \<equiv> 8"

definition strcpy_into :: "nat \<Rightarrow> string \<Rightarrow> string option" where
  "strcpy_into room s = (if length s + 1 \<le> room then Some s else None)"

definition cmn_utils_string_replace_With ::
    "string \<Rightarrow> string option \<Rightarrow> string option \<Rightarrow> string option option" where
  "cmn_utils_string_replace_With str sub_str rep_str =
     (case (sub_str, rep_str) of
        (Some t, Some r) \<Rightarrow>
          (case strstr str t of
             None \<Rightarrow> map_option Some (strcpy_into sizeof_size_t str)
           | Some i \<Rightarrow>
               map_option Some (strcpy_into sizeof_size_t (take i str @ r @ drop (i + length t) str)))
      | _ \<Rightarrow> Some None)"

text \<open>
  \<open>cmn_utils_string_split\<close>: \<open>items\<close> holds the items started so far; the one in progress
  grows until its separator is overwritten by a terminator.
\<close>

fun split_loop :: "string \<Rightarrow> char \<Rightarrow> nat \<Rightarrow> nat \<Rightarrow> string list \<Rightarrow> string list" where
  "split_loop [] ch i items_len items = items"
| "split_loop (c # src) ch i items_len items =
     (if i < items_len then
        let items = (if i < length items then items else items @ [[]]) in
        if c = ch then split_loop src ch (Suc i) items_len items
        else split_loop src ch i items_len (items[i := items ! i @ [c]])
      else items)"

definition cmn_utils_string_split :: "string \<Rightarrow> char \<Rightarrow> nat \<Rightarrow> nat \<times> string list" where
  "cmn_utils_string_split src ch items_len =
     (let items = split_loop src ch 0 items_len [] in (length items, items))"

text \<open>\<open>char\<close> is unsigned on arm64.\<close>

fun str_hash_loop :: "string \<Rightarrow> u32 \<Rightarrow> u32" where
  "str_hash_loop [] h = h"
| "str_hash_loop (c # cs) h =
     (let h = push_bit 4 h + of_char c;
          g = h AND 0xf0000000;
          h = h XOR g;
          h = h XOR drop_bit 24 g
      in str_hash_loop cs h)"

definition cmn_utils_str_hash :: "string \<Rightarrow> u32" where
  "cmn_utils_str_hash str = str_hash_loop str 0"

section \<open>Search\<close>

lemma strstr_zero: "strstr s t = Some 0 \<longleftrightarrow> prefix t s"
  by (cases s) auto

lemma strstr_SomeD:
  "strstr s t = Some i \<Longrightarrow> i + length t \<le> length s \<and> take (length t) (drop i s) = t"
proof (induction s arbitrary: i)
  case Nil
  then show ?case by (simp split: if_splits)
next
  case (Cons c cs)
  show ?case
  proof (cases "prefix t (c # cs)")
    case True
    with Cons.prems have "i = 0" by simp
    then show ?thesis using True prefix_length_le [OF True] by (auto simp: prefix_def)
  next
    case False
    with Cons.prems obtain j where "strstr cs t = Some j" "i = Suc j" by auto
    then show ?thesis using Cons.IH [of j] by simp
  qed
qed

lemma strstr_None: "strstr s t = None \<longleftrightarrow> \<not> sublist t s"
proof (induction s)
  case (Cons c cs)
  then show ?case by (auto simp: sublist_Cons_right)
qed simp

section \<open>Splitting\<close>

lemma split_loop_stop: "\<not> i < n \<Longrightarrow> split_loop src ch i n items = items"
  by (cases src) auto

text \<open>One part without separator is appended to the item in progress.\<close>

lemma split_loop_part:
  assumes "ch \<notin> set p" "length done = i" "i < n"
  shows "split_loop (p @ src) ch i n (done @ [q]) = split_loop src ch i n (done @ [q @ p])"
  using assms
proof (induction p arbitrary: q)
  case (Cons c p)
  then show ?case by (auto simp: nth_append Let_def list_update_append)
qed simp

lemma split_loop_first:
  assumes "ch \<notin> set p" "length done = i" "i < n"
  shows "split_loop (p @ ch # src) ch i n done = split_loop src ch (Suc i) n (done @ [p])"
proof (cases p)
  case Nil
  then show ?thesis using assms by (simp add: Let_def)
next
  case (Cons c p')
  then have "split_loop (p @ ch # src) ch i n done = split_loop (p' @ ch # src) ch i n (done @ [[c]])"
    using assms by (auto simp: Let_def nth_append list_update_append)
  also have "\<dots> = split_loop (ch # src) ch i n (done @ [[c] @ p'])"
    using assms Cons by (intro split_loop_part) auto
  finally show ?thesis using Cons assms by (simp add: Let_def)
qed

lemma split_loop_last:
  assumes "ch \<notin> set p" "length done = i" "i < n" "p \<noteq> []"
  shows "split_loop p ch i n done = done @ [p]"
proof -
  obtain c p' where p: "p = c # p'" using assms(4) by (cases p) auto
  then have "split_loop p ch i n done = split_loop (p' @ []) ch i n (done @ [[c]])"
    using assms by (auto simp: Let_def nth_append list_update_append)
  also have "\<dots> = done @ [[c] @ p']"
    using assms p by (subst split_loop_part) auto
  finally show ?thesis using p by simp
qed

fun join_with :: "char \<Rightarrow> string list \<Rightarrow> string" where
  "join_with ch [] = []"
| "join_with ch [p] = p"
| "join_with ch (p # ps) = p @ ch # join_with ch ps"

lemma split_loop_join:
  assumes "\<forall>p \<in> set ps. ch \<notin> set p" "ps \<noteq> []" "last ps \<noteq> []"
    "length done + length ps \<le> n"
  shows "split_loop (join_with ch ps) ch (length done) n done = done @ ps"
  using assms
proof (induction ch ps arbitrary: "done" rule: join_with.induct)
  case (2 ch p)
  then show ?case by (simp add: split_loop_last)
next
  case (3 ch p q ps)
  then have "split_loop (join_with ch (p # q # ps)) ch (length done) n done
      = split_loop (join_with ch (q # ps)) ch (length (done @ [p])) n (done @ [p])"
    by (simp add: split_loop_first)
  also have "\<dots> = (done @ [p]) @ q # ps" using 3 by (intro "3.IH") auto
  finally show ?case by simp
qed simp

section \<open>Hash\<close>

lemma hash_step_small:
  fixes h :: u32
  assumes "g = h AND 0xf0000000"
  shows "(h XOR g) XOR drop_bit 24 g = take_bit 28 ((h XOR g) XOR drop_bit 24 g)"
proof (rule bit_eqI)
  fix n assume n: "possible_bit TYPE(u32) n"
  then have n32: "n < 32" by simp
  show "bit ((h XOR g) XOR drop_bit 24 g) n \<longleftrightarrow> bit (take_bit 28 ((h XOR g) XOR drop_bit 24 g)) n"
  proof (cases "n < 28")
    case True
    then show ?thesis by (simp only: bit_take_bit_iff simp_thms)
  next
    case False
    then have "n \<in> {28, 29, 30, 31}" using n32 by auto
    moreover have "\<not> bit g (24 + n)"
      using bit_imp_le_length [of g "24 + n"] False by auto
    ultimately show ?thesis using assms
      by (auto simp: bit_take_bit_iff bit_xor_iff bit_and_iff bit_drop_bit_eq bit_numeral_word_iff)
  qed
qed

lemma str_hash_loop_small:
  "take_bit 28 h = h \<Longrightarrow> take_bit 28 (str_hash_loop s h) = str_hash_loop s h"
proof (induction s arbitrary: h)
  case (Cons c cs)
  show ?case
    unfolding str_hash_loop.simps Let_def
    by (rule Cons.IH) (rule hash_step_small [OF refl, symmetric])
qed simp

section \<open>Properties\<close>

text \<open>C32: \<open>cmn_utils_string_split\<close> undoes joining: the parts of a separated list come back in
  order, and their number is returned, when they fit in the array and the last is not empty.\<close>

theorem split_join:
  assumes "\<forall>p \<in> set ps. ch \<notin> set p" "ps \<noteq> []" "last ps \<noteq> []" "length ps \<le> items_len"
  shows "cmn_utils_string_split (join_with ch ps) ch items_len = (length ps, ps)"
  using assms split_loop_join [of ps ch "[]" items_len]
  by (simp add: cmn_utils_string_split_def)

theorem split_join_witness:
  "cmn_utils_string_split ''a,,bc'' (CHR '','') 4 = (3, [''a'', '''', ''bc''])"
  using split_join [of "[''a'', '''', ''bc'']" "CHR '',''" 4] by simp

lemma starts_With_prefix:
  "cmn_utils_string_starts_With (Some s) (Some t) \<longleftrightarrow> prefix t s"
  by (auto simp: cmn_utils_string_starts_With_def strstr_zero)

lemma ends_With_complete:
  assumes "suffix t s"
  shows "cmn_utils_string_ends_With (Some s) (Some t)"
  using assms by (auto simp: cmn_utils_string_ends_With_def strncmp_eq_def suffix_def)

lemma ends_With_long:
  assumes "2 * length t \<le> length s" "cmn_utils_string_ends_With (Some s) (Some t)"
  shows "suffix t s"
proof (cases "s = []")
  case True
  then show ?thesis using assms by (simp add: cmn_utils_string_ends_With_def)
next
  case False
  then have "drop (length s - length t) s = t"
    using assms by (simp add: cmn_utils_string_ends_With_def strncmp_eq_def)
  then show ?thesis by (metis suffix_drop)
qed

text \<open>On shorter strings the test can accept a string that is not a suffix.\<close>

lemma ends_With_unsound: "cmn_utils_string_ends_With (Some ''abc'') (Some ''xyz'')"
  by (simp add: cmn_utils_string_ends_With_def strncmp_eq_def)

lemma replace_With_first:
  assumes "cmn_utils_string_replace_With s (Some t) (Some r) = Some (Some u)"
  shows "(\<exists>a b. s = a @ t @ b \<and> u = a @ r @ b) \<or> \<not> sublist t s \<and> u = s"
proof (cases "strstr s t")
  case None
  then show ?thesis
    using assms strstr_None [of s t]
    by (simp add: cmn_utils_string_replace_With_def strcpy_into_def split: if_splits)
next
  case (Some i)
  then have i: "take (length t) (drop i s) = t" using strstr_SomeD by blast
  then have "s = take i s @ t @ drop (i + length t) s"
    by (metis append_take_drop_id drop_drop add.commute)
  moreover have "u = take i s @ r @ drop (i + length t) s"
    using assms Some by (auto simp: cmn_utils_string_replace_With_def strcpy_into_def split: if_splits)
  ultimately show ?thesis by blast
qed

lemma replace_With_overflow:
  assumes "8 \<le> length s" "\<not> sublist t s"
  shows "cmn_utils_string_replace_With s (Some t) (Some r) = None"
  using assms by (simp add: cmn_utils_string_replace_With_def strcpy_into_def flip: strstr_None)

lemma str_hash_bound: "unat (cmn_utils_str_hash s) < 2 ^ 28"
proof -
  have "take_bit 28 (cmn_utils_str_hash s) = cmn_utils_str_hash s"
    unfolding cmn_utils_str_hash_def by (rule str_hash_loop_small) simp
  then have "unat (cmn_utils_str_hash s) = take_bit 28 (unat (cmn_utils_str_hash s))"
    by (metis unsigned_take_bit_eq)
  then show ?thesis by (metis take_bit_nat_less_exp)
qed

end
