(* ===== verification/Elf.thy ===== *)
theory Elf
  imports Prelude
begin

text \<open>
  The formats of execve/elf.h and the load information of execve/execve.h.

  The headers are unions of a 32-bit and a 64-bit layout: here the bytes read from the file, of
  which a field is a range that depends on the class, the fourth byte of the identification
  (\<open>ELF_FIELD\<close>, \<open>PROGRAM_FIELD\<close>).  A \<open>struct load_info\<close> points to the one of the interpreter.
\<close>

section \<open>Headers\<close>

type_synonym ElfHeader = "byte list"
type_synonym ProgramHeader = "byte list"

datatype Elf_field =
    e_type | e_machine | e_version | e_entry | e_phoff | e_shoff | e_flags | e_ehsize
  | e_phentsize | e_phnum | e_shentsize | e_shnum | e_shstrndx

datatype Program_field =
  p_type | p_offset | p_vaddr | p_paddr | p_filesz | p_memsz | p_flags | p_align

text \<open>Offset and size of a field.\<close>

fun ElfHeader32 :: "Elf_field \<Rightarrow> nat \<times> nat" where
  "ElfHeader32 e_type = (16, 2)" | "ElfHeader32 e_machine = (18, 2)"
| "ElfHeader32 e_version = (20, 4)" | "ElfHeader32 e_entry = (24, 4)"
| "ElfHeader32 e_phoff = (28, 4)" | "ElfHeader32 e_shoff = (32, 4)"
| "ElfHeader32 e_flags = (36, 4)" | "ElfHeader32 e_ehsize = (40, 2)"
| "ElfHeader32 e_phentsize = (42, 2)" | "ElfHeader32 e_phnum = (44, 2)"
| "ElfHeader32 e_shentsize = (46, 2)" | "ElfHeader32 e_shnum = (48, 2)"
| "ElfHeader32 e_shstrndx = (50, 2)"

fun ElfHeader64 :: "Elf_field \<Rightarrow> nat \<times> nat" where
  "ElfHeader64 e_type = (16, 2)" | "ElfHeader64 e_machine = (18, 2)"
| "ElfHeader64 e_version = (20, 4)" | "ElfHeader64 e_entry = (24, 8)"
| "ElfHeader64 e_phoff = (32, 8)" | "ElfHeader64 e_shoff = (40, 8)"
| "ElfHeader64 e_flags = (48, 4)" | "ElfHeader64 e_ehsize = (52, 2)"
| "ElfHeader64 e_phentsize = (54, 2)" | "ElfHeader64 e_phnum = (56, 2)"
| "ElfHeader64 e_shentsize = (58, 2)" | "ElfHeader64 e_shnum = (60, 2)"
| "ElfHeader64 e_shstrndx = (62, 2)"

fun ProgramHeader32 :: "Program_field \<Rightarrow> nat \<times> nat" where
  "ProgramHeader32 p_type = (0, 4)" | "ProgramHeader32 p_offset = (4, 4)"
| "ProgramHeader32 p_vaddr = (8, 4)" | "ProgramHeader32 p_paddr = (12, 4)"
| "ProgramHeader32 p_filesz = (16, 4)" | "ProgramHeader32 p_memsz = (20, 4)"
| "ProgramHeader32 p_flags = (24, 4)" | "ProgramHeader32 p_align = (28, 4)"

fun ProgramHeader64 :: "Program_field \<Rightarrow> nat \<times> nat" where
  "ProgramHeader64 p_type = (0, 4)" | "ProgramHeader64 p_flags = (4, 4)"
| "ProgramHeader64 p_offset = (8, 8)" | "ProgramHeader64 p_vaddr = (16, 8)"
| "ProgramHeader64 p_paddr = (24, 8)" | "ProgramHeader64 p_filesz = (32, 8)"
| "ProgramHeader64 p_memsz = (40, 8)" | "ProgramHeader64 p_align = (48, 8)"

text \<open>\<open>sizeof\<close> of the union and of the two program headers.\<close>

abbreviation sizeof_ElfHeader :: nat where "sizeof_ElfHeader \<equiv> 64"
abbreviation sizeof_ProgramHeader32 :: nat where "sizeof_ProgramHeader32 \<equiv> 32"
abbreviation sizeof_ProgramHeader64 :: nat where "sizeof_ProgramHeader64 \<equiv> 56"

definition get_field :: "byte list \<Rightarrow> nat \<times> nat \<Rightarrow> u64" where
  "get_field bs f = (case f of (offset, n) \<Rightarrow> of_le (take n (drop offset bs)))"

definition put_field :: "byte list \<Rightarrow> nat \<times> nat \<Rightarrow> u64 \<Rightarrow> byte list" where
  "put_field bs f v = (case f of (offset, n) \<Rightarrow>
     take offset bs @ take n (le_bytes v) @ drop (offset + n) bs)"

definition ELF_IDENT :: "ElfHeader \<Rightarrow> nat \<Rightarrow> byte" where
  "ELF_IDENT header index = header ! index"

definition IS_CLASS32 :: "ElfHeader \<Rightarrow> bool" where
  "IS_CLASS32 header \<longleftrightarrow> ELF_IDENT header 4 = 1"

definition IS_CLASS64 :: "ElfHeader \<Rightarrow> bool" where
  "IS_CLASS64 header \<longleftrightarrow> ELF_IDENT header 4 = 2"

definition ELF_FIELD :: "ElfHeader \<Rightarrow> Elf_field \<Rightarrow> u64" where
  "ELF_FIELD header f = get_field header (if IS_CLASS64 header then ElfHeader64 f else ElfHeader32 f)"

definition PROGRAM_FIELD :: "ElfHeader \<Rightarrow> ProgramHeader \<Rightarrow> Program_field \<Rightarrow> u64" where
  "PROGRAM_FIELD ehdr phdr f =
     get_field phdr (if IS_CLASS64 ehdr then ProgramHeader64 f else ProgramHeader32 f)"

abbreviation ET_EXEC :: u64 where "ET_EXEC \<equiv> 2"
abbreviation ET_DYN :: u64 where "ET_DYN \<equiv> 3"
abbreviation PF_X :: u64 where "PF_X \<equiv> 1"
abbreviation PF_W :: u64 where "PF_W \<equiv> 2"
abbreviation PF_R :: u64 where "PF_R \<equiv> 4"
abbreviation PT_LOAD :: u64 where "PT_LOAD \<equiv> 1"
abbreviation PT_INTERP :: u64 where "PT_INTERP \<equiv> 3"
abbreviation PT_GNU_STACK :: u64 where "PT_GNU_STACK \<equiv> 0x6474e551"

definition KNOWN_PHENTSIZE :: "ElfHeader \<Rightarrow> nat \<Rightarrow> bool" where
  "KNOWN_PHENTSIZE header n \<longleftrightarrow>
     IS_CLASS32 header \<and> n = sizeof_ProgramHeader32 \<or>
     IS_CLASS64 header \<and> n = sizeof_ProgramHeader64"

definition IS_POSITION_INDENPENDANT :: "ElfHeader \<Rightarrow> bool" where
  "IS_POSITION_INDENPENDANT header \<longleftrightarrow> ELF_FIELD header e_type = ET_DYN"

section \<open>Load information\<close>

record Mapping =
  m_addr :: u64
  m_length :: u64
  m_clear_length :: u64
  m_prot :: u64
  m_flags :: u64
  m_fd :: u64
  m_offset :: u64

text \<open>
  The pointer \<open>raw_path\<close>: null, the one of \<open>user_path\<close>, a string of its own, or one that has
  been freed.
\<close>

datatype Raw_path = Raw_null | Raw_user_path | Raw_own string | Raw_freed

datatype LoadInfo = LoadInfo
  (li_host_path: "string option")
  (li_user_path: "string option")
  (li_raw_path: Raw_path)
  (li_mappings: "Mapping list option")
  (li_elf_header: ElfHeader)
  (li_needs_executable_stack: bool)
  (li_interp: "LoadInfo option")

text \<open>Assignment to a member.\<close>

primrec set_host_path :: "string option \<Rightarrow> LoadInfo \<Rightarrow> LoadInfo" where
  "set_host_path v (LoadInfo h u r m e x i) = LoadInfo v u r m e x i"

primrec set_user_path :: "string option \<Rightarrow> LoadInfo \<Rightarrow> LoadInfo" where
  "set_user_path v (LoadInfo h u r m e x i) = LoadInfo h v r m e x i"

primrec set_raw_path :: "Raw_path \<Rightarrow> LoadInfo \<Rightarrow> LoadInfo" where
  "set_raw_path v (LoadInfo h u r m e x i) = LoadInfo h u v m e x i"

primrec set_mappings :: "Mapping list option \<Rightarrow> LoadInfo \<Rightarrow> LoadInfo" where
  "set_mappings v (LoadInfo h u r m e x i) = LoadInfo h u r v e x i"

primrec set_elf_header :: "ElfHeader \<Rightarrow> LoadInfo \<Rightarrow> LoadInfo" where
  "set_elf_header v (LoadInfo h u r m e x i) = LoadInfo h u r m v x i"

primrec set_needs_executable_stack :: "bool \<Rightarrow> LoadInfo \<Rightarrow> LoadInfo" where
  "set_needs_executable_stack v (LoadInfo h u r m e x i) = LoadInfo h u r m e v i"

primrec set_interp :: "LoadInfo option \<Rightarrow> LoadInfo \<Rightarrow> LoadInfo" where
  "set_interp v (LoadInfo h u r m e x i) = LoadInfo h u r m e x v"

text \<open>A block fresh from \<open>calloc\<close>.\<close>

definition calloc_LoadInfo :: LoadInfo where
  "calloc_LoadInfo =
     LoadInfo None None Raw_null None (replicate sizeof_ElfHeader 0) False None"

named_theorems load_info_simps \<open>the members of a load_info after an assignment\<close>

lemma set_host_path_simps [load_info_simps, simp]:
  "li_host_path (set_host_path v l) = v" "li_user_path (set_host_path v l) = li_user_path l"
  "li_raw_path (set_host_path v l) = li_raw_path l" "li_mappings (set_host_path v l) = li_mappings l"
  "li_elf_header (set_host_path v l) = li_elf_header l" "li_interp (set_host_path v l) = li_interp l"
  "li_needs_executable_stack (set_host_path v l) = li_needs_executable_stack l"
  by (cases l; simp)+

lemma set_user_path_simps [load_info_simps, simp]:
  "li_user_path (set_user_path v l) = v" "li_host_path (set_user_path v l) = li_host_path l"
  "li_raw_path (set_user_path v l) = li_raw_path l" "li_mappings (set_user_path v l) = li_mappings l"
  "li_elf_header (set_user_path v l) = li_elf_header l" "li_interp (set_user_path v l) = li_interp l"
  "li_needs_executable_stack (set_user_path v l) = li_needs_executable_stack l"
  by (cases l; simp)+

lemma set_raw_path_simps [load_info_simps, simp]:
  "li_raw_path (set_raw_path v l) = v" "li_host_path (set_raw_path v l) = li_host_path l"
  "li_user_path (set_raw_path v l) = li_user_path l" "li_mappings (set_raw_path v l) = li_mappings l"
  "li_elf_header (set_raw_path v l) = li_elf_header l" "li_interp (set_raw_path v l) = li_interp l"
  "li_needs_executable_stack (set_raw_path v l) = li_needs_executable_stack l"
  by (cases l; simp)+

lemma set_mappings_simps [load_info_simps, simp]:
  "li_mappings (set_mappings v l) = v" "li_host_path (set_mappings v l) = li_host_path l"
  "li_user_path (set_mappings v l) = li_user_path l" "li_raw_path (set_mappings v l) = li_raw_path l"
  "li_elf_header (set_mappings v l) = li_elf_header l" "li_interp (set_mappings v l) = li_interp l"
  "li_needs_executable_stack (set_mappings v l) = li_needs_executable_stack l"
  by (cases l; simp)+

lemma set_elf_header_simps [load_info_simps, simp]:
  "li_elf_header (set_elf_header v l) = v" "li_host_path (set_elf_header v l) = li_host_path l"
  "li_user_path (set_elf_header v l) = li_user_path l" "li_raw_path (set_elf_header v l) = li_raw_path l"
  "li_mappings (set_elf_header v l) = li_mappings l" "li_interp (set_elf_header v l) = li_interp l"
  "li_needs_executable_stack (set_elf_header v l) = li_needs_executable_stack l"
  by (cases l; simp)+

lemma set_needs_executable_stack_simps [load_info_simps, simp]:
  "li_needs_executable_stack (set_needs_executable_stack v l) = v"
  "li_host_path (set_needs_executable_stack v l) = li_host_path l"
  "li_user_path (set_needs_executable_stack v l) = li_user_path l"
  "li_raw_path (set_needs_executable_stack v l) = li_raw_path l"
  "li_mappings (set_needs_executable_stack v l) = li_mappings l"
  "li_elf_header (set_needs_executable_stack v l) = li_elf_header l"
  "li_interp (set_needs_executable_stack v l) = li_interp l"
  by (cases l; simp)+

lemma set_interp_simps [load_info_simps, simp]:
  "li_interp (set_interp v l) = v" "li_host_path (set_interp v l) = li_host_path l"
  "li_user_path (set_interp v l) = li_user_path l" "li_raw_path (set_interp v l) = li_raw_path l"
  "li_mappings (set_interp v l) = li_mappings l" "li_elf_header (set_interp v l) = li_elf_header l"
  "li_needs_executable_stack (set_interp v l) = li_needs_executable_stack l"
  by (cases l; simp)+

end
