(* ===== verification/Tracee.thy ===== *)
theory Tracee
  imports Elf
begin

text \<open>
  The state kept for a traced process (src/library/src/main/jni/tracee/tracee.h).  A field \<open>x\<close> of \<open>struct tracee\<close> is \<open>t_x\<close>; a
  pointer to another tracee is the address of its object (theory \<open>Tracees\<close>).  The three register banks are cells of 32 bits,
  so that the arm64 and the arm views of the same bytes are both at hand: byte offset
  \<open>4 * n\<close> of \<open>struct user_regs_struct\<close> is cell \<open>n\<close>.
\<close>

section \<open>Tracee\<close>

datatype RegVersion = CURRENT | ORIGINAL | MODIFIED

type_synonym bank = "nat \<Rightarrow> u32"

datatype Reg =
    SYSARG_NUM | SYSARG_1 | SYSARG_2 | SYSARG_3 | SYSARG_4 | SYSARG_5 | SYSARG_6
  | SYSARG_RESULT | STACK_POINTER | INSTR_POINTER | RTLD_FINI | STATE_FLAGS | USERARG_1

datatype waits_in = DOESNT_WAIT | WAITS_IN_KERNEL | WAITS_IN_PROOT

datatype sigstop = SIGSTOP_IGNORED | SIGSTOP_ALLOWED | SIGSTOP_PENDING

datatype seccomp_state = DISABLED | DISABLING | ENABLED

record As_ptracer =
  nb_ptracees :: u64
  zombies :: "nat list"
  wait_pid :: pid
  wait_options :: u64
  as_waits_in :: waits_in

record Event4 =
  ev_value :: int
  ev_pending :: bool

record As_ptracee =
  ptracer :: "nat option"
  event_proot :: Event4
  event_ptracer :: Event4
  tracing_started :: bool
  ignore_loader_syscalls :: bool
  ignore_syscalls :: bool
  ptrace_options :: u64
  ee_is_zombie :: bool

text \<open>\<open>struct chained_syscall\<close>; the number is architecture neutral.\<close>

record Chained_syscall =
  cs_sysnum :: nat
  cs_sysargs :: "u64 list"

text \<open>
  The pointer \<open>chain.syscalls\<close>: null, a list in memory, or the address of a list that has
  been freed.
\<close>

datatype chain_ptr = Null | Live "Chained_syscall list" | Dangling

record Chain =
  ch_syscalls :: chain_ptr
  ch_force_final_result :: bool
  ch_final_result :: u64

record Tracee =
  t_pid :: pid
  t_vpid :: nat
  t_running :: bool
  t_terminated :: bool
  t_killall_on_exit :: bool
  t_parent :: "nat option"
  t_clone :: bool
  t_as_ptracer :: As_ptracer
  t_as_ptracee :: As_ptracee
  t_status :: int
  t_restart_how :: int
  t_regs :: "RegVersion \<Rightarrow> bank"
  t_regs_were_changed :: bool
  t_restore_original_regs :: bool
  t_sigstop :: sigstop
  t_chain :: Chain
  t_is_aarch32 :: bool
  t_user_context_data :: u64
  t_verbose :: int
  t_glue :: "string option"
  t_host_ldso_paths :: "string option"
  t_guest_ldso_paths :: "string option"
  t_tool_name :: "string option"
  t_seccomp :: seccomp_state
  t_sysexit_pending :: bool
  t_new_exe :: "string option"
  t_load_info :: "LoadInfo option"
  t_is_zombie :: bool
  t_is_root :: bool
  t_deliver_sigtrap :: bool
  t_seccomp_detected :: bool
  t_seccomp_enabled :: bool

text \<open>\<open>IS_IN_SYSENTER\<close> and \<open>IS_IN_SYSEXIT\<close>.\<close>

definition IS_IN_SYSENTER :: "Tracee \<Rightarrow> bool" where
  "IS_IN_SYSENTER tracee \<longleftrightarrow> t_status tracee = 0"

definition IS_IN_SYSEXIT :: "Tracee \<Rightarrow> bool" where
  "IS_IN_SYSEXIT tracee \<longleftrightarrow> \<not> IS_IN_SYSENTER tracee"

text \<open>A block fresh from \<open>calloc\<close>: every field zero.\<close>

definition calloc_tracee :: Tracee where
  "calloc_tracee =
    \<lparr>t_pid = 0, t_vpid = 0, t_running = False, t_terminated = False, t_killall_on_exit = False,
     t_parent = None, t_clone = False,
     t_as_ptracer = \<lparr>nb_ptracees = 0, zombies = [], wait_pid = 0, wait_options = 0,
                     as_waits_in = DOESNT_WAIT\<rparr>,
     t_as_ptracee = \<lparr>ptracer = None, event_proot = \<lparr>ev_value = 0, ev_pending = False\<rparr>,
                     event_ptracer = \<lparr>ev_value = 0, ev_pending = False\<rparr>,
                     tracing_started = False, ignore_loader_syscalls = False,
                     ignore_syscalls = False, ptrace_options = 0, ee_is_zombie = False\<rparr>,
     t_status = 0, t_restart_how = 0, t_regs = (\<lambda>_ _. 0), t_regs_were_changed = False,
     t_restore_original_regs = False, t_sigstop = SIGSTOP_IGNORED,
     t_chain = \<lparr>ch_syscalls = Null, ch_force_final_result = False, ch_final_result = 0\<rparr>,
     t_is_aarch32 = False, t_user_context_data = 0, t_verbose = 0, t_glue = None,
     t_host_ldso_paths = None, t_guest_ldso_paths = None, t_tool_name = None,
     t_seccomp = DISABLED, t_sysexit_pending = False, t_new_exe = None, t_load_info = None,
     t_is_zombie = False, t_is_root = False, t_deliver_sigtrap = False,
     t_seccomp_detected = False, t_seccomp_enabled = False\<rparr>"

end
