(* ===== verification/Kernel.thy ===== *)
theory Kernel
  imports Tracee
begin

text \<open>
  The interface of the kernel the tracer calls.  The calls are parameters of the model: a
  record of functions, one per request, in the calling convention of the C library (a status,
  \<open>-1\<close> on error, and \<open>errno\<close>) over a kernel state of a type the model does not fix.
  \<open>kernel_memory\<close> states what their manual pages promise of another process's memory;
  \<open>ram_kernel\<close> is a small kernel that keeps these promises.
\<close>

section \<open>Calls\<close>

record 'k OS =
  os_errno :: int
  os_kern :: 'k

record 'k Kernel =
  sys_process_vm_readv :: "pid \<Rightarrow> nat \<Rightarrow> u64 \<Rightarrow> 'k OS \<Rightarrow> int \<times> byte list \<times> 'k OS"
  sys_process_vm_writev :: "pid \<Rightarrow> byte list list \<Rightarrow> u64 \<Rightarrow> 'k OS \<Rightarrow> int \<times> 'k OS"
  sys_ptrace_peekdata :: "pid \<Rightarrow> u64 \<Rightarrow> 'k OS \<Rightarrow> u64 \<times> 'k OS"
  sys_ptrace_pokedata :: "pid \<Rightarrow> u64 \<Rightarrow> u64 \<Rightarrow> 'k OS \<Rightarrow> int \<times> 'k OS"
  sys_ptrace_getregset :: "pid \<Rightarrow> 'k OS \<Rightarrow> int \<times> bank \<times> 'k OS"
  sys_ptrace_setregset :: "pid \<Rightarrow> bank \<Rightarrow> 'k OS \<Rightarrow> int \<times> 'k OS"
  sys_ptrace_set_syscall :: "pid \<Rightarrow> u64 \<Rightarrow> 'k OS \<Rightarrow> int \<times> 'k OS"
  sys_mmap_zeros :: "nat \<Rightarrow> 'k OS \<Rightarrow> bool \<times> 'k OS"
  sys_munmap :: "nat \<Rightarrow> 'k OS \<Rightarrow> 'k OS"

definition set_errno :: "int \<Rightarrow> 'k OS \<Rightarrow> 'k OS" where
  "set_errno e os = os\<lparr>os_errno := e\<rparr>"

section \<open>Memory of a process\<close>

type_synonym space = "u64 \<Rightarrow> byte option"

definition bytes_at :: "space \<Rightarrow> u64 \<Rightarrow> nat \<Rightarrow> byte list" where
  "bytes_at m a n = map (\<lambda>i. the (m (a + of_nat i))) [0..<n]"

fun put_bytes :: "space \<Rightarrow> u64 \<Rightarrow> byte list \<Rightarrow> space" where
  "put_bytes m a [] = m"
| "put_bytes m a (b # bs) = put_bytes (m(a := Some b)) (a + 1) bs"

definition within :: "(u64 \<Rightarrow> bool) \<Rightarrow> u64 \<Rightarrow> nat \<Rightarrow> bool" where
  "within P a n \<longleftrightarrow> (\<forall>i \<in> set [0..<n]. P (a + of_nat i))"

text \<open>
  What can be seen of the memory of a process: its mapped bytes, and those that
  \<open>process_vm_readv\<close> and \<open>process_vm_writev\<close> may touch (the ones mapped for reading, for
  writing; \<open>ptrace\<close> reaches all mapped bytes).
\<close>

record 'k View =
  v_mem :: "'k \<Rightarrow> pid \<Rightarrow> space"
  v_readable :: "'k \<Rightarrow> pid \<Rightarrow> u64 \<Rightarrow> bool"
  v_writable :: "'k \<Rightarrow> pid \<Rightarrow> u64 \<Rightarrow> bool"

definition v_mapped :: "'k View \<Rightarrow> 'k \<Rightarrow> pid \<Rightarrow> u64 \<Rightarrow> bool" where
  "v_mapped V k p a \<longleftrightarrow> v_mem V k p a \<noteq> None"

text \<open>\<open>k'\<close> is \<open>k\<close> but for the bytes \<open>bs\<close> at \<open>a\<close> in the memory of \<open>p\<close>.\<close>

definition wrote :: "'k View \<Rightarrow> pid \<Rightarrow> u64 \<Rightarrow> byte list \<Rightarrow> 'k \<Rightarrow> 'k \<Rightarrow> bool" where
  "wrote V p a bs k k' \<longleftrightarrow>
     v_mem V k' = (v_mem V k)(p := put_bytes (v_mem V k p) a bs) \<and>
     v_readable V k' = v_readable V k \<and> v_writable V k' = v_writable V k"

definition kernel_readv :: "'k Kernel \<Rightarrow> 'k View \<Rightarrow> bool" where
  "kernel_readv K V \<longleftrightarrow>
     (\<forall>p n a os st bs os'. n < 2 ^ 63 \<longrightarrow> sys_process_vm_readv K p n a os = (st, bs, os') \<longrightarrow>
        os_kern os' = os_kern os \<and>
        (if within (v_readable V (os_kern os) p) a n
         then st = int n \<and> bs = bytes_at (v_mem V (os_kern os) p) a n \<and> os_errno os' = os_errno os
         else st = -1 \<and> os_errno os' \<noteq> 0))"

definition kernel_writev :: "'k Kernel \<Rightarrow> 'k View \<Rightarrow> bool" where
  "kernel_writev K V \<longleftrightarrow>
     (\<forall>p iov a os st os'.
        length (concat iov) < 2 ^ 63 \<longrightarrow> sys_process_vm_writev K p iov a os = (st, os') \<longrightarrow>
        (if within (v_writable V (os_kern os) p) a (length (concat iov))
         then st = int (length (concat iov)) \<and> os_errno os' = os_errno os \<and>
              wrote V p a (concat iov) (os_kern os) (os_kern os')
         else st = -1 \<and> os_errno os' \<noteq> 0 \<and> os_kern os' = os_kern os))"

definition kernel_peekdata :: "'k Kernel \<Rightarrow> 'k View \<Rightarrow> bool" where
  "kernel_peekdata K V \<longleftrightarrow>
     (\<forall>p a os w os'. sys_ptrace_peekdata K p a os = (w, os') \<longrightarrow>
        (if within (v_mapped V (os_kern os) p) a 8
         then w = of_le (bytes_at (v_mem V (os_kern os) p) a 8) \<and> os' = os
         else w = - 1 \<and> os_errno os' \<in> {EIO, EFAULT} \<and> os_kern os' = os_kern os))"

definition kernel_pokedata :: "'k Kernel \<Rightarrow> 'k View \<Rightarrow> bool" where
  "kernel_pokedata K V \<longleftrightarrow>
     (\<forall>p a w os st os'. sys_ptrace_pokedata K p a w os = (st, os') \<longrightarrow>
        (if within (v_mapped V (os_kern os) p) a 8
         then st = 0 \<and> os_errno os' = os_errno os \<and>
              wrote V p a (le_bytes w) (os_kern os) (os_kern os')
         else st = -1 \<and> os_errno os' \<in> {EIO, EFAULT} \<and> os_kern os' = os_kern os))"

text \<open>Permissions are those of pages of (at least) 4096 bytes.\<close>

definition view_ok :: "'k View \<Rightarrow> bool" where
  "view_ok V \<longleftrightarrow>
     (\<forall>k p a. v_readable V k p a \<longrightarrow> v_mapped V k p a) \<and>
     (\<forall>k p a. v_writable V k p a \<longrightarrow> v_mapped V k p a) \<and>
     (\<forall>k p a b. drop_bit 12 a = drop_bit 12 b \<longrightarrow> v_readable V k p a = v_readable V k p b)"

definition kernel_memory :: "'k Kernel \<Rightarrow> 'k View \<Rightarrow> bool" where
  "kernel_memory K V \<longleftrightarrow>
     kernel_readv K V \<and> kernel_writev K V \<and> kernel_peekdata K V \<and> kernel_pokedata K V \<and> view_ok V"

section \<open>Bytes\<close>

lemma length_bytes_at [simp]: "length (bytes_at m a n) = n"
  by (simp add: bytes_at_def)

lemma nth_bytes_at: "i < n \<Longrightarrow> bytes_at m a n ! i = the (m (a + of_nat i))"
  by (simp add: bytes_at_def)

lemma bytes_at_0 [simp]: "bytes_at m a 0 = []"
  by (simp add: bytes_at_def)

lemma bytes_at_add: "bytes_at m a (i + j) = bytes_at m a i @ bytes_at m (a + of_nat i) j"
  by (rule nth_equalityI) (auto simp: nth_bytes_at nth_append algebra_simps of_nat_diff)

lemma take_bytes_at: "take i (bytes_at m a n) = bytes_at m a (min i n)"
  by (rule nth_equalityI) (auto simp: nth_bytes_at)

lemma all_less_add: "(\<forall>k < i + j. Q k) \<longleftrightarrow> (\<forall>k < i. Q k) \<and> (\<forall>k < j. Q (i + k))" for i j :: nat
proof (intro iffI conjI allI impI)
  fix k assume "(\<forall>k < i. Q k) \<and> (\<forall>k < j. Q (i + k))" "k < i + j"
  then show "Q k" by (cases "k < i") (auto dest: spec [where x = "k - i"])
qed auto

lemma within_iff: "within P a n \<longleftrightarrow> (\<forall>i < n. P (a + of_nat i))"
  by (auto simp: within_def)

lemma within_add: "within P a (i + j) \<longleftrightarrow> within P a i \<and> within P (a + of_nat i) j"
  using all_less_add [of i j "\<lambda>k. P (a + of_nat k)"] by (simp add: within_iff add.assoc)

lemma within_0 [simp]: "within P a 0"
  by (simp add: within_def)

lemma within_mono: "within P a n \<Longrightarrow> m \<le> n \<Longrightarrow> within P a m"
  by (auto simp: within_def)

lemma withinD: "within P a n \<Longrightarrow> i < n \<Longrightarrow> P (a + of_nat i)"
  by (auto simp: within_def)

lemma within_imp: "within P a n \<Longrightarrow> (\<And>x. P x \<Longrightarrow> Q x) \<Longrightarrow> within Q a n"
  by (auto simp: within_def)

lemma put_bytes_append:
  "put_bytes m a (xs @ ys) = put_bytes (put_bytes m a xs) (a + of_nat (length xs)) ys"
  by (induction xs arbitrary: m a) (simp_all add: algebra_simps)

lemma put_bytes_other: "(\<forall>i < length bs. x \<noteq> a + of_nat i) \<Longrightarrow> put_bytes m a bs x = m x"
proof (induction bs arbitrary: m a)
  case (Cons b bs)
  have "x \<noteq> a" using Cons.prems by force
  moreover have "\<forall>i < length bs. x \<noteq> a + 1 + of_nat i"
    using Cons.prems by (metis Suc_less_eq add.assoc length_Cons of_nat_Suc)
  ultimately show ?case using Cons.IH [of "a + 1" "m(a := Some b)"] by (simp del: fun_upd_apply) simp
qed simp

lemma put_bytes_at:
  "i < length bs \<Longrightarrow> length bs \<le> 2 ^ 64 \<Longrightarrow> put_bytes m a bs (a + of_nat i) = Some (bs ! i)"
proof (induction bs arbitrary: i m a)
  case (Cons b bs)
  show ?case
  proof (cases i)
    case 0
    have "\<forall>j < length bs. a \<noteq> a + 1 + of_nat j"
    proof (intro allI impI)
      fix j assume j: "j < length bs"
      have "(of_nat (Suc j) :: u64) \<noteq> of_nat 0"
        using j Cons.prems(2) by (subst of_nat_u64_inj) auto
      then show "a \<noteq> a + 1 + of_nat j" by (simp add: add.assoc)
    qed
    then show ?thesis using 0 by (simp add: put_bytes_other)
  next
    case (Suc j)
    then have "a + of_nat i = a + 1 + of_nat j" by simp
    moreover have "put_bytes (m(a := Some b)) (a + 1) bs (a + 1 + of_nat j) = Some (bs ! j)"
      using Cons.IH Cons.prems Suc by simp
    ultimately show ?thesis using Suc by (simp only: nth_Cons_Suc put_bytes.simps)
  qed
qed simp

lemma bytes_at_put_bytes [simp]:
  "length bs \<le> 2 ^ 64 \<Longrightarrow> bytes_at (put_bytes m a bs) a (length bs) = bs"
  by (rule nth_equalityI) (auto simp: nth_bytes_at put_bytes_at)

lemma put_bytes_mapped: "m x \<noteq> None \<Longrightarrow> put_bytes m a bs x \<noteq> None"
  by (induction bs arbitrary: m a) auto

lemma wrote_Nil: "wrote V p a [] k k"
  by (simp add: wrote_def)

lemma wrote_append:
  "wrote V p a xs k k' \<Longrightarrow> wrote V p (a + of_nat (length xs)) ys k' k'' \<Longrightarrow>
   wrote V p a (xs @ ys) k k''"
  by (simp add: wrote_def put_bytes_append)

lemma wrote_within_mapped:
  "wrote V p a bs k k' \<Longrightarrow> within (v_mapped V k q) x n \<Longrightarrow> within (v_mapped V k' q) x n"
  by (erule within_imp) (use put_bytes_mapped in \<open>fastforce simp: wrote_def v_mapped_def\<close>)

section \<open>A kernel that keeps the promises\<close>

text \<open>
  Every process has two pages: a writable one at \<open>0x5000\<close> and one at \<open>0x7000\<close> that
  \<open>process_vm_writev\<close> refuses and \<open>ptrace\<close> may overwrite.  A successful \<open>ptrace\<close> request
  does not clear \<open>errno\<close>.
\<close>

record Ram =
  ram_mem :: "pid \<Rightarrow> u64 \<Rightarrow> byte"
  ram_regs :: "pid \<Rightarrow> bank"
  ram_sysno :: "pid \<Rightarrow> u64"

definition ram_rw :: "u64 \<Rightarrow> bool" where
  "ram_rw a \<longleftrightarrow> drop_bit 12 a = 5"

definition ram_ok :: "u64 \<Rightarrow> bool" where
  "ram_ok a \<longleftrightarrow> drop_bit 12 a = 5 \<or> drop_bit 12 a = 7"

definition ram_space :: "(u64 \<Rightarrow> byte) \<Rightarrow> space" where
  "ram_space m = (\<lambda>a. if ram_ok a then Some (m a) else None)"

definition ram_view :: "Ram View" where
  "ram_view = \<lparr>v_mem = (\<lambda>k p. ram_space (ram_mem k p)),
               v_readable = (\<lambda>k p. ram_ok), v_writable = (\<lambda>k p. ram_rw)\<rparr>"

fun ram_put :: "(u64 \<Rightarrow> byte) \<Rightarrow> u64 \<Rightarrow> byte list \<Rightarrow> u64 \<Rightarrow> byte" where
  "ram_put m a [] = m"
| "ram_put m a (b # bs) = ram_put (m(a := b)) (a + 1) bs"

definition ram_store :: "pid \<Rightarrow> u64 \<Rightarrow> byte list \<Rightarrow> Ram OS \<Rightarrow> Ram OS" where
  "ram_store p a bs os =
     os\<lparr>os_kern := os_kern os\<lparr>ram_mem := (ram_mem (os_kern os))
          (p := ram_put (ram_mem (os_kern os) p) a bs)\<rparr>\<rparr>"

definition ram_kernel :: "Ram Kernel" where
  "ram_kernel =
    \<lparr>sys_process_vm_readv = (\<lambda>p n a os.
       if within ram_ok a n
       then (int n, bytes_at (ram_space (ram_mem (os_kern os) p)) a n, os)
       else (-1, [], set_errno EFAULT os)),
     sys_process_vm_writev = (\<lambda>p iov a os.
       if within ram_rw a (length (concat iov))
       then (int (length (concat iov)), ram_store p a (concat iov) os)
       else (-1, set_errno EFAULT os)),
     sys_ptrace_peekdata = (\<lambda>p a os.
       if within ram_ok a 8 then (of_le (bytes_at (ram_space (ram_mem (os_kern os) p)) a 8), os)
       else (- 1, set_errno EIO os)),
     sys_ptrace_pokedata = (\<lambda>p a w os.
       if within ram_ok a 8 then (0, ram_store p a (le_bytes w) os) else (-1, set_errno EIO os)),
     sys_ptrace_getregset = (\<lambda>p os. (0, ram_regs (os_kern os) p, os)),
     sys_ptrace_setregset = (\<lambda>p b os.
       (0, os\<lparr>os_kern := os_kern os\<lparr>ram_regs := (ram_regs (os_kern os))(p := b)\<rparr>\<rparr>)),
     sys_ptrace_set_syscall = (\<lambda>p w os.
       (0, os\<lparr>os_kern := os_kern os\<lparr>ram_sysno := (ram_sysno (os_kern os))(p := w)\<rparr>\<rparr>)),
     sys_mmap_zeros = (\<lambda>n os. if n = 0 then (False, set_errno EINVAL os) else (True, os)),
     sys_munmap = (\<lambda>n os. os)\<rparr>"

definition ram_boot :: "Ram OS" where
  "ram_boot = \<lparr>os_errno = 0,
     os_kern = \<lparr>ram_mem = (\<lambda>_ _. 0), ram_regs = (\<lambda>_ _. 0), ram_sysno = (\<lambda>_. 0)\<rparr>\<rparr>"

lemma ram_put_space:
  "within ram_ok a (length bs) \<Longrightarrow> ram_space (ram_put m a bs) = put_bytes (ram_space m) a bs"
proof (induction bs arbitrary: m a)
  case (Cons b bs)
  have "within ram_ok a (1 + length bs)" using Cons.prems by simp
  then have w: "ram_ok a" "within ram_ok (a + 1) (length bs)"
    unfolding within_add by (auto simp: within_def)
  then have "ram_space (m(a := b)) = (ram_space m)(a := Some b)"
    by (auto simp: ram_space_def fun_eq_iff)
  then show ?case using Cons.IH [OF w(2), of "m(a := b)"] by (simp del: fun_upd_apply)
qed simp

lemma ram_wrote:
  "within ram_ok a (length bs) \<Longrightarrow>
   wrote ram_view p a bs (os_kern os) (os_kern (ram_store p a bs os))"
  by (auto simp: wrote_def ram_view_def ram_store_def ram_put_space fun_eq_iff)

lemma ram_mapped: "v_mapped ram_view k p = ram_ok"
  by (auto simp: v_mapped_def ram_view_def ram_space_def fun_eq_iff)

lemma ram_rw_ok: "ram_rw a \<Longrightarrow> ram_ok a"
  by (simp add: ram_rw_def ram_ok_def)

lemma ram_within_rw: "within ram_rw a n \<Longrightarrow> within ram_ok a n"
  by (erule within_imp) (rule ram_rw_ok)

lemma ram_kernel_memory: "kernel_memory ram_kernel ram_view"
proof -
  have "kernel_readv ram_kernel ram_view"
    by (auto simp: kernel_readv_def ram_kernel_def ram_view_def set_errno_def split: if_splits)
  moreover have "kernel_writev ram_kernel ram_view"
  proof -
    have w: "v_writable ram_view k p = ram_rw" for k p by (simp add: ram_view_def)
    have "os_errno (ram_store p a bs os) = os_errno os" for p a bs os by (simp add: ram_store_def)
    then show ?thesis unfolding kernel_writev_def w
      by (auto simp: ram_kernel_def set_errno_def ram_within_rw intro!: ram_wrote split: if_splits)
  qed
  moreover have "kernel_peekdata ram_kernel ram_view"
    unfolding kernel_peekdata_def ram_mapped
    by (auto simp: ram_kernel_def set_errno_def ram_view_def split: if_splits)
  moreover have "kernel_pokedata ram_kernel ram_view"
  proof -
    have "os_errno (ram_store p a bs os) = os_errno os" for p a bs os by (simp add: ram_store_def)
    then show ?thesis unfolding kernel_pokedata_def ram_mapped
      by (auto simp: ram_kernel_def set_errno_def intro!: ram_wrote split: if_splits)
  qed
  moreover have "view_ok ram_view"
    unfolding view_ok_def ram_mapped by (auto simp: ram_view_def ram_rw_def ram_ok_def)
  ultimately show ?thesis by (simp add: kernel_memory_def)
qed

end
