(* ===== verification/Sysnum_Enum.thy ===== *)
theory Sysnum_Enum
  imports Main
begin

text \<open>
  The architecture-neutral system call numbers: the enumeration \<open>Sysnum\<close> of
  src/library/src/main/jni/syscall/sysnum.h, whose members are the lines of sysnums.list in
  order, \<open>PR_void\<close> being 0.  Each member abbreviates its position, as in C.  The
  two tables of the arm64 build (sysnums-arm64.h and sysnums-arm.h) are transcribed as their
  designated initialisers; an index without an initialiser holds \<open>PR_void\<close>.
\<close>

type_synonym Sysnum = nat

abbreviation (input) PR_void :: Sysnum where "PR_void \<equiv> 0"
abbreviation (input) PR_ARM_BASE :: Sysnum where "PR_ARM_BASE \<equiv> 1"
abbreviation (input) PR_ARM_breakpoint :: Sysnum where "PR_ARM_breakpoint \<equiv> 2"
abbreviation (input) PR_ARM_cacheflush :: Sysnum where "PR_ARM_cacheflush \<equiv> 3"
abbreviation (input) PR_ARM_set_tls :: Sysnum where "PR_ARM_set_tls \<equiv> 4"
abbreviation (input) PR_ARM_usr26 :: Sysnum where "PR_ARM_usr26 \<equiv> 5"
abbreviation (input) PR_ARM_usr32 :: Sysnum where "PR_ARM_usr32 \<equiv> 6"
abbreviation (input) PR_X32_SYSCALL_BIT :: Sysnum where "PR_X32_SYSCALL_BIT \<equiv> 7"
abbreviation (input) PR__llseek :: Sysnum where "PR__llseek \<equiv> 8"
abbreviation (input) PR__newselect :: Sysnum where "PR__newselect \<equiv> 9"
abbreviation (input) PR__sysctl :: Sysnum where "PR__sysctl \<equiv> 10"
abbreviation (input) PR_accept :: Sysnum where "PR_accept \<equiv> 11"
abbreviation (input) PR_accept4 :: Sysnum where "PR_accept4 \<equiv> 12"
abbreviation (input) PR_access :: Sysnum where "PR_access \<equiv> 13"
abbreviation (input) PR_acct :: Sysnum where "PR_acct \<equiv> 14"
abbreviation (input) PR_add_key :: Sysnum where "PR_add_key \<equiv> 15"
abbreviation (input) PR_adjtimex :: Sysnum where "PR_adjtimex \<equiv> 16"
abbreviation (input) PR_afs_syscall :: Sysnum where "PR_afs_syscall \<equiv> 17"
abbreviation (input) PR_alarm :: Sysnum where "PR_alarm \<equiv> 18"
abbreviation (input) PR_arch_prctl :: Sysnum where "PR_arch_prctl \<equiv> 19"
abbreviation (input) PR_arch_specific_syscall :: Sysnum where "PR_arch_specific_syscall \<equiv> 20"
abbreviation (input) PR_arm_fadvise64_64 :: Sysnum where "PR_arm_fadvise64_64 \<equiv> 21"
abbreviation (input) PR_arm_sync_file_range :: Sysnum where "PR_arm_sync_file_range \<equiv> 22"
abbreviation (input) PR_bdflush :: Sysnum where "PR_bdflush \<equiv> 23"
abbreviation (input) PR_bind :: Sysnum where "PR_bind \<equiv> 24"
abbreviation (input) PR_break :: Sysnum where "PR_break \<equiv> 25"
abbreviation (input) PR_brk :: Sysnum where "PR_brk \<equiv> 26"
abbreviation (input) PR_cacheflush :: Sysnum where "PR_cacheflush \<equiv> 27"
abbreviation (input) PR_capget :: Sysnum where "PR_capget \<equiv> 28"
abbreviation (input) PR_capset :: Sysnum where "PR_capset \<equiv> 29"
abbreviation (input) PR_chdir :: Sysnum where "PR_chdir \<equiv> 30"
abbreviation (input) PR_chmod :: Sysnum where "PR_chmod \<equiv> 31"
abbreviation (input) PR_chown :: Sysnum where "PR_chown \<equiv> 32"
abbreviation (input) PR_chown32 :: Sysnum where "PR_chown32 \<equiv> 33"
abbreviation (input) PR_chroot :: Sysnum where "PR_chroot \<equiv> 34"
abbreviation (input) PR_clock_adjtime :: Sysnum where "PR_clock_adjtime \<equiv> 35"
abbreviation (input) PR_clock_getres :: Sysnum where "PR_clock_getres \<equiv> 36"
abbreviation (input) PR_clock_gettime :: Sysnum where "PR_clock_gettime \<equiv> 37"
abbreviation (input) PR_clock_nanosleep :: Sysnum where "PR_clock_nanosleep \<equiv> 38"
abbreviation (input) PR_clock_settime :: Sysnum where "PR_clock_settime \<equiv> 39"
abbreviation (input) PR_clone :: Sysnum where "PR_clone \<equiv> 40"
abbreviation (input) PR_close :: Sysnum where "PR_close \<equiv> 41"
abbreviation (input) PR_connect :: Sysnum where "PR_connect \<equiv> 42"
abbreviation (input) PR_creat :: Sysnum where "PR_creat \<equiv> 43"
abbreviation (input) PR_create_module :: Sysnum where "PR_create_module \<equiv> 44"
abbreviation (input) PR_delete_module :: Sysnum where "PR_delete_module \<equiv> 45"
abbreviation (input) PR_dup :: Sysnum where "PR_dup \<equiv> 46"
abbreviation (input) PR_dup2 :: Sysnum where "PR_dup2 \<equiv> 47"
abbreviation (input) PR_dup3 :: Sysnum where "PR_dup3 \<equiv> 48"
abbreviation (input) PR_epoll_create :: Sysnum where "PR_epoll_create \<equiv> 49"
abbreviation (input) PR_epoll_create1 :: Sysnum where "PR_epoll_create1 \<equiv> 50"
abbreviation (input) PR_epoll_ctl :: Sysnum where "PR_epoll_ctl \<equiv> 51"
abbreviation (input) PR_epoll_ctl_old :: Sysnum where "PR_epoll_ctl_old \<equiv> 52"
abbreviation (input) PR_epoll_pwait :: Sysnum where "PR_epoll_pwait \<equiv> 53"
abbreviation (input) PR_epoll_wait :: Sysnum where "PR_epoll_wait \<equiv> 54"
abbreviation (input) PR_epoll_wait_old :: Sysnum where "PR_epoll_wait_old \<equiv> 55"
abbreviation (input) PR_eventfd :: Sysnum where "PR_eventfd \<equiv> 56"
abbreviation (input) PR_eventfd2 :: Sysnum where "PR_eventfd2 \<equiv> 57"
abbreviation (input) PR_execve :: Sysnum where "PR_execve \<equiv> 58"
abbreviation (input) PR_execveat :: Sysnum where "PR_execveat \<equiv> 59"
abbreviation (input) PR_exit :: Sysnum where "PR_exit \<equiv> 60"
abbreviation (input) PR_exit_group :: Sysnum where "PR_exit_group \<equiv> 61"
abbreviation (input) PR_faccessat :: Sysnum where "PR_faccessat \<equiv> 62"
abbreviation (input) PR_faccessat2 :: Sysnum where "PR_faccessat2 \<equiv> 63"
abbreviation (input) PR_fadvise64 :: Sysnum where "PR_fadvise64 \<equiv> 64"
abbreviation (input) PR_fadvise64_64 :: Sysnum where "PR_fadvise64_64 \<equiv> 65"
abbreviation (input) PR_fallocate :: Sysnum where "PR_fallocate \<equiv> 66"
abbreviation (input) PR_fanotify_init :: Sysnum where "PR_fanotify_init \<equiv> 67"
abbreviation (input) PR_fanotify_mark :: Sysnum where "PR_fanotify_mark \<equiv> 68"
abbreviation (input) PR_fchdir :: Sysnum where "PR_fchdir \<equiv> 69"
abbreviation (input) PR_fchmod :: Sysnum where "PR_fchmod \<equiv> 70"
abbreviation (input) PR_fchmodat :: Sysnum where "PR_fchmodat \<equiv> 71"
abbreviation (input) PR_fchown :: Sysnum where "PR_fchown \<equiv> 72"
abbreviation (input) PR_fchown32 :: Sysnum where "PR_fchown32 \<equiv> 73"
abbreviation (input) PR_fchownat :: Sysnum where "PR_fchownat \<equiv> 74"
abbreviation (input) PR_fcntl :: Sysnum where "PR_fcntl \<equiv> 75"
abbreviation (input) PR_fcntl64 :: Sysnum where "PR_fcntl64 \<equiv> 76"
abbreviation (input) PR_fdatasync :: Sysnum where "PR_fdatasync \<equiv> 77"
abbreviation (input) PR_fgetxattr :: Sysnum where "PR_fgetxattr \<equiv> 78"
abbreviation (input) PR_finit_module :: Sysnum where "PR_finit_module \<equiv> 79"
abbreviation (input) PR_flistxattr :: Sysnum where "PR_flistxattr \<equiv> 80"
abbreviation (input) PR_flock :: Sysnum where "PR_flock \<equiv> 81"
abbreviation (input) PR_fork :: Sysnum where "PR_fork \<equiv> 82"
abbreviation (input) PR_fremovexattr :: Sysnum where "PR_fremovexattr \<equiv> 83"
abbreviation (input) PR_fsetxattr :: Sysnum where "PR_fsetxattr \<equiv> 84"
abbreviation (input) PR_fstat :: Sysnum where "PR_fstat \<equiv> 85"
abbreviation (input) PR_fstat64 :: Sysnum where "PR_fstat64 \<equiv> 86"
abbreviation (input) PR_fstatat64 :: Sysnum where "PR_fstatat64 \<equiv> 87"
abbreviation (input) PR_fstatfs :: Sysnum where "PR_fstatfs \<equiv> 88"
abbreviation (input) PR_fstatfs64 :: Sysnum where "PR_fstatfs64 \<equiv> 89"
abbreviation (input) PR_fsync :: Sysnum where "PR_fsync \<equiv> 90"
abbreviation (input) PR_ftime :: Sysnum where "PR_ftime \<equiv> 91"
abbreviation (input) PR_ftruncate :: Sysnum where "PR_ftruncate \<equiv> 92"
abbreviation (input) PR_ftruncate64 :: Sysnum where "PR_ftruncate64 \<equiv> 93"
abbreviation (input) PR_futex :: Sysnum where "PR_futex \<equiv> 94"
abbreviation (input) PR_futimesat :: Sysnum where "PR_futimesat \<equiv> 95"
abbreviation (input) PR_get_kernel_syms :: Sysnum where "PR_get_kernel_syms \<equiv> 96"
abbreviation (input) PR_get_mempolicy :: Sysnum where "PR_get_mempolicy \<equiv> 97"
abbreviation (input) PR_get_robust_list :: Sysnum where "PR_get_robust_list \<equiv> 98"
abbreviation (input) PR_get_thread_area :: Sysnum where "PR_get_thread_area \<equiv> 99"
abbreviation (input) PR_getcpu :: Sysnum where "PR_getcpu \<equiv> 100"
abbreviation (input) PR_getcwd :: Sysnum where "PR_getcwd \<equiv> 101"
abbreviation (input) PR_getdents :: Sysnum where "PR_getdents \<equiv> 102"
abbreviation (input) PR_getdents64 :: Sysnum where "PR_getdents64 \<equiv> 103"
abbreviation (input) PR_getegid :: Sysnum where "PR_getegid \<equiv> 104"
abbreviation (input) PR_getegid32 :: Sysnum where "PR_getegid32 \<equiv> 105"
abbreviation (input) PR_geteuid :: Sysnum where "PR_geteuid \<equiv> 106"
abbreviation (input) PR_geteuid32 :: Sysnum where "PR_geteuid32 \<equiv> 107"
abbreviation (input) PR_getgid :: Sysnum where "PR_getgid \<equiv> 108"
abbreviation (input) PR_getgid32 :: Sysnum where "PR_getgid32 \<equiv> 109"
abbreviation (input) PR_getgroups :: Sysnum where "PR_getgroups \<equiv> 110"
abbreviation (input) PR_getgroups32 :: Sysnum where "PR_getgroups32 \<equiv> 111"
abbreviation (input) PR_getitimer :: Sysnum where "PR_getitimer \<equiv> 112"
abbreviation (input) PR_getpeername :: Sysnum where "PR_getpeername \<equiv> 113"
abbreviation (input) PR_getpgid :: Sysnum where "PR_getpgid \<equiv> 114"
abbreviation (input) PR_getpgrp :: Sysnum where "PR_getpgrp \<equiv> 115"
abbreviation (input) PR_getpid :: Sysnum where "PR_getpid \<equiv> 116"
abbreviation (input) PR_getpmsg :: Sysnum where "PR_getpmsg \<equiv> 117"
abbreviation (input) PR_getppid :: Sysnum where "PR_getppid \<equiv> 118"
abbreviation (input) PR_getpriority :: Sysnum where "PR_getpriority \<equiv> 119"
abbreviation (input) PR_getresgid :: Sysnum where "PR_getresgid \<equiv> 120"
abbreviation (input) PR_getresgid32 :: Sysnum where "PR_getresgid32 \<equiv> 121"
abbreviation (input) PR_getresuid :: Sysnum where "PR_getresuid \<equiv> 122"
abbreviation (input) PR_getresuid32 :: Sysnum where "PR_getresuid32 \<equiv> 123"
abbreviation (input) PR_getrlimit :: Sysnum where "PR_getrlimit \<equiv> 124"
abbreviation (input) PR_getrusage :: Sysnum where "PR_getrusage \<equiv> 125"
abbreviation (input) PR_getsid :: Sysnum where "PR_getsid \<equiv> 126"
abbreviation (input) PR_getsockname :: Sysnum where "PR_getsockname \<equiv> 127"
abbreviation (input) PR_getsockopt :: Sysnum where "PR_getsockopt \<equiv> 128"
abbreviation (input) PR_gettid :: Sysnum where "PR_gettid \<equiv> 129"
abbreviation (input) PR_gettimeofday :: Sysnum where "PR_gettimeofday \<equiv> 130"
abbreviation (input) PR_getuid :: Sysnum where "PR_getuid \<equiv> 131"
abbreviation (input) PR_getuid32 :: Sysnum where "PR_getuid32 \<equiv> 132"
abbreviation (input) PR_getxattr :: Sysnum where "PR_getxattr \<equiv> 133"
abbreviation (input) PR_gtty :: Sysnum where "PR_gtty \<equiv> 134"
abbreviation (input) PR_idle :: Sysnum where "PR_idle \<equiv> 135"
abbreviation (input) PR_init_module :: Sysnum where "PR_init_module \<equiv> 136"
abbreviation (input) PR_inotify_add_watch :: Sysnum where "PR_inotify_add_watch \<equiv> 137"
abbreviation (input) PR_inotify_init :: Sysnum where "PR_inotify_init \<equiv> 138"
abbreviation (input) PR_inotify_init1 :: Sysnum where "PR_inotify_init1 \<equiv> 139"
abbreviation (input) PR_inotify_rm_watch :: Sysnum where "PR_inotify_rm_watch \<equiv> 140"
abbreviation (input) PR_io_cancel :: Sysnum where "PR_io_cancel \<equiv> 141"
abbreviation (input) PR_io_destroy :: Sysnum where "PR_io_destroy \<equiv> 142"
abbreviation (input) PR_io_getevents :: Sysnum where "PR_io_getevents \<equiv> 143"
abbreviation (input) PR_io_setup :: Sysnum where "PR_io_setup \<equiv> 144"
abbreviation (input) PR_io_submit :: Sysnum where "PR_io_submit \<equiv> 145"
abbreviation (input) PR_ioctl :: Sysnum where "PR_ioctl \<equiv> 146"
abbreviation (input) PR_ioperm :: Sysnum where "PR_ioperm \<equiv> 147"
abbreviation (input) PR_iopl :: Sysnum where "PR_iopl \<equiv> 148"
abbreviation (input) PR_ioprio_get :: Sysnum where "PR_ioprio_get \<equiv> 149"
abbreviation (input) PR_ioprio_set :: Sysnum where "PR_ioprio_set \<equiv> 150"
abbreviation (input) PR_ipc :: Sysnum where "PR_ipc \<equiv> 151"
abbreviation (input) PR_kcmp :: Sysnum where "PR_kcmp \<equiv> 152"
abbreviation (input) PR_kexec_file_load :: Sysnum where "PR_kexec_file_load \<equiv> 153"
abbreviation (input) PR_kexec_load :: Sysnum where "PR_kexec_load \<equiv> 154"
abbreviation (input) PR_keyctl :: Sysnum where "PR_keyctl \<equiv> 155"
abbreviation (input) PR_kill :: Sysnum where "PR_kill \<equiv> 156"
abbreviation (input) PR_lchown :: Sysnum where "PR_lchown \<equiv> 157"
abbreviation (input) PR_lchown32 :: Sysnum where "PR_lchown32 \<equiv> 158"
abbreviation (input) PR_lgetxattr :: Sysnum where "PR_lgetxattr \<equiv> 159"
abbreviation (input) PR_link :: Sysnum where "PR_link \<equiv> 160"
abbreviation (input) PR_linkat :: Sysnum where "PR_linkat \<equiv> 161"
abbreviation (input) PR_listen :: Sysnum where "PR_listen \<equiv> 162"
abbreviation (input) PR_listxattr :: Sysnum where "PR_listxattr \<equiv> 163"
abbreviation (input) PR_llistxattr :: Sysnum where "PR_llistxattr \<equiv> 164"
abbreviation (input) PR_lock :: Sysnum where "PR_lock \<equiv> 165"
abbreviation (input) PR_lookup_dcookie :: Sysnum where "PR_lookup_dcookie \<equiv> 166"
abbreviation (input) PR_lremovexattr :: Sysnum where "PR_lremovexattr \<equiv> 167"
abbreviation (input) PR_lseek :: Sysnum where "PR_lseek \<equiv> 168"
abbreviation (input) PR_lsetxattr :: Sysnum where "PR_lsetxattr \<equiv> 169"
abbreviation (input) PR_lstat :: Sysnum where "PR_lstat \<equiv> 170"
abbreviation (input) PR_lstat64 :: Sysnum where "PR_lstat64 \<equiv> 171"
abbreviation (input) PR_madvise :: Sysnum where "PR_madvise \<equiv> 172"
abbreviation (input) PR_mbind :: Sysnum where "PR_mbind \<equiv> 173"
abbreviation (input) PR_migrate_pages :: Sysnum where "PR_migrate_pages \<equiv> 174"
abbreviation (input) PR_mincore :: Sysnum where "PR_mincore \<equiv> 175"
abbreviation (input) PR_mkdir :: Sysnum where "PR_mkdir \<equiv> 176"
abbreviation (input) PR_mkdirat :: Sysnum where "PR_mkdirat \<equiv> 177"
abbreviation (input) PR_mknod :: Sysnum where "PR_mknod \<equiv> 178"
abbreviation (input) PR_mknodat :: Sysnum where "PR_mknodat \<equiv> 179"
abbreviation (input) PR_mlock :: Sysnum where "PR_mlock \<equiv> 180"
abbreviation (input) PR_mlockall :: Sysnum where "PR_mlockall \<equiv> 181"
abbreviation (input) PR_mmap :: Sysnum where "PR_mmap \<equiv> 182"
abbreviation (input) PR_mmap2 :: Sysnum where "PR_mmap2 \<equiv> 183"
abbreviation (input) PR_modify_ldt :: Sysnum where "PR_modify_ldt \<equiv> 184"
abbreviation (input) PR_mount :: Sysnum where "PR_mount \<equiv> 185"
abbreviation (input) PR_move_pages :: Sysnum where "PR_move_pages \<equiv> 186"
abbreviation (input) PR_mprotect :: Sysnum where "PR_mprotect \<equiv> 187"
abbreviation (input) PR_mpx :: Sysnum where "PR_mpx \<equiv> 188"
abbreviation (input) PR_mq_getsetattr :: Sysnum where "PR_mq_getsetattr \<equiv> 189"
abbreviation (input) PR_mq_notify :: Sysnum where "PR_mq_notify \<equiv> 190"
abbreviation (input) PR_mq_open :: Sysnum where "PR_mq_open \<equiv> 191"
abbreviation (input) PR_mq_timedreceive :: Sysnum where "PR_mq_timedreceive \<equiv> 192"
abbreviation (input) PR_mq_timedsend :: Sysnum where "PR_mq_timedsend \<equiv> 193"
abbreviation (input) PR_mq_unlink :: Sysnum where "PR_mq_unlink \<equiv> 194"
abbreviation (input) PR_mremap :: Sysnum where "PR_mremap \<equiv> 195"
abbreviation (input) PR_msgctl :: Sysnum where "PR_msgctl \<equiv> 196"
abbreviation (input) PR_msgget :: Sysnum where "PR_msgget \<equiv> 197"
abbreviation (input) PR_msgrcv :: Sysnum where "PR_msgrcv \<equiv> 198"
abbreviation (input) PR_msgsnd :: Sysnum where "PR_msgsnd \<equiv> 199"
abbreviation (input) PR_msync :: Sysnum where "PR_msync \<equiv> 200"
abbreviation (input) PR_munlock :: Sysnum where "PR_munlock \<equiv> 201"
abbreviation (input) PR_munlockall :: Sysnum where "PR_munlockall \<equiv> 202"
abbreviation (input) PR_munmap :: Sysnum where "PR_munmap \<equiv> 203"
abbreviation (input) PR_name_to_handle_at :: Sysnum where "PR_name_to_handle_at \<equiv> 204"
abbreviation (input) PR_nanosleep :: Sysnum where "PR_nanosleep \<equiv> 205"
abbreviation (input) PR_newfstatat :: Sysnum where "PR_newfstatat \<equiv> 206"
abbreviation (input) PR_nfsservctl :: Sysnum where "PR_nfsservctl \<equiv> 207"
abbreviation (input) PR_nice :: Sysnum where "PR_nice \<equiv> 208"
abbreviation (input) PR_oldfstat :: Sysnum where "PR_oldfstat \<equiv> 209"
abbreviation (input) PR_oldlstat :: Sysnum where "PR_oldlstat \<equiv> 210"
abbreviation (input) PR_oldolduname :: Sysnum where "PR_oldolduname \<equiv> 211"
abbreviation (input) PR_oldstat :: Sysnum where "PR_oldstat \<equiv> 212"
abbreviation (input) PR_olduname :: Sysnum where "PR_olduname \<equiv> 213"
abbreviation (input) PR_open :: Sysnum where "PR_open \<equiv> 214"
abbreviation (input) PR_open_by_handle_at :: Sysnum where "PR_open_by_handle_at \<equiv> 215"
abbreviation (input) PR_openat :: Sysnum where "PR_openat \<equiv> 216"
abbreviation (input) PR_pause :: Sysnum where "PR_pause \<equiv> 217"
abbreviation (input) PR_pciconfig_iobase :: Sysnum where "PR_pciconfig_iobase \<equiv> 218"
abbreviation (input) PR_pciconfig_read :: Sysnum where "PR_pciconfig_read \<equiv> 219"
abbreviation (input) PR_pciconfig_write :: Sysnum where "PR_pciconfig_write \<equiv> 220"
abbreviation (input) PR_perf_event_open :: Sysnum where "PR_perf_event_open \<equiv> 221"
abbreviation (input) PR_personality :: Sysnum where "PR_personality \<equiv> 222"
abbreviation (input) PR_pipe :: Sysnum where "PR_pipe \<equiv> 223"
abbreviation (input) PR_pipe2 :: Sysnum where "PR_pipe2 \<equiv> 224"
abbreviation (input) PR_pivot_root :: Sysnum where "PR_pivot_root \<equiv> 225"
abbreviation (input) PR_poll :: Sysnum where "PR_poll \<equiv> 226"
abbreviation (input) PR_ppoll :: Sysnum where "PR_ppoll \<equiv> 227"
abbreviation (input) PR_prctl :: Sysnum where "PR_prctl \<equiv> 228"
abbreviation (input) PR_pread64 :: Sysnum where "PR_pread64 \<equiv> 229"
abbreviation (input) PR_preadv :: Sysnum where "PR_preadv \<equiv> 230"
abbreviation (input) PR_prlimit64 :: Sysnum where "PR_prlimit64 \<equiv> 231"
abbreviation (input) PR_process_vm_readv :: Sysnum where "PR_process_vm_readv \<equiv> 232"
abbreviation (input) PR_process_vm_writev :: Sysnum where "PR_process_vm_writev \<equiv> 233"
abbreviation (input) PR_prof :: Sysnum where "PR_prof \<equiv> 234"
abbreviation (input) PR_profil :: Sysnum where "PR_profil \<equiv> 235"
abbreviation (input) PR_pselect6 :: Sysnum where "PR_pselect6 \<equiv> 236"
abbreviation (input) PR_ptrace :: Sysnum where "PR_ptrace \<equiv> 237"
abbreviation (input) PR_putpmsg :: Sysnum where "PR_putpmsg \<equiv> 238"
abbreviation (input) PR_pwrite64 :: Sysnum where "PR_pwrite64 \<equiv> 239"
abbreviation (input) PR_pwritev :: Sysnum where "PR_pwritev \<equiv> 240"
abbreviation (input) PR_query_module :: Sysnum where "PR_query_module \<equiv> 241"
abbreviation (input) PR_quotactl :: Sysnum where "PR_quotactl \<equiv> 242"
abbreviation (input) PR_read :: Sysnum where "PR_read \<equiv> 243"
abbreviation (input) PR_readahead :: Sysnum where "PR_readahead \<equiv> 244"
abbreviation (input) PR_readdir :: Sysnum where "PR_readdir \<equiv> 245"
abbreviation (input) PR_readlink :: Sysnum where "PR_readlink \<equiv> 246"
abbreviation (input) PR_readlinkat :: Sysnum where "PR_readlinkat \<equiv> 247"
abbreviation (input) PR_readv :: Sysnum where "PR_readv \<equiv> 248"
abbreviation (input) PR_reboot :: Sysnum where "PR_reboot \<equiv> 249"
abbreviation (input) PR_recv :: Sysnum where "PR_recv \<equiv> 250"
abbreviation (input) PR_recvfrom :: Sysnum where "PR_recvfrom \<equiv> 251"
abbreviation (input) PR_recvmmsg :: Sysnum where "PR_recvmmsg \<equiv> 252"
abbreviation (input) PR_recvmsg :: Sysnum where "PR_recvmsg \<equiv> 253"
abbreviation (input) PR_remap_file_pages :: Sysnum where "PR_remap_file_pages \<equiv> 254"
abbreviation (input) PR_removexattr :: Sysnum where "PR_removexattr \<equiv> 255"
abbreviation (input) PR_rename :: Sysnum where "PR_rename \<equiv> 256"
abbreviation (input) PR_renameat :: Sysnum where "PR_renameat \<equiv> 257"
abbreviation (input) PR_renameat2 :: Sysnum where "PR_renameat2 \<equiv> 258"
abbreviation (input) PR_request_key :: Sysnum where "PR_request_key \<equiv> 259"
abbreviation (input) PR_restart_syscall :: Sysnum where "PR_restart_syscall \<equiv> 260"
abbreviation (input) PR_rmdir :: Sysnum where "PR_rmdir \<equiv> 261"
abbreviation (input) PR_rt_sigaction :: Sysnum where "PR_rt_sigaction \<equiv> 262"
abbreviation (input) PR_rt_sigpending :: Sysnum where "PR_rt_sigpending \<equiv> 263"
abbreviation (input) PR_rt_sigprocmask :: Sysnum where "PR_rt_sigprocmask \<equiv> 264"
abbreviation (input) PR_rt_sigqueueinfo :: Sysnum where "PR_rt_sigqueueinfo \<equiv> 265"
abbreviation (input) PR_rt_sigreturn :: Sysnum where "PR_rt_sigreturn \<equiv> 266"
abbreviation (input) PR_rt_sigsuspend :: Sysnum where "PR_rt_sigsuspend \<equiv> 267"
abbreviation (input) PR_rt_sigtimedwait :: Sysnum where "PR_rt_sigtimedwait \<equiv> 268"
abbreviation (input) PR_rt_tgsigqueueinfo :: Sysnum where "PR_rt_tgsigqueueinfo \<equiv> 269"
abbreviation (input) PR_sched_get_priority_max :: Sysnum where "PR_sched_get_priority_max \<equiv> 270"
abbreviation (input) PR_sched_get_priority_min :: Sysnum where "PR_sched_get_priority_min \<equiv> 271"
abbreviation (input) PR_sched_getaffinity :: Sysnum where "PR_sched_getaffinity \<equiv> 272"
abbreviation (input) PR_sched_getattr :: Sysnum where "PR_sched_getattr \<equiv> 273"
abbreviation (input) PR_sched_getparam :: Sysnum where "PR_sched_getparam \<equiv> 274"
abbreviation (input) PR_sched_getscheduler :: Sysnum where "PR_sched_getscheduler \<equiv> 275"
abbreviation (input) PR_sched_rr_get_interval :: Sysnum where "PR_sched_rr_get_interval \<equiv> 276"
abbreviation (input) PR_sched_setaffinity :: Sysnum where "PR_sched_setaffinity \<equiv> 277"
abbreviation (input) PR_sched_setattr :: Sysnum where "PR_sched_setattr \<equiv> 278"
abbreviation (input) PR_sched_setparam :: Sysnum where "PR_sched_setparam \<equiv> 279"
abbreviation (input) PR_sched_setscheduler :: Sysnum where "PR_sched_setscheduler \<equiv> 280"
abbreviation (input) PR_sched_yield :: Sysnum where "PR_sched_yield \<equiv> 281"
abbreviation (input) PR_security :: Sysnum where "PR_security \<equiv> 282"
abbreviation (input) PR_select :: Sysnum where "PR_select \<equiv> 283"
abbreviation (input) PR_semctl :: Sysnum where "PR_semctl \<equiv> 284"
abbreviation (input) PR_semget :: Sysnum where "PR_semget \<equiv> 285"
abbreviation (input) PR_semop :: Sysnum where "PR_semop \<equiv> 286"
abbreviation (input) PR_semtimedop :: Sysnum where "PR_semtimedop \<equiv> 287"
abbreviation (input) PR_send :: Sysnum where "PR_send \<equiv> 288"
abbreviation (input) PR_sendfile :: Sysnum where "PR_sendfile \<equiv> 289"
abbreviation (input) PR_sendfile64 :: Sysnum where "PR_sendfile64 \<equiv> 290"
abbreviation (input) PR_sendmmsg :: Sysnum where "PR_sendmmsg \<equiv> 291"
abbreviation (input) PR_sendmsg :: Sysnum where "PR_sendmsg \<equiv> 292"
abbreviation (input) PR_sendto :: Sysnum where "PR_sendto \<equiv> 293"
abbreviation (input) PR_set_mempolicy :: Sysnum where "PR_set_mempolicy \<equiv> 294"
abbreviation (input) PR_set_robust_list :: Sysnum where "PR_set_robust_list \<equiv> 295"
abbreviation (input) PR_set_thread_area :: Sysnum where "PR_set_thread_area \<equiv> 296"
abbreviation (input) PR_set_tid_address :: Sysnum where "PR_set_tid_address \<equiv> 297"
abbreviation (input) PR_setdomainname :: Sysnum where "PR_setdomainname \<equiv> 298"
abbreviation (input) PR_setfsgid :: Sysnum where "PR_setfsgid \<equiv> 299"
abbreviation (input) PR_setfsgid32 :: Sysnum where "PR_setfsgid32 \<equiv> 300"
abbreviation (input) PR_setfsuid :: Sysnum where "PR_setfsuid \<equiv> 301"
abbreviation (input) PR_setfsuid32 :: Sysnum where "PR_setfsuid32 \<equiv> 302"
abbreviation (input) PR_setgid :: Sysnum where "PR_setgid \<equiv> 303"
abbreviation (input) PR_setgid32 :: Sysnum where "PR_setgid32 \<equiv> 304"
abbreviation (input) PR_setgroups :: Sysnum where "PR_setgroups \<equiv> 305"
abbreviation (input) PR_setgroups32 :: Sysnum where "PR_setgroups32 \<equiv> 306"
abbreviation (input) PR_sethostname :: Sysnum where "PR_sethostname \<equiv> 307"
abbreviation (input) PR_setitimer :: Sysnum where "PR_setitimer \<equiv> 308"
abbreviation (input) PR_setns :: Sysnum where "PR_setns \<equiv> 309"
abbreviation (input) PR_setpgid :: Sysnum where "PR_setpgid \<equiv> 310"
abbreviation (input) PR_setpriority :: Sysnum where "PR_setpriority \<equiv> 311"
abbreviation (input) PR_setregid :: Sysnum where "PR_setregid \<equiv> 312"
abbreviation (input) PR_setregid32 :: Sysnum where "PR_setregid32 \<equiv> 313"
abbreviation (input) PR_setresgid :: Sysnum where "PR_setresgid \<equiv> 314"
abbreviation (input) PR_setresgid32 :: Sysnum where "PR_setresgid32 \<equiv> 315"
abbreviation (input) PR_setresuid :: Sysnum where "PR_setresuid \<equiv> 316"
abbreviation (input) PR_setresuid32 :: Sysnum where "PR_setresuid32 \<equiv> 317"
abbreviation (input) PR_setreuid :: Sysnum where "PR_setreuid \<equiv> 318"
abbreviation (input) PR_setreuid32 :: Sysnum where "PR_setreuid32 \<equiv> 319"
abbreviation (input) PR_setrlimit :: Sysnum where "PR_setrlimit \<equiv> 320"
abbreviation (input) PR_setsid :: Sysnum where "PR_setsid \<equiv> 321"
abbreviation (input) PR_setsockopt :: Sysnum where "PR_setsockopt \<equiv> 322"
abbreviation (input) PR_settimeofday :: Sysnum where "PR_settimeofday \<equiv> 323"
abbreviation (input) PR_setuid :: Sysnum where "PR_setuid \<equiv> 324"
abbreviation (input) PR_setuid32 :: Sysnum where "PR_setuid32 \<equiv> 325"
abbreviation (input) PR_setxattr :: Sysnum where "PR_setxattr \<equiv> 326"
abbreviation (input) PR_sgetmask :: Sysnum where "PR_sgetmask \<equiv> 327"
abbreviation (input) PR_shmat :: Sysnum where "PR_shmat \<equiv> 328"
abbreviation (input) PR_shmctl :: Sysnum where "PR_shmctl \<equiv> 329"
abbreviation (input) PR_shmdt :: Sysnum where "PR_shmdt \<equiv> 330"
abbreviation (input) PR_shmget :: Sysnum where "PR_shmget \<equiv> 331"
abbreviation (input) PR_shutdown :: Sysnum where "PR_shutdown \<equiv> 332"
abbreviation (input) PR_sigaction :: Sysnum where "PR_sigaction \<equiv> 333"
abbreviation (input) PR_sigaltstack :: Sysnum where "PR_sigaltstack \<equiv> 334"
abbreviation (input) PR_signal :: Sysnum where "PR_signal \<equiv> 335"
abbreviation (input) PR_signalfd :: Sysnum where "PR_signalfd \<equiv> 336"
abbreviation (input) PR_signalfd4 :: Sysnum where "PR_signalfd4 \<equiv> 337"
abbreviation (input) PR_sigpending :: Sysnum where "PR_sigpending \<equiv> 338"
abbreviation (input) PR_sigprocmask :: Sysnum where "PR_sigprocmask \<equiv> 339"
abbreviation (input) PR_sigreturn :: Sysnum where "PR_sigreturn \<equiv> 340"
abbreviation (input) PR_sigsuspend :: Sysnum where "PR_sigsuspend \<equiv> 341"
abbreviation (input) PR_socket :: Sysnum where "PR_socket \<equiv> 342"
abbreviation (input) PR_socketcall :: Sysnum where "PR_socketcall \<equiv> 343"
abbreviation (input) PR_socketpair :: Sysnum where "PR_socketpair \<equiv> 344"
abbreviation (input) PR_splice :: Sysnum where "PR_splice \<equiv> 345"
abbreviation (input) PR_ssetmask :: Sysnum where "PR_ssetmask \<equiv> 346"
abbreviation (input) PR_stat :: Sysnum where "PR_stat \<equiv> 347"
abbreviation (input) PR_stat64 :: Sysnum where "PR_stat64 \<equiv> 348"
abbreviation (input) PR_statfs :: Sysnum where "PR_statfs \<equiv> 349"
abbreviation (input) PR_statfs64 :: Sysnum where "PR_statfs64 \<equiv> 350"
abbreviation (input) PR_stime :: Sysnum where "PR_stime \<equiv> 351"
abbreviation (input) PR_stty :: Sysnum where "PR_stty \<equiv> 352"
abbreviation (input) PR_swapoff :: Sysnum where "PR_swapoff \<equiv> 353"
abbreviation (input) PR_swapon :: Sysnum where "PR_swapon \<equiv> 354"
abbreviation (input) PR_symlink :: Sysnum where "PR_symlink \<equiv> 355"
abbreviation (input) PR_symlinkat :: Sysnum where "PR_symlinkat \<equiv> 356"
abbreviation (input) PR_sync :: Sysnum where "PR_sync \<equiv> 357"
abbreviation (input) PR_sync_file_range :: Sysnum where "PR_sync_file_range \<equiv> 358"
abbreviation (input) PR_sync_file_range2 :: Sysnum where "PR_sync_file_range2 \<equiv> 359"
abbreviation (input) PR_syncfs :: Sysnum where "PR_syncfs \<equiv> 360"
abbreviation (input) PR_sysfs :: Sysnum where "PR_sysfs \<equiv> 361"
abbreviation (input) PR_sysinfo :: Sysnum where "PR_sysinfo \<equiv> 362"
abbreviation (input) PR_syslog :: Sysnum where "PR_syslog \<equiv> 363"
abbreviation (input) PR_tee :: Sysnum where "PR_tee \<equiv> 364"
abbreviation (input) PR_tgkill :: Sysnum where "PR_tgkill \<equiv> 365"
abbreviation (input) PR_time :: Sysnum where "PR_time \<equiv> 366"
abbreviation (input) PR_timer_create :: Sysnum where "PR_timer_create \<equiv> 367"
abbreviation (input) PR_timer_delete :: Sysnum where "PR_timer_delete \<equiv> 368"
abbreviation (input) PR_timer_getoverrun :: Sysnum where "PR_timer_getoverrun \<equiv> 369"
abbreviation (input) PR_timer_gettime :: Sysnum where "PR_timer_gettime \<equiv> 370"
abbreviation (input) PR_timer_settime :: Sysnum where "PR_timer_settime \<equiv> 371"
abbreviation (input) PR_timerfd_create :: Sysnum where "PR_timerfd_create \<equiv> 372"
abbreviation (input) PR_timerfd_gettime :: Sysnum where "PR_timerfd_gettime \<equiv> 373"
abbreviation (input) PR_timerfd_settime :: Sysnum where "PR_timerfd_settime \<equiv> 374"
abbreviation (input) PR_times :: Sysnum where "PR_times \<equiv> 375"
abbreviation (input) PR_tkill :: Sysnum where "PR_tkill \<equiv> 376"
abbreviation (input) PR_truncate :: Sysnum where "PR_truncate \<equiv> 377"
abbreviation (input) PR_truncate64 :: Sysnum where "PR_truncate64 \<equiv> 378"
abbreviation (input) PR_tuxcall :: Sysnum where "PR_tuxcall \<equiv> 379"
abbreviation (input) PR_ugetrlimit :: Sysnum where "PR_ugetrlimit \<equiv> 380"
abbreviation (input) PR_ulimit :: Sysnum where "PR_ulimit \<equiv> 381"
abbreviation (input) PR_umask :: Sysnum where "PR_umask \<equiv> 382"
abbreviation (input) PR_umount :: Sysnum where "PR_umount \<equiv> 383"
abbreviation (input) PR_umount2 :: Sysnum where "PR_umount2 \<equiv> 384"
abbreviation (input) PR_uname :: Sysnum where "PR_uname \<equiv> 385"
abbreviation (input) PR_unlink :: Sysnum where "PR_unlink \<equiv> 386"
abbreviation (input) PR_unlinkat :: Sysnum where "PR_unlinkat \<equiv> 387"
abbreviation (input) PR_unshare :: Sysnum where "PR_unshare \<equiv> 388"
abbreviation (input) PR_uselib :: Sysnum where "PR_uselib \<equiv> 389"
abbreviation (input) PR_ustat :: Sysnum where "PR_ustat \<equiv> 390"
abbreviation (input) PR_utime :: Sysnum where "PR_utime \<equiv> 391"
abbreviation (input) PR_utimensat :: Sysnum where "PR_utimensat \<equiv> 392"
abbreviation (input) PR_utimes :: Sysnum where "PR_utimes \<equiv> 393"
abbreviation (input) PR_vfork :: Sysnum where "PR_vfork \<equiv> 394"
abbreviation (input) PR_vhangup :: Sysnum where "PR_vhangup \<equiv> 395"
abbreviation (input) PR_vm86 :: Sysnum where "PR_vm86 \<equiv> 396"
abbreviation (input) PR_vm86old :: Sysnum where "PR_vm86old \<equiv> 397"
abbreviation (input) PR_vmsplice :: Sysnum where "PR_vmsplice \<equiv> 398"
abbreviation (input) PR_vserver :: Sysnum where "PR_vserver \<equiv> 399"
abbreviation (input) PR_wait4 :: Sysnum where "PR_wait4 \<equiv> 400"
abbreviation (input) PR_waitid :: Sysnum where "PR_waitid \<equiv> 401"
abbreviation (input) PR_waitpid :: Sysnum where "PR_waitpid \<equiv> 402"
abbreviation (input) PR_write :: Sysnum where "PR_write \<equiv> 403"
abbreviation (input) PR_writev :: Sysnum where "PR_writev \<equiv> 404"
abbreviation (input) PR_x32_execve :: Sysnum where "PR_x32_execve \<equiv> 405"
abbreviation (input) PR_x32_get_robust_list :: Sysnum where "PR_x32_get_robust_list \<equiv> 406"
abbreviation (input) PR_x32_ioctl :: Sysnum where "PR_x32_ioctl \<equiv> 407"
abbreviation (input) PR_x32_kexec_load :: Sysnum where "PR_x32_kexec_load \<equiv> 408"
abbreviation (input) PR_x32_move_pages :: Sysnum where "PR_x32_move_pages \<equiv> 409"
abbreviation (input) PR_x32_mq_notify :: Sysnum where "PR_x32_mq_notify \<equiv> 410"
abbreviation (input) PR_x32_preadv :: Sysnum where "PR_x32_preadv \<equiv> 411"
abbreviation (input) PR_x32_process_vm_readv :: Sysnum where "PR_x32_process_vm_readv \<equiv> 412"
abbreviation (input) PR_x32_process_vm_writev :: Sysnum where "PR_x32_process_vm_writev \<equiv> 413"
abbreviation (input) PR_x32_ptrace :: Sysnum where "PR_x32_ptrace \<equiv> 414"
abbreviation (input) PR_x32_pwritev :: Sysnum where "PR_x32_pwritev \<equiv> 415"
abbreviation (input) PR_x32_readv :: Sysnum where "PR_x32_readv \<equiv> 416"
abbreviation (input) PR_x32_recvfrom :: Sysnum where "PR_x32_recvfrom \<equiv> 417"
abbreviation (input) PR_x32_recvmmsg :: Sysnum where "PR_x32_recvmmsg \<equiv> 418"
abbreviation (input) PR_x32_recvmsg :: Sysnum where "PR_x32_recvmsg \<equiv> 419"
abbreviation (input) PR_x32_rt_sigaction :: Sysnum where "PR_x32_rt_sigaction \<equiv> 420"
abbreviation (input) PR_x32_rt_sigpending :: Sysnum where "PR_x32_rt_sigpending \<equiv> 421"
abbreviation (input) PR_x32_rt_sigqueueinfo :: Sysnum where "PR_x32_rt_sigqueueinfo \<equiv> 422"
abbreviation (input) PR_x32_rt_sigreturn :: Sysnum where "PR_x32_rt_sigreturn \<equiv> 423"
abbreviation (input) PR_x32_rt_sigtimedwait :: Sysnum where "PR_x32_rt_sigtimedwait \<equiv> 424"
abbreviation (input) PR_x32_rt_tgsigqueueinfo :: Sysnum where "PR_x32_rt_tgsigqueueinfo \<equiv> 425"
abbreviation (input) PR_x32_sendmmsg :: Sysnum where "PR_x32_sendmmsg \<equiv> 426"
abbreviation (input) PR_x32_sendmsg :: Sysnum where "PR_x32_sendmsg \<equiv> 427"
abbreviation (input) PR_x32_set_robust_list :: Sysnum where "PR_x32_set_robust_list \<equiv> 428"
abbreviation (input) PR_x32_sigaltstack :: Sysnum where "PR_x32_sigaltstack \<equiv> 429"
abbreviation (input) PR_x32_timer_create :: Sysnum where "PR_x32_timer_create \<equiv> 430"
abbreviation (input) PR_x32_vmsplice :: Sysnum where "PR_x32_vmsplice \<equiv> 431"
abbreviation (input) PR_x32_waitid :: Sysnum where "PR_x32_waitid \<equiv> 432"
abbreviation (input) PR_x32_writev :: Sysnum where "PR_x32_writev \<equiv> 433"
abbreviation (input) PR_statx :: Sysnum where "PR_statx \<equiv> 434"
abbreviation (input) PR_utimensat_time64 :: Sysnum where "PR_utimensat_time64 \<equiv> 435"
abbreviation (input) PR_NB_SYSNUM :: Sysnum where "PR_NB_SYSNUM \<equiv> 436"

definition sysnums_arm64 :: "(nat \<times> Sysnum) list" where
  "sysnums_arm64 = [
    (0, PR_io_setup), (1, PR_io_destroy), (2, PR_io_submit), (3, PR_io_cancel),
    (4, PR_io_getevents), (5, PR_setxattr), (6, PR_lsetxattr), (7, PR_fsetxattr),
    (8, PR_getxattr), (9, PR_lgetxattr), (10, PR_fgetxattr), (11, PR_listxattr),
    (12, PR_llistxattr), (13, PR_flistxattr), (14, PR_removexattr), (15, PR_lremovexattr),
    (16, PR_fremovexattr), (17, PR_getcwd), (18, PR_lookup_dcookie), (19, PR_eventfd2),
    (20, PR_epoll_create1), (21, PR_epoll_ctl), (22, PR_epoll_pwait), (23, PR_dup),
    (24, PR_dup3), (25, PR_fcntl), (26, PR_inotify_init1), (27, PR_inotify_add_watch),
    (28, PR_inotify_rm_watch), (29, PR_ioctl), (30, PR_ioprio_set), (31, PR_ioprio_get),
    (32, PR_flock), (33, PR_mknodat), (34, PR_mkdirat), (35, PR_unlinkat), (36, PR_symlinkat),
    (37, PR_linkat), (38, PR_renameat), (39, PR_umount2), (40, PR_mount), (41, PR_pivot_root),
    (42, PR_nfsservctl), (43, PR_statfs), (44, PR_fstatfs), (45, PR_truncate),
    (46, PR_ftruncate), (47, PR_fallocate), (48, PR_faccessat), (49, PR_chdir), (50, PR_fchdir),
    (51, PR_chroot), (52, PR_fchmod), (53, PR_fchmodat), (54, PR_fchownat), (55, PR_fchown),
    (56, PR_openat), (57, PR_close), (58, PR_vhangup), (59, PR_pipe2), (60, PR_quotactl),
    (61, PR_getdents64), (62, PR_lseek), (63, PR_read), (64, PR_write), (65, PR_readv),
    (66, PR_writev), (67, PR_pread64), (68, PR_pwrite64), (69, PR_preadv), (70, PR_pwritev),
    (71, PR_sendfile), (72, PR_pselect6), (73, PR_ppoll), (74, PR_signalfd4), (75, PR_vmsplice),
    (76, PR_splice), (77, PR_tee), (78, PR_readlinkat), (79, PR_fstatat64), (80, PR_fstat),
    (81, PR_sync), (82, PR_fsync), (83, PR_fdatasync), (84, PR_sync_file_range),
    (85, PR_timerfd_create), (86, PR_timerfd_settime), (87, PR_timerfd_gettime),
    (88, PR_utimensat), (89, PR_acct), (90, PR_capget), (91, PR_capset), (92, PR_personality),
    (93, PR_exit), (94, PR_exit_group), (95, PR_waitid), (96, PR_set_tid_address),
    (97, PR_unshare), (98, PR_futex), (99, PR_set_robust_list), (100, PR_get_robust_list),
    (101, PR_nanosleep), (102, PR_getitimer), (103, PR_setitimer), (104, PR_kexec_load),
    (105, PR_init_module), (106, PR_delete_module), (107, PR_timer_create),
    (108, PR_timer_gettime), (109, PR_timer_getoverrun), (110, PR_timer_settime),
    (111, PR_timer_delete), (112, PR_clock_settime), (113, PR_clock_gettime),
    (114, PR_clock_getres), (115, PR_clock_nanosleep), (116, PR_syslog), (117, PR_ptrace),
    (118, PR_sched_setparam), (119, PR_sched_setscheduler), (120, PR_sched_getscheduler),
    (121, PR_sched_getparam), (122, PR_sched_setaffinity), (123, PR_sched_getaffinity),
    (124, PR_sched_yield), (125, PR_sched_get_priority_max), (126, PR_sched_get_priority_min),
    (127, PR_sched_rr_get_interval), (128, PR_restart_syscall), (129, PR_kill), (130, PR_tkill),
    (131, PR_tgkill), (132, PR_sigaltstack), (133, PR_rt_sigsuspend), (134, PR_rt_sigaction),
    (135, PR_rt_sigprocmask), (136, PR_rt_sigpending), (137, PR_rt_sigtimedwait),
    (138, PR_rt_sigqueueinfo), (139, PR_rt_sigreturn), (140, PR_setpriority),
    (141, PR_getpriority), (142, PR_reboot), (143, PR_setregid), (144, PR_setgid),
    (145, PR_setreuid), (146, PR_setuid), (147, PR_setresuid), (148, PR_getresuid),
    (149, PR_setresgid), (150, PR_getresgid), (151, PR_setfsuid), (152, PR_setfsgid),
    (153, PR_times), (154, PR_setpgid), (155, PR_getpgid), (156, PR_getsid), (157, PR_setsid),
    (158, PR_getgroups), (159, PR_setgroups), (160, PR_uname), (161, PR_sethostname),
    (162, PR_setdomainname), (163, PR_getrlimit), (164, PR_setrlimit), (165, PR_getrusage),
    (166, PR_umask), (167, PR_prctl), (168, PR_getcpu), (169, PR_gettimeofday),
    (170, PR_settimeofday), (171, PR_adjtimex), (172, PR_getpid), (173, PR_getppid),
    (174, PR_getuid), (175, PR_geteuid), (176, PR_getgid), (177, PR_getegid), (178, PR_gettid),
    (179, PR_sysinfo), (180, PR_mq_open), (181, PR_mq_unlink), (182, PR_mq_timedsend),
    (183, PR_mq_timedreceive), (184, PR_mq_notify), (185, PR_mq_getsetattr), (186, PR_msgget),
    (187, PR_msgctl), (188, PR_msgrcv), (189, PR_msgsnd), (190, PR_semget), (191, PR_semctl),
    (192, PR_semtimedop), (193, PR_semop), (194, PR_shmget), (195, PR_shmctl), (196, PR_shmat),
    (197, PR_shmdt), (198, PR_socket), (199, PR_socketpair), (200, PR_bind), (201, PR_listen),
    (202, PR_accept), (203, PR_connect), (204, PR_getsockname), (205, PR_getpeername),
    (206, PR_sendto), (207, PR_recvfrom), (208, PR_setsockopt), (209, PR_getsockopt),
    (210, PR_shutdown), (211, PR_sendmsg), (212, PR_recvmsg), (213, PR_readahead),
    (214, PR_brk), (215, PR_munmap), (216, PR_mremap), (217, PR_add_key), (218, PR_request_key),
    (219, PR_keyctl), (220, PR_clone), (221, PR_execve), (222, PR_mmap), (223, PR_fadvise64),
    (224, PR_swapon), (225, PR_swapoff), (226, PR_mprotect), (227, PR_msync), (228, PR_mlock),
    (229, PR_munlock), (230, PR_mlockall), (231, PR_munlockall), (232, PR_mincore),
    (233, PR_madvise), (234, PR_remap_file_pages), (235, PR_mbind), (236, PR_get_mempolicy),
    (237, PR_set_mempolicy), (238, PR_migrate_pages), (239, PR_move_pages),
    (240, PR_rt_tgsigqueueinfo), (241, PR_perf_event_open), (242, PR_accept4),
    (243, PR_recvmmsg), (244, PR_arch_specific_syscall), (260, PR_wait4), (261, PR_prlimit64),
    (262, PR_fanotify_init), (263, PR_fanotify_mark), (264, PR_name_to_handle_at),
    (265, PR_open_by_handle_at), (266, PR_clock_adjtime), (267, PR_syncfs), (268, PR_setns),
    (269, PR_sendmmsg), (270, PR_process_vm_readv), (271, PR_process_vm_writev), (272, PR_kcmp),
    (273, PR_finit_module), (274, PR_sched_setattr), (275, PR_sched_getattr),
    (276, PR_renameat2), (291, PR_statx)]"

definition sysnums_arm :: "(nat \<times> Sysnum) list" where
  "sysnums_arm = [
    (0, PR_restart_syscall), (1, PR_exit), (2, PR_fork), (3, PR_read), (4, PR_write),
    (5, PR_open), (6, PR_close), (8, PR_creat), (9, PR_link), (10, PR_unlink), (11, PR_execve),
    (12, PR_chdir), (14, PR_mknod), (15, PR_chmod), (16, PR_lchown), (19, PR_lseek),
    (20, PR_getpid), (21, PR_mount), (23, PR_setuid), (24, PR_getuid), (26, PR_ptrace),
    (29, PR_pause), (33, PR_access), (34, PR_nice), (36, PR_sync), (37, PR_kill),
    (38, PR_rename), (39, PR_mkdir), (40, PR_rmdir), (41, PR_dup), (42, PR_pipe),
    (43, PR_times), (45, PR_brk), (46, PR_setgid), (47, PR_getgid), (49, PR_geteuid),
    (50, PR_getegid), (51, PR_acct), (52, PR_umount2), (54, PR_ioctl), (55, PR_fcntl),
    (57, PR_setpgid), (60, PR_umask), (61, PR_chroot), (62, PR_ustat), (63, PR_dup2),
    (64, PR_getppid), (65, PR_getpgrp), (66, PR_setsid), (67, PR_sigaction), (70, PR_setreuid),
    (71, PR_setregid), (72, PR_sigsuspend), (73, PR_sigpending), (74, PR_sethostname),
    (75, PR_setrlimit), (77, PR_getrusage), (78, PR_gettimeofday), (79, PR_settimeofday),
    (80, PR_getgroups), (81, PR_setgroups), (83, PR_symlink), (85, PR_readlink),
    (86, PR_uselib), (87, PR_swapon), (88, PR_reboot), (91, PR_munmap), (92, PR_truncate),
    (93, PR_ftruncate), (94, PR_fchmod), (95, PR_fchown), (96, PR_getpriority),
    (97, PR_setpriority), (99, PR_statfs), (100, PR_fstatfs), (103, PR_syslog),
    (104, PR_setitimer), (105, PR_getitimer), (106, PR_stat), (107, PR_lstat), (108, PR_fstat),
    (111, PR_vhangup), (114, PR_wait4), (115, PR_swapoff), (116, PR_sysinfo), (118, PR_fsync),
    (119, PR_sigreturn), (120, PR_clone), (121, PR_setdomainname), (122, PR_uname),
    (124, PR_adjtimex), (125, PR_mprotect), (126, PR_sigprocmask), (128, PR_init_module),
    (129, PR_delete_module), (131, PR_quotactl), (132, PR_getpgid), (133, PR_fchdir),
    (134, PR_bdflush), (135, PR_sysfs), (136, PR_personality), (138, PR_setfsuid),
    (139, PR_setfsgid), (140, PR__llseek), (141, PR_getdents), (142, PR__newselect),
    (143, PR_flock), (144, PR_msync), (145, PR_readv), (146, PR_writev), (147, PR_getsid),
    (148, PR_fdatasync), (149, PR__sysctl), (150, PR_mlock), (151, PR_munlock),
    (152, PR_mlockall), (153, PR_munlockall), (154, PR_sched_setparam),
    (155, PR_sched_getparam), (156, PR_sched_setscheduler), (157, PR_sched_getscheduler),
    (158, PR_sched_yield), (159, PR_sched_get_priority_max), (160, PR_sched_get_priority_min),
    (161, PR_sched_rr_get_interval), (162, PR_nanosleep), (163, PR_mremap), (164, PR_setresuid),
    (165, PR_getresuid), (168, PR_poll), (169, PR_nfsservctl), (170, PR_setresgid),
    (171, PR_getresgid), (172, PR_prctl), (173, PR_rt_sigreturn), (174, PR_rt_sigaction),
    (175, PR_rt_sigprocmask), (176, PR_rt_sigpending), (177, PR_rt_sigtimedwait),
    (178, PR_rt_sigqueueinfo), (179, PR_rt_sigsuspend), (180, PR_pread64), (181, PR_pwrite64),
    (182, PR_chown), (183, PR_getcwd), (184, PR_capget), (185, PR_capset),
    (186, PR_sigaltstack), (187, PR_sendfile), (190, PR_vfork), (191, PR_ugetrlimit),
    (192, PR_mmap2), (193, PR_truncate64), (194, PR_ftruncate64), (195, PR_stat64),
    (196, PR_lstat64), (197, PR_fstat64), (198, PR_lchown32), (199, PR_getuid32),
    (200, PR_getgid32), (201, PR_geteuid32), (202, PR_getegid32), (203, PR_setreuid32),
    (204, PR_setregid32), (205, PR_getgroups32), (206, PR_setgroups32), (207, PR_fchown32),
    (208, PR_setresuid32), (209, PR_getresuid32), (210, PR_setresgid32), (211, PR_getresgid32),
    (212, PR_chown32), (213, PR_setuid32), (214, PR_setgid32), (215, PR_setfsuid32),
    (216, PR_setfsgid32), (217, PR_getdents64), (218, PR_pivot_root), (219, PR_mincore),
    (220, PR_madvise), (221, PR_fcntl64), (224, PR_gettid), (225, PR_readahead),
    (226, PR_setxattr), (227, PR_lsetxattr), (228, PR_fsetxattr), (229, PR_getxattr),
    (230, PR_lgetxattr), (231, PR_fgetxattr), (232, PR_listxattr), (233, PR_llistxattr),
    (234, PR_flistxattr), (235, PR_removexattr), (236, PR_lremovexattr), (237, PR_fremovexattr),
    (238, PR_tkill), (239, PR_sendfile64), (240, PR_futex), (241, PR_sched_setaffinity),
    (242, PR_sched_getaffinity), (243, PR_io_setup), (244, PR_io_destroy),
    (245, PR_io_getevents), (246, PR_io_submit), (247, PR_io_cancel), (248, PR_exit_group),
    (249, PR_lookup_dcookie), (250, PR_epoll_create), (251, PR_epoll_ctl), (252, PR_epoll_wait),
    (253, PR_remap_file_pages), (256, PR_set_tid_address), (257, PR_timer_create),
    (258, PR_timer_settime), (259, PR_timer_gettime), (260, PR_timer_getoverrun),
    (261, PR_timer_delete), (262, PR_clock_settime), (263, PR_clock_gettime),
    (264, PR_clock_getres), (265, PR_clock_nanosleep), (266, PR_statfs64), (267, PR_fstatfs64),
    (268, PR_tgkill), (269, PR_utimes), (270, PR_arm_fadvise64_64), (271, PR_pciconfig_iobase),
    (272, PR_pciconfig_read), (273, PR_pciconfig_write), (274, PR_mq_open), (275, PR_mq_unlink),
    (276, PR_mq_timedsend), (277, PR_mq_timedreceive), (278, PR_mq_notify),
    (279, PR_mq_getsetattr), (280, PR_waitid), (281, PR_socket), (282, PR_bind),
    (283, PR_connect), (284, PR_listen), (285, PR_accept), (286, PR_getsockname),
    (287, PR_getpeername), (288, PR_socketpair), (289, PR_send), (290, PR_sendto),
    (291, PR_recv), (292, PR_recvfrom), (293, PR_shutdown), (294, PR_setsockopt),
    (295, PR_getsockopt), (296, PR_sendmsg), (297, PR_recvmsg), (298, PR_semop),
    (299, PR_semget), (300, PR_semctl), (301, PR_msgsnd), (302, PR_msgrcv), (303, PR_msgget),
    (304, PR_msgctl), (305, PR_shmat), (306, PR_shmdt), (307, PR_shmget), (308, PR_shmctl),
    (309, PR_add_key), (310, PR_request_key), (311, PR_keyctl), (312, PR_semtimedop),
    (313, PR_vserver), (314, PR_ioprio_set), (315, PR_ioprio_get), (316, PR_inotify_init),
    (317, PR_inotify_add_watch), (318, PR_inotify_rm_watch), (319, PR_mbind),
    (320, PR_get_mempolicy), (321, PR_set_mempolicy), (322, PR_openat), (323, PR_mkdirat),
    (324, PR_mknodat), (325, PR_fchownat), (326, PR_futimesat), (327, PR_fstatat64),
    (328, PR_unlinkat), (329, PR_renameat), (330, PR_linkat), (331, PR_symlinkat),
    (332, PR_readlinkat), (333, PR_fchmodat), (334, PR_faccessat), (335, PR_pselect6),
    (336, PR_ppoll), (337, PR_unshare), (338, PR_set_robust_list), (339, PR_get_robust_list),
    (340, PR_splice), (341, PR_arm_sync_file_range), (342, PR_tee), (343, PR_vmsplice),
    (344, PR_move_pages), (345, PR_getcpu), (346, PR_epoll_pwait), (347, PR_kexec_load),
    (348, PR_utimensat), (349, PR_signalfd), (350, PR_timerfd_create), (351, PR_eventfd),
    (352, PR_fallocate), (353, PR_timerfd_settime), (354, PR_timerfd_gettime),
    (355, PR_signalfd4), (356, PR_eventfd2), (357, PR_epoll_create1), (358, PR_dup3),
    (359, PR_pipe2), (360, PR_inotify_init1), (361, PR_preadv), (362, PR_pwritev),
    (363, PR_rt_tgsigqueueinfo), (364, PR_perf_event_open), (365, PR_recvmmsg),
    (366, PR_accept4), (367, PR_fanotify_init), (368, PR_fanotify_mark), (369, PR_prlimit64),
    (370, PR_name_to_handle_at), (371, PR_open_by_handle_at), (372, PR_clock_adjtime),
    (373, PR_syncfs), (374, PR_sendmmsg), (375, PR_setns), (376, PR_process_vm_readv),
    (377, PR_process_vm_writev), (378, PR_kcmp), (379, PR_finit_module),
    (380, PR_sched_setattr), (381, PR_sched_getattr), (382, PR_renameat2), (397, PR_statx),
    (412, PR_utimensat_time64)]"

end
