(* ===== verification/Sysnum.thy ===== *)
theory Sysnum
  imports Prelude Sysnum_Enum
begin

text \<open>
  System call numbers (src/library/src/main/jni/syscall/sysnum.c, tracee/abi.h): the tables
  of the two arm64 ABIs, and the translation between the number a tracee passes in its
  syscall register and the architecture-neutral \<open>Sysnum\<close>, in both directions.
\<close>

section \<open>Definitions\<close>

datatype Abi = ABI_DEFAULT | ABI_2 | ABI_3

text \<open>\<open>SYSCALL_AVOIDER\<close> is \<open>(word_t) -1\<close>.\<close>

abbreviation SYSCALL_AVOIDER :: u64 where "SYSCALL_AVOIDER \<equiv> - 1"

record Sysnums =
  sn_table :: "Sysnum list"
  sn_offset :: u64
  sn_length :: u64

text \<open>A C array given by designated initialisers: as long as the largest index needs, zero
  (\<open>PR_void\<close>) where nothing is designated.\<close>

definition table_of :: "(nat \<times> Sysnum) list \<Rightarrow> Sysnum list" where
  "table_of init =
     map (\<lambda>i. case map_of init i of None \<Rightarrow> PR_void | Some s \<Rightarrow> s)
       [0..<Suc (foldr max (map fst init) 0)]"

text \<open>\<open>get_sysnums\<close>; the third ABI has no table on arm64 and ends in \<open>assert(0)\<close>.\<close>

definition get_sysnums :: "Abi \<Rightarrow> Sysnums option" where
  "get_sysnums abi =
     (case abi of
        ABI_DEFAULT \<Rightarrow>
          (let t = table_of sysnums_arm64
           in Some \<lparr>sn_table = t, sn_offset = 0, sn_length = of_nat (length t)\<rparr>)
      | ABI_2 \<Rightarrow>
          (let t = table_of sysnums_arm
           in Some \<lparr>sn_table = t, sn_offset = 0, sn_length = of_nat (length t)\<rparr>)
      | ABI_3 \<Rightarrow> None)"

text \<open>Reading a C array: out of its bounds the behaviour is undefined.\<close>

definition table_read :: "Sysnum list \<Rightarrow> u64 \<Rightarrow> Sysnum option" where
  "table_read t i = (if unat i < length t then Some (t ! unat i) else None)"

definition translate_sysnum :: "Abi \<Rightarrow> u64 \<Rightarrow> Sysnum option" where
  "translate_sysnum abi sysnum =
     (case get_sysnums abi of
        None \<Rightarrow> None
      | Some sysnums \<Rightarrow>
          if sysnum < sn_offset sysnums then Some PR_void
          else let index = sysnum - sn_offset sysnums in
            if index > sn_length sysnums then Some PR_void
            else table_read (sn_table sysnums) index)"

fun detranslate_from :: "Sysnum list \<Rightarrow> nat \<Rightarrow> Sysnum \<Rightarrow> nat option" where
  "detranslate_from [] i sysnum = None"
| "detranslate_from (t # ts) i sysnum =
     (if t \<noteq> sysnum then detranslate_from ts (Suc i) sysnum else Some i)"

definition detranslate_sysnum :: "Abi \<Rightarrow> Sysnum \<Rightarrow> u64 option" where
  "detranslate_sysnum abi sysnum =
     (if sysnum = PR_void then Some SYSCALL_AVOIDER
      else case get_sysnums abi of
        None \<Rightarrow> None
      | Some sysnums \<Rightarrow>
          (case detranslate_from (sn_table sysnums) 0 sysnum of
             None \<Rightarrow> Some SYSCALL_AVOIDER
           | Some i \<Rightarrow> Some (of_nat i + sn_offset sysnums)))"

section \<open>Tables\<close>

lemma length_table_of: "length (table_of init) = Suc (foldr max (map fst init) 0)"
  by (simp add: table_of_def)

lemma foldr_max_ge: "x \<in> set xs \<Longrightarrow> x \<le> foldr max xs (0::nat)"
  by (induction xs) auto

lemma nth_table_of:
  "i < length (table_of init) \<Longrightarrow>
   table_of init ! i = (case map_of init i of None \<Rightarrow> PR_void | Some s \<Rightarrow> s)"
  by (simp add: table_of_def del: upt_Suc)

lemma nth_table_of_iff:
  assumes "distinct (map fst init)" "s \<noteq> PR_void"
  shows "i < length (table_of init) \<and> table_of init ! i = s \<longleftrightarrow> (i, s) \<in> set init"
proof
  assume "i < length (table_of init) \<and> table_of init ! i = s"
  then show "(i, s) \<in> set init"
    using assms by (auto simp: nth_table_of dest: map_of_SomeD split: option.splits)
next
  assume i: "(i, s) \<in> set init"
  then have "i \<le> foldr max (map fst init) 0" by (intro foldr_max_ge) force
  then have "i < length (table_of init)" by (simp add: length_table_of)
  then show "i < length (table_of init) \<and> table_of init ! i = s"
    using i assms by (simp add: nth_table_of map_of_eq_Some_iff)
qed

lemma arm64_indices: "distinct (map fst sysnums_arm64)"
  by (simp add: sysnums_arm64_def)

lemma arm64_numbers: "distinct (map snd sysnums_arm64)"
  by (simp add: sysnums_arm64_def)

lemma arm_indices: "distinct (map fst sysnums_arm)"
  by (simp add: sysnums_arm_def)

lemma arm_numbers: "distinct (map snd sysnums_arm)"
  by (simp add: sysnums_arm_def)

lemma arm64_length: "length (table_of sysnums_arm64) = 292"
  by (simp add: length_table_of sysnums_arm64_def)

lemma arm_length: "length (table_of sysnums_arm) = 413"
  by (simp add: length_table_of sysnums_arm_def)

text \<open>No two positions of a table hold the same system call.\<close>

lemma table_of_inj:
  assumes "distinct (map fst init)" "distinct (map snd init)"
    "i < length (table_of init)" "j < length (table_of init)"
    "table_of init ! i = table_of init ! j" "table_of init ! i \<noteq> PR_void"
  shows "i = j"
proof -
  have "(i, table_of init ! i) \<in> set init" "(j, table_of init ! i) \<in> set init"
    using assms nth_table_of_iff by metis+
  then show ?thesis
    using assms(2) by (metis distinct_map inj_onD prod.sel(2) prod.inject)
qed

section \<open>Search\<close>

lemma detranslate_from_SomeD:
  "detranslate_from ts i s = Some n \<Longrightarrow> i \<le> n \<and> n - i < length ts \<and> ts ! (n - i) = s"
  by (induction ts arbitrary: i) (force simp: nth_Cons' Suc_diff_le split: if_splits)+

lemma detranslate_from_None: "detranslate_from ts i s = None \<longleftrightarrow> s \<notin> set ts"
  by (induction ts arbitrary: i) auto

definition table_abi :: "Abi \<Rightarrow> Sysnum list" where
  "table_abi abi = (case abi of ABI_DEFAULT \<Rightarrow> table_of sysnums_arm64
                     | ABI_2 \<Rightarrow> table_of sysnums_arm | ABI_3 \<Rightarrow> [])"

lemma get_sysnums_Some:
  "abi \<noteq> ABI_3 \<Longrightarrow> get_sysnums abi =
     Some \<lparr>sn_table = table_abi abi, sn_offset = 0, sn_length = of_nat (length (table_abi abi))\<rparr>"
  by (cases abi) (simp_all add: get_sysnums_def table_abi_def Let_def)

lemma table_abi_small: "length (table_abi abi) < 2 ^ 16"
  by (cases abi) (simp_all add: table_abi_def arm64_length arm_length)

lemma table_abi_inj:
  "i < length (table_abi abi) \<Longrightarrow> j < length (table_abi abi) \<Longrightarrow>
   table_abi abi ! i = table_abi abi ! j \<Longrightarrow> table_abi abi ! i \<noteq> PR_void \<Longrightarrow> i = j"
  by (cases abi)
    (auto simp: table_abi_def
      intro: table_of_inj [OF arm64_indices arm64_numbers] table_of_inj [OF arm_indices arm_numbers])

lemma translate_sysnum_alt:
  assumes "abi \<noteq> ABI_3"
  shows "translate_sysnum abi n =
    (if unat n < length (table_abi abi) then Some (table_abi abi ! unat n)
     else if unat n = length (table_abi abi) then None else Some PR_void)"
proof -
  have "unat (of_nat (length (table_abi abi)) :: u64) = length (table_abi abi)"
    using table_abi_small [of abi] by (intro unat_of_nat_u64) simp
  then show ?thesis
    using assms
    by (auto simp: translate_sysnum_def get_sysnums_Some table_read_def Let_def word_less_nat_alt)
qed

lemma detranslate_sysnum_alt:
  assumes "abi \<noteq> ABI_3" "s \<noteq> PR_void"
  shows "detranslate_sysnum abi s =
    Some (case detranslate_from (table_abi abi) 0 s of None \<Rightarrow> SYSCALL_AVOIDER | Some i \<Rightarrow> of_nat i)"
  using assms by (auto simp: detranslate_sysnum_def get_sysnums_Some split: option.splits)

section \<open>Round trips\<close>

lemma detranslate_translate_inv:
  assumes "abi \<noteq> ABI_3" "translate_sysnum abi n = Some s" "s \<noteq> PR_void"
  shows "detranslate_sysnum abi s = Some n"
proof -
  have n: "unat n < length (table_abi abi)" "table_abi abi ! unat n = s"
    using assms by (auto simp: translate_sysnum_alt split: if_splits)
  then have "detranslate_from (table_abi abi) 0 s \<noteq> None"
    by (auto simp: detranslate_from_None)
  then obtain m where m: "detranslate_from (table_abi abi) 0 s = Some m" by auto
  then have "m < length (table_abi abi)" "table_abi abi ! m = s"
    by (auto dest: detranslate_from_SomeD)
  with n assms(3) have "m = unat n" by (intro table_abi_inj [of m abi]) auto
  with m show ?thesis using assms by (simp add: detranslate_sysnum_alt)
qed

lemma detranslate_not_void:
  "detranslate_sysnum abi s = Some n \<Longrightarrow> n \<noteq> SYSCALL_AVOIDER \<Longrightarrow> s \<noteq> PR_void"
  by (rule notI) (simp add: detranslate_sysnum_def)

lemma translate_detranslate_inv:
  assumes "abi \<noteq> ABI_3" "detranslate_sysnum abi s = Some n" "n \<noteq> SYSCALL_AVOIDER"
  shows "translate_sysnum abi n = Some s"
proof -
  have s: "s \<noteq> PR_void" using assms(2,3) by (rule detranslate_not_void)
  then obtain m where m: "detranslate_from (table_abi abi) 0 s = Some m" and n: "n = of_nat m"
    using assms by (auto simp: detranslate_sysnum_alt split: option.splits)
  then have t: "m < length (table_abi abi)" "table_abi abi ! m = s"
    by (auto dest: detranslate_from_SomeD)
  then have "unat n = m"
    using n table_abi_small [of abi] by (simp add: unat_of_nat_u64)
  with t show ?thesis using assms(1) by (simp add: translate_sysnum_alt)
qed

lemma detranslate_small:
  assumes "abi \<noteq> ABI_3" "detranslate_sysnum abi s = Some n" "n \<noteq> SYSCALL_AVOIDER"
  shows "unat n < 2 ^ 16"
  using translate_detranslate_inv [OF assms] assms(1) table_abi_small [of abi]
proof (cases "s = PR_void")
  case True
  then show ?thesis using assms by (simp add: detranslate_sysnum_def)
next
  case False
  then obtain m where m: "detranslate_from (table_abi abi) 0 s = Some m" and n: "n = of_nat m"
    using assms by (auto simp: detranslate_sysnum_alt split: option.splits)
  then have "m < 2 ^ 16"
    using table_abi_small [of abi] by (auto dest!: detranslate_from_SomeD)
  then show ?thesis using n by (simp add: unat_of_nat_u64)
qed

section \<open>Properties\<close>

text \<open>C8: the two directions of the translation are inverse to each other on both arm64 ABIs:
  a number the table knows comes back from its neutral value, and a neutral value the ABI
  offers comes back from its number; every other neutral value is sent to the avoider.\<close>

theorem sysnum_roundtrip:
  assumes "abi \<noteq> ABI_3"
  shows "translate_sysnum abi n = Some s \<and> s \<noteq> PR_void \<longleftrightarrow>
         detranslate_sysnum abi s = Some n \<and> n \<noteq> SYSCALL_AVOIDER"
proof
  assume t: "translate_sysnum abi n = Some s \<and> s \<noteq> PR_void"
  then have "unat n < length (table_abi abi)"
    using assms by (auto simp: translate_sysnum_alt split: if_splits)
  then have "n \<noteq> SYSCALL_AVOIDER" using table_abi_small [of abi] by (auto simp: unsigned_minus_1_eq_mask mask_eq_exp_minus_1)
  with t show "detranslate_sysnum abi s = Some n \<and> n \<noteq> SYSCALL_AVOIDER"
    using assms detranslate_translate_inv by blast
next
  assume d: "detranslate_sysnum abi s = Some n \<and> n \<noteq> SYSCALL_AVOIDER"
  then have "s \<noteq> PR_void" using detranslate_not_void [of abi s n] by simp
  with d show "translate_sysnum abi n = Some s \<and> s \<noteq> PR_void"
    using assms translate_detranslate_inv by blast
qed

theorem sysnum_roundtrip_witness:
  "detranslate_sysnum ABI_DEFAULT PR_exit = Some 93 \<and> (93 :: u64) \<noteq> SYSCALL_AVOIDER"
proof -
  have "map_of sysnums_arm64 93 = Some PR_exit" by (simp add: sysnums_arm64_def)
  then have "translate_sysnum ABI_DEFAULT 93 = Some PR_exit"
    by (simp add: translate_sysnum_alt table_abi_def arm64_length nth_table_of)
  then show ?thesis
    using sysnum_roundtrip [of ABI_DEFAULT 93 PR_exit] by simp
qed

text \<open>the bound of \<open>translate_sysnum\<close> is off by one: the translation reads outside of the table
  exactly for the number that equals its length (292 on arm64, 413 on arm).\<close>

theorem translate_sysnum_undefined:
  "(translate_sysnum ABI_DEFAULT n = None \<longleftrightarrow> n = 292) \<and>
   (translate_sysnum ABI_2 n = None \<longleftrightarrow> n = 413)"
proof -
  have "n = 292 \<longleftrightarrow> unat n = unat (292 :: u64)" "n = 413 \<longleftrightarrow> unat n = unat (413 :: u64)"
    by (rule word_eq_iff_unsigned)+
  then have "unat n = 292 \<longleftrightarrow> n = 292" "unat n = 413 \<longleftrightarrow> n = 413" by simp_all
  then show ?thesis
    by (auto simp: translate_sysnum_alt table_abi_def arm64_length arm_length)
qed

end
