(* ===== verification/Regs.thy ===== *)
theory Regs
  imports Kernel Sysnum
begin

text \<open>
  Cached registers (src/library/src/main/jni/tracee/reg.c, tracee/abi.h) and the two
  register-based operations of syscall/sysnum.c.  A register is a 64-bit access at a byte
  offset of a bank; for an arm tracee the offsets are those of the 32-bit registers, so that
  such an access spans two of them.
\<close>

section \<open>Definitions\<close>

definition get_abi :: "Tracee \<Rightarrow> Abi" where
  "get_abi tracee = (if t_is_aarch32 tracee then ABI_2 else ABI_DEFAULT)"

definition is_32on64_mode :: "Tracee \<Rightarrow> bool" where
  "is_32on64_mode tracee = t_is_aarch32 tracee"

definition sizeof_word :: "Tracee \<Rightarrow> nat" where
  "sizeof_word tracee = (if is_32on64_mode tracee then 8 div 2 else 8)"

text \<open>Byte offsets; an index without initialiser is zero.\<close>

definition USER_REGS_OFFSET :: "nat \<Rightarrow> nat" where
  "USER_REGS_OFFSET n = 8 * n"

fun reg_offset :: "Reg \<Rightarrow> nat" where
  "reg_offset SYSARG_NUM = USER_REGS_OFFSET 8"
| "reg_offset SYSARG_1 = USER_REGS_OFFSET 0"
| "reg_offset SYSARG_2 = USER_REGS_OFFSET 1"
| "reg_offset SYSARG_3 = USER_REGS_OFFSET 2"
| "reg_offset SYSARG_4 = USER_REGS_OFFSET 3"
| "reg_offset SYSARG_5 = USER_REGS_OFFSET 4"
| "reg_offset SYSARG_6 = USER_REGS_OFFSET 5"
| "reg_offset SYSARG_RESULT = USER_REGS_OFFSET 0"
| "reg_offset STACK_POINTER = USER_REGS_OFFSET 31"
| "reg_offset INSTR_POINTER = USER_REGS_OFFSET 32"
| "reg_offset RTLD_FINI = 0"
| "reg_offset STATE_FLAGS = 0"
| "reg_offset USERARG_1 = USER_REGS_OFFSET 0"

definition USER_REGS_OFFSET_32 :: "nat \<Rightarrow> nat" where
  "USER_REGS_OFFSET_32 n = n * 4"

fun reg_offset_armeabi :: "Reg \<Rightarrow> nat" where
  "reg_offset_armeabi SYSARG_NUM = USER_REGS_OFFSET_32 7"
| "reg_offset_armeabi SYSARG_1 = USER_REGS_OFFSET_32 0"
| "reg_offset_armeabi SYSARG_2 = USER_REGS_OFFSET_32 1"
| "reg_offset_armeabi SYSARG_3 = USER_REGS_OFFSET_32 2"
| "reg_offset_armeabi SYSARG_4 = USER_REGS_OFFSET_32 3"
| "reg_offset_armeabi SYSARG_5 = USER_REGS_OFFSET_32 4"
| "reg_offset_armeabi SYSARG_6 = USER_REGS_OFFSET_32 5"
| "reg_offset_armeabi SYSARG_RESULT = USER_REGS_OFFSET_32 0"
| "reg_offset_armeabi STACK_POINTER = USER_REGS_OFFSET_32 13"
| "reg_offset_armeabi INSTR_POINTER = USER_REGS_OFFSET_32 15"
| "reg_offset_armeabi RTLD_FINI = 0"
| "reg_offset_armeabi STATE_FLAGS = 0"
| "reg_offset_armeabi USERARG_1 = USER_REGS_OFFSET_32 0"

text \<open>The macro \<open>REG\<close>, as the value it denotes and as an assignment.\<close>

definition reg_cell :: "Tracee \<Rightarrow> Reg \<Rightarrow> nat" where
  "reg_cell tracee reg =
     (if t_is_aarch32 tracee then reg_offset_armeabi reg else reg_offset reg) div 4"

definition load64 :: "bank \<Rightarrow> nat \<Rightarrow> u64" where
  "load64 b c = push_bit 32 (ucast (b (Suc c))) OR ucast (b c)"

definition store64 :: "bank \<Rightarrow> nat \<Rightarrow> u64 \<Rightarrow> bank" where
  "store64 b c w = b(c := ucast w, Suc c := ucast (drop_bit 32 w))"

definition REG :: "Tracee \<Rightarrow> RegVersion \<Rightarrow> Reg \<Rightarrow> u64" where
  "REG tracee version reg = load64 (t_regs tracee version) (reg_cell tracee reg)"

definition put_bank :: "RegVersion \<Rightarrow> bank \<Rightarrow> Tracee \<Rightarrow> Tracee" where
  "put_bank version b tracee = tracee\<lparr>t_regs := (t_regs tracee)(version := b)\<rparr>"

definition set_REG :: "Tracee \<Rightarrow> RegVersion \<Rightarrow> Reg \<Rightarrow> u64 \<Rightarrow> Tracee" where
  "set_REG tracee version reg w =
     put_bank version (store64 (t_regs tracee version) (reg_cell tracee reg) w) tracee"

definition set_REG_32 :: "Tracee \<Rightarrow> RegVersion \<Rightarrow> Reg \<Rightarrow> u32 \<Rightarrow> Tracee" where
  "set_REG_32 tracee version reg w =
     put_bank version ((t_regs tracee version)(reg_cell tracee reg := w)) tracee"

definition peek_reg :: "Tracee \<Rightarrow> RegVersion \<Rightarrow> Reg \<Rightarrow> u64" where
  "peek_reg tracee version reg =
     (let result = REG tracee version reg
      in if is_32on64_mode tracee then result AND 0xFFFFFFFF else result)"

definition poke_reg :: "Tracee \<Rightarrow> Reg \<Rightarrow> u64 \<Rightarrow> Tracee" where
  "poke_reg tracee reg v =
     (if peek_reg tracee CURRENT reg = v then tracee
      else (if is_32on64_mode tracee then set_REG_32 tracee CURRENT reg (ucast v)
            else set_REG tracee CURRENT reg v)\<lparr>t_regs_were_changed := True\<rparr>)"

definition save_current_regs :: "Tracee \<Rightarrow> RegVersion \<Rightarrow> Tracee" where
  "save_current_regs tracee version =
     put_bank version (t_regs tracee CURRENT)
       (if version = ORIGINAL then tracee\<lparr>t_regs_were_changed := False\<rparr> else tracee)"

definition fetch_regs :: "'k Kernel \<Rightarrow> Tracee \<Rightarrow> 'k OS \<Rightarrow> int \<times> Tracee \<times> 'k OS" where
  "fetch_regs K tracee os =
     (case sys_ptrace_getregset K (t_pid tracee) os of
        (status, b, os) \<Rightarrow>
          if status < 0 then (status, tracee, os) else (0, put_bank CURRENT b tracee, os))"

text \<open>\<open>RESTORE\<close>: the check uses the arm64 offsets for both kinds of tracee.\<close>

definition RESTORE :: "Reg \<Rightarrow> Tracee \<Rightarrow> Tracee" where
  "RESTORE sysarg tracee =
     (if reg_offset SYSARG_RESULT \<noteq> reg_offset sysarg
      then set_REG tracee CURRENT sysarg (REG tracee ORIGINAL sysarg) else tracee)"

definition restored_sysargs :: "Reg list" where
  "restored_sysargs =
     [SYSARG_NUM, SYSARG_1, SYSARG_2, SYSARG_3, SYSARG_4, SYSARG_5, SYSARG_6, STACK_POINTER]"

definition push_regs :: "'k Kernel \<Rightarrow> Tracee \<Rightarrow> 'k OS \<Rightarrow> int \<times> Tracee \<times> 'k OS" where
  "push_regs K tracee os =
     (if \<not> t_regs_were_changed tracee then (0, tracee, os)
      else
        let tracee = (if t_restore_original_regs tracee
                      then fold RESTORE restored_sysargs tracee else tracee);
            current_sysnum = REG tracee CURRENT SYSARG_NUM;
            os = (if current_sysnum \<noteq> REG tracee ORIGINAL SYSARG_NUM
                  then snd (sys_ptrace_set_syscall K (t_pid tracee) current_sysnum os) else os)
        in case sys_ptrace_setregset K (t_pid tracee) (t_regs tracee CURRENT) os of
             (status, os) \<Rightarrow> (if status < 0 then status else 0, tracee, os))"

text \<open>\<open>get_sysnum\<close> and \<open>set_sysnum\<close> of syscall/sysnum.c.\<close>

definition get_sysnum :: "Tracee \<Rightarrow> RegVersion \<Rightarrow> Sysnum option" where
  "get_sysnum tracee version =
     translate_sysnum (get_abi tracee) (peek_reg tracee version SYSARG_NUM)"

definition set_sysnum :: "Tracee \<Rightarrow> Sysnum \<Rightarrow> Tracee option" where
  "set_sysnum tracee sysnum =
     map_option (poke_reg tracee SYSARG_NUM) (detranslate_sysnum (get_abi tracee) sysnum)"

section \<open>Access lemmas\<close>

lemma bank_bit:
  "bit (load64 b c) n \<longleftrightarrow> (if n < 32 then bit (b c) n else n < 64 \<and> bit (b (Suc c)) (n - 32))"
  by (auto simp: load64_def bit_or_iff bit_push_bit_iff bit_ucast_iff dest: bit_imp_le_length)

lemma load64_store64 [reg_simps]: "load64 (store64 b c w) c = w"
  by (rule bit_eqI) (auto simp: bank_bit store64_def bit_ucast_iff bit_drop_bit_eq)

lemma load64_store64_other [reg_simps]:
  "c' \<noteq> c \<Longrightarrow> Suc c' \<noteq> c \<Longrightarrow> c' \<noteq> Suc c \<Longrightarrow> load64 (store64 b c w) c' = load64 b c'"
  by (simp add: load64_def store64_def)

lemma load64_low: "load64 b c AND 0xFFFFFFFF = ucast (b c)"
  by (rule bit_eqI)
    (simp only: bit_and_iff bit_mask32 bank_bit bit_ucast_iff, auto dest: bit_imp_le_length)

lemma put_bank_simps [reg_simps]:
  "t_regs (put_bank v b tracee) v' = (if v' = v then b else t_regs tracee v')"
  "t_is_aarch32 (put_bank v b tracee) = t_is_aarch32 tracee"
  "t_regs_were_changed (put_bank v b tracee) = t_regs_were_changed tracee"
  "reg_cell (put_bank v b tracee) = reg_cell tracee"
  by (auto simp: put_bank_def reg_cell_def)

lemma reg_cell_changed [reg_simps]:
  "reg_cell (tracee\<lparr>t_regs_were_changed := x\<rparr>) = reg_cell tracee"
  by (simp add: reg_cell_def fun_eq_iff)

lemma reg_cell_even: "\<not> t_is_aarch32 tracee \<Longrightarrow> even (reg_cell tracee r)"
  by (cases r) (simp_all add: reg_cell_def USER_REGS_OFFSET_def)

lemma peek_reg_alt:
  "peek_reg tracee version reg =
    (if t_is_aarch32 tracee then ucast (t_regs tracee version (reg_cell tracee reg))
     else load64 (t_regs tracee version) (reg_cell tracee reg))"
  by (simp add: peek_reg_def is_32on64_mode_def REG_def load64_low)

definition norm_word :: "Tracee \<Rightarrow> u64 \<Rightarrow> u64" where
  "norm_word tracee v = (if t_is_aarch32 tracee then v AND 0xFFFFFFFF else v)"

lemma norm_peek [simp]: "norm_word tracee (peek_reg tracee version reg) = peek_reg tracee version reg"
  by (simp add: norm_word_def peek_reg_def is_32on64_mode_def and.assoc)

lemma poke_reg_frame [reg_simps]:
  "t_is_aarch32 (poke_reg tracee reg v) = t_is_aarch32 tracee"
  "t_pid (poke_reg tracee reg v) = t_pid tracee"
  "t_status (poke_reg tracee reg v) = t_status tracee"
  "t_chain (poke_reg tracee reg v) = t_chain tracee"
  "t_restore_original_regs (poke_reg tracee reg v) = t_restore_original_regs tracee"
  "reg_cell (poke_reg tracee reg v) = reg_cell tracee"
  by (auto simp: poke_reg_def set_REG_def set_REG_32_def put_bank_def reg_cell_def fun_eq_iff)

lemma peek_poke_other_version [reg_simps]:
  "version \<noteq> CURRENT \<Longrightarrow> peek_reg (poke_reg tracee reg v) version reg' = peek_reg tracee version reg'"
  by (auto simp: peek_reg_alt poke_reg_def set_REG_def set_REG_32_def reg_simps)

lemma peek_poke:
  "peek_reg (poke_reg tracee reg v) CURRENT reg' =
    (if reg_cell tracee reg = reg_cell tracee reg' then norm_word tracee v
     else peek_reg tracee CURRENT reg')"
proof (cases "peek_reg tracee CURRENT reg = v")
  case True
  then have "v = norm_word tracee v" by (metis norm_peek)
  with True show ?thesis by (auto simp: poke_reg_def peek_reg_alt)
next
  case False
  show ?thesis
  proof (cases "t_is_aarch32 tracee")
    case True
    with False show ?thesis
      by (auto simp: poke_reg_def peek_reg_alt is_32on64_mode_def set_REG_32_def reg_simps
          norm_word_def low_ucast)
  next
    case False32: False
    have e: "even (reg_cell tracee reg)" "even (reg_cell tracee reg')"
      using False32 by (auto intro: reg_cell_even)
    then have "reg_cell tracee reg' \<noteq> reg_cell tracee reg \<Longrightarrow>
        Suc (reg_cell tracee reg') \<noteq> reg_cell tracee reg \<and>
        reg_cell tracee reg' \<noteq> Suc (reg_cell tracee reg)"
      by (metis even_Suc)
    with False False32 show ?thesis
      by (auto simp: poke_reg_def peek_reg_alt is_32on64_mode_def set_REG_def reg_simps norm_word_def)
  qed
qed

lemma norm_word_poke [reg_simps]: "norm_word (poke_reg tracee reg v) = norm_word tracee"
  by (simp add: norm_word_def fun_eq_iff reg_simps)

section \<open>Register files\<close>

text \<open>
  What the other components rely on: a write is seen through every name of the register, in
  the width of the tracee, and through no other.
\<close>

locale register_file =
  fixes get :: "'s \<Rightarrow> 'r \<Rightarrow> 'v"
    and set_reg :: "'s \<Rightarrow> 'r \<Rightarrow> 'v \<Rightarrow> 's"
    and norm :: "'s \<Rightarrow> 'v \<Rightarrow> 'v"
    and key :: "'s \<Rightarrow> 'r \<Rightarrow> nat"
  assumes get_set: "get (set_reg s r v) r' = (if key s r = key s r' then norm s v else get s r')"
    and key_set: "key (set_reg s r v) = key s"
    and norm_set: "norm (set_reg s r v) = norm s"
begin

definition set_all :: "('r \<times> 'v) list \<Rightarrow> 's \<Rightarrow> 's" where
  "set_all rvs s = fold (\<lambda>(r, v) s. set_reg s r v) rvs s"

lemma set_all_frame: "key (set_all rvs s) = key s" "norm (set_all rvs s) = norm s"
  unfolding set_all_def
  by (induction rvs arbitrary: s) (auto simp: key_set norm_set)

lemma get_set_all_other:
  "(\<forall>(r', v) \<in> set rvs. key s r' \<noteq> key s r) \<Longrightarrow> get (set_all rvs s) r = get s r"
  unfolding set_all_def
proof (induction rvs arbitrary: s)
  case (Cons rv rvs)
  then show ?case by (cases rv) (auto simp: get_set key_set split: prod.splits)
qed simp

lemma get_set_all:
  "distinct (map (key s \<circ> fst) rvs) \<Longrightarrow> (r, v) \<in> set rvs \<Longrightarrow> get (set_all rvs s) r = norm s v"
proof (induction rvs arbitrary: s)
  case (Cons rv rvs)
  obtain r1 v1 where rv: "rv = (r1, v1)" by (cases rv)
  have step: "set_all (rv # rvs) s = set_all rvs (set_reg s r1 v1)"
    by (simp add: set_all_def rv)
  show ?case
  proof (cases "(r, v) \<in> set rvs")
    case True
    then show ?thesis
      using Cons.prems Cons.IH [of "set_reg s r1 v1"] step by (simp add: rv key_set norm_set)
  next
    case False
    then have "r = r1" "v = v1" using Cons.prems rv by auto
    moreover have "\<forall>(r', v) \<in> set rvs. key s r' \<noteq> key s r1"
      using Cons.prems(1) rv by force
    ultimately show ?thesis
      using get_set_all_other [of rvs "set_reg s r1 v1" r1]
      by (simp add: step key_set get_set)
  qed
qed simp

end

interpretation current: register_file "\<lambda>t r. peek_reg t CURRENT r" poke_reg norm_word reg_cell
  by unfold_locales (simp_all add: peek_poke reg_simps)

section \<open>Restoring and numbers\<close>

lemma store64_load64: "store64 b c (load64 o' c) = b(c := o' c, Suc c := o' (Suc c))"
proof -
  have "ucast (load64 o' c) = o' c"
    by (rule bit_eqI) (auto simp: bit_ucast_iff bank_bit)
  moreover have "ucast (drop_bit 32 (load64 o' c)) = o' (Suc c)"
    by (rule bit_eqI) (auto simp: bit_ucast_iff bank_bit bit_drop_bit_eq)
  ultimately show ?thesis by (simp add: store64_def)
qed

definition restored_cells :: "Tracee \<Rightarrow> nat set" where
  "restored_cells tracee =
     (if t_is_aarch32 tracee then {1, 2, 3, 4, 5, 6, 7, 8, 13, 14}
      else {2, 3, 4, 5, 6, 7, 8, 9, 10, 11, 16, 17, 62, 63})"

lemma RESTORE_bank:
  "reg_offset SYSARG_RESULT \<noteq> reg_offset r \<Longrightarrow>
   RESTORE r tracee = put_bank CURRENT
     ((t_regs tracee CURRENT)(reg_cell tracee r := t_regs tracee ORIGINAL (reg_cell tracee r),
        Suc (reg_cell tracee r) := t_regs tracee ORIGINAL (Suc (reg_cell tracee r)))) tracee"
  by (simp add: RESTORE_def set_REG_def REG_def store64_load64)

lemma put_bank_twice [reg_simps]: "put_bank v b (put_bank v b' tracee) = put_bank v b tracee"
  by (simp add: put_bank_def)

lemma fold_RESTORE:
  "fold RESTORE restored_sysargs tracee = put_bank CURRENT
     (\<lambda>c. if c \<in> restored_cells tracee then t_regs tracee ORIGINAL c else t_regs tracee CURRENT c) tracee"
proof -
  have skip: "RESTORE SYSARG_1 t = t" for t by (simp add: RESTORE_def)
  show ?thesis
  proof (cases "t_is_aarch32 tracee")
    case True
    then show ?thesis
      by (auto simp: restored_sysargs_def skip RESTORE_bank USER_REGS_OFFSET_def
          USER_REGS_OFFSET_32_def reg_cell_def reg_simps restored_cells_def fun_eq_iff
          intro!: arg_cong [where f = "\<lambda>b. put_bank CURRENT b tracee"])
  next
    case False
    then show ?thesis
      by (auto simp: restored_sysargs_def skip RESTORE_bank USER_REGS_OFFSET_def
          USER_REGS_OFFSET_32_def reg_cell_def reg_simps restored_cells_def fun_eq_iff
          intro!: arg_cong [where f = "\<lambda>b. put_bank CURRENT b tracee"])
  qed
qed

lemma peek_reg_fold_RESTORE:
  "peek_reg (fold RESTORE restored_sysargs tracee) CURRENT r =
     (if r \<in> {SYSARG_NUM, SYSARG_2, SYSARG_3, SYSARG_4, SYSARG_5, SYSARG_6, STACK_POINTER}
      then peek_reg tracee ORIGINAL r else peek_reg tracee CURRENT r)"
  by (cases r)
    (auto simp: fold_RESTORE peek_reg_alt reg_simps load64_def reg_cell_def restored_cells_def
      USER_REGS_OFFSET_def USER_REGS_OFFSET_32_def)

lemma norm_word_small: "unat v < 2 ^ 32 \<Longrightarrow> norm_word tracee v = v"
proof -
  assume "unat v < 2 ^ 32"
  then have "unat (take_bit 32 v) = unat v"
    by (simp add: unsigned_take_bit_eq take_bit_nat_eq_self)
  then have "take_bit 32 v = v" by (rule unsigned_word_eqI)
  then have "v AND mask 32 = v" by (simp add: take_bit_eq_mask)
  moreover have "mask 32 = (0xFFFFFFFF :: u64)" by (simp add: mask_eq_exp_minus_1)
  ultimately show "norm_word tracee v = v" by (simp add: norm_word_def)
qed

lemma get_abi_valid [simp]: "get_abi tracee \<noteq> ABI_3"
  by (simp add: get_abi_def)

lemma get_abi_poke [reg_simps]: "get_abi (poke_reg tracee reg v) = get_abi tracee"
  by (simp add: get_abi_def reg_simps)

lemma get_set_sysnum:
  assumes "detranslate_sysnum (get_abi tracee) s = Some n" "n \<noteq> SYSCALL_AVOIDER"
  shows "set_sysnum tracee s = Some (poke_reg tracee SYSARG_NUM n)"
    and "get_sysnum (poke_reg tracee SYSARG_NUM n) CURRENT = Some s"
proof -
  have "unat n < 2 ^ 16" using detranslate_small [OF get_abi_valid assms] .
  then have "norm_word tracee n = n" by (intro norm_word_small) simp
  then show "get_sysnum (poke_reg tracee SYSARG_NUM n) CURRENT = Some s"
    using translate_detranslate_inv [OF get_abi_valid assms]
    by (simp add: get_sysnum_def reg_simps peek_poke)
qed (simp add: set_sysnum_def assms)

section \<open>Properties\<close>

text \<open>A poked register reads back in the width of the tracee, through every name of the same
  register; every other register, and the saved banks, keep their value, although a register
  access is a 64-bit access that spans two registers of an arm tracee.\<close>

theorem poke_peek:
  "peek_reg (poke_reg tracee reg v) version reg' =
    (if version = CURRENT \<and> reg_cell tracee reg = reg_cell tracee reg'
     then (if t_is_aarch32 tracee then v AND 0xFFFFFFFF else v)
     else peek_reg tracee version reg')"
  by (cases "version = CURRENT") (simp_all add: peek_poke peek_poke_other_version norm_word_def)

text \<open>C9: pushing the registers of a tracee that must get its original ones back restores the
  syscall number, the arguments 2 to 6 and the stack pointer, keeps the result and the program
  counter, and hands exactly that bank to the kernel without a separate request for the number.\<close>

theorem push_regs_restores:
  assumes "t_regs_were_changed tracee" "t_restore_original_regs tracee"
    and "push_regs K tracee os = (status, tracee', os')"
  shows "(\<forall>r. peek_reg tracee' CURRENT r =
            (if r \<in> {SYSARG_NUM, SYSARG_2, SYSARG_3, SYSARG_4, SYSARG_5, SYSARG_6, STACK_POINTER}
             then peek_reg tracee ORIGINAL r else peek_reg tracee CURRENT r)) \<and>
         os' = snd (sys_ptrace_setregset K (t_pid tracee) (t_regs tracee' CURRENT) os)"
proof -
  let ?t = "fold RESTORE restored_sysargs tracee"
  have num: "REG ?t CURRENT SYSARG_NUM = REG ?t ORIGINAL SYSARG_NUM"
    by (auto simp: fold_RESTORE REG_def reg_simps load64_def reg_cell_def restored_cells_def
        USER_REGS_OFFSET_def USER_REGS_OFFSET_32_def)
  have pid: "t_pid ?t = t_pid tracee" by (simp add: fold_RESTORE put_bank_def)
  have t: "tracee' = ?t" and o: "os' = snd (sys_ptrace_setregset K (t_pid tracee) (t_regs ?t CURRENT) os)"
    using assms num pid by (auto simp: push_regs_def Let_def split: prod.splits)
  show ?thesis unfolding t using o peek_reg_fold_RESTORE by blast
qed

definition restoring_tracee :: Tracee where
  "restoring_tracee = calloc_tracee
     \<lparr>t_regs := (\<lambda>v c. if v = ORIGINAL then of_nat c else 7),
      t_regs_were_changed := True, t_restore_original_regs := True\<rparr>"

lemma push_regs_restores_witness:
  "peek_reg (fst (snd (push_regs ram_kernel restoring_tracee ram_boot))) CURRENT SYSARG_2 =
   peek_reg restoring_tracee ORIGINAL SYSARG_2"
  using push_regs_restores [of restoring_tracee ram_kernel ram_boot
      "fst (push_regs ram_kernel restoring_tracee ram_boot)"
      "fst (snd (push_regs ram_kernel restoring_tracee ram_boot))"
      "snd (snd (push_regs ram_kernel restoring_tracee ram_boot))"]
  by (simp add: restoring_tracee_def)

text \<open>C30: setting the syscall number to a neutral value the tracee's ABI offers and reading it
  back gives that value, on both ABIs; one it does not offer, and \<open>PR_void\<close>, reads back as
  \<open>PR_void\<close>, never as another system call.\<close>

theorem set_get_sysnum:
  "\<exists>tracee'. set_sysnum tracee s = Some tracee' \<and>
     get_sysnum tracee' CURRENT =
       Some (if detranslate_sysnum (get_abi tracee) s = Some SYSCALL_AVOIDER then PR_void else s)"
proof (cases "detranslate_sysnum (get_abi tracee) s = Some SYSCALL_AVOIDER")
  case True
  have "unat (norm_word tracee SYSCALL_AVOIDER) > 2 ^ 16"
    by (simp add: norm_word_def unsigned_minus_1_eq_mask mask_eq_exp_minus_1)
  then have "get_sysnum (poke_reg tracee SYSARG_NUM SYSCALL_AVOIDER) CURRENT = Some PR_void"
    using table_abi_small [of "get_abi tracee"]
    by (simp add: get_sysnum_def reg_simps peek_poke translate_sysnum_alt)
  then show ?thesis using True by (simp add: set_sysnum_def)
next
  case False
  obtain n where "detranslate_sysnum (get_abi tracee) s = Some n"
    by (cases "s = PR_void") (auto simp: detranslate_sysnum_alt, auto simp: detranslate_sysnum_def)
  with False get_set_sysnum [of tracee s n] show ?thesis by auto
qed

end
