(* ===== verification/Mem.thy ===== *)
theory Mem
  imports Regs "HOL-Library.Signed_Division"
begin

text \<open>
  Access to the memory of a tracee (src/library/src/main/jni/tracee/mem.c, mem.h), built
  with \<open>HAVE_PROCESS_VM\<close>: one \<open>process_vm\<close> call, and word by word through \<open>ptrace\<close> when it
  does not transfer everything.  A buffer is a byte list; a size is its length.
\<close>

section \<open>Definitions\<close>

text \<open>\<open>(size_t) status == size\<close>, and the conversion of a wider integer to \<open>int\<close>.\<close>

definition size_eq :: "int \<Rightarrow> nat \<Rightarrow> bool" where
  "size_eq status sz \<longleftrightarrow> (of_int status :: u64) = of_nat sz"

definition c_int :: "int \<Rightarrow> int" where
  "c_int i = signed_take_bit 31 i"

primrec poke_words :: "nat \<Rightarrow> 'k Kernel \<Rightarrow> pid \<Rightarrow> u64 \<Rightarrow> byte list \<Rightarrow> 'k OS \<Rightarrow> bool \<times> 'k OS" where
  "poke_words 0 K p dest src os = (True, os)"
| "poke_words (Suc n) K p dest src os =
     (case sys_ptrace_pokedata K p dest (of_le (take 8 src)) os of
        (status, os) \<Rightarrow> if status < 0 then (False, os)
                        else poke_words n K p (dest + 8) (drop 8 src) os)"

definition write_data :: "'k Kernel \<Rightarrow> Tracee \<Rightarrow> u64 \<Rightarrow> byte list \<Rightarrow> 'k OS \<Rightarrow> int \<times> 'k OS" where
  "write_data K tracee dest_tracee src os =
     (case sys_process_vm_writev K (t_pid tracee) [src] dest_tracee os of
        (status, os) \<Rightarrow>
          if size_eq status (length src) then (0, os)
          else
            let nb_trailing_bytes = length src mod 8;
                nb_full_words = (length src - nb_trailing_bytes) div 8
            in case poke_words nb_full_words K (t_pid tracee) dest_tracee src os of
                 (ok, os) \<Rightarrow>
                   if \<not> ok then (- EFAULT, os)
                   else if nb_trailing_bytes = 0 then (0, os)
                   else
                     let last_word = dest_tracee + of_nat (8 * nb_full_words)
                     in case sys_ptrace_peekdata K (t_pid tracee) last_word os of
                          (word, os) \<Rightarrow>
                            if os_errno os \<noteq> 0 then (- EFAULT, os)
                            else
                              let word = of_le (drop (8 * nb_full_words) src
                                                @ drop nb_trailing_bytes (le_bytes word))
                              in case sys_ptrace_pokedata K (t_pid tracee) last_word word os of
                                   (status, os) \<Rightarrow> if status < 0 then (- EFAULT, os) else (0, os))"

fun write_iovs :: "'k Kernel \<Rightarrow> Tracee \<Rightarrow> u64 \<Rightarrow> byte list list \<Rightarrow> 'k OS \<Rightarrow> int \<times> 'k OS" where
  "write_iovs K tracee dest [] os = (0, os)"
| "write_iovs K tracee dest (src # srcs) os =
     (case write_data K tracee dest src os of
        (status, os) \<Rightarrow> if status < 0 then (status, os)
                        else write_iovs K tracee (dest + of_nat (length src)) srcs os)"

definition writev_data ::
    "'k Kernel \<Rightarrow> Tracee \<Rightarrow> u64 \<Rightarrow> byte list list \<Rightarrow> 'k OS \<Rightarrow> int \<times> 'k OS" where
  "writev_data K tracee dest_tracee src_tracer os =
     (case sys_process_vm_writev K (t_pid tracee) src_tracer dest_tracee os of
        (status, os) \<Rightarrow>
          if size_eq (c_int status) (length (concat src_tracer)) then (0, os)
          else write_iovs K tracee dest_tracee src_tracer os)"

text \<open>The words a loop of \<open>PTRACE_PEEKDATA\<close> stores until \<open>errno\<close> is not zero.\<close>

primrec peek_words ::
    "nat \<Rightarrow> 'k Kernel \<Rightarrow> pid \<Rightarrow> u64 \<Rightarrow> 'k OS \<Rightarrow> bool \<times> byte list \<times> 'k OS" where
  "peek_words 0 K p src os = (True, [], os)"
| "peek_words (Suc n) K p src os =
     (case sys_ptrace_peekdata K p src os of
        (word, os) \<Rightarrow>
          if os_errno os \<noteq> 0 then (False, [], os)
          else case peek_words n K p (src + 8) os of
                 (ok, bs, os) \<Rightarrow> (ok, le_bytes word @ bs, os))"

definition read_data ::
    "'k Kernel \<Rightarrow> Tracee \<Rightarrow> u64 \<Rightarrow> nat \<Rightarrow> 'k OS \<Rightarrow> int \<times> byte list \<times> 'k OS" where
  "read_data K tracee src_tracee sz os =
     (case sys_process_vm_readv K (t_pid tracee) sz src_tracee os of
        (status, bs, os) \<Rightarrow>
          if size_eq status sz then (0, bs, os)
          else
            let nb_trailing_bytes = sz mod 8;
                nb_full_words = (sz - nb_trailing_bytes) div 8
            in case peek_words nb_full_words K (t_pid tracee) src_tracee os of
                 (ok, bs, os) \<Rightarrow>
                   if \<not> ok then (- EFAULT, bs, os)
                   else if nb_trailing_bytes = 0 then (0, bs, os)
                   else
                     case sys_ptrace_peekdata K (t_pid tracee)
                            (src_tracee + of_nat (8 * nb_full_words)) os of
                       (word, os) \<Rightarrow>
                         if os_errno os \<noteq> 0 then (- EFAULT, bs, os)
                         else (0, bs @ take nb_trailing_bytes (le_bytes word), os))"

text \<open>
  \<open>read_string\<close>: chunks that do not cross a boundary of 1024 bytes, until one holds the
  terminator (\<open>Inl\<close> its number of bytes) or the fallback is reached (\<open>Inr\<close>).
\<close>

abbreviation chunk_size :: nat where "chunk_size \<equiv> 1024"

definition chunk_mask :: u64 where "chunk_mask = NOT (of_nat chunk_size - 1)"

definition next_bytes :: "u64 \<Rightarrow> nat \<Rightarrow> nat" where
  "next_bytes addr room =
     (let current_chunk = addr AND chunk_mask;
          next_chunk = current_chunk + of_nat chunk_size
      in min (unat (next_chunk - addr)) room)"

lemma next_bytes_alt: "next_bytes addr room = min (1024 - unat addr mod 1024) room"
proof -
  have m: "(of_nat chunk_size - 1 :: 64 word) = mask 10" by (simp add: mask_eq_exp_minus_1)
  have "addr = (addr AND NOT (mask 10)) OR take_bit 10 addr"
    by (rule bit_eqI) (auto simp only: bit_or_iff bit_and_iff bit_not_iff bit_mask_iff bit_take_bit_iff possible_bit_word)
  also have "\<dots> = (addr AND NOT (mask 10)) + take_bit 10 addr"
    by (rule disjunctive_add_eq_or [symmetric], rule bit_eqI) 
      (simp only: bit_and_iff bit_not_iff bit_mask_iff bit_take_bit_iff possible_bit_word, auto)
  finally have a: "addr = (addr AND NOT (mask 10)) + take_bit 10 addr" .
  have u: "unat (take_bit 10 addr) = unat addr mod 1024"
    by (simp add: unsigned_take_bit_eq) (simp add: take_bit_eq_mod)
  have "(addr AND NOT (mask 10)) + of_nat chunk_size - addr = of_nat chunk_size - take_bit 10 addr"
    using a by (simp add: algebra_simps)
  also have "unat \<dots> = 1024 - unat addr mod 1024"
    using u by (subst unat_sub) (simp_all add: word_le_nat_alt)
  finally show ?thesis by (simp only: next_bytes_def Let_def chunk_mask_def m)
qed
lemma next_bytes_pos: "0 < room \<Longrightarrow> 0 < next_bytes addr room"
  by (simp add: next_bytes_alt)

definition strnlen :: "byte list \<Rightarrow> nat" where
  "strnlen bs = length (takeWhile (\<lambda>b. b \<noteq> 0) bs)"

datatype chunks_end = Terminator nat | Fallback | Assertion_failed

function read_chunks ::
    "'k Kernel \<Rightarrow> pid \<Rightarrow> u64 \<Rightarrow> nat \<Rightarrow> nat \<Rightarrow> 'k OS \<Rightarrow> chunks_end \<times> byte list \<times> 'k OS" where
  "read_chunks K p src max_size offset os =
     (let sz = next_bytes (src + of_nat offset) (max_size - offset)
      in case sys_process_vm_readv K p sz (src + of_nat offset) os of
           (status, bs, os) \<Rightarrow>
             if \<not> size_eq status sz then (Fallback, bs, os)
             else if strnlen bs < sz then
               (if offset + strnlen bs + 1 \<le> max_size then Terminator (offset + strnlen bs + 1)
                else Assertion_failed, bs, os)
             else if offset + sz < max_size then
               (case read_chunks K p src max_size (offset + sz) os of
                  (r, bs', os) \<Rightarrow> (r, bs @ bs', os))
             else (if offset + sz = max_size then Fallback else Assertion_failed, bs, os))"
  by pat_completeness auto

termination
  by (relation "measure (\<lambda>(K, p, src, max_size, offset, os). max_size - offset)")
    (auto intro!: diff_less_mono2 next_bytes_pos)

declare read_chunks.simps [simp del]

primrec peek_string ::
    "nat \<Rightarrow> nat \<Rightarrow> 'k Kernel \<Rightarrow> pid \<Rightarrow> u64 \<Rightarrow> 'k OS \<Rightarrow> int option \<times> byte list \<times> 'k OS" where
  "peek_string 0 i K p src os = (None, [], os)"
| "peek_string (Suc n) i K p src os =
     (case sys_ptrace_peekdata K p src os of
        (word, os) \<Rightarrow>
          if os_errno os \<noteq> 0 then (Some (- EFAULT), [], os)
          else
            let w = le_bytes word
            in if strnlen w < 8 then (Some (c_int (int (i * 8 + strnlen w + 1))), w, os)
               else case peek_string n (Suc i) K p (src + 8) os of
                      (r, bs, os) \<Rightarrow> (r, w @ bs, os))"

definition string_fallback ::
    "'k Kernel \<Rightarrow> pid \<Rightarrow> u64 \<Rightarrow> nat \<Rightarrow> 'k OS \<Rightarrow> int \<times> byte list \<times> 'k OS" where
  "string_fallback K p src max_size os =
     (let nb_trailing_bytes = max_size mod 8;
          nb_full_words = (max_size - nb_trailing_bytes) div 8
      in case peek_string nb_full_words 0 K p src os of
           (Some st, bs, os) \<Rightarrow> (st, bs, os)
         | (None, bs, os) \<Rightarrow>
             (case sys_ptrace_peekdata K p (src + of_nat (8 * nb_full_words)) os of
                (word, os) \<Rightarrow>
                  if os_errno os \<noteq> 0 then (- EFAULT, bs, os)
                  else
                    let w = take nb_trailing_bytes (le_bytes word);
                        j = strnlen w
                    in (c_int (int (nb_full_words * 8 + j + 1)), bs @ take (Suc j) w, os)))"

definition read_string ::
    "'k Kernel \<Rightarrow> Tracee \<Rightarrow> u64 \<Rightarrow> nat \<Rightarrow> 'k OS \<Rightarrow> (int \<times> byte list \<times> 'k OS) option" where
  "read_string K tracee src_tracee max_size os =
     (case read_chunks K (t_pid tracee) src_tracee max_size 0 os of
        (Terminator n, dest, os) \<Rightarrow> Some (c_int (int n), dest, os)
      | (Assertion_failed, dest, os) \<Rightarrow> None
      | (Fallback, dest, os) \<Rightarrow>
          (case string_fallback K (t_pid tracee) src_tracee max_size os of
             (status, bs, os) \<Rightarrow> Some (status, bs @ drop (length bs) dest, os)))"

text \<open>\<open>read_path\<close> of mem.h.\<close>

definition read_path ::
    "'k Kernel \<Rightarrow> Tracee \<Rightarrow> u64 \<Rightarrow> 'k OS \<Rightarrow> (int \<times> byte list \<times> 'k OS) option" where
  "read_path K tracee src_tracee os =
     (case read_string K tracee src_tracee PATH_MAX os of
        None \<Rightarrow> None
      | Some (status, dest, os) \<Rightarrow>
          if status < 0 then Some (status, dest, os)
          else if status \<ge> int PATH_MAX then Some (- ENAMETOOLONG, dest, os)
          else Some (status, dest, os))"

definition eio_to_efault :: "'k OS \<Rightarrow> 'k OS" where
  "eio_to_efault os = (if os_errno os = EIO then set_errno EFAULT os else os)"

text \<open>
  \<open>peek_word\<close> and \<open>poke_word\<close>; the caller tests \<open>errno\<close>.  The bytes that
  \<open>process_vm_readv\<close> does not write keep the initial zero of \<open>result\<close>.
\<close>

definition peek_word :: "'k Kernel \<Rightarrow> Tracee \<Rightarrow> u64 \<Rightarrow> 'k OS \<Rightarrow> u64 \<times> 'k OS" where
  "peek_word K tracee address os =
     (case sys_process_vm_readv K (t_pid tracee) (sizeof_word tracee) address (set_errno 0 os) of
        (status, bs, os) \<Rightarrow>
          if status > 0 then (of_le bs, os)
          else case sys_ptrace_peekdata K (t_pid tracee) address (set_errno 0 os) of
                 (result, os) \<Rightarrow>
                   (if is_32on64_mode tracee then result AND 0xFFFFFFFF else result,
                    eio_to_efault os))"

definition poke_word :: "'k Kernel \<Rightarrow> Tracee \<Rightarrow> u64 \<Rightarrow> u64 \<Rightarrow> 'k OS \<Rightarrow> 'k OS" where
  "poke_word K tracee address v os =
     (case sys_process_vm_writev K (t_pid tracee) [take (sizeof_word tracee) (le_bytes v)] address
             (set_errno 0 os) of
        (status, os) \<Rightarrow>
          if status > 0 then os
          else if is_32on64_mode tracee then
            (case sys_ptrace_peekdata K (t_pid tracee) address (set_errno 0 os) of
               (tmp, os) \<Rightarrow>
                 if os_errno os \<noteq> 0 then os
                 else eio_to_efault (snd (sys_ptrace_pokedata K (t_pid tracee) address
                        (v OR (tmp AND 0xFFFFFFFF00000000)) (set_errno 0 os))))
          else eio_to_efault (snd (sys_ptrace_pokedata K (t_pid tracee) address v
                                     (set_errno 0 os))))"

text \<open>
  \<open>alloc_mem\<close>: \<open>RED_ZONE_SIZE\<close> is 0 on arm64, and the division is that of C.  \<open>None\<close> is the
  failed assertion that the tracee enters a system call.
\<close>

abbreviation STACK_ALIGNMENT :: int where "STACK_ALIGNMENT \<equiv> 16"

definition align_size :: "int \<Rightarrow> int" where
  "align_size sz = ((sz - 1) sdiv STACK_ALIGNMENT + 1) * STACK_ALIGNMENT"

definition alloc_mem :: "Tracee \<Rightarrow> int \<Rightarrow> (u64 \<times> Tracee) option" where
  "alloc_mem tracee sz =
     (if \<not> IS_IN_SYSENTER tracee then None
      else
        let stack_pointer = peek_reg tracee CURRENT STACK_POINTER;
            sz = align_size sz
        in if (sz > 0 \<and> stack_pointer \<le> of_int sz) \<or>
              (sz < 0 \<and> stack_pointer \<ge> - 1 + of_int sz)
           then Some (0, tracee)
           else let stack_pointer = stack_pointer - of_int sz
                in Some (stack_pointer, poke_reg tracee STACK_POINTER stack_pointer))"

definition clear_mem :: "'k Kernel \<Rightarrow> Tracee \<Rightarrow> u64 \<Rightarrow> nat \<Rightarrow> 'k OS \<Rightarrow> int \<times> 'k OS" where
  "clear_mem K tracee address sz os =
     (case sys_mmap_zeros K sz os of
        (ok, os) \<Rightarrow>
          if \<not> ok then (- os_errno os, os)
          else case write_data K tracee address (replicate sz 0) os of
                 (status, os) \<Rightarrow> (status, sys_munmap K sz os))"

text \<open>The generated \<open>peek_\<close> and \<open>poke_\<close> functions of mem.h, for a type of \<open>n\<close> bytes.\<close>

definition peek_type :: "nat \<Rightarrow> 'k Kernel \<Rightarrow> Tracee \<Rightarrow> u64 \<Rightarrow> 'k OS \<Rightarrow> byte list \<times> 'k OS" where
  "peek_type n K tracee address os =
     (case read_data K tracee address n os of
        (status, bs, os) \<Rightarrow> (bs, set_errno (- status) os))"

definition poke_type :: "'k Kernel \<Rightarrow> Tracee \<Rightarrow> u64 \<Rightarrow> byte list \<Rightarrow> 'k OS \<Rightarrow> 'k OS" where
  "poke_type K tracee address v os =
     (case write_data K tracee address v os of
        (status, os) \<Rightarrow> set_errno (- status) os)"

section \<open>The kernel's promises, as equations\<close>

lemma size_eq_same [simp]: "size_eq (int n) n"
  by (simp add: size_eq_def)

lemma size_eq_failed: "n < 2 ^ 63 \<Longrightarrow> \<not> size_eq (-1) n"
proof
  assume n: "n < 2 ^ 63" and "size_eq (-1) n"
  then have "unat (- 1 :: u64) = unat (of_nat n :: u64)" by (simp add: size_eq_def)
  then show False
    using n by (simp add: unat_of_nat_u64 unsigned_minus_1_eq_mask mask_eq_exp_minus_1)
qed

lemma os_eq_iff: "os' = os \<longleftrightarrow> os_errno os' = os_errno os \<and> os_kern os' = os_kern os" for os :: "'k OS"
  by (cases os, cases os') auto

lemma set_errno_eq: "set_errno e os = \<lparr>os_errno = e, os_kern = os_kern os\<rparr>"
  by (cases os) (simp add: set_errno_def)

lemma kernel_readvD:
  assumes "kernel_memory K V" "n < 2 ^ 63" "sys_process_vm_readv K p n a os = (st, bs, os')"
  shows "os_kern os' = os_kern os \<and>
           (if within (v_readable V (os_kern os) p) a n
            then st = int n \<and> bs = bytes_at (v_mem V (os_kern os) p) a n \<and> os_errno os' = os_errno os
            else st = -1 \<and> os_errno os' \<noteq> 0)"
proof -
  have "kernel_readv K V" using assms(1) by (simp add: kernel_memory_def)
  then show ?thesis unfolding kernel_readv_def using assms(2,3) by blast
qed

lemma kernel_writevD:
  assumes "kernel_memory K V" "length (concat iov) < 2 ^ 63"
    "sys_process_vm_writev K p iov a os = (st, os')"
  shows "if within (v_writable V (os_kern os) p) a (length (concat iov))
         then st = int (length (concat iov)) \<and> os_errno os' = os_errno os \<and>
              wrote V p a (concat iov) (os_kern os) (os_kern os')
         else st = -1 \<and> os_errno os' \<noteq> 0 \<and> os_kern os' = os_kern os"
proof -
  have "kernel_writev K V" using assms(1) by (simp add: kernel_memory_def)
  then show ?thesis unfolding kernel_writev_def using assms(2,3) by blast
qed

lemma kernel_peekdataD:
  assumes "kernel_memory K V" "sys_ptrace_peekdata K p a os = (w, os')"
  shows "if within (v_mapped V (os_kern os) p) a 8
         then w = of_le (bytes_at (v_mem V (os_kern os) p) a 8) \<and> os' = os
         else w = - 1 \<and> os_errno os' \<in> {EIO, EFAULT} \<and> os_kern os' = os_kern os"
proof -
  have "kernel_peekdata K V" using assms(1) by (simp add: kernel_memory_def)
  then show ?thesis unfolding kernel_peekdata_def using assms(2) by blast
qed

lemma kernel_pokedataD:
  assumes "kernel_memory K V" "sys_ptrace_pokedata K p a w os = (st, os')"
  shows "if within (v_mapped V (os_kern os) p) a 8
         then st = 0 \<and> os_errno os' = os_errno os \<and>
              wrote V p a (le_bytes w) (os_kern os) (os_kern os')
         else st = -1 \<and> os_errno os' \<in> {EIO, EFAULT} \<and> os_kern os' = os_kern os"
proof -
  have "kernel_pokedata K V" using assms(1) by (simp add: kernel_memory_def)
  then show ?thesis unfolding kernel_pokedata_def using assms(2) by blast
qed

lemma readv_ok:
  assumes "kernel_memory K V" "n < 2 ^ 63" "within (v_readable V (os_kern os) p) a n"
  shows "sys_process_vm_readv K p n a os = (int n, bytes_at (v_mem V (os_kern os) p) a n, os)"
proof -
  obtain st bs os' where r: "sys_process_vm_readv K p n a os = (st, bs, os')" by (metis prod.exhaust)
  then show ?thesis using kernel_readvD [OF assms(1,2) r] assms(3) by (auto simp: os_eq_iff)
qed

lemma readv_failed:
  assumes "kernel_memory K V" "n < 2 ^ 63" "\<not> within (v_readable V (os_kern os) p) a n"
  obtains bs e where "sys_process_vm_readv K p n a os = (-1, bs, set_errno e os)" "e \<noteq> 0"
proof -
  obtain st bs os' where r: "sys_process_vm_readv K p n a os = (st, bs, os')" by (metis prod.exhaust)
  then show ?thesis using kernel_readvD [OF assms(1,2) r] assms(3) that [of bs "os_errno os'"]
    by (auto simp: os_eq_iff set_errno_def)
qed

lemma writev_ok:
  assumes "kernel_memory K V" "length (concat iov) < 2 ^ 63"
    "within (v_writable V (os_kern os) p) a (length (concat iov))"
  obtains k' where "sys_process_vm_writev K p iov a os = (int (length (concat iov)), os\<lparr>os_kern := k'\<rparr>)"
    "wrote V p a (concat iov) (os_kern os) k'"
proof -
  obtain st os' where r: "sys_process_vm_writev K p iov a os = (st, os')" by (metis prod.exhaust)
  then show ?thesis using kernel_writevD [OF assms(1,2) r] assms(3) that [of "os_kern os'"]
    by (auto simp: os_eq_iff)
qed

lemma writev_failed:
  assumes "kernel_memory K V" "length (concat iov) < 2 ^ 63"
    "\<not> within (v_writable V (os_kern os) p) a (length (concat iov))"
  obtains e where "sys_process_vm_writev K p iov a os = (-1, set_errno e os)" "e \<noteq> 0"
proof -
  obtain st os' where r: "sys_process_vm_writev K p iov a os = (st, os')" by (metis prod.exhaust)
  then show ?thesis using kernel_writevD [OF assms(1,2) r] assms(3) that [of "os_errno os'"]
    by (auto simp: os_eq_iff set_errno_def)
qed

lemma peekdata_ok:
  assumes "kernel_memory K V" "within (v_mapped V (os_kern os) p) a 8"
  shows "sys_ptrace_peekdata K p a os = (of_le (bytes_at (v_mem V (os_kern os) p) a 8), os)"
proof -
  obtain w os' where r: "sys_ptrace_peekdata K p a os = (w, os')" by (metis prod.exhaust)
  then show ?thesis using kernel_peekdataD [OF assms(1) r] assms(2) by auto
qed

lemma peekdata_failed:
  assumes "kernel_memory K V" "\<not> within (v_mapped V (os_kern os) p) a 8"
  obtains e where "sys_ptrace_peekdata K p a os = (- 1, set_errno e os)" "e \<in> {EIO, EFAULT}"
proof -
  obtain w os' where r: "sys_ptrace_peekdata K p a os = (w, os')" by (metis prod.exhaust)
  then show ?thesis using kernel_peekdataD [OF assms(1) r] assms(2) that [of "os_errno os'"]
    by (auto simp: os_eq_iff set_errno_def)
qed

lemma pokedata_ok:
  assumes "kernel_memory K V" "within (v_mapped V (os_kern os) p) a 8"
  obtains k' where "sys_ptrace_pokedata K p a w os = (0, os\<lparr>os_kern := k'\<rparr>)"
    "wrote V p a (le_bytes w) (os_kern os) k'"
proof -
  obtain st os' where r: "sys_ptrace_pokedata K p a w os = (st, os')" by (metis prod.exhaust)
  then show ?thesis using kernel_pokedataD [OF assms(1) r] assms(2) that [of "os_kern os'"]
    by (auto simp: os_eq_iff)
qed

lemma pokedata_failed:
  assumes "kernel_memory K V" "\<not> within (v_mapped V (os_kern os) p) a 8"
  obtains e where "sys_ptrace_pokedata K p a w os = (-1, set_errno e os)" "e \<in> {EIO, EFAULT}"
proof -
  obtain st os' where r: "sys_ptrace_pokedata K p a w os = (st, os')" by (metis prod.exhaust)
  then show ?thesis using kernel_pokedataD [OF assms(1) r] assms(2) that [of "os_errno os'"]
    by (auto simp: os_eq_iff set_errno_def)
qed

section \<open>Writing\<close>

lemma wrote_mapped_iff:
  assumes "wrote V p a bs k k'" "within (v_mapped V k p) a (length bs)"
  shows "v_mapped V k' q x \<longleftrightarrow> v_mapped V k q x"
proof -
  have "put_bytes m a bs x \<noteq> None \<longleftrightarrow> m x \<noteq> None"
    if "\<forall>i<length bs. m (a + of_nat i) \<noteq> None" for m
  proof (cases "\<exists>i<length bs. x = a + of_nat i")
    case True
    then show ?thesis using that put_bytes_mapped by blast
  qed (use put_bytes_other in fastforce)
  then show ?thesis using assms by (auto simp: wrote_def within_iff v_mapped_def)
qed

text \<open>A run of \<open>PTRACE_POKEDATA\<close> succeeds on mapped memory, and writes a prefix otherwise.\<close>

lemma poke_words_spec:
  assumes K: "kernel_memory K V" and "8 * n \<le> length src"
  shows "\<exists>m e k'. poke_words n K p a src os =
      (within (v_mapped V (os_kern os) p) a (8 * n), \<lparr>os_errno = e, os_kern = k'\<rparr>) \<and>
    wrote V p a (take m src) (os_kern os) k' \<and>
    (within (v_mapped V (os_kern os) p) a (8 * n) \<longrightarrow> m = 8 * n \<and> e = os_errno os)"
  using assms(2)
proof (induction n arbitrary: a src os)
  case 0
  show ?case by (rule exI [of _ 0]) (cases os, simp add: wrote_Nil)
next
  case (Suc n)
  let ?w = "of_le (take 8 src)"
  have w: "le_bytes ?w = take 8 src" using Suc.prems by (intro le_bytes_of_le) simp
  have split: "within P a (8 * Suc n) \<longleftrightarrow> within P a 8 \<and> within P (a + 8) (8 * n)" for P
    using within_add [of P a 8 "8 * n"] by simp
  show ?case
  proof (cases "within (v_mapped V (os_kern os) p) a 8")
    case True
    obtain k1 where p1: "sys_ptrace_pokedata K p a ?w os = (0, os\<lparr>os_kern := k1\<rparr>)"
      "wrote V p a (take 8 src) (os_kern os) k1"
      using pokedata_ok [OF K True] w by metis
    have len: "length (take 8 src) = 8" using Suc.prems by simp
    have same: "within (v_mapped V k1 p) (a + 8) (8 * n) \<longleftrightarrow>
        within (v_mapped V (os_kern os) p) (a + 8) (8 * n)"
      unfolding within_iff using wrote_mapped_iff [OF p1(2)] True len by simp
    have "8 * n \<le> length (drop 8 src)" using Suc.prems by simp
    from Suc.IH [OF this, of "a + 8" "os\<lparr>os_kern := k1\<rparr>"]
    have "\<exists>m e k'. poke_words n K p (a + 8) (drop 8 src) (os\<lparr>os_kern := k1\<rparr>) =
        (within (v_mapped V (os_kern os) p) (a + 8) (8 * n), \<lparr>os_errno = e, os_kern = k'\<rparr>) \<and>
      wrote V p (a + 8) (take m (drop 8 src)) k1 k' \<and>
      (within (v_mapped V (os_kern os) p) (a + 8) (8 * n) \<longrightarrow> m = 8 * n \<and> e = os_errno os)"
      by (simp add: same)
    then obtain m e k' where r: "poke_words n K p (a + 8) (drop 8 src) (os\<lparr>os_kern := k1\<rparr>) =
        (within (v_mapped V (os_kern os) p) (a + 8) (8 * n), \<lparr>os_errno = e, os_kern = k'\<rparr>)"
      "wrote V p (a + 8) (take m (drop 8 src)) k1 k'"
      "within (v_mapped V (os_kern os) p) (a + 8) (8 * n) \<longrightarrow> m = 8 * n \<and> e = os_errno os"
      by blast
    have "take (8 + m) src = take 8 src @ take m (drop 8 src)" by (rule take_add)
    then have "wrote V p a (take (8 + m) src) (os_kern os) k'"
      using wrote_append [OF p1(2)] r(2) len by simp
    then show ?thesis
      using p1(1) r(1,3) True unfolding split
      by (intro exI [of _ "8 + m"] exI [of _ e] exI [of _ k']) simp
  next
    case False
    then obtain e where "sys_ptrace_pokedata K p a ?w os = (-1, set_errno e os)"
      using pokedata_failed [OF K] by metis
    then show ?thesis
      using False unfolding split
      by (intro exI [of _ 0] exI [of _ e] exI [of _ "os_kern os"])
        (cases os, simp add: wrote_Nil set_errno_def)
  qed
qed

text \<open>After a failed \<open>process_vm\<close> call a peek leaves \<open>errno\<close> set, whatever it does.\<close>

lemma peekdata_stale:
  assumes "kernel_memory K V" "e \<noteq> 0"
  obtains w e' where "sys_ptrace_peekdata K p a \<lparr>os_errno = e, os_kern = k\<rparr> =
    (w, \<lparr>os_errno = e', os_kern = k\<rparr>)" "e' \<noteq> 0"
proof (cases "within (v_mapped V k p) a 8")
  case True
  then show ?thesis using that peekdata_ok [OF assms(1), of "\<lparr>os_errno = e, os_kern = k\<rparr>" p a] assms(2) by simp
next
  case False
  then obtain e' where e': "e' \<in> {EIO, EFAULT}" "sys_ptrace_peekdata K p a \<lparr>os_errno = e, os_kern = k\<rparr> =
      (- 1, set_errno e' \<lparr>os_errno = e, os_kern = k\<rparr>)"
    using peekdata_failed [OF assms(1), of "\<lparr>os_errno = e, os_kern = k\<rparr>"] by (metis OS.select_convs(2))
  then have "e' \<noteq> 0" by auto
  with e'(2) that show ?thesis by (simp add: set_errno_def)
qed

definition write_ok :: "'k View \<Rightarrow> 'k \<Rightarrow> pid \<Rightarrow> u64 \<Rightarrow> nat \<Rightarrow> bool" where
  "write_ok V k p a n \<longleftrightarrow> within (v_writable V k p) a n \<or> 8 dvd n \<and> within (v_mapped V k p) a n"

lemma write_data_spec:
  assumes K: "kernel_memory K V" and len: "length src < 2 ^ 63"
  shows "\<exists>m e k'. write_data K tracee dest src os =
      (if write_ok V (os_kern os) (t_pid tracee) dest (length src) then 0 else - EFAULT,
       \<lparr>os_errno = e, os_kern = k'\<rparr>) \<and>
    wrote V (t_pid tracee) dest (take m src) (os_kern os) k' \<and>
    (write_ok V (os_kern os) (t_pid tracee) dest (length src) \<longrightarrow> m = length src)"
proof -
  let ?p = "t_pid tracee" and ?k = "os_kern os" and ?n = "length src div 8"
  show ?thesis
  proof (cases "within (v_writable V ?k ?p) dest (length src)")
    case True
    obtain k' where "sys_process_vm_writev K ?p [src] dest os = (int (length src), os\<lparr>os_kern := k'\<rparr>)"
      "wrote V ?p dest src ?k k'"
      using writev_ok [OF K, of "[src]" os ?p dest] len True by auto
    then show ?thesis
      using True by (intro exI [of _ "length src"] exI [of _ "os_errno os"] exI [of _ k'])
        (cases os, simp add: write_data_def write_ok_def)
  next
    case False
    obtain e where e: "sys_process_vm_writev K ?p [src] dest os = (-1, \<lparr>os_errno = e, os_kern = ?k\<rparr>)"
      "e \<noteq> 0"
      using writev_failed [OF K, of "[src]" os ?p dest] len False by (auto simp: set_errno_eq)
    define ok where "ok = within (v_mapped V ?k ?p) dest (8 * ?n)"
    obtain m e' k' where w:
      "poke_words ?n K ?p dest src \<lparr>os_errno = e, os_kern = ?k\<rparr> = (ok, \<lparr>os_errno = e', os_kern = k'\<rparr>)"
      "wrote V ?p dest (take m src) ?k k'" "ok \<longrightarrow> m = 8 * ?n \<and> e' = e"
      using poke_words_spec [OF K, of ?n src ?p dest "\<lparr>os_errno = e, os_kern = ?k\<rparr>"]
      unfolding ok_def by auto
    have n: "(length src - length src mod 8) div 8 = ?n"
      by (metis minus_mod_eq_div_mult nonzero_mult_div_cancel_right zero_neq_numeral)
    note start = write_data_def e(1) size_eq_failed [OF len] n Let_def w(1) prod.case
    show ?thesis
    proof (cases "length src mod 8 = 0")
      case True
      then have "8 * ?n = length src" by auto
      then have "write_ok V ?k ?p dest (length src) \<longleftrightarrow> ok"
        using False True by (auto simp: write_ok_def ok_def dvd_eq_mod_eq_0)
      then show ?thesis
        using w(2,3) True \<open>8 * ?n = length src\<close>
        by (intro exI [of _ m] exI [of _ e'] exI [of _ k']) (auto simp: start)
    next
      case odd: False
      then have bad: "\<not> write_ok V ?k ?p dest (length src)"
        using False by (simp add: write_ok_def dvd_eq_mod_eq_0)
      show ?thesis
      proof (cases ok)
        case True
        then obtain word e'' where
          "sys_ptrace_peekdata K ?p (dest + of_nat (8 * ?n)) \<lparr>os_errno = e', os_kern = k'\<rparr> =
           (word, \<lparr>os_errno = e'', os_kern = k'\<rparr>)" "e'' \<noteq> 0"
          using peekdata_stale [OF K] w(3) e(2) by metis
        then show ?thesis
          using True bad odd w(2)
          by (intro exI [of _ m] exI [of _ e''] exI [of _ k']) (simp add: start)
      next
        case False
        then show ?thesis
          using bad w(2) by (intro exI [of _ m] exI [of _ e'] exI [of _ k']) (simp add: start)
      qed
    qed
  qed
qed

section \<open>Reading\<close>

lemma read_data_spec:
  assumes K: "kernel_memory K V" and len: "sz < 2 ^ 63"
  shows "\<exists>bs e. read_data K tracee a sz os =
    (if within (v_readable V (os_kern os) (t_pid tracee)) a sz
     then (0, bytes_at (v_mem V (os_kern os) (t_pid tracee)) a sz, os)
     else (- EFAULT, bs, \<lparr>os_errno = e, os_kern = os_kern os\<rparr>))"
proof (cases "within (v_readable V (os_kern os) (t_pid tracee)) a sz")
  case True
  then show ?thesis using readv_ok [OF K len True] by (simp add: read_data_def)
next
  case False
  let ?p = "t_pid tracee" and ?k = "os_kern os"
  obtain bs e where e: "sys_process_vm_readv K ?p sz a os = (-1, bs, \<lparr>os_errno = e, os_kern = ?k\<rparr>)"
    "e \<noteq> 0"
    using readv_failed [OF K len False] by (auto simp: set_errno_eq)
  have n: "(sz - sz mod 8) div 8 = sz div 8"
    by (metis minus_mod_eq_div_mult nonzero_mult_div_cancel_right zero_neq_numeral)
  note start = read_data_def e(1) size_eq_failed [OF len] n Let_def prod.case
  obtain w e' where peek: "sys_ptrace_peekdata K ?p a \<lparr>os_errno = e, os_kern = ?k\<rparr> =
      (w, \<lparr>os_errno = e', os_kern = ?k\<rparr>)" "e' \<noteq> 0"
    using peekdata_stale [OF K e(2)] by metis
  show ?thesis
  proof (cases "sz div 8")
    case 0
    moreover from this False have "sz mod 8 \<noteq> 0" by (metis add_0 div_mult_mod_eq mult_0 within_0)
    ultimately show ?thesis
      using peek False by (intro exI [of _ "[]"] exI [of _ e']) (simp add: start)
  next
    case (Suc n')
    then show ?thesis
      using peek False by (intro exI [of _ "[]"] exI [of _ e']) (simp add: start)
  qed
qed

lemma drop_bit_12: "drop_bit 12 (a :: u64) = drop_bit 12 b \<longleftrightarrow> unat a div 4096 = unat b div 4096"
proof -
  have "drop_bit 12 a = drop_bit 12 b \<longleftrightarrow> unat (drop_bit 12 a) = unat (drop_bit 12 b)"
    by (rule word_eq_iff_unsigned)
  then show ?thesis by (simp add: drop_bit_eq_div unat_div)
qed

text \<open>A chunk lies in one page.\<close>

lemma chunk_page:
  assumes "i < next_bytes a room"
  shows "drop_bit 12 (a + of_nat i) = drop_bit 12 a"
proof -
  define q r where "q = unat a div 1024" and "r = unat a mod 1024"
  have ua: "unat a = 1024 * q + r" by (simp add: q_def r_def)
  have "i < 1024 - r" using assms by (simp add: next_bytes_alt r_def)
  then have i: "r + i < 1024" by linarith
  have "unat a < 2 ^ LENGTH(64)" by (rule unsigned_less)
  then have "1024 * q < 1024 * 2 ^ 54" using ua by simp
  then have "1024 * q + 1024 \<le> 2 ^ 64" by simp
  then have "unat (a + of_nat i) = unat a + i"
    using i ua by (subst unat_plus_nowrap) (simp_all add: unat_of_nat_u64)
  moreover have "(unat a + i) div 1024 = unat a div 1024" using i ua by simp
  then have "(unat a + i) div (1024 * 4) = unat a div (1024 * 4)" by (simp only: div_mult2_eq)
  ultimately show ?thesis by (simp add: drop_bit_12)
qed

lemma readable_chunk:
  assumes "kernel_memory K V" "0 < room"
  shows "within (v_readable V k p) a (next_bytes a room) \<longleftrightarrow> v_readable V k p a"
proof -
  have "v_readable V k p (a + of_nat i) = v_readable V k p a" if "i < next_bytes a room" for i
  proof -
    have "view_ok V" using assms(1) by (simp add: kernel_memory_def)
    then show ?thesis unfolding view_ok_def using chunk_page [OF that] by blast
  qed
  then have "\<forall>i < next_bytes a room. v_readable V k p (a + of_nat i) = v_readable V k p a" by blast
  then show ?thesis using next_bytes_pos [OF assms(2), of a] unfolding within_iff by blast
qed

lemma strnlen_eqI:
  "j \<le> length bs \<Longrightarrow> (\<And>i. i < j \<Longrightarrow> bs ! i \<noteq> 0) \<Longrightarrow> (j < length bs \<Longrightarrow> bs ! j = 0) \<Longrightarrow> strnlen bs = j"
  unfolding strnlen_def using takeWhile_eq_take_P_nth [of j bs "\<lambda>b. b \<noteq> 0"] by auto

lemma next_bytes_le: "next_bytes a room \<le> room" "next_bytes a room \<le> 1024"
  by (auto simp: next_bytes_alt)

text \<open>A terminator at \<open>l\<close>, in readable memory.\<close>

lemma read_chunks_terminator:
  assumes K: "kernel_memory K V" and l: "l < max_size"
    and r: "\<And>i. i \<le> l \<Longrightarrow> v_readable V (os_kern os) p (src + of_nat i)"
    and nz: "\<And>i. i < l \<Longrightarrow> the (v_mem V (os_kern os) p (src + of_nat i)) \<noteq> 0"
    and z: "the (v_mem V (os_kern os) p (src + of_nat l)) = 0"
    and off: "offset \<le> l"
  shows "\<exists>bs. read_chunks K p src max_size offset os = (Terminator (Suc l), bs, os) \<and>
    take (Suc l - offset) bs = bytes_at (v_mem V (os_kern os) p) (src + of_nat offset) (Suc l - offset)"
  using off
proof (induction "max_size - offset" arbitrary: offset rule: less_induct)
  case less
  let ?m = "v_mem V (os_kern os) p" and ?a = "src + of_nat offset"
  let ?sz = "next_bytes ?a (max_size - offset)"
  let ?bs = "bytes_at ?m ?a ?sz"
  have room: "0 < max_size - offset" using less.prems l by simp
  have sz: "0 < ?sz" "?sz \<le> 1024" "offset + ?sz \<le> max_size"
    using next_bytes_pos [OF room] next_bytes_le [of ?a "max_size - offset"] room by auto
  have "within (v_readable V (os_kern os) p) ?a ?sz"
    using readable_chunk [OF K room] r [OF less.prems] by simp
  then have rd: "sys_process_vm_readv K p ?sz ?a os = (int ?sz, ?bs, os)"
    using readv_ok [OF K] sz(2) by simp
  have nth: "?bs ! i = the (?m (src + of_nat (offset + i)))" if "i < ?sz" for i
    using that by (simp add: nth_bytes_at add.assoc)
  show ?case
  proof (cases "l - offset < ?sz")
    case True
    have "strnlen ?bs = l - offset"
      using True less.prems z nth nz [of "offset + _"] by (intro strnlen_eqI) (auto simp del: of_nat_add)
    moreover have "take (Suc l - offset) ?bs = bytes_at ?m ?a (Suc l - offset)"
      using True less.prems by (simp add: take_bytes_at min_absorb1)
    ultimately show ?thesis
      using rd True less.prems l
      by (subst read_chunks.simps) (simp add: Let_def Suc_diff_le)
  next
    case False
    then have off': "offset + ?sz \<le> l" using less.prems by simp
    have sn: "strnlen ?bs = ?sz"
      using off' nth nz [of "offset + _"] by (intro strnlen_eqI) (auto simp del: of_nat_add)
    have "max_size - (offset + ?sz) < max_size - offset" using sz room by simp
    from less.hyps [OF this off'] obtain bs where rec:
      "read_chunks K p src max_size (offset + ?sz) os = (Terminator (Suc l), bs, os)"
      "take (Suc l - (offset + ?sz)) bs =
         bytes_at ?m (src + of_nat (offset + ?sz)) (Suc l - (offset + ?sz))"
      by blast
    have "take (Suc l - offset) (?bs @ bs) = bytes_at ?m ?a (Suc l - offset)"
    proof -
      have "Suc l - offset = ?sz + (Suc l - (offset + ?sz))" using off' by simp
      then show ?thesis
        using rec(2) bytes_at_add [of ?m ?a ?sz "Suc l - (offset + ?sz)"]
        by (simp add: add.assoc)
    qed
    then show ?thesis
      using rd off' l sn rec(1) by (subst read_chunks.simps) (simp add: Let_def)
  qed
qed

lemma string_fallback_stale:
  assumes K: "kernel_memory K V" and "e \<noteq> 0"
  shows "\<exists>e'. string_fallback K p src max_size \<lparr>os_errno = e, os_kern = k\<rparr> =
    (- EFAULT, [], \<lparr>os_errno = e', os_kern = k\<rparr>)"
proof -
  obtain w e' where peek: "sys_ptrace_peekdata K p src \<lparr>os_errno = e, os_kern = k\<rparr> =
      (w, \<lparr>os_errno = e', os_kern = k\<rparr>)" "e' \<noteq> 0"
    using peekdata_stale [OF assms] by metis
  show ?thesis
  proof (cases "(max_size - max_size mod 8) div 8")
    case 0
    with peek show ?thesis by (intro exI [of _ e']) (simp add: string_fallback_def)
  next
    case (Suc n)
    with peek show ?thesis by (intro exI [of _ e']) (simp add: string_fallback_def)
  qed
qed

text \<open>No terminator before the unreadable byte at \<open>u\<close>.\<close>

lemma read_chunks_unreadable:
  assumes K: "kernel_memory K V" and u: "u < max_size"
    and r: "\<And>i. i < u \<Longrightarrow> v_readable V (os_kern os) p (src + of_nat i)"
    and nz: "\<And>i. i < u \<Longrightarrow> the (v_mem V (os_kern os) p (src + of_nat i)) \<noteq> 0"
    and bad: "\<not> v_readable V (os_kern os) p (src + of_nat u)"
    and off: "offset \<le> u"
  shows "\<exists>bs e. read_chunks K p src max_size offset os =
    (Fallback, bs, \<lparr>os_errno = e, os_kern = os_kern os\<rparr>) \<and> e \<noteq> 0"
  using off
proof (induction "max_size - offset" arbitrary: offset rule: less_induct)
  case less
  let ?m = "v_mem V (os_kern os) p" and ?a = "src + of_nat offset"
  let ?sz = "next_bytes ?a (max_size - offset)"
  let ?bs = "bytes_at ?m ?a ?sz"
  have room: "0 < max_size - offset" using less.prems u by simp
  have sz: "0 < ?sz" "?sz \<le> 1024" "offset + ?sz \<le> max_size"
    using next_bytes_pos [OF room] next_bytes_le [of ?a "max_size - offset"] room by auto
  show ?case
  proof (cases "offset = u")
    case True
    then have "\<not> within (v_readable V (os_kern os) p) ?a ?sz"
      using readable_chunk [OF K room] bad by simp
    then obtain bs e where "sys_process_vm_readv K p ?sz ?a os =
        (-1, bs, \<lparr>os_errno = e, os_kern = os_kern os\<rparr>)" "e \<noteq> 0"
      using readv_failed [OF K, of ?sz os p ?a] sz(2) by (auto simp: set_errno_eq)
    then show ?thesis
      using sz(2) size_eq_failed [of ?sz] by (subst read_chunks.simps) (simp add: Let_def)
  next
    case False
    then have lt: "offset < u" using less.prems by simp
    then have w: "within (v_readable V (os_kern os) p) ?a ?sz"
      using readable_chunk [OF K room] r by simp
    then have rd: "sys_process_vm_readv K p ?sz ?a os = (int ?sz, ?bs, os)"
      using readv_ok [OF K] sz(2) by simp
    have off': "offset + ?sz \<le> u"
    proof (rule ccontr)
      assume "\<not> offset + ?sz \<le> u"
      then have "v_readable V (os_kern os) p (?a + of_nat (u - offset))"
        using w lt by (intro withinD [OF w]) simp
      with bad lt show False by (simp add: of_nat_diff)
    qed
    have "?bs ! i = the (?m (src + of_nat (offset + i)))" if "i < ?sz" for i
      using that by (simp add: nth_bytes_at add.assoc)
    then have sn: "strnlen ?bs = ?sz"
      using off' nz [of "offset + _"] by (intro strnlen_eqI) (auto simp del: of_nat_add)
    have "max_size - (offset + ?sz) < max_size - offset" using sz room by simp
    from less.hyps [OF this off'] obtain bs e where
      "read_chunks K p src max_size (offset + ?sz) os =
        (Fallback, bs, \<lparr>os_errno = e, os_kern = os_kern os\<rparr>)" "e \<noteq> 0"
      by blast
    then show ?thesis
      using rd off' u sn by (subst read_chunks.simps) (simp add: Let_def)
  qed
qed

lemma c_int_small: "0 \<le> i \<Longrightarrow> i < 2 ^ 31 \<Longrightarrow> c_int i = i"
  by (simp add: c_int_def signed_take_bit_int_eq_self)

lemma read_chunks_unterminated:
  assumes K: "kernel_memory K V" 
    and r: "\<And>i. i < max_size \<Longrightarrow> v_readable V (os_kern os) p (src + of_nat i)"
    and nz: "\<And>i. i < max_size \<Longrightarrow> the (v_mem V (os_kern os) p (src + of_nat i)) \<noteq> 0"
    and off: "offset \<le> max_size" "0 < max_size \<longrightarrow> offset < max_size"
  shows "\<exists>bs. read_chunks K p src max_size offset os = (Fallback, bs, os) \<and>
    length bs = max_size - offset"
  using off
proof (induction "max_size - offset" arbitrary: offset rule: less_induct)
  case less
  let ?m = "v_mem V (os_kern os) p" and ?a = "src + of_nat offset"
  let ?sz = "next_bytes ?a (max_size - offset)"
  let ?bs = "bytes_at ?m ?a ?sz"
  show ?case
  proof (cases "offset = max_size")
    case True
    then show ?thesis
      using less.prems readv_ok [OF K, of 0 os p ?a] next_bytes_le(1) [of ?a 0]
      by (subst read_chunks.simps) (simp add: Let_def strnlen_def)
  next
    case False
    then have room: "0 < max_size - offset" using less.prems by simp
    have sz: "0 < ?sz" "?sz \<le> 1024" "offset + ?sz \<le> max_size"
      using next_bytes_pos [OF room] next_bytes_le [of ?a "max_size - offset"] room by auto
    have "within (v_readable V (os_kern os) p) ?a ?sz"
      using readable_chunk [OF K room] r room by simp
    then have rd: "sys_process_vm_readv K p ?sz ?a os = (int ?sz, ?bs, os)"
      using readv_ok [OF K] sz(2) by simp
    have "?bs ! i = the (?m (src + of_nat (offset + i)))" if "i < ?sz" for i
      using that by (simp add: nth_bytes_at add.assoc)
    then have sn: "strnlen ?bs = ?sz"
      using sz(3) nz [of "offset + _"] by (intro strnlen_eqI) (auto simp del: of_nat_add)
    show ?thesis
    proof (cases "offset + ?sz < max_size")
      case True
      have "max_size - (offset + ?sz) < max_size - offset" using sz room by simp
      from less.hyps [OF this] True obtain bs where
        "read_chunks K p src max_size (offset + ?sz) os = (Fallback, bs, os)"
        "length bs = max_size - (offset + ?sz)" by auto
      then show ?thesis
        using rd sn True by (subst read_chunks.simps) (simp add: Let_def)
    next
      case False
      then show ?thesis
        using rd sn sz by (subst read_chunks.simps) (simp add: Let_def)
    qed
  qed
qed

lemma le_bytes_of_le_at [simp]: "le_bytes (of_le (bytes_at m a 8)) = bytes_at m a 8"
  by (rule le_bytes_of_le) simp

lemma peek_string_no_nul:
  assumes K: "kernel_memory K V" and e: "os_errno os = 0"
    and "within (v_mapped V (os_kern os) p) src (8 * n)"
    and "\<forall>i < 8 * n. the (v_mem V (os_kern os) p (src + of_nat i)) \<noteq> 0"
  shows "peek_string n j K p src os = (None, bytes_at (v_mem V (os_kern os) p) src (8 * n), os)"
  using assms(3,4)
proof (induction n arbitrary: j src)
  case (Suc n)
  let ?m = "v_mem V (os_kern os) p"
  have w: "within (v_mapped V (os_kern os) p) src 8" "within (v_mapped V (os_kern os) p) (src + 8) (8 * n)"
    using Suc.prems(1) within_add [of _ src 8 "8 * n"] by auto
  have z: "\<forall>i < 8. the (?m (src + of_nat i)) \<noteq> 0" using Suc.prems(2) by simp
  have "\<forall>i < 8 * n. the (?m (src + of_nat (8 + i))) \<noteq> 0"
    using Suc.prems(2) by (auto simp del: of_nat_add)
  then have "\<forall>i < 8 * n. the (?m (src + 8 + of_nat i)) \<noteq> 0" by (simp add: add.assoc)
  moreover have "strnlen (bytes_at ?m src 8) = 8"
    using z by (intro strnlen_eqI) (auto simp: nth_bytes_at)
  moreover have "bytes_at ?m src (8 * Suc n) = bytes_at ?m src 8 @ bytes_at ?m (src + 8) (8 * n)"
    using bytes_at_add [of ?m src 8 "8 * n"] by simp
  ultimately show ?case
    using peekdata_ok [OF K w(1)] e Suc.IH [OF w(2)] by (simp add: Let_def)
qed simp

lemma readable_mapped: "kernel_memory K V \<Longrightarrow> v_readable V k p a \<Longrightarrow> v_mapped V k p a"
  unfolding kernel_memory_def view_ok_def by blast

lemma string_fallback_no_nul:
  assumes K: "kernel_memory K V" and e: "os_errno os = 0"
    and m: "within (v_mapped V (os_kern os) p) src (8 * (max_size div 8) + 8)"
    and z: "\<forall>i < max_size. the (v_mem V (os_kern os) p (src + of_nat i)) \<noteq> 0"
  shows "string_fallback K p src max_size os =
    (c_int (int (max_size + 1)), bytes_at (v_mem V (os_kern os) p) src max_size, os)"
proof -
  let ?m = "v_mem V (os_kern os) p" and ?n = "max_size div 8"
  let ?a = "src + of_nat (8 * ?n)"
  have n: "(max_size - max_size mod 8) div 8 = ?n"
    by (metis minus_mod_eq_div_mult nonzero_mult_div_cancel_right zero_neq_numeral)
  have w: "within (v_mapped V (os_kern os) p) src (8 * ?n)" "within (v_mapped V (os_kern os) p) ?a 8"
    using m unfolding within_add by auto
  have split: "max_size = 8 * ?n + max_size mod 8" by simp
  have len: "8 * ?n \<le> max_size" by simp
  have words: "peek_string ?n 0 K p src os = (None, bytes_at ?m src (8 * ?n), os)"
    using z len by (intro peek_string_no_nul [OF K e w(1)]) (meson less_le_trans)
  have take: "take (max_size mod 8) (bytes_at ?m ?a 8) = bytes_at ?m ?a (max_size mod 8)"
    by (simp add: take_bytes_at min_absorb1)
  have "the (?m (?a + of_nat i)) \<noteq> 0" if "i < max_size mod 8" for i
  proof -
    have "8 * ?n + i < max_size" using that by (metis split nat_add_left_cancel_less)
    then have "the (?m (src + of_nat (8 * ?n + i))) \<noteq> 0" using z by blast
    then show ?thesis by (simp add: add.assoc)
  qed
  then have nul: "strnlen (bytes_at ?m ?a (max_size mod 8)) = max_size mod 8"
    by (intro strnlen_eqI) (auto simp: nth_bytes_at)
  have "bytes_at ?m src max_size = bytes_at ?m src (8 * ?n) @ bytes_at ?m ?a (max_size mod 8)"
    using bytes_at_add [of ?m src "8 * ?n" "max_size mod 8"] split by simp
  moreover have "?n * 8 + max_size mod 8 + 1 = max_size + 1" by simp
  ultimately show ?thesis
    using words peekdata_ok [OF K w(2)] e take nul n
    unfolding string_fallback_def Let_def n words prod.case option.case
    by (simp del: of_nat_mult)
qed

section \<open>What the callers rely on\<close>

text \<open>
  The memory of a tracee as an interface: a successful write puts the bytes, a read of memory
  that may be read returns them, and neither changes what may be read.
\<close>

definition disjoint :: "u64 \<Rightarrow> nat \<Rightarrow> u64 \<Rightarrow> nat \<Rightarrow> bool" where
  "disjoint a n b m \<longleftrightarrow> (\<forall>i < n. \<forall>j < m. a + of_nat i \<noteq> b + of_nat j)"

locale tracee_memory =
  fixes good :: bool
    and mem :: "'s \<Rightarrow> space"
    and can_read :: "'s \<Rightarrow> u64 \<Rightarrow> nat \<Rightarrow> bool"
    and wr :: "u64 \<Rightarrow> byte list \<Rightarrow> 's \<Rightarrow> int \<times> 's"
    and rd :: "u64 \<Rightarrow> nat \<Rightarrow> 's \<Rightarrow> int \<times> byte list \<times> 's"
  assumes wr_mem: "good \<Longrightarrow> length bs < 2 ^ 63 \<Longrightarrow> wr a bs s = (0, s') \<Longrightarrow>
      mem s' = put_bytes (mem s) a bs"
    and wr_can_read: "good \<Longrightarrow> length bs < 2 ^ 63 \<Longrightarrow> wr a bs s = (st, s') \<Longrightarrow>
      can_read s' = can_read s"
    and rd_bytes: "good \<Longrightarrow> n < 2 ^ 63 \<Longrightarrow> can_read s a n \<Longrightarrow>
      rd a n s = (0, bytes_at (mem s) a n, s)"
begin

lemma rd_wr:
  assumes "good" "length bs < 2 ^ 63" "wr a bs s = (0, s')" "can_read s a (length bs)"
  shows "rd a (length bs) s' = (0, bs, s')"
  using assms wr_mem [OF assms(1-3)] wr_can_read [OF assms(1-3)] rd_bytes [of "length bs" s' a] by simp

lemma rd_wr_disjoint:
  assumes "good" "length bs < 2 ^ 63" "n < 2 ^ 63" "wr a bs s = (0, s')" "can_read s b n"
    "disjoint a (length bs) b n"
  shows "rd b n s' = (0, bytes_at (mem s) b n, s')"
proof -
  have "bytes_at (put_bytes (mem s) a bs) b n = bytes_at (mem s) b n"
  proof (rule nth_equalityI)
    fix i assume "i < length (bytes_at (put_bytes (mem s) a bs) b n)"
    then have "i < n" by simp
    then have "\<forall>j < length bs. b + of_nat i \<noteq> a + of_nat j"
      using assms(6) by (metis disjoint_def)
    then show "bytes_at (put_bytes (mem s) a bs) b n ! i = bytes_at (mem s) b n ! i"
      using \<open>i < n\<close> by (simp add: nth_bytes_at put_bytes_other)
  qed simp
  then show ?thesis
    using assms wr_mem [OF assms(1,2,4)] wr_can_read [OF assms(1,2,4)] rd_bytes [of n s' b] by simp
qed

lemma rd_wr_wr:
  assumes "good" "length bs < 2 ^ 63" "length cs < 2 ^ 63" "wr a bs s = (0, s1)"
    "wr c cs s1 = (0, s2)" "can_read s a (length bs)" "disjoint c (length cs) a (length bs)"
  shows "rd a (length bs) s2 = (0, bs, s2)"
  using assms rd_wr_disjoint [OF assms(1,3,2,5) _ assms(7)] wr_mem [OF assms(1,2,4)]
    wr_can_read [OF assms(1,2,4)]
  by simp

end

lemma write_data_cases:
  assumes "kernel_memory K V" "length src < 2 ^ 63" "write_data K tracee dest src os = (status, os')"
  shows "status = (if write_ok V (os_kern os) (t_pid tracee) dest (length src) then 0 else - EFAULT)"
    and "\<exists>m. wrote V (t_pid tracee) dest (take m src) (os_kern os) (os_kern os') \<and>
      (status = 0 \<longrightarrow> m = length src)"
proof -
  obtain m e k' where w: "write_data K tracee dest src os =
      (if write_ok V (os_kern os) (t_pid tracee) dest (length src) then 0 else - EFAULT,
       \<lparr>os_errno = e, os_kern = k'\<rparr>)"
    "wrote V (t_pid tracee) dest (take m src) (os_kern os) k'"
    "write_ok V (os_kern os) (t_pid tracee) dest (length src) \<longrightarrow> m = length src"
    using write_data_spec [OF assms(1,2), of tracee dest os] by blast
  then show "status = (if write_ok V (os_kern os) (t_pid tracee) dest (length src) then 0 else - EFAULT)"
    and "\<exists>m. wrote V (t_pid tracee) dest (take m src) (os_kern os) (os_kern os') \<and>
      (status = 0 \<longrightarrow> m = length src)"
    using assms(3) by (auto split: if_splits intro!: exI [of _ m])
qed

interpretation data: tracee_memory "kernel_memory K V" "\<lambda>os :: 'k OS. v_mem V (os_kern os) (t_pid tracee)"
  "\<lambda>os :: 'k OS. within (v_readable V (os_kern os) (t_pid tracee))" "write_data K tracee" "read_data K tracee"
  for K :: "'k Kernel" and V tracee
proof
  fix bs a and s s' :: "'k OS" assume "kernel_memory K V" "length bs < 2 ^ 63" "write_data K tracee a bs s = (0, s')"
  then show "v_mem V (os_kern s') (t_pid tracee) = put_bytes (v_mem V (os_kern s) (t_pid tracee)) a bs"
    using write_data_cases(2) [of K V bs tracee a s 0 s'] by (auto simp: wrote_def)
next
  fix bs a st and s s' :: "'k OS" assume "kernel_memory K V" "length bs < 2 ^ 63" "write_data K tracee a bs s = (st, s')"
  then show "within (v_readable V (os_kern s') (t_pid tracee)) =
      within (v_readable V (os_kern s) (t_pid tracee))"
    using write_data_cases(2) [of K V bs tracee a s st s'] by (auto simp: wrote_def)
next
  fix n a and s :: "'k OS" assume "kernel_memory K V" "n < 2 ^ 63" "within (v_readable V (os_kern s) (t_pid tracee)) a n"
  then show "read_data K tracee a n s = (0, bytes_at (v_mem V (os_kern s) (t_pid tracee)) a n, s)"
    using read_data_spec [of K V n tracee a s] by auto
qed

section \<open>Words\<close>

lemma of_le_take4: "of_le (take 4 (le_bytes v)) = v AND 0xFFFFFFFF"
proof (rule bit_eqI)
  fix n assume "possible_bit TYPE(u64) n"
  then have n: "n < 64" by simp
  have "n div 8 < 4 \<longleftrightarrow> n < 32" by auto
  moreover have "8 * (n div 8) + n mod 8 = n" by simp
  ultimately show "bit (of_le (take 4 (le_bytes v))) n \<longleftrightarrow> bit (v AND 0xFFFFFFFF) n"
    using n by (simp only: bit_and_iff bit_mask32)
      (auto simp: bit_of_le nth_le_bytes bit_ucast_iff bit_drop_bit_eq)
qed

lemma sizeof_word_cases: "sizeof_word tracee = 4 \<and> t_is_aarch32 tracee \<or> sizeof_word tracee = 8 \<and> \<not> t_is_aarch32 tracee"
  by (simp add: sizeof_word_def is_32on64_mode_def)

lemma poke_word_writable:
  assumes K: "kernel_memory K V"
    and w: "within (v_writable V (os_kern os) (t_pid tracee)) a (sizeof_word tracee)"
  obtains k' where "poke_word K tracee a v os = \<lparr>os_errno = 0, os_kern = k'\<rparr>"
    "wrote V (t_pid tracee) a (take (sizeof_word tracee) (le_bytes v)) (os_kern os) k'"
proof -
  let ?n = "sizeof_word tracee" and ?p = "t_pid tracee"
  let ?bs = "take ?n (le_bytes v)"
  have n: "?n \<le> 8" "0 < ?n" using sizeof_word_cases [of tracee] by auto
  then have len: "length ?bs = ?n" by auto
  obtain k' where "sys_process_vm_writev K ?p [?bs] a (set_errno 0 os) =
      (int (length (concat [?bs])), (set_errno 0 os)\<lparr>os_kern := k'\<rparr>)"
    "wrote V ?p a (concat [?bs]) (os_kern (set_errno 0 os)) k'"
    by (rule writev_ok [OF K, of "[?bs]" "set_errno 0 os" ?p a]) (use len n w in \<open>auto simp: set_errno_eq\<close>)
  then have k: "sys_process_vm_writev K ?p [?bs] a (set_errno 0 os) =
      (int ?n, \<lparr>os_errno = 0, os_kern = k'\<rparr>)" "wrote V ?p a ?bs (os_kern os) k'"
    unfolding set_errno_eq using len by simp_all
  with n show ?thesis using that [of k'] by (simp add: poke_word_def)
qed

lemma peek_word_readable:
  assumes K: "kernel_memory K V"
    and r: "within (v_readable V (os_kern os) (t_pid tracee)) a (sizeof_word tracee)"
  shows "peek_word K tracee a os =
    (of_le (bytes_at (v_mem V (os_kern os) (t_pid tracee)) a (sizeof_word tracee)),
     \<lparr>os_errno = 0, os_kern = os_kern os\<rparr>)"
proof -
  have n: "sizeof_word tracee < 2 ^ 63" "0 < sizeof_word tracee" using sizeof_word_cases [of tracee] by auto
  have "sys_process_vm_readv K (t_pid tracee) (sizeof_word tracee) a (set_errno 0 os) =
      (int (sizeof_word tracee), bytes_at (v_mem V (os_kern os) (t_pid tracee)) a (sizeof_word tracee),
       \<lparr>os_errno = 0, os_kern = os_kern os\<rparr>)"
    using readv_ok [OF K n(1), of "set_errno 0 os" "t_pid tracee" a] r by (simp add: set_errno_eq)
  then show ?thesis using n(2) by (simp add: peek_word_def)
qed

lemma of_le_word: "of_le (take (sizeof_word tracee) (le_bytes v)) = norm_word tracee v"
  using sizeof_word_cases [of tracee]
  by (auto simp: norm_word_def is_32on64_mode_def of_le_take4)

lemma peek_poke_word_inv:
  assumes K: "kernel_memory K V"
    and w: "within (v_writable V (os_kern os) (t_pid tracee)) a (sizeof_word tracee)"
    and r: "within (v_readable V (os_kern os) (t_pid tracee)) a (sizeof_word tracee)"
  shows "fst (peek_word K tracee a (poke_word K tracee a v os)) = norm_word tracee v \<and>
    os_errno (snd (peek_word K tracee a (poke_word K tracee a v os))) = 0"
proof -
  let ?bs = "take (sizeof_word tracee) (le_bytes v)"
  obtain k' where poke: "poke_word K tracee a v os = \<lparr>os_errno = 0, os_kern = k'\<rparr>"
    and k': "wrote V (t_pid tracee) a ?bs (os_kern os) k'"
    by (rule poke_word_writable [OF K w])
  have len: "length ?bs = sizeof_word tracee" "length ?bs \<le> 2 ^ 64" using sizeof_word_cases [of tracee] by auto
  have "bytes_at (v_mem V k' (t_pid tracee)) a (sizeof_word tracee) = ?bs"
    using k' bytes_at_put_bytes [OF len(2)] unfolding len(1) by (simp add: wrote_def)
  moreover have "within (v_readable V k' (t_pid tracee)) a (sizeof_word tracee)"
    using k' r by (simp add: wrote_def)
  ultimately show ?thesis
    unfolding poke using peek_word_readable [OF K, of "\<lparr>os_errno = 0, os_kern = k'\<rparr>" tracee a]
    by (simp add: of_le_word)
qed

section \<open>Stack allocation\<close>

lemma align_size_pos:
  assumes "0 < sz"
  shows "sz \<le> align_size sz" "align_size sz < sz + 16" "16 dvd align_size sz"
proof -
  have "(sz - 1) sdiv 16 = (sz - 1) div 16"
    using assms by (cases "sz = 1") (auto simp: signed_divide_int_def)
  then show "sz \<le> align_size sz" "align_size sz < sz + 16" "16 dvd align_size sz"
    by (auto simp: align_size_def)
qed

lemma peek_reg_small: "t_is_aarch32 tracee \<Longrightarrow> unat (peek_reg tracee version reg) < 2 ^ 32"
proof -
  assume "t_is_aarch32 tracee"
  moreover have u: "unat x < 2 ^ 32" for x :: u32
    using unsigned_less [where 'a = nat, of x] by simp
  moreover have "unat (ucast x :: u64) = unat x" for x :: u32
    using u [of x] by (simp add: unsigned_ucast_eq take_bit_nat_eq_self_iff)
  ultimately show ?thesis by (simp add: peek_reg_alt)
qed

lemma alloc_mem_cases:
  assumes "IS_IN_SYSENTER tracee" "0 < sz" "sz < 2 ^ 62"
    and sp: "sp = unat (peek_reg tracee CURRENT STACK_POINTER)" and n: "n = nat (align_size sz)"
  shows "if sp \<le> n then alloc_mem tracee sz = Some (0, tracee)
    else \<exists>a. alloc_mem tracee sz = Some (a, poke_reg tracee STACK_POINTER a) \<and> unat a + n = sp \<and>
      peek_reg (poke_reg tracee STACK_POINTER a) CURRENT STACK_POINTER = a"
proof -
  let ?sp = "peek_reg tracee CURRENT STACK_POINTER"
  have al: "0 < align_size sz" "align_size sz < 2 ^ 63"
    using align_size_pos [OF assms(2)] assms(2,3) by auto
  then have "n < 2 ^ 64" using n by simp
  then have w: "of_int (align_size sz) = (of_nat n :: u64)" "unat (of_nat n :: u64) = n" "0 < n"
    using n al unat_of_nat_u64 [of n] by simp_all
  have le: "?sp \<le> of_nat n \<longleftrightarrow> sp \<le> n" using w(2) sp by (simp add: word_le_nat_alt)
  show ?thesis
  proof (cases "sp \<le> n")
    case True
    then show ?thesis using assms(1) al w le by (simp add: alloc_mem_def Let_def)
  next
    case False
    then have ua: "unat (?sp - of_nat n) = sp - n"
      using w(2) sp by (subst unat_sub) (simp_all add: word_le_nat_alt)
    have "norm_word tracee (?sp - of_nat n) = ?sp - of_nat n"
    proof (cases "t_is_aarch32 tracee")
      case True
      then show ?thesis using peek_reg_small [OF True, of CURRENT STACK_POINTER] ua sp
        by (intro norm_word_small) simp
    qed (simp add: norm_word_def)
    then show ?thesis
      using False assms(1) al w le ua
      by (simp add: alloc_mem_def Let_def peek_poke)
  qed
qed

section \<open>Properties\<close>

text \<open>C5: \<open>write_data\<close> is correct and atomic in what it reports: it returns 0 exactly when the
  region is writable by \<open>process_vm_writev\<close> or is mapped and a multiple of the word size, and
  then the source is in the memory of the tracee and nothing else changed; otherwise it
  returns \<open>- EFAULT\<close> and wrote a prefix at most.  (The word-by-word fallback can not finish a
  partial word: \<open>errno\<close> still holds the error of the failed call when it is tested.)\<close>

theorem write_data_correct:
  assumes "kernel_memory K V" "length src < 2 ^ 63"
    and "write_data K tracee dest src os = (status, os')"
  shows "(status = 0 \<longleftrightarrow>
            within (v_writable V (os_kern os) (t_pid tracee)) dest (length src) \<or>
            8 dvd length src \<and> within (v_mapped V (os_kern os) (t_pid tracee)) dest (length src)) \<and>
         (status = 0 \<or> status = - EFAULT) \<and>
         (\<exists>m. wrote V (t_pid tracee) dest (take m src) (os_kern os) (os_kern os') \<and>
              (status = 0 \<longrightarrow> m = length src))"
proof -
  have s: "status = (if write_ok V (os_kern os) (t_pid tracee) dest (length src) then 0 else - EFAULT)"
    by (rule write_data_cases(1) [OF assms])
  have "status = 0 \<longleftrightarrow> write_ok V (os_kern os) (t_pid tracee) dest (length src)"
    "status = 0 \<or> status = - EFAULT"
    unfolding s by auto
  then show ?thesis
    using write_data_cases(2) [OF assms] by (simp add: write_ok_def)
qed

lemma ram_page5: "n < 4096 \<Longrightarrow> within ram_rw 0x5000 n"
proof -
  assume "n < 4096"
  then have "drop_bit 12 (0x5000 + of_nat i :: u64) = 5" if "i < n" for i
  proof -
    have "unat (0x5000 + of_nat i :: u64) = 0x5000 + i"
      using that \<open>n < 4096\<close> by (subst unat_plus_nowrap) (simp_all add: unat_of_nat_u64)
    moreover have "(0x5000 + i) div 4096 = 5" using that \<open>n < 4096\<close> by simp
    ultimately have "drop_bit 12 (0x5000 + of_nat i :: u64) = drop_bit 12 0x5000"
      by (simp only: drop_bit_12) simp
    then show ?thesis by simp
  qed
  then show ?thesis by (auto simp: within_iff ram_rw_def)
qed

lemma ram_view_simps:
  "v_writable ram_view k p = ram_rw" "v_readable ram_view k p = ram_ok"
  "v_mem ram_view k p = ram_space (ram_mem k p)"
  by (simp_all add: ram_view_def)

theorem write_data_correct_witness:
  "fst (write_data ram_kernel calloc_tracee 0x5000 [1, 2, 3] ram_boot) = 0"
  using write_data_correct [OF ram_kernel_memory _ prod.collapse [symmetric],
      where src = "[1, 2, 3]" and tracee = calloc_tracee and dest = "0x5000" and os = ram_boot]
    ram_page5 [of "Suc (Suc (Suc 0))"]
  by (simp add: ram_view_simps)

text \<open>C17: what is written with \<open>write_data\<close> is what \<open>read_data\<close> returns, and a second write to
  a region disjoint from the first does not change it.\<close>

theorem write_read_data:
  assumes "kernel_memory K V" "length bs < 2 ^ 63" "length cs < 2 ^ 63"
    and "write_data K tracee a bs os = (0, os1)" "write_data K tracee c cs os1 = (0, os2)"
    and "within (v_readable V (os_kern os) (t_pid tracee)) a (length bs)"
    and "disjoint c (length cs) a (length bs)"
  shows "read_data K tracee a (length bs) os2 = (0, bs, os2)"
  using assms by (rule data.rd_wr_wr)

theorem write_read_data_witness:
  "read_data ram_kernel calloc_tracee 0x5000 2
     (snd (write_data ram_kernel calloc_tracee 0x5010 [9]
       (snd (write_data ram_kernel calloc_tracee 0x5000 [1, 2] ram_boot)))) =
   (0, [1, 2], snd (write_data ram_kernel calloc_tracee 0x5010 [9]
       (snd (write_data ram_kernel calloc_tracee 0x5000 [1, 2] ram_boot))))"
proof -
  have w: "within ram_rw 0x5000 2" "within ram_rw 0x5010 1"
    using ram_page5 [of 2] ram_page5 [of "16 + 1"] unfolding within_add by simp_all
  then have r: "within ram_ok 0x5000 2" by (simp add: ram_within_rw)
  have fst: "fst (write_data ram_kernel calloc_tracee 0x5000 [1, 2] os) = 0"
    "fst (write_data ram_kernel calloc_tracee 0x5010 [9] os) = 0" for os
    using w w(1) [unfolded numeral_2_eq_2] write_data_cases(1) [OF ram_kernel_memory _ prod.collapse [symmetric],
        where src = "[1, 2]" and tracee = calloc_tracee and dest = "0x5000" and os = os]
      write_data_cases(1) [OF ram_kernel_memory _ prod.collapse [symmetric],
        where src = "[9]" and tracee = calloc_tracee and dest = "0x5010" and os = os]
    by (simp_all add: ram_view_simps write_ok_def)
  have "disjoint 0x5010 1 0x5000 2"
    unfolding disjoint_def
  proof (intro allI impI)
    fix i j :: nat assume "i < 1" "j < 2"
    then have "i = 0" "j = 0 \<or> j = 1" by auto
    then show "(0x5010 + of_nat i :: u64) \<noteq> 0x5000 + of_nat j" by (elim disjE) simp_all
  qed
  then show ?thesis
    using write_read_data [OF ram_kernel_memory, where bs = "[1, 2]" and cs = "[9]" and
        tracee = calloc_tracee and a = "0x5000" and os = ram_boot and c = "0x5010" and
        ?os1.0 = "snd (write_data ram_kernel calloc_tracee 0x5000 [1, 2] ram_boot)" and
        ?os2.0 = "snd (write_data ram_kernel calloc_tracee 0x5010 [9]
           (snd (write_data ram_kernel calloc_tracee 0x5000 [1, 2] ram_boot)))"] r r [unfolded numeral_2_eq_2] fst
    by (simp add: ram_view_simps prod_eq_iff flip: numeral_2_eq_2)
qed

text \<open>C6: \<open>read_string\<close> finds the terminator of a string whose bytes are readable, even when
  the pages after it are not: it returns the length with the terminator, and the buffer starts
  with the string; no assertion fails.\<close>

theorem read_string_terminated:
  assumes "kernel_memory K V" "l < max_size" "max_size < 2 ^ 31"
    and "\<And>i. i \<le> l \<Longrightarrow> v_readable V (os_kern os) (t_pid tracee) (src + of_nat i)"
    and "\<And>i. i < l \<Longrightarrow> the (v_mem V (os_kern os) (t_pid tracee) (src + of_nat i)) \<noteq> 0"
    and "the (v_mem V (os_kern os) (t_pid tracee) (src + of_nat l)) = 0"
  shows "\<exists>dest. read_string K tracee src max_size os = Some (int (Suc l), dest, os) \<and>
    take (Suc l) dest = bytes_at (v_mem V (os_kern os) (t_pid tracee)) src (Suc l)"
proof -
  obtain bs where "read_chunks K (t_pid tracee) src max_size 0 os = (Terminator (Suc l), bs, os)"
    "take (Suc l) bs = bytes_at (v_mem V (os_kern os) (t_pid tracee)) src (Suc l)"
    using read_chunks_terminator [OF assms(1,2,4,5,6), of 0] by auto
  then show ?thesis
    using assms(2,3) by (simp add: read_string_def c_int_small)
qed

definition hi :: "Ram OS" where
  "hi = ram_store 0 0x5000 [104, 105, 0] ram_boot"

lemma hi_readable: "i \<le> 2 \<Longrightarrow> v_readable ram_view (os_kern hi) p (0x5000 + of_nat i)"
  using withinD [OF ram_within_rw [OF ram_page5 [of 3]], of i] by (simp add: ram_view_simps)

lemma hi_mem: "i \<le> 2 \<Longrightarrow> v_mem ram_view (os_kern hi) 0 (0x5000 + of_nat i) = Some ([104, 105, 0] ! i)"
proof -
  assume i: "i \<le> 2"
  then have "ram_mem (os_kern hi) 0 (0x5000 + of_nat i) = [104, 105, 0] ! i"
    by (auto simp: hi_def ram_store_def le_Suc_eq numeral_2_eq_2)
  with hi_readable [OF i] show ?thesis by (simp add: ram_view_simps ram_space_def)
qed

lemma hi_nonzero: "i < 2 \<Longrightarrow> the (v_mem ram_view (os_kern hi) 0 (0x5000 + of_nat i)) \<noteq> 0"
proof -
  assume "i < 2"
  then have "i = 0 \<or> i = 1" by auto
  then show ?thesis using hi_mem [of 0] hi_mem [of 1] by (elim disjE) simp_all
qed

lemma hi_zero: "the (v_mem ram_view (os_kern hi) 0 (0x5000 + of_nat 2)) = 0"
  using hi_mem [of 2] by simp

theorem read_string_terminated_witness:
  "\<exists>dest. read_string ram_kernel calloc_tracee 0x5000 16 hi = Some (3, dest, hi) \<and>
    take 3 dest = [104, 105, 0]"
proof -
  have b: "bytes_at (v_mem ram_view (os_kern hi) 0) 0x5000 3 = [104, 105, 0]"
    by (rule nth_equalityI) (use hi_mem in \<open>auto simp: nth_bytes_at\<close>)
  have p: "t_pid calloc_tracee = 0" by (simp add: calloc_tracee_def)
  have "\<exists>dest. read_string ram_kernel calloc_tracee 0x5000 16 hi = Some (int (Suc 2), dest, hi) \<and>
      take (Suc 2) dest = bytes_at (v_mem ram_view (os_kern hi) (t_pid calloc_tracee)) 0x5000 (Suc 2)"
    by (rule read_string_terminated [OF ram_kernel_memory])
      (simp_all only: p hi_readable hi_nonzero hi_zero, simp_all)
  then show ?thesis unfolding p using b by simp
qed

text \<open>without a terminator in the first \<open>max_size\<close> bytes, \<open>read_string\<close> reports one byte
  more than \<open>max_size\<close>, although the buffer has \<open>max_size\<close> bytes; a caller that stores a
  terminator at the index returned writes past its buffer.\<close>

theorem read_string_unterminated:
  assumes "kernel_memory K V" "max_size < 2 ^ 31 - 1" "os_errno os = 0"
    and "\<And>i. i < max_size \<Longrightarrow> v_readable V (os_kern os) (t_pid tracee) (src + of_nat i)"
    and "\<And>i. i < max_size \<Longrightarrow> the (v_mem V (os_kern os) (t_pid tracee) (src + of_nat i)) \<noteq> 0"
    and "within (v_mapped V (os_kern os) (t_pid tracee)) src (8 * (max_size div 8) + 8)"
  shows "read_string K tracee src max_size os =
    Some (int max_size + 1, bytes_at (v_mem V (os_kern os) (t_pid tracee)) src max_size, os)"
proof -
  have "\<exists>bs. read_chunks K (t_pid tracee) src max_size 0 os = (Fallback, bs, os) \<and>
      length bs = max_size - 0"
    by (rule read_chunks_unterminated [OF assms(1,4,5)]) auto
  then obtain bs where c: "read_chunks K (t_pid tracee) src max_size 0 os = (Fallback, bs, os)"
    "length bs = max_size"
    by auto
  have "string_fallback K (t_pid tracee) src max_size os =
      (c_int (int (max_size + 1)), bytes_at (v_mem V (os_kern os) (t_pid tracee)) src max_size, os)"
    using assms by (intro string_fallback_no_nul) auto
  with c assms(2) show ?thesis by (simp add: read_string_def c_int_small)
qed

definition ones :: "Ram OS" where
  "ones = ram_boot\<lparr>os_kern := os_kern ram_boot\<lparr>ram_mem := (\<lambda>_ _. 1)\<rparr>\<rparr>"

theorem read_string_unterminated_witness:
  "read_string ram_kernel calloc_tracee 0x5000 9 ones = Some (10, replicate 9 1, ones)"
proof -
  have ok: "ram_ok (0x5000 + of_nat i)" if "i < 16" for i
    using withinD [OF ram_within_rw [OF ram_page5 [of 16]], of i] that by simp
  have m: "v_mem ram_view (os_kern ones) p (0x5000 + of_nat i) = Some 1" if "i < 16" for i p
    using ok [OF that] by (simp add: ram_view_simps ram_space_def ones_def)
  have "read_string ram_kernel calloc_tracee 0x5000 9 ones =
      Some (int 9 + 1, bytes_at (v_mem ram_view (os_kern ones) (t_pid calloc_tracee)) 0x5000 9, ones)"
  proof (rule read_string_unterminated [OF ram_kernel_memory])
    show "v_readable ram_view (os_kern ones) (t_pid calloc_tracee) (0x5000 + of_nat i)" if "i < 9" for i
      using ok that by (simp add: ram_view_simps)
    show "the (v_mem ram_view (os_kern ones) (t_pid calloc_tracee) (0x5000 + of_nat i)) \<noteq> 0"
      if "i < 9" for i
      using m that by simp
    show "within (v_mapped ram_view (os_kern ones) (t_pid calloc_tracee)) 0x5000 (8 * (9 div 8) + 8)"
      using ram_within_rw [OF ram_page5 [of 16]] by (simp add: ram_mapped)
  qed (simp_all add: ones_def ram_boot_def)
  moreover have "bytes_at (v_mem ram_view (os_kern ones) p) 0x5000 9 = replicate 9 1" for p
    by (rule nth_equalityI) (use m in \<open>auto simp: nth_bytes_at\<close>)
  ultimately show ?thesis by simp
qed

text \<open>A word poked in the memory of a tracee is read back in the word size of the tracee,
  with no error.\<close>

theorem peek_poke_word:
  assumes "kernel_memory K V"
    and "within (v_writable V (os_kern os) (t_pid tracee)) a (sizeof_word tracee)"
    and "within (v_readable V (os_kern os) (t_pid tracee)) a (sizeof_word tracee)"
  shows "fst (peek_word K tracee a (poke_word K tracee a v os)) =
      (if t_is_aarch32 tracee then v AND 0xFFFFFFFF else v) \<and>
    os_errno (snd (peek_word K tracee a (poke_word K tracee a v os))) = 0"
  using peek_poke_word_inv [OF assms] by (simp add: norm_word_def)

theorem peek_poke_word_witness:
  "fst (peek_word ram_kernel (calloc_tracee\<lparr>t_is_aarch32 := True\<rparr>) 0x5000
     (poke_word ram_kernel (calloc_tracee\<lparr>t_is_aarch32 := True\<rparr>) 0x5000 0x123456789A ram_boot)) = 0x3456789A"
  using peek_poke_word [OF ram_kernel_memory, where os = ram_boot and a = "0x5000" and
      tracee = "calloc_tracee\<lparr>t_is_aarch32 := True\<rparr>" and v = "0x123456789A"] ram_page5 [of 4] ram_within_rw [OF ram_page5 [of 4]]
  by (simp add: ram_view_simps sizeof_word_def is_32on64_mode_def)

text \<open>C18: \<open>alloc_mem\<close> reserves \<open>size\<close> bytes rounded up to the stack alignment right below the
  stack pointer, which it moves to the region it returns; when they do not fit below the stack
  pointer it returns 0 and leaves the tracee alone.\<close>

theorem alloc_mem_region:
  assumes "IS_IN_SYSENTER tracee" "0 < sz" "sz < 2 ^ 62"
    and "alloc_mem tracee sz = Some (a, tracee')"
  shows "\<exists>n. sz \<le> int n \<and> int n < sz + 16 \<and> 16 dvd n \<and>
    (if unat (peek_reg tracee CURRENT STACK_POINTER) \<le> n then a = 0 \<and> tracee' = tracee
     else unat a + n = unat (peek_reg tracee CURRENT STACK_POINTER) \<and> 0 < unat a \<and>
          peek_reg tracee' CURRENT STACK_POINTER = a \<and>
          (\<forall>r. reg_cell tracee r \<noteq> reg_cell tracee STACK_POINTER \<longrightarrow>
               peek_reg tracee' CURRENT r = peek_reg tracee CURRENT r))"
proof -
  define n where "n = nat (align_size sz)"
  have "int n = align_size sz" using align_size_pos [OF assms(2)] assms(2) by (simp add: n_def)
  then have n: "sz \<le> int n" "int n < sz + 16" "16 dvd n"
    using align_size_pos [OF assms(2)] by (simp_all flip: int_dvd_int_iff)
  then show ?thesis
    using alloc_mem_cases [OF assms(1-3) refl n_def] assms(4)
    by (intro exI [of _ n]) (auto simp: peek_poke)
qed

theorem alloc_mem_region_witness:
  "\<exists>n. (100 :: int) \<le> int n \<and> unat (0x5000 - 112 :: u64) + n = unat (0x5000 :: u64)"
proof -
  let ?t = "poke_reg calloc_tracee STACK_POINTER 0x5000"
  have sp: "peek_reg ?t CURRENT STACK_POINTER = 0x5000"
    by (simp add: peek_poke norm_word_def calloc_tracee_def)
  have e: "IS_IN_SYSENTER ?t" by (simp add: IS_IN_SYSENTER_def reg_simps calloc_tracee_def)
  have "align_size 100 = 112" by (simp add: align_size_def signed_divide_int_def)
  then have "alloc_mem ?t 100 = Some (0x5000 - 112, poke_reg ?t STACK_POINTER (0x5000 - 112))"
    using e sp by (simp add: alloc_mem_def Let_def)
  from alloc_mem_region [OF e _ _ this] sp show ?thesis by force
qed

end
