(* ===== verification/Auxv.thy ===== *)
theory Auxv
  imports Mem
begin

text \<open>
  The ELF auxiliary vectors of execve/auxv.c: where the kernel puts them on the stack of a new
  program, and the exchange of the table with the memory of the tracee.

  An array of \<open>ElfAuxVector\<close> is a list with its sentinel.  The loops that follow the memory of the
  tracee are \<open>partial_function (option)\<close>s: not returning is \<open>None\<close>, like a failed assertion, so
  that the properties, which give the value returned, prove that the loops end.
\<close>

unbundle bit_operations_syntax

section \<open>Definitions\<close>

record ElfAuxVector =
  av_type :: u64
  av_value :: u64

abbreviation AT_NULL :: u64 where "AT_NULL \<equiv> 0"

definition sentinel :: ElfAuxVector where
  "sentinel = \<lparr>av_type = AT_NULL, av_value = 0\<rparr>"

text \<open>
  An array of vectors is a list with its sentinel; \<open>alloc\<close> answers the request for an array of
  that many items.  \<open>None\<close> is a failed assertion, or a read past the end of the array.
\<close>

definition add_elf_aux_vector ::
    "(nat \<Rightarrow> bool) \<Rightarrow> ElfAuxVector list \<Rightarrow> u64 \<Rightarrow> u64 \<Rightarrow> (int \<times> ElfAuxVector list) option" where
  "add_elf_aux_vector alloc vectors type v =
     (let nb_vectors = length vectors
      in if \<not> nb_vectors > 0 then None
         else if av_type (vectors ! (nb_vectors - 1)) \<noteq> AT_NULL then None
         else if \<not> alloc (nb_vectors + 1) then Some (- ENOMEM, vectors)
         else Some (0, vectors[nb_vectors - 1 := \<lparr>av_type = type, av_value = v\<rparr>] @
                       [\<lparr>av_type = AT_NULL, av_value = 0\<rparr>]))"

text \<open>The loop that skips the environment; it ends when a word is null or can not be read.\<close>

partial_function (option) skip_envp ::
    "'k Kernel \<Rightarrow> Tracee \<Rightarrow> u64 \<Rightarrow> 'k OS \<Rightarrow> (u64 \<times> 'k OS) option" where
  "skip_envp K tracee address os =
     (case peek_word K tracee address os of
        (data, os) \<Rightarrow>
          if os_errno os \<noteq> 0 then Some (0, os)
          else if data = 0 then Some (address + of_nat (sizeof_word tracee), os)
          else skip_envp K tracee (address + of_nat (sizeof_word tracee)) os)"

definition IS_IN_SYSEXIT2 :: "Tracee \<Rightarrow> Sysnum \<Rightarrow> bool option" where
  "IS_IN_SYSEXIT2 tracee sysnum =
     (if IS_IN_SYSEXIT tracee
      then map_option (\<lambda>s. s = sysnum) (get_sysnum tracee ORIGINAL) else Some False)"

definition get_elf_aux_vectors_address ::
    "'k Kernel \<Rightarrow> Tracee \<Rightarrow> 'k OS \<Rightarrow> (u64 \<times> 'k OS) option" where
  "get_elf_aux_vectors_address K tracee os =
     (if IS_IN_SYSEXIT2 tracee PR_execve \<noteq> Some True then None
      else let address = peek_reg tracee CURRENT STACK_POINTER
           in case peek_word K tracee address os of
                (data, os) \<Rightarrow>
                  if os_errno os \<noteq> 0 then Some (0, os)
                  else skip_envp K tracee
                         (address + (1 + data + 1) * of_nat (sizeof_word tracee)) os)"

text \<open>\<open>fetch_elf_aux_vectors\<close> returns a null pointer on error.\<close>

partial_function (option) fetch_loop ::
    "'k Kernel \<Rightarrow> (nat \<Rightarrow> bool) \<Rightarrow> Tracee \<Rightarrow> ElfAuxVector list \<Rightarrow> u64 \<Rightarrow> 'k OS \<Rightarrow>
     (ElfAuxVector list option \<times> 'k OS) option" where
  "fetch_loop K alloc tracee vectors address os =
     (case peek_word K tracee address os of
        (type, os) \<Rightarrow>
          if os_errno os \<noteq> 0 then Some (None, os)
          else if type = AT_NULL then Some (Some vectors, os)
          else
            (case peek_word K tracee (address + of_nat (sizeof_word tracee)) os of
               (v, os) \<Rightarrow>
                 if os_errno os \<noteq> 0 then Some (None, os)
                 else
                   (case add_elf_aux_vector alloc vectors type v of
                      None \<Rightarrow> None
                    | Some (status, vectors) \<Rightarrow>
                        if status < 0 then Some (None, os)
                        else fetch_loop K alloc tracee vectors
                               (address + of_nat (sizeof_word tracee) + of_nat (sizeof_word tracee))
                               os)))"

definition fetch_elf_aux_vectors ::
    "'k Kernel \<Rightarrow> (nat \<Rightarrow> bool) \<Rightarrow> Tracee \<Rightarrow> u64 \<Rightarrow> 'k OS \<Rightarrow>
     (ElfAuxVector list option \<times> 'k OS) option" where
  "fetch_elf_aux_vectors K alloc tracee address os =
     (if \<not> alloc 1 then Some (None, os)
      else fetch_loop K alloc tracee [\<lparr>av_type = AT_NULL, av_value = 0\<rparr>] address os)"

text \<open>The four stores of \<open>push_elf_aux_vectors\<close> have the same test behind them.\<close>

definition push_word ::
    "'k Kernel \<Rightarrow> Tracee \<Rightarrow> u64 \<Rightarrow> u64 \<Rightarrow> 'k OS \<Rightarrow> (u64 \<Rightarrow> 'k OS \<Rightarrow> (int \<times> 'k OS) option) \<Rightarrow>
     (int \<times> 'k OS) option" where
  "push_word K tracee address v os continue =
     (let os = poke_word K tracee address v os
      in if os_errno os \<noteq> 0 then Some (- os_errno os, os)
         else continue (address + of_nat (sizeof_word tracee)) os)"

fun push_elf_aux_vectors ::
    "'k Kernel \<Rightarrow> Tracee \<Rightarrow> ElfAuxVector list \<Rightarrow> u64 \<Rightarrow> 'k OS \<Rightarrow> (int \<times> 'k OS) option" where
  "push_elf_aux_vectors K tracee [] address os = None"
| "push_elf_aux_vectors K tracee (v # vectors) address os =
     (if av_type v \<noteq> AT_NULL then
        push_word K tracee address (av_type v) os (\<lambda>address os.
          push_word K tracee address (av_value v) os (\<lambda>address os.
            push_elf_aux_vectors K tracee vectors address os))
      else
        push_word K tracee address AT_NULL os (\<lambda>address os.
          push_word K tracee address 0 os (\<lambda>address os. Some (0, os))))"

section \<open>Words in memory\<close>

definition word_bytes :: "Tracee \<Rightarrow> u64 list \<Rightarrow> byte list" where
  "word_bytes tracee ws = concat (map (\<lambda>w. take (sizeof_word tracee) (le_bytes w)) ws)"

lemma word_bytes_simps [simp]:
  "word_bytes tracee [] = []"
  "word_bytes tracee (w # ws) = take (sizeof_word tracee) (le_bytes w) @ word_bytes tracee ws"
  "word_bytes tracee (ws @ ws') = word_bytes tracee ws @ word_bytes tracee ws'"
  by (simp_all add: word_bytes_def)

lemma min_word [simp]: "min 8 (sizeof_word tracee) = sizeof_word tracee"
  using sizeof_word_cases [of tracee] by auto

lemma length_word_bytes [simp]: "length (word_bytes tracee ws) = sizeof_word tracee * length ws"
  by (induction ws) simp_all

text \<open>The words at an address.\<close>

definition holds_words :: "'k View \<Rightarrow> 'k \<Rightarrow> Tracee \<Rightarrow> u64 \<Rightarrow> u64 list \<Rightarrow> bool" where
  "holds_words V k tracee a ws \<longleftrightarrow>
     within (v_readable V k (t_pid tracee)) a (sizeof_word tracee * length ws) \<and>
     bytes_at (v_mem V k (t_pid tracee)) a (sizeof_word tracee * length ws) = word_bytes tracee ws"

lemma holds_words_Cons:
  "holds_words V k tracee a (w # ws) \<longleftrightarrow>
     within (v_readable V k (t_pid tracee)) a (sizeof_word tracee) \<and>
     bytes_at (v_mem V k (t_pid tracee)) a (sizeof_word tracee) =
       take (sizeof_word tracee) (le_bytes w) \<and>
     holds_words V k tracee (a + of_nat (sizeof_word tracee)) ws"
  by (auto simp: holds_words_def within_add bytes_at_add)

lemma peek_holds:
  "kernel_memory K V \<Longrightarrow> holds_words V (os_kern os) tracee a (w # ws) \<Longrightarrow>
   peek_word K tracee a os = (norm_word tracee w, \<lparr>os_errno = 0, os_kern = os_kern os\<rparr>)"
  by (simp add: holds_words_Cons peek_word_readable of_le_word)

lemma holds_wrote:
  assumes "wrote V (t_pid tracee) a (word_bytes tracee ws) k k'"
    "within (v_readable V k (t_pid tracee)) a (sizeof_word tracee * length ws)"
    "sizeof_word tracee * length ws \<le> 2 ^ 64"
  shows "holds_words V k' tracee a ws"
  using assms bytes_at_put_bytes [of "word_bytes tracee ws" "v_mem V k (t_pid tracee)" a]
  by (simp add: holds_words_def wrote_def)


lemma push_word_holds:
  assumes K: "kernel_memory K V"
    and w: "within (v_writable V (os_kern os) (t_pid tracee)) a (sizeof_word tracee)"
  obtains k' where "wrote V (t_pid tracee) a (word_bytes tracee [v]) (os_kern os) k'"
    "\<And>continue. push_word K tracee a v os continue =
       continue (a + of_nat (sizeof_word tracee)) \<lparr>os_errno = 0, os_kern = k'\<rparr>"
proof -
  obtain k' where "poke_word K tracee a v os = \<lparr>os_errno = 0, os_kern = k'\<rparr>"
    "wrote V (t_pid tracee) a (take (sizeof_word tracee) (le_bytes v)) (os_kern os) k'"
    by (rule poke_word_writable [OF K w])
  then show ?thesis using that [of k'] by (simp add: push_word_def)
qed

lemma wrote_writable: "wrote V p a bs k k' \<Longrightarrow> v_writable V k' = v_writable V k \<and> v_readable V k' = v_readable V k"
  by (auto simp: wrote_def)

lemma push_pair:
  assumes K: "kernel_memory K V"
    and w: "within (v_writable V (os_kern os) (t_pid tracee)) a (sizeof_word tracee * 2)"
  obtains k' where "wrote V (t_pid tracee) a (word_bytes tracee [u, v]) (os_kern os) k'"
    "\<And>f. push_word K tracee a u os (\<lambda>b os'. push_word K tracee b v os' f) =
       f (a + of_nat (sizeof_word tracee * 2)) \<lparr>os_errno = 0, os_kern = k'\<rparr>"
proof -
  let ?n = "sizeof_word tracee"
  have w2: "within (v_writable V (os_kern os) (t_pid tracee)) a ?n"
    "within (v_writable V (os_kern os) (t_pid tracee)) (a + of_nat ?n) ?n"
    using w unfolding mult_2_right within_add by blast+
  obtain k1 where k1: "wrote V (t_pid tracee) a (word_bytes tracee [u]) (os_kern os) k1"
    "\<And>f. push_word K tracee a u os f = f (a + of_nat ?n) \<lparr>os_errno = 0, os_kern = k1\<rparr>"
    using push_word_holds [OF K w2(1)] by metis
  let ?os1 = "\<lparr>os_errno = 0, os_kern = k1\<rparr>"
  have "within (v_writable V (os_kern ?os1) (t_pid tracee)) (a + of_nat ?n) ?n"
    using w2(2) wrote_writable [OF k1(1)] by simp
  then obtain k2 where k2: "wrote V (t_pid tracee) (a + of_nat ?n) (word_bytes tracee [v]) k1 k2"
    "\<And>f. push_word K tracee (a + of_nat ?n) v ?os1 f = f (a + of_nat ?n + of_nat ?n) \<lparr>os_errno = 0, os_kern = k2\<rparr>"
    using push_word_holds [OF K, of ?os1 tracee "a + of_nat ?n" v] by (metis OS.select_convs(2))
  have "wrote V (t_pid tracee) a (word_bytes tracee [u, v]) (os_kern os) k2"
    using wrote_append [OF k1(1), of "word_bytes tracee [v]" k2] k2(1) by simp
  then show ?thesis using that [of k2] k1(2) k2(2) by (simp add: mult_2_right add.assoc)
qed

definition flat :: "ElfAuxVector list \<Rightarrow> u64 list" where
  "flat vs = concat (map (\<lambda>v. [av_type v, av_value v]) vs)"

lemma flat_simps [simp]:
  "flat [] = []" "flat (v # vs) = av_type v # av_value v # flat vs" "flat (vs @ vs') = flat vs @ flat vs'"
  by (simp_all add: flat_def)

lemma length_flat [simp]: "length (flat vs) = 2 * length vs"
  by (induction vs) simp_all

lemma push_spec:
  assumes "kernel_memory K V" "\<forall>v \<in> set vs. av_type v \<noteq> AT_NULL"
    "within (v_writable V (os_kern os) (t_pid tracee)) a (sizeof_word tracee * (2 * length vs + 2))"
  shows "\<exists>k'. push_elf_aux_vectors K tracee (vs @ [sentinel]) a os =
      Some (0, \<lparr>os_errno = 0, os_kern = k'\<rparr>) \<and>
    wrote V (t_pid tracee) a (word_bytes tracee (flat (vs @ [sentinel]))) (os_kern os) k'"
  using assms(2,3)
proof (induction vs arbitrary: a os)
  case Nil
  then have "within (v_writable V (os_kern os) (t_pid tracee)) a (sizeof_word tracee * 2)"
    by (simp only: list.size mult_0_right add_0)
  from push_pair [OF assms(1) this, of AT_NULL 0] show ?case by (simp add: sentinel_def) metis
next
  case (Cons v vs)
  let ?n = "sizeof_word tracee"
  have len: "?n * (2 * length (v # vs) + 2) = ?n * 2 + ?n * (2 * length vs + 2)"
    by (simp add: algebra_simps)
  have w: "within (v_writable V (os_kern os) (t_pid tracee)) a (?n * 2)"
    "within (v_writable V (os_kern os) (t_pid tracee)) (a + of_nat (?n * 2)) (?n * (2 * length vs + 2))"
    using Cons.prems(2) unfolding len within_add by blast+
  obtain k1 where k1: "wrote V (t_pid tracee) a (word_bytes tracee [av_type v, av_value v]) (os_kern os) k1"
    "\<And>f. push_word K tracee a (av_type v) os (\<lambda>b os'. push_word K tracee b (av_value v) os' f) =
       f (a + of_nat (?n * 2)) \<lparr>os_errno = 0, os_kern = k1\<rparr>"
    using push_pair [OF assms(1) w(1), of "av_type v" "av_value v"] by metis
  have "within (v_writable V k1 (t_pid tracee)) (a + of_nat (?n * 2)) (?n * (2 * length vs + 2))"
    using w(2) wrote_writable [OF k1(1)] by simp
  then obtain k' where k': "push_elf_aux_vectors K tracee (vs @ [sentinel]) (a + of_nat (?n * 2))
      \<lparr>os_errno = 0, os_kern = k1\<rparr> = Some (0, \<lparr>os_errno = 0, os_kern = k'\<rparr>)"
    "wrote V (t_pid tracee) (a + of_nat (?n * 2)) (word_bytes tracee (flat (vs @ [sentinel]))) k1 k'"
    using Cons.IH [of "\<lparr>os_errno = 0, os_kern = k1\<rparr>" "a + of_nat (?n * 2)"] Cons.prems(1) by auto
  have "length (word_bytes tracee [av_type v, av_value v]) = ?n * 2" by simp
  then have "wrote V (t_pid tracee) a (word_bytes tracee [av_type v, av_value v] @
      word_bytes tracee (flat (vs @ [sentinel]))) (os_kern os) k'"
    by (intro wrote_append [OF k1(1)]) (simp only: k'(2))
  then have "wrote V (t_pid tracee) a (word_bytes tracee (flat ((v # vs) @ [sentinel]))) (os_kern os) k'"
    by simp
  then show ?case using k1(2) k'(1) Cons.prems(1) by auto
qed

lemma add_sentinel:
  "add_elf_aux_vector (\<lambda>_. True) (vs @ [sentinel]) type v =
    Some (0, (vs @ [\<lparr>av_type = type, av_value = v\<rparr>]) @ [sentinel])"
  by (simp add: add_elf_aux_vector_def sentinel_def)

definition fits :: "Tracee \<Rightarrow> ElfAuxVector \<Rightarrow> bool" where
  "fits tracee v \<longleftrightarrow> av_type v \<noteq> AT_NULL \<and>
     norm_word tracee (av_type v) = av_type v \<and> norm_word tracee (av_value v) = av_value v"

lemma norm_word_0 [simp]: "norm_word tracee 0 = 0" by (simp add: norm_word_def)

lemma fetch_loop_spec:
  assumes "kernel_memory K V" "\<forall>v \<in> set vs. fits tracee v"
    "holds_words V (os_kern os) tracee a (flat (vs @ [sentinel]))"
  shows "fetch_loop K (\<lambda>_. True) tracee (us @ [sentinel]) a os =
    Some (Some ((us @ vs) @ [sentinel]), \<lparr>os_errno = 0, os_kern = os_kern os\<rparr>)"
  using assms(2,3)
proof (induction vs arbitrary: us a os)
  case Nil
  then show ?case
    by (subst fetch_loop.simps) (simp add: peek_holds [OF assms(1) Nil.prems(2) [simplified]] sentinel_def)
next
  case (Cons v vs)
  let ?n = "of_nat (sizeof_word tracee) :: u64" and ?os = "\<lparr>os_errno = 0, os_kern = os_kern os\<rparr>"
  have h: "holds_words V (os_kern os) tracee a (av_type v # av_value v # flat (vs @ [sentinel]))"
    using Cons.prems(2) by simp
  then have h1: "holds_words V (os_kern ?os) tracee (a + ?n) (av_value v # flat (vs @ [sentinel]))"
    and h2: "holds_words V (os_kern ?os) tracee (a + ?n + ?n) (flat (vs @ [sentinel]))"
    by (simp_all add: holds_words_Cons)
  have f: "fits tracee v" and v: "\<lparr>av_type = av_type v, av_value = av_value v\<rparr> = v"
    using Cons.prems(1) by simp_all
  have "fetch_loop K (\<lambda>_. True) tracee (us @ [sentinel]) a os =
      fetch_loop K (\<lambda>_. True) tracee ((us @ [v]) @ [sentinel]) (a + ?n + ?n) ?os"
    using f by (subst fetch_loop.simps)
      (simp add: peek_holds [OF assms(1) h] peek_holds [OF assms(1) h1] fits_def
        add_sentinel [simplified] v)
  also have "\<dots> = Some (Some (((us @ [v]) @ vs) @ [sentinel]), ?os)"
    using Cons.IH [of ?os "a + ?n + ?n" "us @ [v]"] h2 Cons.prems(1) by simp
  finally show ?case by simp
qed


section \<open>The stack after execve\<close>

lemma norm_word_of_nat:
  assumes "n < 2 ^ 32"
  shows "norm_word tracee (of_nat n) = of_nat n"
proof -
  have "(0xFFFFFFFF :: u64) = mask 32" by (simp add: mask_eq_exp_minus_1)
  moreover have "(of_nat n :: u64) AND mask 32 = of_nat n"
    unfolding take_bit_eq_mask [symmetric] take_bit_of_nat using assms by (simp add: take_bit_nat_eq_self)
  ultimately have "(of_nat n :: u64) AND 0xFFFFFFFF = of_nat n" by argo
  then show ?thesis by (simp add: norm_word_def)
qed

lemma skip_envp_spec:
  assumes "kernel_memory K V" "\<forall>w \<in> set envp. norm_word tracee w \<noteq> 0"
    "holds_words V (os_kern os) tracee a (envp @ [0])"
  shows "skip_envp K tracee a os =
    Some (a + of_nat (sizeof_word tracee * (length envp + 1)), \<lparr>os_errno = 0, os_kern = os_kern os\<rparr>)"
  using assms(2,3)
proof (induction envp arbitrary: a os)
  case Nil
  then show ?case
    by (subst skip_envp.simps) (simp add: peek_holds [OF assms(1) Nil.prems(2) [simplified]])
next
  case (Cons w envp)
  let ?n = "of_nat (sizeof_word tracee) :: u64" and ?os = "\<lparr>os_errno = 0, os_kern = os_kern os\<rparr>"
  have h: "holds_words V (os_kern os) tracee a (w # envp @ [0])"
    "holds_words V (os_kern ?os) tracee (a + ?n) (envp @ [0])"
    using Cons.prems(2) by (simp_all add: holds_words_Cons)
  have "skip_envp K tracee a os = skip_envp K tracee (a + ?n) ?os"
    using Cons.prems(1) by (subst skip_envp.simps) (simp add: peek_holds [OF assms(1) h(1)])
  also have "\<dots> = Some (a + ?n + of_nat (sizeof_word tracee * (length envp + 1)), ?os)"
    using Cons.IH [of ?os "a + ?n"] h(2) Cons.prems(1) by simp
  finally show ?case by (simp add: algebra_simps)
qed

lemma holds_words_append:
  "holds_words V k tracee a (ws @ ws') \<longleftrightarrow>
     holds_words V k tracee a ws \<and> holds_words V k tracee (a + of_nat (sizeof_word tracee * length ws)) ws'"
  by (auto simp: holds_words_def within_add bytes_at_add distrib_left)

lemma behind_envp:
  assumes "kernel_memory K V" "IS_IN_SYSEXIT2 tracee PR_execve = Some True"
    and "holds_words V (os_kern os) tracee (peek_reg tracee CURRENT STACK_POINTER)
           (of_nat (length argv) # argv @ [0] @ envp @ [0])"
    and "length argv < 2 ^ 32" "\<forall>w \<in> set envp. norm_word tracee w \<noteq> 0"
  shows "get_elf_aux_vectors_address K tracee os =
    Some (peek_reg tracee CURRENT STACK_POINTER +
            of_nat (sizeof_word tracee * (length argv + length envp + 3)),
          \<lparr>os_errno = 0, os_kern = os_kern os\<rparr>)"
proof -
  let ?a = "peek_reg tracee CURRENT STACK_POINTER" and ?n = "sizeof_word tracee"
  have "norm_word tracee (of_nat (length argv)) = of_nat (length argv)"
    by (rule norm_word_of_nat [OF assms(4)])
  then have argc: "peek_word K tracee ?a os = (of_nat (length argv), \<lparr>os_errno = 0, os_kern = os_kern os\<rparr>)"
    using peek_holds [OF assms(1,3)] by simp
  have "holds_words V (os_kern os) tracee (?a + of_nat (?n * (length argv + 2))) (envp @ [0])"
    using assms(3) by (simp add: holds_words_Cons holds_words_append algebra_simps)
  then have "skip_envp K tracee (?a + (1 + of_nat (length argv) + 1) * of_nat ?n) \<lparr>os_errno = 0, os_kern = os_kern os\<rparr> =
      Some (?a + of_nat (?n * (length argv + 2)) + of_nat (?n * (length envp + 1)),
        \<lparr>os_errno = 0, os_kern = os_kern os\<rparr>)"
    using skip_envp_spec [OF assms(1,5), of "\<lparr>os_errno = 0, os_kern = os_kern os\<rparr>" "?a + of_nat (?n * (length argv + 2))"]
    by (simp add: algebra_simps)
  then show ?thesis using argc assms(2)
    by (simp add: get_elf_aux_vectors_address_def Let_def algebra_simps)
qed

section \<open>Properties\<close>

text \<open>C23: on the stack the kernel builds for a new program (the argument count, the arguments, a
  null word, the environment, a null word) \<open>get_elf_aux_vectors_address\<close> returns, and its result
  is the address right behind.\<close>

theorem aux_vectors_behind_envp:
  assumes "kernel_memory K V" "IS_IN_SYSEXIT2 tracee PR_execve = Some True"
    and "holds_words V (os_kern os) tracee (peek_reg tracee CURRENT STACK_POINTER)
           (of_nat (length argv) # argv @ [0] @ envp @ [0])"
    and "length argv < 2 ^ 32" "\<forall>w \<in> set envp. norm_word tracee w \<noteq> 0"
  shows "get_elf_aux_vectors_address K tracee os =
    Some (peek_reg tracee CURRENT STACK_POINTER +
            of_nat (sizeof_word tracee * (length argv + length envp + 3)),
          \<lparr>os_errno = 0, os_kern = os_kern os\<rparr>)"
  by (rule behind_envp [OF assms])

text \<open>C22: vectors pushed to writable memory of a tracee are fetched back as they were, up to their
  sentinel: \<open>push_elf_aux_vectors\<close> succeeds, and \<open>fetch_elf_aux_vectors\<close> ends and returns them, in
  the word size of the tracee.\<close>

theorem aux_vectors_roundtrip:
  assumes "kernel_memory K V" "\<forall>v \<in> set vs. fits tracee v"
    and "within (v_writable V (os_kern os) (t_pid tracee)) a (sizeof_word tracee * (2 * length vs + 2))"
    and "within (v_readable V (os_kern os) (t_pid tracee)) a (sizeof_word tracee * (2 * length vs + 2))"
    and "sizeof_word tracee * (2 * length vs + 2) \<le> 2 ^ 64"
  shows "\<exists>os'. push_elf_aux_vectors K tracee (vs @ [sentinel]) a os = Some (0, os') \<and>
    fetch_elf_aux_vectors K (\<lambda>_. True) tracee a os' = Some (Some (vs @ [sentinel]), os')"
proof -
  have "\<forall>v \<in> set vs. av_type v \<noteq> AT_NULL" using assms(2) by (simp add: fits_def)
  from push_spec [OF assms(1) this assms(3)] obtain k' where
    k': "push_elf_aux_vectors K tracee (vs @ [sentinel]) a os = Some (0, \<lparr>os_errno = 0, os_kern = k'\<rparr>)"
    "wrote V (t_pid tracee) a (word_bytes tracee (flat (vs @ [sentinel]))) (os_kern os) k'" by blast
  have "holds_words V k' tracee a (flat (vs @ [sentinel]))"
    by (rule holds_wrote [OF k'(2)]) (use assms(4,5) in simp_all)
  then have "fetch_elf_aux_vectors K (\<lambda>_. True) tracee a \<lparr>os_errno = 0, os_kern = k'\<rparr> =
      Some (Some (vs @ [sentinel]), \<lparr>os_errno = 0, os_kern = k'\<rparr>)"
    using fetch_loop_spec [OF assms(1,2), of "\<lparr>os_errno = 0, os_kern = k'\<rparr>" a "[]"]
    by (simp add: fetch_elf_aux_vectors_def sentinel_def)
  with k'(1) show ?thesis by blast
qed


theorem aux_vectors_roundtrip_witness:
  "\<exists>os'. fetch_elf_aux_vectors ram_kernel (\<lambda>_. True) calloc_tracee 0x5000 os' =
     Some (Some [\<lparr>av_type = 6, av_value = 4096\<rparr>, \<lparr>av_type = 9, av_value = 0xFFFF00001234\<rparr>, sentinel], os')"
proof -
  let ?vs = "[\<lparr>av_type = 6, av_value = 4096\<rparr>, \<lparr>av_type = 9, av_value = 0xFFFF00001234\<rparr>]"
  have n: "sizeof_word calloc_tracee = 8" and f: "\<forall>v \<in> set ?vs. fits calloc_tracee v"
    by (simp_all add: sizeof_word_def is_32on64_mode_def calloc_tracee_def fits_def norm_word_def)
  have w: "within (v_writable ram_view (os_kern ram_boot) (t_pid calloc_tracee)) 0x5000
      (sizeof_word calloc_tracee * (2 * length ?vs + 2))"
    using ram_page5 [of 48] by (simp add: n ram_view_simps)
  have r: "within (v_readable ram_view (os_kern ram_boot) (t_pid calloc_tracee)) 0x5000
      (sizeof_word calloc_tracee * (2 * length ?vs + 2))"
    using ram_within_rw [OF ram_page5 [of 48]] by (simp add: n ram_view_simps)
  have "sizeof_word calloc_tracee * (2 * length ?vs + 2) \<le> 2 ^ 64" by (simp add: n)
  from aux_vectors_roundtrip [OF ram_kernel_memory f w r this] show ?thesis by auto
qed


text \<open>A tracee after its first \<open>execve\<close>, with an empty stack.\<close>

definition execd :: Tracee where
  "execd = calloc_tracee\<lparr>t_status := 1, t_regs := (\<lambda>_. (\<lambda>_. 0)(16 := 221, 62 := 0x5000))\<rparr>"

lemma execd_facts: "IS_IN_SYSEXIT2 execd PR_execve = Some True" "peek_reg execd CURRENT STACK_POINTER = 0x5000"
  "sizeof_word execd = 8" "t_pid execd = 0"
proof -
  have "map_of sysnums_arm64 221 = Some PR_execve" by (simp add: sysnums_arm64_def)
  then have "translate_sysnum ABI_DEFAULT 221 = Some PR_execve"
    by (simp add: translate_sysnum_alt table_abi_def arm64_length nth_table_of)
  moreover have "peek_reg execd ORIGINAL SYSARG_NUM = 221"
    by (simp add: peek_reg_alt load64_def reg_cell_def USER_REGS_OFFSET_def execd_def calloc_tracee_def)
  ultimately show "IS_IN_SYSEXIT2 execd PR_execve = Some True"
    by (simp add: IS_IN_SYSEXIT2_def IS_IN_SYSEXIT_def IS_IN_SYSENTER_def get_sysnum_def get_abi_def
        execd_def calloc_tracee_def)
  show "peek_reg execd CURRENT STACK_POINTER = 0x5000"
    by (simp add: peek_reg_alt load64_def reg_cell_def USER_REGS_OFFSET_def execd_def calloc_tracee_def)
  show "sizeof_word execd = 8" "t_pid execd = 0"
    by (simp_all add: sizeof_word_def is_32on64_mode_def execd_def calloc_tracee_def)
qed

theorem aux_vectors_behind_envp_witness:
  "get_elf_aux_vectors_address ram_kernel execd ram_boot = Some (0x5018, \<lparr>os_errno = 0, os_kern = os_kern ram_boot\<rparr>)"
proof -
  have "bytes_at (v_mem ram_view (os_kern ram_boot) 0) 0x5000 24 = replicate 24 0"
  proof (rule nth_equalityI)
    fix i assume "i < length (bytes_at (v_mem ram_view (os_kern ram_boot) 0) 0x5000 24)"
    then have i: "i < 24" by simp
    then have "ram_ok (0x5000 + of_nat i)" using withinD [OF ram_within_rw [OF ram_page5 [of 24]]] by simp
    then show "bytes_at (v_mem ram_view (os_kern ram_boot) 0) 0x5000 24 ! i = replicate 24 0 ! i"
      using i by (simp add: nth_bytes_at ram_view_def ram_space_def ram_boot_def)
  qed simp
  moreover have "word_bytes execd [0, 0, 0] = replicate 24 0"
    by (simp add: execd_facts le_bytes_def eval_nat_numeral)
  ultimately have h: "holds_words ram_view (os_kern ram_boot) execd 0x5000 (of_nat (length []) # [] @ [0] @ [] @ [0])"
    using ram_within_rw [OF ram_page5 [of 24]] by (simp add: holds_words_def execd_facts ram_view_simps)
  show ?thesis
    using aux_vectors_behind_envp [OF ram_kernel_memory execd_facts(1) h [folded execd_facts(2)]]
    by (simp add: execd_facts)
qed

end
