(* ===== verification/Path.thy ===== *)
theory Path
  imports Tracee "HOL-Library.Sublist"
begin

text \<open>
  The paths of path/path.c: joining, comparison, substitution of a prefix, endings, the links of
  the descriptors of a process, the translation of a path (reduced to joining in this program, with
  the buffer its messages are printed into), and the search of a command in \<open>$PATH\<close>.

  A C string is a \<open>string\<close> without terminator.  The file system is the record \<open>Fs\<close> of what the
  system calls answer during one call; a buffer of \<open>PATH_MAX\<close> bytes is the string it holds, and
  a result \<open>None\<close> is a failed assertion, a null pointer or an access out of bounds.

  \<open>comps\<close> and \<open>render\<close> relate a path with the list of its components; the properties state the
  operations on characters as operations on these lists.
\<close>

unbundle bit_operations_syntax

section \<open>File system\<close>

text \<open>
  What these functions ask of the system, for one call: \<open>realpath\<close> and \<open>getcwd\<close> with the value of
  \<open>errno\<close> on failure, the mode \<open>stat\<close> reports, the text of a symbolic link, the names of a
  directory, and \<open>$PATH\<close>.
\<close>

record Fs =
  fs_realpath :: "string \<Rightarrow> int + string"
  fs_getcwd :: "int + string"
  fs_mode :: "string \<Rightarrow> u32 option"
  fs_readlink :: "string \<Rightarrow> string option"
  fs_readdir :: "string \<Rightarrow> string list option"
  fs_PATH :: "string option"

definition readlink :: "Fs \<Rightarrow> string \<Rightarrow> nat \<Rightarrow> string option" where
  "readlink fs link n = map_option (take n) (fs_readlink fs link)"

text \<open>A character of a C string: the terminator follows the last one.\<close>

definition char_at :: "string \<Rightarrow> nat \<Rightarrow> char" where
  "char_at s i = (if i < length s then s ! i else CHR 0x00)"

section \<open>Joining\<close>

text \<open>\<open>join_paths\<close>: a null argument is \<open>None\<close>.\<close>

fun join_loop :: "string option list \<Rightarrow> string \<Rightarrow> int \<times> string" where
  "join_loop [] result = (0, result)"
| "join_loop (None # paths) result = join_loop paths result"
| "join_loop (Some path # paths) result =
     (if result \<noteq> [] \<and> last result \<noteq> CHR ''/'' \<and> char_at path 0 \<noteq> CHR ''/'' then
        if length result + length path + 1 + 1 \<ge> PATH_MAX then (- ENAMETOOLONG, result)
        else join_loop paths (result @ ''/'' @ path)
      else if result \<noteq> [] \<and> last result = CHR ''/'' \<and> char_at path 0 = CHR ''/'' then
        if length result + length path - 1 + 1 \<ge> PATH_MAX then (- ENAMETOOLONG, result)
        else join_loop paths (result @ tl path)
      else
        if length result + length path + 1 \<ge> PATH_MAX then (- ENAMETOOLONG, result)
        else join_loop paths (result @ path))"

definition join_paths :: "string option list \<Rightarrow> int \<times> string" where
  "join_paths paths = join_loop paths []"

section \<open>Comparison\<close>

datatype Comparison = PATHS_ARE_EQUAL | PATH1_IS_PREFIX | PATH2_IS_PREFIX | PATHS_ARE_NOT_COMPARABLE

text \<open>A length past the terminator of its path reads outside of it.\<close>

definition compare_paths2 :: "string \<Rightarrow> nat \<Rightarrow> string \<Rightarrow> nat \<Rightarrow> Comparison option" where
  "compare_paths2 path1 length1 path2 length2 =
     (if \<not> 0 < length1 \<or> \<not> 0 < length2 then None
      else if length path1 < length1 \<or> length path2 < length2 then None
      else
        let length1 = (if char_at path1 (length1 - 1) = CHR ''/'' then length1 - 1 else length1);
            length2 = (if char_at path2 (length2 - 1) = CHR ''/'' then length2 - 1 else length2);
            length_min = (if length1 < length2 then length1 else length2);
            sentinel = (if length1 < length2 then char_at path2 length_min
                        else char_at path1 length_min)
        in if sentinel \<noteq> CHR ''/'' \<and> sentinel \<noteq> CHR 0x00 then Some PATHS_ARE_NOT_COMPARABLE
           else if take length_min path1 \<noteq> take length_min path2 then Some PATHS_ARE_NOT_COMPARABLE
           else if length1 = length2 then Some PATHS_ARE_EQUAL
           else if length1 < length2 then Some PATH1_IS_PREFIX
           else Some PATH2_IS_PREFIX)"

definition compare_paths :: "string \<Rightarrow> string \<Rightarrow> Comparison option" where
  "compare_paths path1 path2 = compare_paths2 path1 (length path1) path2 (length path2)"

section \<open>Prefixes and endings\<close>

text \<open>
  \<open>substitute_path_prefix\<close> returns the new length, or \<open>- ENAMETOOLONG\<close> as a \<open>size_t\<close>, and the
  path; a prefix longer than the path makes it move bytes outside of the buffer.
\<close>

definition substitute_path_prefix :: "string \<Rightarrow> nat \<Rightarrow> string \<Rightarrow> nat \<Rightarrow> (u64 \<times> string) option" where
  "substitute_path_prefix path old_prefix_length new_prefix new_prefix_length =
     (let path_length = length path
      in if \<not> old_prefix_length < PATH_MAX \<or> \<not> new_prefix_length < PATH_MAX then None
         else if path_length < old_prefix_length then None
         else if new_prefix_length = 1 then
           (let new_length = path_length - old_prefix_length
            in if new_length \<noteq> 0 then Some (of_nat new_length, drop old_prefix_length path)
               else Some (1, ''/''))
         else if old_prefix_length = 1 then
           (let new_length = new_prefix_length + path_length
            in if new_length \<ge> PATH_MAX then Some (of_int (- ENAMETOOLONG), path)
               else if path_length > 1
               then Some (of_nat new_length, take new_prefix_length new_prefix @ path)
               else Some (of_nat new_prefix_length, take new_prefix_length new_prefix))
         else
           (let new_length = path_length - old_prefix_length + new_prefix_length
            in if new_length \<ge> PATH_MAX then Some (of_int (- ENAMETOOLONG), path)
               else Some (of_nat new_length,
                          take new_prefix_length new_prefix @ drop old_prefix_length path)))"

definition chop_finality :: "string \<Rightarrow> string option" where
  "chop_finality path =
     (if path = [] then None
      else if last path = CHR ''.'' then
        if length path < 2 then None
        else if length path = 2 then Some (take (length path - 1) path)
        else Some (take (length path - 2) path)
      else if last path = CHR ''/'' then
        if length path > 1 then Some (take (length path - 1) path) else Some path
      else Some path)"

section \<open>Links of a process\<close>

text \<open>The decimal formats of \<open>snprintf\<close>.\<close>

fun dec :: "nat \<Rightarrow> string" where
  "dec n = (if n < 10 then [] else dec (n div 10)) @ [char_of (48 + n mod 10)]"

declare dec.simps [simp del]

definition format_d :: "int \<Rightarrow> string" where
  "format_d i = (if i < 0 then CHR ''-'' # dec (nat (- i)) else dec (nat i))"

definition readlink_proc_pid_fd :: "Fs \<Rightarrow> pid \<Rightarrow> int \<Rightarrow> int + string" where
  "readlink_proc_pid_fd fs pid fd =
     (let link = ''/proc/'' @ format_d pid @ ''/fd/'' @ format_d fd
      in if length link \<ge> 32 then Inl (- EBADF)
         else case readlink fs link PATH_MAX of
                None \<Rightarrow> Inl (- EBADF)
              | Some path \<Rightarrow> if length path \<ge> PATH_MAX then Inl (- ENAMETOOLONG) else Inr path)"

text \<open>
  \<open>cmn_utils_readlink\<close> of cmn/cmn_utils.c, into a buffer of \<open>room\<close> bytes, which also holds the
  name of the link before: the result with the contents of the buffer; \<open>None\<close> is a store outside
  of it.
\<close>

definition cmn_utils_readlink :: "Fs \<Rightarrow> pid \<Rightarrow> int \<Rightarrow> nat \<Rightarrow> nat \<Rightarrow> (int \<times> string) option" where
  "cmn_utils_readlink fs pid fd room max_size =
     (let buf = ''/proc/'' @ format_d pid @ ''/fd/'' @ format_d fd
      in if room \<le> length buf then None
         else case readlink fs buf max_size of
                None \<Rightarrow> Some (- 1, buf)
              | Some path \<Rightarrow> if room \<le> length path then None else Some (int (length path), path))"

lemma cmn_utils_readlink_overflow:
  assumes "length (''/proc/'' @ format_d pid @ ''/fd/'' @ format_d fd) < room"
    "readlink fs (''/proc/'' @ format_d pid @ ''/fd/'' @ format_d fd) room = Some path" "length path = room"
  shows "cmn_utils_readlink fs pid fd room room = None"
  using assms by (simp add: cmn_utils_readlink_def Let_def)

section \<open>Translation\<close>

text \<open>
  A null tracee is \<open>None\<close>.  The base of the translation is the root, the target of the
  descriptor of the tracee, or the working directory \<^emph>\<open>of the tracer\<close>.
\<close>

definition translate_base :: "Fs \<Rightarrow> Tracee option \<Rightarrow> int \<Rightarrow> string \<Rightarrow> string result" where
  "translate_base fs tracee dir_fd user_path =
     (if char_at user_path 0 = CHR ''/'' then Some (Inr ''/'')
      else if dir_fd \<noteq> - 100 then
        (case tracee of
           None \<Rightarrow> None
         | Some tracee \<Rightarrow>
             (case readlink_proc_pid_fd fs (t_pid tracee) dir_fd of
                Inl status \<Rightarrow> Some (Inl status)
              | Inr result \<Rightarrow>
                  if char_at result 0 \<noteq> CHR ''/'' then Some (Inl (- ENOTDIR))
                  else Some (Inr result)))
      else case fs_getcwd fs of
             Inl e \<Rightarrow> Some (Inl (- e))
           | Inr result \<Rightarrow> Some (Inr result))"

text \<open>
  \<open>VERBOSE\<close>, and \<open>note\<close> of note.c behind it: a message of a tracee that is verbose enough, or of
  none, is printed into a buffer of 1024 bytes without a bound.  (Nothing sets the verbosity of
  the tracer itself, 0.)
\<close>

definition VERBOSE :: "Tracee option \<Rightarrow> int \<Rightarrow> string \<Rightarrow> bool" where
  "VERBOSE tracee level message \<longleftrightarrow>
     (case tracee of None \<Rightarrow> False | Some tracee \<Rightarrow> t_verbose tracee < level) \<or> length message < 1024"

definition vpid_of :: "Tracee option \<Rightarrow> string" where
  "vpid_of tracee = ''vpid '' @ dec (case tracee of None \<Rightarrow> 0 | Some tracee \<Rightarrow> t_vpid tracee)"

abbreviation (input) quote :: string where "quote \<equiv> [CHR 0x22]"

definition base_message :: "Tracee option \<Rightarrow> string \<Rightarrow> string \<Rightarrow> string" where
  "base_message tracee result user_path = vpid_of tracee @ '': translate('' @ quote @ result @ quote @
     '' + '' @ quote @ user_path @ quote @ '')''"

definition result_message :: "Tracee option \<Rightarrow> string \<Rightarrow> string" where
  "result_message tracee result = vpid_of tracee @ '':          -> '' @ quote @ result @ quote"

definition translate_path ::
    "Fs \<Rightarrow> Tracee option \<Rightarrow> int \<Rightarrow> string \<Rightarrow> bool \<Rightarrow> string result" where
  "translate_path fs tracee dir_fd user_path deref_final =
     bind_ok (translate_base fs tracee dir_fd user_path)
       (\<lambda>result. if \<not> VERBOSE tracee 2 (base_message tracee result user_path) then None
          else if char_at result 0 \<noteq> CHR ''/'' then None
          else case join_paths [Some result, Some user_path] of
                 (status, guest_path) \<Rightarrow>
                   if status < 0 then Some (Inl status)
                   else if \<not> VERBOSE tracee 2 (result_message tracee guest_path) then None
                   else Some (Inr guest_path))"

text \<open>Both directions are stubs in this program.\<close>

definition detranslate_path :: "Tracee option \<Rightarrow> string \<Rightarrow> string option \<Rightarrow> int \<times> string" where
  "detranslate_path tracee path t_referrer = (0, path)"

definition belongs_to_guestfs :: "Tracee option \<Rightarrow> string \<Rightarrow> bool" where
  "belongs_to_guestfs tracee host_path \<longleftrightarrow> True"

definition realpath2 :: "Fs \<Rightarrow> Tracee option \<Rightarrow> string \<Rightarrow> bool \<Rightarrow> string result" where
  "realpath2 fs tracee path deref_final =
     (if tracee = None
      then case fs_realpath fs path of Inl e \<Rightarrow> Some (Inl (- e)) | Inr host_path \<Rightarrow> Some (Inr host_path)
      else translate_path fs tracee (- 100) path deref_final)"

definition getcwd2 :: "Fs \<Rightarrow> Tracee option \<Rightarrow> string \<Rightarrow> int \<times> string" where
  "getcwd2 fs tracee guest_path =
     (case tracee of
        None \<Rightarrow> (case fs_getcwd fs of Inl e \<Rightarrow> (- e, guest_path) | Inr d \<Rightarrow> (0, d))
      | Some _ \<Rightarrow> (0, guest_path))"


section \<open>Commands\<close>

definition S_ISREG :: "u32 \<Rightarrow> bool" where
  "S_ISREG mode \<longleftrightarrow> mode AND 0xF000 = 0x8000"

definition S_IXUSR :: "u32 \<Rightarrow> bool" where
  "S_IXUSR mode \<longleftrightarrow> mode AND 0x40 \<noteq> 0"

text \<open>
  The loop over \<open>$PATH\<close>, from the cursor on.  The file a candidate denotes is looked up with its
  final link followed, the path returned is the one with the final link kept; a failure of this
  second translation leaves the first.
\<close>

definition deref_kept :: "string \<Rightarrow> string result \<Rightarrow> string result" where
  "deref_kept host_path r =
     (case r of None \<Rightarrow> None | Some (Inl _) \<Rightarrow> Some (Inr host_path) | Some (Inr h) \<Rightarrow> Some (Inr h))"

definition candidate :: "string \<Rightarrow> string \<Rightarrow> string option" where
  "candidate entry command =
     (let n = length entry;
          path = (if n = 0 then ''.'' else entry)
      in if n \<ge> PATH_MAX then None
         else if n + length command + 2 \<ge> PATH_MAX then None
         else Some (path @ ''/'' @ command))"

definition try_candidate :: "Fs \<Rightarrow> Tracee option \<Rightarrow> string \<Rightarrow> string option result" where
  "try_candidate fs tracee path =
     (case realpath2 fs tracee path True of
        None \<Rightarrow> None
      | Some (Inl _) \<Rightarrow> Some (Inr None)
      | Some (Inr host_path) \<Rightarrow>
          (case fs_mode fs host_path of
             None \<Rightarrow> Some (Inr None)
           | Some mode \<Rightarrow>
               if S_ISREG mode \<and> S_IXUSR mode
               then bind_ok (deref_kept host_path (realpath2 fs tracee path False)) (\<lambda>h. Some (Inr (Some h)))
               else Some (Inr None)))"

function search_loop :: "Fs \<Rightarrow> Tracee option \<Rightarrow> string \<Rightarrow> string \<Rightarrow> string option result" where
  "search_loop fs tracee command cursor =
     (let entry = takeWhile (\<lambda>c. c \<noteq> CHR '':'') cursor;
          rest = dropWhile (\<lambda>c. c \<noteq> CHR '':'') cursor
      in bind_ok (case candidate entry command of
                    None \<Rightarrow> Some (Inr None)
                  | Some path \<Rightarrow> try_candidate fs tracee path)
           (\<lambda>r. case r of
                  Some host_path \<Rightarrow> Some (Inr (Some host_path))
                | None \<Rightarrow> if rest = [] then Some (Inr None)
                          else search_loop fs tracee command (tl rest)))"
  by pat_completeness auto

termination search_loop
proof (relation "measure (\<lambda>(_, _, _, cursor). length cursor)")
  fix cursor :: string and rest
  assume rest: "rest = dropWhile (\<lambda>c. c \<noteq> CHR '':'') cursor" "rest \<noteq> []"
  have "length rest \<le> length cursor" unfolding rest(1) by (rule length_dropWhile_le)
  moreover have "0 < length rest" using rest(2) by (rule length_greater_0_conv [THEN iffD2])
  ultimately have "length (tl rest) < length cursor" unfolding length_tl by arith
  then show "((fs, tracee, command, tl rest), fs, tracee, command, cursor)
    \<in> measure (\<lambda>(_, _, _, cursor). length cursor)" for fs :: Fs and tracee :: "Tracee option" and command :: string
    by simp
qed simp

declare search_loop.simps [simp del]

text \<open>The search in \<open>$PATH\<close> is reached when the command has no slash.\<close>

definition which :: "Fs \<Rightarrow> Tracee option \<Rightarrow> string option \<Rightarrow> string \<Rightarrow> string result" where
  "which fs tracee paths command =
     (let is_explicit = (CHR ''/'' \<in> set command)
      in case realpath2 fs tracee command True of
           None \<Rightarrow> None
         | Some status \<Rightarrow>
             let direct = (case status of
                             Inl _ \<Rightarrow> None
                           | Inr h \<Rightarrow> map_option (\<lambda>mode. (h, mode)) (fs_mode fs h))
             in if is_explicit then
                  (case direct of
                     None \<Rightarrow> Some (Inl (- 1))
                   | Some (h, mode) \<Rightarrow>
                       if \<not> S_ISREG mode then Some (Inl (- EACCES))
                       else if \<not> S_IXUSR mode then Some (Inl (- EACCES))
                       else deref_kept h (realpath2 fs tracee command False))
                else
                  (case (if paths = None then fs_PATH fs else paths) of
                     None \<Rightarrow> Some (Inl (- 1))
                   | Some p \<Rightarrow>
                       if p = [] then Some (Inl (- 1))
                       else bind_ok (search_loop fs tracee command p)
                              (\<lambda>r. case r of None \<Rightarrow> Some (Inl (- 1)) | Some h \<Rightarrow> Some (Inr h))))"

section \<open>Open descriptors\<close>

text \<open>
  \<open>foreach_fd\<close> with a callback over a state of its own; \<open>atoi\<close> of a name the kernel made of digits.
\<close>

definition atoi :: "string \<Rightarrow> int" where
  "atoi s = foldl (\<lambda>n c. 10 * n + (of_char c - 48)) 0 (takeWhile (\<lambda>c. c \<in> set ''0123456789'') s)"

fun foreach_loop ::
    "Fs \<Rightarrow> string \<Rightarrow> (int \<Rightarrow> string \<Rightarrow> 's \<Rightarrow> int \<times> 's) \<Rightarrow> string list \<Rightarrow> 's \<Rightarrow> int \<times> 's" where
  "foreach_loop fs proc_fd callback [] s = (0, s)"
| "foreach_loop fs proc_fd callback (d_name # names) s =
     (if length proc_fd + length d_name + 1 \<ge> PATH_MAX then foreach_loop fs proc_fd callback names s
      else case readlink fs (proc_fd @ ''/'' @ d_name) PATH_MAX of
             None \<Rightarrow> foreach_loop fs proc_fd callback names s
           | Some path \<Rightarrow>
               if length path \<ge> PATH_MAX \<or> char_at path 0 \<noteq> CHR ''/''
               then foreach_loop fs proc_fd callback names s
               else case callback (atoi d_name) path s of
                      (status, s) \<Rightarrow>
                        if status < 0 then (status, s)
                        else foreach_loop fs proc_fd callback names s)"

definition foreach_fd ::
    "Fs \<Rightarrow> Tracee \<Rightarrow> (int \<Rightarrow> string \<Rightarrow> 's \<Rightarrow> int \<times> 's) \<Rightarrow> 's \<Rightarrow> int \<times> 's" where
  "foreach_fd fs tracee callback s =
     (let proc_fd = ''/proc/'' @ format_d (t_pid tracee) @ ''/fd''
      in if length proc_fd \<ge> 32 then (0, s)
         else case fs_readdir fs proc_fd of
                None \<Rightarrow> (0, s)
              | Some names \<Rightarrow> foreach_loop fs proc_fd callback names s)"

lemma foreach_loop_status:
  "foreach_loop fs proc_fd callback names s = (status, s') \<Longrightarrow> status \<le> 0"
  by (induction names arbitrary: s) (auto simp: Let_def split: if_splits option.splits prod.splits)

section \<open>Components\<close>

text \<open>The components of a path, and the canonical path of a list of components.\<close>

lemmas [termination_simp] = length_dropWhile_le le_imp_less_Suc

fun comps :: "string \<Rightarrow> string list" where
  "comps [] = []"
| "comps (c # p) =
     (if c = CHR ''/'' then comps p
      else (c # takeWhile (\<lambda>c. c \<noteq> CHR ''/'') p) # comps (dropWhile (\<lambda>c. c \<noteq> CHR ''/'') p))"

definition body :: "string list \<Rightarrow> string" where
  "body cs = concat (map (\<lambda>c. CHR ''/'' # c) cs)"

definition render :: "string list \<Rightarrow> string" where
  "render cs = (if cs = [] then ''/'' else body cs)"

definition names :: "string list \<Rightarrow> bool" where
  "names cs \<longleftrightarrow> (\<forall>c \<in> set cs. c \<noteq> [] \<and> CHR ''/'' \<notin> set c \<and> CHR 0x00 \<notin> set c)"

lemma slashless:
  assumes "CHR ''/'' \<notin> set p"
  shows "takeWhile (\<lambda>c. c \<noteq> CHR ''/'') p = p" "dropWhile (\<lambda>c. c \<noteq> CHR ''/'') p = []"
    and "takeWhile (\<lambda>c. c \<noteq> CHR ''/'') (p @ CHR ''/'' # q) = p"
    and "dropWhile (\<lambda>c. c \<noteq> CHR ''/'') (p @ CHR ''/'' # q) = CHR ''/'' # q"
  using assms by (induction p) auto

lemma comps_append: "comps (a @ CHR ''/'' # b) = comps a @ comps b"
proof (induction a rule: comps.induct)
  case (2 c p)
  show ?case
  proof (cases "CHR ''/'' \<in> set p")
    case True
    then show ?thesis using 2 by (auto simp: takeWhile_append1 dropWhile_append1)
  next
    case False
    note s = slashless [OF False]
    show ?thesis using 2 by (simp add: s del: takeWhile_eq_all_conv dropWhile_eq_Nil_conv)
  qed
qed simp

lemma comps_slash [simp]: "comps (a @ ''/'') = comps a" using comps_append [of a "[]"] by simp

lemma comps_join:
  assumes "a = [] \<or> last a = CHR ''/'' \<or> char_at b 0 = CHR ''/''"
  shows "comps (a @ b) = comps a @ comps b"
  using assms
proof (elim disjE)
  assume "last a = CHR ''/''"
  then show ?thesis
    by (cases a rule: rev_cases) (simp_all add: comps_append)
next
  assume "char_at b 0 = CHR ''/''"
  then show ?thesis by (cases b) (auto simp: char_at_def comps_append)
qed simp

lemma comps_name: "c \<noteq> [] \<Longrightarrow> CHR ''/'' \<notin> set c \<Longrightarrow> comps c = [c]"
  by (cases c) (auto simp: slashless simp del: takeWhile_eq_all_conv dropWhile_eq_Nil_conv)

lemma join_loop_comps:
  "join_loop paths r = (0, r') \<Longrightarrow>
   comps r' = comps r @ concat (map (\<lambda>p. case p of None \<Rightarrow> [] | Some p \<Rightarrow> comps p) paths)"
proof (induction paths r rule: join_loop.induct)
  case (3 path paths r)
  consider (sep) "r \<noteq> []" "last r \<noteq> CHR ''/''" "char_at path 0 \<noteq> CHR ''/''"
    | (two) "r \<noteq> []" "last r = CHR ''/''" "char_at path 0 = CHR ''/''"
    | (one) "r = [] \<or> last r = CHR ''/'' \<or> char_at path 0 = CHR ''/''"
        "\<not> (r \<noteq> [] \<and> last r = CHR ''/'' \<and> char_at path 0 = CHR ''/'')" by blast
  then show ?case
  proof cases
    case sep
    then show ?thesis using 3 by (auto simp: comps_append split: if_splits)
  next
    case two
    have "comps (r @ tl path) = comps r @ comps path"
      using two comps_join [of r "tl path"] by (cases path) (auto simp: char_at_def)
    then show ?thesis using two 3 by (auto split: if_splits)
  next
    case one
    have "join_loop paths (r @ path) = (0, r')" "comps r' = comps (r @ path) @
        concat (map (\<lambda>p. case p of None \<Rightarrow> [] | Some p \<Rightarrow> comps p) paths)"
      using 3 one by (auto split: if_splits)
    then show ?thesis using comps_join [OF one(1)] by simp
  qed
qed auto

lemma join_loop_length: "join_loop paths r = (0, r') \<Longrightarrow> length r + 1 < PATH_MAX \<Longrightarrow> length r' + 1 < PATH_MAX"
  by (induction paths r rule: join_loop.induct) (auto split: if_splits)

lemma join_loop_start:
  "join_loop paths r = (0, r') \<Longrightarrow> r \<noteq> [] \<Longrightarrow> char_at r' 0 = char_at r 0"
  by (induction paths r rule: join_loop.induct) (auto simp: char_at_def nth_append split: if_splits)

lemma join_loop_status: "join_loop paths r = (s, r') \<Longrightarrow> s = 0 \<or> s = - ENAMETOOLONG"
  by (induction paths r rule: join_loop.induct) (auto split: if_splits)

text \<open>
  The joined path without a bound: one separator between two paths, whatever they end and start
  with.
\<close>

definition join2 :: "string \<Rightarrow> string \<Rightarrow> string" where
  "join2 result path =
     (if result = [] then path
      else (if last result = CHR ''/'' then butlast result else result) @ ''/'' @
           (if char_at path 0 = CHR ''/'' then tl path else path))"

definition joined_from :: "string \<Rightarrow> string option list \<Rightarrow> string" where
  "joined_from = foldl (\<lambda>result path. case path of None \<Rightarrow> result | Some path \<Rightarrow> join2 result path)"

abbreviation joined :: "string option list \<Rightarrow> string" where
  "joined \<equiv> joined_from []"

lemma joined_from_simps [simp]:
  "joined_from r [] = r"
  "joined_from r (None # ps) = joined_from r ps"
  "joined_from r (Some p # ps) = joined_from (join2 r p) ps"
  by (simp_all add: joined_from_def)

lemma butlast_slash: "r \<noteq> [] \<Longrightarrow> last r = c \<Longrightarrow> butlast r @ [c] = r"
  using append_butlast_last_id by metis

lemma slash_tl: "char_at p 0 = CHR ''/'' \<Longrightarrow> CHR ''/'' # tl p = p"
  by (cases p) (auto simp: char_at_def)

lemma join2_cases:
  "r \<noteq> [] \<Longrightarrow> last r \<noteq> CHR ''/'' \<Longrightarrow> char_at p 0 \<noteq> CHR ''/'' \<Longrightarrow> join2 r p = r @ ''/'' @ p"
  "r \<noteq> [] \<Longrightarrow> last r = CHR ''/'' \<Longrightarrow> char_at p 0 = CHR ''/'' \<Longrightarrow> join2 r p = r @ tl p"
  "r = [] \<or> (last r = CHR ''/'') \<noteq> (char_at p 0 = CHR ''/'') \<Longrightarrow> join2 r p = r @ p"
  using butlast_slash [of r "CHR ''/''"] slash_tl [of p]
  by (auto simp: join2_def) (metis append.assoc append_Cons append_Nil)

lemma join2_length: "length r \<le> length (join2 r p)"
  by (cases r rule: rev_cases) (auto simp: join2_def)

lemma joined_from_length: "length r \<le> length (joined_from r ps)"
proof (induction ps arbitrary: r)
  case (Cons p ps)
  then show ?case using join2_length le_trans by (cases p) (simp, fastforce)
qed simp

lemma join_step:
  "join_loop (Some p # ps) r =
     (if length (join2 r p) + 1 \<ge> PATH_MAX then (- ENAMETOOLONG, r) else join_loop ps (join2 r p))"
proof -
  consider (none) "r \<noteq> []" "last r \<noteq> CHR ''/''" "char_at p 0 \<noteq> CHR ''/''"
    | (both) "r \<noteq> []" "last r = CHR ''/''" "char_at p 0 = CHR ''/''"
    | (one) "r = [] \<or> (last r = CHR ''/'') \<noteq> (char_at p 0 = CHR ''/'')" by blast
  then show ?thesis
  proof cases
    case none then show ?thesis by (simp add: join2_cases(1))
  next
    case both
    obtain q where "p = CHR ''/'' # q" using slash_tl [OF both(3)] by metis
    then show ?thesis using both join2_cases(2) [OF both] by simp
  next
    case one then show ?thesis by (auto simp: join2_cases(3))
  qed
qed

lemma join_loop_joined:
  "length r + 1 < PATH_MAX \<Longrightarrow>
   (if length (joined_from r ps) + 1 < PATH_MAX then join_loop ps r = (0, joined_from r ps)
    else fst (join_loop ps r) = - ENAMETOOLONG)"
proof (induction ps arbitrary: r)
  case (Cons p ps)
  show ?case
  proof (cases p)
    case None
    then show ?thesis using Cons by simp
  next
    case (Some q)
    show ?thesis
      using Cons.IH [of "join2 r q"] joined_from_length [of "join2 r q" ps]
      unfolding Some join_step joined_from_simps by (auto simp del: join_loop.simps)
  qed
qed simp

lemma comps_join2: "comps (join2 r p) = comps r @ comps p"
proof (cases "r = []")
  case False
  have "comps (if last r = CHR ''/'' then butlast r else r) = comps r"
    using comps_slash [of "butlast r"] butlast_slash [OF False, of "CHR ''/''"] by metis
  moreover have "comps (if char_at p 0 = CHR ''/'' then tl p else p) = comps p"
    by (cases p) (auto simp: char_at_def)
  ultimately show ?thesis using False by (simp add: join2_def comps_append)
qed (simp add: join2_def)

lemma comps_joined:
  "comps (joined_from r ps) = comps r @ concat (map (\<lambda>p. case p of None \<Rightarrow> [] | Some p \<Rightarrow> comps p) ps)"
  by (induction ps arbitrary: r) (auto simp: comps_join2 split: option.split)

lemma joined_start: "r \<noteq> [] \<Longrightarrow> char_at (joined_from r ps) 0 = char_at r 0"
proof (induction ps arbitrary: r)
  case (Cons p ps)
  have "join2 r q \<noteq> []" "char_at (join2 r q) 0 = char_at r 0" for q
    using Cons.prems by (cases r rule: rev_cases; auto simp: join2_def char_at_def nth_append)+
  then show ?case using Cons by (cases p) simp_all
qed simp

lemma join_ok:
  assumes "join_paths (Some p # paths) = (0, r)"
  shows "comps r = comps p @ concat (map (\<lambda>q. case q of None \<Rightarrow> [] | Some q \<Rightarrow> comps q) paths)"
    and "p \<noteq> [] \<Longrightarrow> char_at r 0 = char_at p 0" and "length r < PATH_MAX"
proof -
  have first: "join_loop paths p = (0, r)" "length p + 1 < PATH_MAX"
    using assms by (auto simp: join_paths_def split: if_splits)
  show "comps r = comps p @ concat (map (\<lambda>q. case q of None \<Rightarrow> [] | Some q \<Rightarrow> comps q) paths)"
    by (rule join_loop_comps [OF first(1)])
  show "length r < PATH_MAX" using join_loop_length [OF first] by simp
  show "char_at r 0 = char_at p 0" if "p \<noteq> []" by (rule join_loop_start [OF first(1) that])
qed

section \<open>Canonical paths\<close>

lemma names_append [simp]: "names (a @ b) \<longleftrightarrow> names a \<and> names b" by (auto simp: names_def)

lemma names_Cons: "names (c # cs) \<longleftrightarrow> c \<noteq> [] \<and> CHR ''/'' \<notin> set c \<and> CHR 0x00 \<notin> set c \<and> names cs"
  by (auto simp: names_def)

lemma body_simps [simp]:
  "body [] = []" "body (c # cs) = CHR ''/'' # c @ body cs" "body (a @ b) = body a @ body b"
  by (simp_all add: body_def)

lemma body_start: "body cs = [] \<or> (\<exists>p. body cs = CHR ''/'' # p)" by (cases cs) auto

lemma comps_body: "names cs \<Longrightarrow> comps (body cs) = cs"
proof (induction cs)
  case (Cons c cs)
  then have "comps (CHR ''/'' # c @ body cs) = comps c @ comps (body cs)"
    using comps_join [of c "body cs"] body_start [of cs] by (cases cs) (auto simp: char_at_def)
  then show ?case using Cons by (simp add: names_Cons comps_name)
qed simp

lemma body_inj: "names a \<Longrightarrow> names b \<Longrightarrow> body a = body b \<longleftrightarrow> a = b" by (metis comps_body)

lemma body_last: "names cs \<Longrightarrow> cs \<noteq> [] \<Longrightarrow> last (body cs) \<noteq> CHR ''/'' \<and> body cs \<noteq> []"
  by (cases cs rule: rev_cases) (auto simp: names_Cons dest: last_in_set)

lemma body_no_nul: "names cs \<Longrightarrow> CHR 0x00 \<notin> set (body cs)"
  by (induction cs) (auto simp: names_Cons)

text \<open>A canonical path, with or without a trailing slash.\<close>

definition path_of :: "string list \<Rightarrow> string \<Rightarrow> bool" where
  "path_of cs p \<longleftrightarrow> p = render cs \<or> cs \<noteq> [] \<and> p = render cs @ ''/''"

lemma path_of_body: "path_of cs p \<longleftrightarrow> p = body cs @ ''/'' \<or> cs \<noteq> [] \<and> p = body cs"
  by (auto simp: path_of_def render_def)

lemma strip_slash:
  assumes "names cs" "path_of cs p"
  shows "p \<noteq> []" "(if char_at p (length p - 1) = CHR ''/'' then length p - 1 else length p) = length (body cs)"
proof -
  show "p \<noteq> []" using assms body_last [OF assms(1)] by (auto simp: path_of_body)
  then have "char_at p (length p - 1) = last p" by (simp add: char_at_def last_conv_nth)
  moreover have "last p = CHR ''/'' \<longleftrightarrow> p = body cs @ ''/''"
    using assms body_last [OF assms(1)] by (auto simp: path_of_body)
  ultimately show "(if char_at p (length p - 1) = CHR ''/'' then length p - 1 else length p) = length (body cs)"
    using assms(2) by (auto simp: path_of_body)
qed

lemma prefix_iff_sentinel:
  assumes "names a" "names b" "path_of b q" "length (body a) \<le> length (body b)"
  shows "take (length (body a)) q = body a \<and>
     (char_at q (length (body a)) = CHR ''/'' \<or> char_at q (length (body a)) = CHR 0x00) \<longleftrightarrow> prefix a b"
proof
  assume "prefix a b"
  then obtain c where c: "b = a @ c" by (auto simp: prefix_def)
  show "take (length (body a)) q = body a \<and>
     (char_at q (length (body a)) = CHR ''/'' \<or> char_at q (length (body a)) = CHR 0x00)"
    using assms(3) body_start [of c] unfolding c path_of_body
    by (auto simp: char_at_def nth_append)
next
  assume *: "take (length (body a)) q = body a \<and>
     (char_at q (length (body a)) = CHR ''/'' \<or> char_at q (length (body a)) = CHR 0x00)"
  define r where "r = drop (length (body a)) q"
  have q: "q = body a @ r" using * append_take_drop_id [of "length (body a)" q] unfolding r_def by metis
  have "CHR 0x00 \<notin> set q" using assms(2,3) body_no_nul [of b] by (auto simp: path_of_body)
  then have "r = [] \<or> char_at r 0 = CHR ''/''"
    using * unfolding q by (cases r) (auto simp: char_at_def nth_append)
  then have "comps q = comps (body a) @ comps r"
    unfolding q using comps_join [of "body a" r] by auto
  moreover have "comps q = b" using assms(2,3) comps_body by (auto simp: path_of_body)
  ultimately have "b = a @ comps r" using comps_body [OF assms(1)] by simp
  then show "prefix a b" by simp
qed

lemma compare_strip:
  assumes "names a" "names b" "path_of a p" "path_of b q"
  defines "m \<equiv> length (body a)" and "n \<equiv> length (body b)"
  shows "compare_paths p q =
    (let sentinel = (if m < n then char_at q m else char_at p n); l = min m n
     in if sentinel \<noteq> CHR ''/'' \<and> sentinel \<noteq> CHR 0x00 then Some PATHS_ARE_NOT_COMPARABLE
        else if take l p \<noteq> take l q then Some PATHS_ARE_NOT_COMPARABLE
        else Some (if m = n then PATHS_ARE_EQUAL else if m < n then PATH1_IS_PREFIX else PATH2_IS_PREFIX))"
  using strip_slash [OF assms(1,3)] strip_slash [OF assms(2,4)]
  unfolding compare_paths_def compare_paths2_def m_def n_def
  by (simp add: Let_def min_def)

lemma take_body: "path_of cs p \<Longrightarrow> n \<le> length (body cs) \<Longrightarrow> take n p = take n (body cs)"
  by (auto simp: path_of_body)

lemma prefix_body_length: "prefix a b \<Longrightarrow> length (body a) \<le> length (body b) \<and> (length (body a) = length (body b) \<longrightarrow> a = b)"
  by (auto simp: prefix_def) (use body_start in \<open>metis body_def body_simps(2) concat.simps(1) list.discI list.exhaust\<close>)

lemma body_length: "names cs \<Longrightarrow> cs \<noteq> [] \<Longrightarrow> 2 \<le> length (body cs)"
proof (cases cs)
  fix c cs' assume "names cs" "cs = c # cs'"
  then show "2 \<le> length (body cs)" by (cases c) (auto simp: names_Cons)
qed simp

lemma render_length_1: "names cs \<Longrightarrow> length (render cs) = 1 \<longleftrightarrow> cs = []"
  using body_length [of cs] by (auto simp: render_def)

lemma render_not_Nil [simp]: "render cs \<noteq> []" using body_start [of cs] by (cases cs) (auto simp: render_def)

section \<open>Commands and translation\<close>

text \<open>The colon-separated entries of \<open>$PATH\<close>.\<close>

fun entries :: "string \<Rightarrow> string list" where
  "entries [] = [[]]"
| "entries (c # p) =
     (if c = CHR '':'' then [] # entries p else (c # hd (entries p)) # tl (entries p))"

lemma entries_unfold:
  "entries p = takeWhile (\<lambda>c. c \<noteq> CHR '':'') p #
     (if dropWhile (\<lambda>c. c \<noteq> CHR '':'') p = [] then []
      else entries (tl (dropWhile (\<lambda>c. c \<noteq> CHR '':'') p)))"
  by (induction p) (simp_all del: dropWhile_eq_Nil_conv)

definition executable :: "Fs \<Rightarrow> Tracee option \<Rightarrow> string \<Rightarrow> bool" where
  "executable fs tracee path \<longleftrightarrow>
     (case realpath2 fs tracee path True of
        Some (Inr h) \<Rightarrow> (case fs_mode fs h of None \<Rightarrow> False | Some mode \<Rightarrow> S_ISREG mode \<and> S_IXUSR mode)
      | _ \<Rightarrow> False)"

text \<open>The system gives an absolute working directory.\<close>

definition cwd_absolute :: "Fs \<Rightarrow> bool" where
  "cwd_absolute fs \<longleftrightarrow> (\<forall>d. fs_getcwd fs = Inr d \<longrightarrow> char_at d 0 = CHR ''/'')"

lemma translate_base_absolute:
  "cwd_absolute fs \<Longrightarrow> translate_base fs tracee dir_fd user = Some (Inr b) \<Longrightarrow> char_at b 0 = CHR ''/''"
  by (auto simp: translate_base_def cwd_absolute_def char_at_def
      split: if_splits option.splits sum.splits)

text \<open>The translations are not logged.\<close>

definition quiet :: "Tracee option \<Rightarrow> bool" where
  "quiet tracee \<longleftrightarrow> (\<forall>t. tracee = Some t \<longrightarrow> t_verbose t < 2)"

lemma realpath2_total: "cwd_absolute fs \<Longrightarrow> quiet tracee \<Longrightarrow> realpath2 fs tracee path d \<noteq> None"
  by (auto simp: realpath2_def translate_path_def translate_base_def cwd_absolute_def bind_ok_def char_at_def
      quiet_def VERBOSE_def split: if_splits option.splits sum.splits prod.splits)

lemma realpath2_deref: "realpath2 fs tracee path d = realpath2 fs tracee path d'"
  by (simp add: realpath2_def translate_path_def)

text \<open>The search stops at a path that is executable, or whose translation is undefined.\<close>

definition stops_at :: "Fs \<Rightarrow> Tracee option \<Rightarrow> string \<Rightarrow> bool" where
  "stops_at fs tracee path \<longleftrightarrow> realpath2 fs tracee path True = None \<or> executable fs tracee path"

lemma try_candidate_executable:
  "try_candidate fs tracee path =
    (if stops_at fs tracee path
     then bind_ok (realpath2 fs tracee path False) (\<lambda>h. Some (Inr (Some h))) else Some (Inr None))"
  using realpath2_deref [of fs tracee path False True]
  by (auto simp: try_candidate_def stops_at_def executable_def deref_kept_def bind_ok_def
      split: option.splits sum.splits)

lemma executable_translates:
  "executable fs tracee path \<Longrightarrow> \<exists>h. realpath2 fs tracee path False = Some (Inr h)"
  using realpath2_deref [of fs tracee path False True]
  by (auto simp: executable_def split: option.splits sum.splits)

abbreviation candidates :: "string \<Rightarrow> string \<Rightarrow> string list" where
  "candidates p command \<equiv> List.map_filter (\<lambda>e. candidate e command) (entries p)"

lemma search_loop_find:
  "search_loop fs tracee command p =
    (case find (stops_at fs tracee) (candidates p command) of
       None \<Rightarrow> Some (Inr None)
     | Some path \<Rightarrow> bind_ok (realpath2 fs tracee path False) (\<lambda>h. Some (Inr (Some h))))"
proof (induction fs tracee command p rule: search_loop.induct)
  case (1 fs tracee command p)
  define e where "e = takeWhile (\<lambda>c. c \<noteq> CHR '':'') p"
  define rest where "rest = dropWhile (\<lambda>c. c \<noteq> CHR '':'') p"
  have ent: "entries p = e # (if rest = [] then [] else entries (tl rest))"
    unfolding e_def rest_def by (rule entries_unfold)
  define more where "more = (if rest = [] then Some (Inr None) else search_loop fs tracee command (tl rest))"
  have more: "more = (case find (stops_at fs tracee)
        (if rest = [] then [] else candidates (tl rest) command) of
       None \<Rightarrow> Some (Inr None)
     | Some path \<Rightarrow> bind_ok (realpath2 fs tracee path False) (\<lambda>h. Some (Inr (Some h))))"
    using 1(1) [OF e_def rest_def] by (simp add: more_def)
  have step: "search_loop fs tracee command p =
      bind_ok (case candidate e command of None \<Rightarrow> Some (Inr None) | Some path \<Rightarrow> try_candidate fs tracee path)
        (\<lambda>r. case r of Some h \<Rightarrow> Some (Inr (Some h)) | None \<Rightarrow> more)"
    unfolding more_def e_def rest_def by (subst search_loop.simps) (simp add: Let_def del: dropWhile_eq_Nil_conv)
  show ?case
  proof (cases "candidate e command")
    case None
    then show ?thesis unfolding step ent more by (simp add: map_filter_simps)
  next
    case (Some path)
    show ?thesis
    proof (cases "stops_at fs tracee path")
      case True
      then have "bind_ok (try_candidate fs tracee path) (\<lambda>r. case r of Some h \<Rightarrow> Some (Inr (Some h)) | None \<Rightarrow> more) =
          bind_ok (realpath2 fs tracee path False) (\<lambda>h. Some (Inr (Some h)))"
        by (auto simp: try_candidate_executable bind_ok_def split: option.splits sum.splits)
      then show ?thesis unfolding step ent using Some True by (simp add: map_filter_simps)
    next
      case False
      then show ?thesis unfolding step ent
        using Some by (simp add: map_filter_simps try_candidate_executable more)
    qed
  qed
qed

section \<open>Properties\<close>

text \<open>C25: \<open>which\<close> is the first match of the search path: for a command without a slash it returns
  the translation of the first entry of the path, in order, where the command is a regular
  executable file; entries that are too long are skipped, an empty one is the working directory;
  it fails with -1 exactly when no entry matches.  The search is undefined where it meets a
  translation that is; there is none when the translations of the tracee are not logged and the
  working directory is absolute.\<close>

theorem which_first_match:
  assumes "CHR ''/'' \<notin> set command" "p \<noteq> []"
  shows "which fs tracee (Some p) command =
    (if realpath2 fs tracee command True = None then None
     else case find (stops_at fs tracee) (candidates p command) of
       None \<Rightarrow> Some (Inl (- 1))
     | Some path \<Rightarrow> realpath2 fs tracee path False) \<and>
    (cwd_absolute fs \<and> quiet tracee \<longrightarrow> realpath2 fs tracee path deref_final \<noteq> None \<and>
       stops_at fs tracee = executable fs tracee)"
proof (rule conjI)
  show "which fs tracee (Some p) command =
    (if realpath2 fs tracee command True = None then None
     else case find (stops_at fs tracee) (candidates p command) of
       None \<Rightarrow> Some (Inl (- 1))
     | Some path \<Rightarrow> realpath2 fs tracee path False)"
  proof (cases "realpath2 fs tracee command True")
    case None
    then show ?thesis by (simp add: which_def)
  next
    case (Some r)
    show ?thesis
    proof (cases "find (stops_at fs tracee) (candidates p command)")
      case None
      then show ?thesis using Some assms by (simp add: which_def search_loop_find)
    next
      case (Some path)
      then have stop: "stops_at fs tracee path" by (auto simp: find_Some_iff)
      show ?thesis
      proof (cases "executable fs tracee path")
        case True
        then obtain h where "realpath2 fs tracee path False = Some (Inr h)"
          using executable_translates by blast
        then show ?thesis using \<open>realpath2 fs tracee command True = Some r\<close> assms Some
          by (simp add: which_def search_loop_find)
      next
        case False
        then have "realpath2 fs tracee path False = None"
          using stop realpath2_deref [of fs tracee path False True] by (simp add: stops_at_def)
        then show ?thesis using \<open>realpath2 fs tracee command True = Some r\<close> assms Some
          by (simp add: which_def search_loop_find)
      qed
    qed
  qed
  show "cwd_absolute fs \<and> quiet tracee \<longrightarrow> realpath2 fs tracee path deref_final \<noteq> None \<and>
      stops_at fs tracee = executable fs tracee"
  proof (intro impI conjI)
    assume "cwd_absolute fs \<and> quiet tracee"
    then have defined: "realpath2 fs tracee x d \<noteq> None" for x d using realpath2_total by simp
    show "realpath2 fs tracee path deref_final \<noteq> None" by (rule defined)
    show "stops_at fs tracee = executable fs tracee"
      using defined by (simp only: fun_eq_iff stops_at_def) blast
  qed
qed

definition bin_fs :: Fs where
  "bin_fs = \<lparr>fs_realpath = (\<lambda>p. Inr p), fs_getcwd = Inr ''/'',
     fs_mode = (\<lambda>p. if p = ''/bin/ls'' then Some 0x81ED else None),
     fs_readlink = (\<lambda>_. None), fs_readdir = (\<lambda>_. None), fs_PATH = None\<rparr>"

theorem which_first_match_witness:
  "which bin_fs None (Some ''/sbin:/bin'') ''ls'' = Some (Inr ''/bin/ls'')"
proof -
  have "candidates ''/sbin:/bin'' ''ls'' = [''/sbin/ls'', ''/bin/ls'']"
    by (simp add: map_filter_simps candidate_def)
  moreover have "\<not> executable bin_fs None ''/sbin/ls''" "executable bin_fs None ''/bin/ls''"
    by (simp_all add: executable_def realpath2_def bin_fs_def S_ISREG_def S_IXUSR_def)
  moreover have "realpath2 bin_fs None ''/bin/ls'' False = Some (Inr ''/bin/ls'')"
    by (simp add: realpath2_def bin_fs_def)
  moreover have "cwd_absolute bin_fs" by (simp add: cwd_absolute_def bin_fs_def char_at_def)
  ultimately show ?thesis
    using which_first_match [of "''ls''" "''/sbin:/bin''" bin_fs None] by (simp add: quiet_def)
qed

text \<open>C20: on canonical paths, each with or without a trailing slash, \<open>compare_paths\<close> decides the
  prefix order of their components, although it compares characters: it never takes a name that
  starts with another for its descendant.\<close>

theorem compare_paths_prefix:
  assumes "names a" "names b" "path_of a p" "path_of b q"
  shows "compare_paths p q = Some (if a = b then PATHS_ARE_EQUAL
    else if prefix a b then PATH1_IS_PREFIX else if prefix b a then PATH2_IS_PREFIX
    else PATHS_ARE_NOT_COMPARABLE)"
proof -
  let ?m = "length (body a)" and ?n = "length (body b)"
  note c = compare_strip [OF assms]
  consider "?m < ?n" | "?n < ?m" | "?m = ?n" by linarith
  then show ?thesis
  proof cases
    case 1
    then have "\<not> prefix b a" "a \<noteq> b" using prefix_body_length [of b a] by auto
    then show ?thesis
      using c 1 prefix_iff_sentinel [OF assms(1,2,4)] take_body [OF assms(3), of ?m]
      by (auto simp: Let_def min_def)
  next
    case 2
    then have "\<not> prefix a b" "a \<noteq> b" using prefix_body_length [of a b] by auto
    then show ?thesis
      using c 2 prefix_iff_sentinel [OF assms(2,1,3)] take_body [OF assms(4), of ?n]
      by (auto simp: Let_def min_def)
  next
    case 3
    then have "prefix a b \<longleftrightarrow> a = b" "prefix b a \<longleftrightarrow> a = b"
      using prefix_body_length [of a b] prefix_body_length [of b a] by auto
    then show ?thesis
      using c 3 prefix_iff_sentinel [OF assms(2,1,3)] take_body [OF assms(4), of ?n]
        take_body [OF assms(3), of ?m] body_inj [OF assms(1,2)]
      by (auto simp: Let_def)
  qed
qed

theorem compare_paths_prefix_witness:
  "compare_paths ''/usr/lib64'' ''/usr/lib'' = Some PATHS_ARE_NOT_COMPARABLE \<and>
   compare_paths ''/usr/'' ''/usr/lib'' = Some PATH1_IS_PREFIX"
proof -
  have n: "names [''usr'']" "names [''usr'', ''lib'']" "names [''usr'', ''lib64'']"
    by (simp_all add: names_def)
  have p: "path_of [''usr''] ''/usr/''" "path_of [''usr'', ''lib''] ''/usr/lib''"
    "path_of [''usr'', ''lib64''] ''/usr/lib64''"
    by (simp_all add: path_of_def render_def)
  show ?thesis
    using compare_paths_prefix [OF n(3,2) p(3,2)] compare_paths_prefix [OF n(1,2) p(1,2)] by simp
qed

text \<open>C24: \<open>join_paths\<close> puts one separator between two paths, whatever they end and start with,
  and skips null arguments: the joined path has the components of the arguments, no name cut or
  glued to another, and starts like the first one.  The call succeeds exactly when the joined
  path has less than \<open>PATH_MAX - 1\<close> characters, and else reports \<open>- ENAMETOOLONG\<close>: a path of
  \<open>PATH_MAX - 1\<close> characters, which would fit in the buffer with its terminator, is refused.\<close>

theorem join_paths_components:
  "(if length (joined paths) < PATH_MAX - 1 then join_paths paths = (0, joined paths)
    else fst (join_paths paths) = - ENAMETOOLONG) \<and>
   comps (joined paths) = concat (map (\<lambda>p. case p of None \<Rightarrow> [] | Some p \<Rightarrow> comps p) paths) \<and>
   (\<forall>p rest. paths = Some p # rest \<and> p \<noteq> [] \<longrightarrow> char_at (joined paths) 0 = char_at p 0)"
proof -
  have "joined_from [] (Some p # rest) = joined_from p rest" for p rest by (simp add: join2_def)
  then show ?thesis
    using join_loop_joined [of "[]" paths] comps_joined [of "[]" paths] joined_start
    by (auto simp: join_paths_def simp del: joined_from_simps join_loop.simps split: if_splits)
qed

theorem join_paths_components_witness:
  "join_paths [Some ''/data/'', None, Some ''/local'', Some ''tmp''] = (0, ''/data/local/tmp'') \<and>
   char_at ''/data/local/tmp'' 0 = CHR ''/'' \<and>
   fst (join_paths [Some (replicate 4095 CHR ''a'')]) = - ENAMETOOLONG"
  using join_paths_components [of "[Some ''/data/'', None, Some ''/local'', Some ''tmp'']"]
    join_paths_components [of "[Some (replicate 4095 CHR ''a'')]"]
  by (simp add: join2_def char_at_def)

text \<open>Replacing the prefix of a canonical path replaces its leading components: the prefix
  \<open>old\<close> of \<open>old @ rest\<close> by \<open>new\<close> gives the canonical path of \<open>new @ rest\<close> and its length, also when one
  of them is the root; only the root in place of the root is not handled.\<close>

theorem substitute_prefix_components:
  assumes "names old" "names new" "names rest" "old \<noteq> [] \<or> new \<noteq> []"
    and "length (render new) + length (render (old @ rest)) < PATH_MAX"
  shows "substitute_path_prefix (render (old @ rest)) (length (render old)) (render new) (length (render new)) =
    Some (of_nat (length (render (new @ rest))), render (new @ rest))"
proof -
  have le: "length (render old) \<le> length (render (old @ rest))"
    using body_length [of rest] assms(3) by (auto simp: render_def)
  note one = render_length_1 [OF assms(1)] render_length_1 [OF assms(2)]
  consider "new = []" "old \<noteq> []" | "new \<noteq> []" "old = []" | "new \<noteq> []" "old \<noteq> []" using assms(4) by blast
  then show ?thesis
  proof cases
    case 1
    have "body rest = [] \<longleftrightarrow> rest = []" by (cases rest) simp_all
    then show ?thesis using 1 le assms(5) by (auto simp: substitute_path_prefix_def Let_def render_def)
  next
    case 2
    have "length (body rest) > 1" if "rest \<noteq> []" using body_length [OF assms(3) that] by simp
    then show ?thesis using 2 le assms(5) one by (auto simp: substitute_path_prefix_def Let_def render_def)
  next
    case 3
    then show ?thesis using le assms(5) one by (auto simp: substitute_path_prefix_def Let_def render_def)
  qed
qed

theorem substitute_prefix_components_witness:
  "substitute_path_prefix ''/usr/bin/sh'' 4 ''/'' 1 = Some (7, ''/bin/sh'')"
  using substitute_prefix_components [of "[''usr'']" "[]" "[''bin'', ''sh'']"]
  by (simp add: names_def render_def eval_nat_numeral)

text \<open>\<open>chop_finality\<close> removes one trailing slash, or a trailing slash and dot, of a canonical
  path, keeps the root, and leaves a path without them alone; but of a path whose last name ends
  with a dot it cuts the last two characters of the name.\<close>

theorem chop_finality_canonical:
  assumes "names cs"
  shows "chop_finality (body cs @ ''/'') = Some (render cs) \<and>
    chop_finality (body cs @ ''/.'') = Some (render cs) \<and>
    chop_finality (body cs @ CHR ''/'' # n @ [c, d]) = Some (body cs @ CHR ''/'' # n @
      (if d = CHR ''.'' then [] else if d = CHR ''/'' then [c] else [c, d]))"
  using body_length [OF assms] by (auto simp: chop_finality_def render_def)

theorem chop_finality_canonical_witness:
  "chop_finality ''/usr/.'' = Some ''/usr'' \<and> chop_finality ''/usr/v1.'' = Some ''/usr/v''"
  using chop_finality_canonical [of "[''usr'']" "''v''" "CHR ''1''" "CHR ''.''"]
  by (simp add: names_def render_def)

section \<open>Links\<close>

lemma length_dec: "n < 10 ^ k \<Longrightarrow> 0 < k \<Longrightarrow> length (dec n) \<le> k"
proof (induction k arbitrary: n)
  case (Suc k)
  show ?case
  proof (cases "n < 10")
    case False
    have "n div 10 < 10 ^ k" using Suc.prems(1) by (simp add: less_mult_imp_div_less mult.commute)
    moreover have "0 < k" using False Suc.prems(1) by (cases k) auto
    ultimately show ?thesis using Suc.IH [of "n div 10"] False by (subst dec.simps) simp
  qed (subst dec.simps, simp)
qed simp

lemma length_format_d: "\<bar>i\<bar> < 2 ^ 32 \<Longrightarrow> length (format_d i) \<le> (if i < 0 then 11 else 10)"
  using length_dec [of "nat i" 10] length_dec [of "nat (- i)" 10] by (auto simp: format_d_def)

text \<open>The link of a descriptor fits in the 32 bytes it is formatted in.\<close>

lemma link_fits:
  assumes "0 \<le> pid" "pid < 2 ^ 31" "\<bar>fd\<bar> < 2 ^ 32"
  shows "length (''/proc/'' @ format_d pid @ ''/fd/'' @ format_d fd) < 32"
  using length_format_d [of pid] length_format_d [of fd] assms by (auto split: if_splits)

definition fd_link :: "pid \<Rightarrow> int \<Rightarrow> string" where
  "fd_link pid fd = ''/proc/'' @ format_d pid @ ''/fd/'' @ format_d fd"

lemma readlink_fd_link:
  assumes "0 \<le> pid" "pid < 2 ^ 31" "\<bar>fd\<bar> < 2 ^ 32"
  shows "readlink_proc_pid_fd fs pid fd = Inr base \<longleftrightarrow>
    fs_readlink fs (fd_link pid fd) = Some base \<and> length base < PATH_MAX"
  using link_fits [OF assms]
  by (auto simp: readlink_proc_pid_fd_def readlink_def fd_link_def Let_def split: option.splits if_splits)

text \<open>C29: a translated path is absolute, fits in its buffer, and has the components of the base,
  then of the path: the base is the root for an absolute path, the target of the descriptor of
  the tracee for a relative path with a descriptor, and else the working directory of the tracer
  (not of the tracee).  No component is resolved: neither \<open>..\<close> nor a link is followed, whatever
  \<open>deref_final\<close> says.\<close>

theorem translate_path_joins:
  assumes "0 \<le> t_pid t" "t_pid t < 2 ^ 31" "\<bar>dir_fd\<bar> < 2 ^ 32"
    and "translate_path fs (Some t) dir_fd user deref_final = Some (Inr r)"
  shows "\<exists>base. (if char_at user 0 = CHR ''/'' then base = ''/''
            else if dir_fd \<noteq> - 100 then fs_readlink fs (fd_link (t_pid t) dir_fd) = Some base
            else fs_getcwd fs = Inr base) \<and>
          comps r = comps base @ comps user \<and> char_at r 0 = CHR ''/'' \<and> length r < PATH_MAX"
proof -
  obtain base status where base: "translate_base fs (Some t) dir_fd user = Some (Inr base)"
    "char_at base 0 = CHR ''/''" and j: "join_paths [Some base, Some user] = (status, r)" "\<not> status < 0"
    using assms(4) by (auto simp: translate_path_def bind_ok_Inr split: if_splits prod.splits)
  have "status = 0"
    using j join_loop_status [of "[Some base, Some user]" "[]" status r] by (auto simp: join_paths_def)
  with j(1) have "join_paths [Some base, Some user] = (0, r)" by simp
  moreover have "base \<noteq> []" using base(2) by (auto simp: char_at_def)
  ultimately have "comps r = comps base @ comps user" "char_at r 0 = CHR ''/''" "length r < PATH_MAX"
    using join_ok [of base "[Some user]" r] base(2) by simp_all
  moreover have "if char_at user 0 = CHR ''/'' then base = ''/''
            else if dir_fd \<noteq> - 100 then fs_readlink fs (fd_link (t_pid t) dir_fd) = Some base
            else fs_getcwd fs = Inr base"
    using base(1) readlink_fd_link [OF assms(1-3)]
    by (auto simp: translate_base_def split: if_splits sum.splits)
  ultimately show ?thesis by blast
qed

theorem translate_path_joins_witness:
  "translate_path (bin_fs\<lparr>fs_getcwd := Inr ''/data''\<rparr>) (Some calloc_tracee) (- 100) ''../etc'' True =
     Some (Inr ''/data/../etc'') \<and> comps ''/data/../etc'' = [''data'', ''..'', ''etc'']"
proof -
  let ?fs = "bin_fs\<lparr>fs_getcwd := Inr ''/data''\<rparr>"
  have t: "translate_path ?fs (Some calloc_tracee) (- 100) ''../etc'' True = Some (Inr ''/data/../etc'')"
    by (simp add: translate_path_def translate_base_def join_paths_def char_at_def VERBOSE_def calloc_tracee_def)
  show ?thesis
    using translate_path_joins [OF _ _ _ t] t by (simp add: calloc_tracee_def char_at_def bin_fs_def)
qed

end
