(* ===== verification/Shebang.thy ===== *)
theory Shebang
  imports Path
begin

text \<open>
  The expansion of scripts of execve/shebang.c, with the check of execve/enter.c that a program
  may be executed.

  A file is the bytes it gives and the error behind them, if any; the limits of the kernel headers
  (\<open>BINPRM_BUF_SIZE\<close>, \<open>MAXSYMLINKS\<close>) are part of the record \<open>Exec\<close> of what the system answers.
  \<open>extract_shebang\<close> reads byte by byte; its two loops are \<open>slurp_path\<close> and \<open>slurp_argument\<close>.  The
  relation \<open>reaches\<close> is the chain of interpreters a script runs.
\<close>

section \<open>Definitions\<close>

text \<open>
  An open file: its bytes, and what a \<open>read\<close> behind them answers, end of file or an error.
\<close>

record File =
  f_bytes :: string
  f_error :: "int option"

record Exec =
  ex_fs :: Fs
  ex_exists :: "string \<Rightarrow> bool"
  ex_executable :: "string \<Rightarrow> bool"
  ex_lstat :: "string \<Rightarrow> bool"
  ex_open :: "string \<Rightarrow> int + File"
  ex_strdup :: "string \<Rightarrow> bool"
  BINPRM_BUF_SIZE :: nat
  MAXSYMLINKS :: nat

definition translate_and_check_exec :: "Exec \<Rightarrow> Tracee \<Rightarrow> string \<Rightarrow> string result" where
  "translate_and_check_exec X tracee user_path =
     (if char_at user_path 0 = CHR 0x00 then Some (Inl (- ENOEXEC))
      else bind_ok (translate_path (ex_fs X) (Some tracee) (- 100) user_path True) (\<lambda>host_path.
        if \<not> ex_exists X host_path then Some (Inl (- ENOENT))
        else if \<not> ex_executable X host_path then Some (Inl (- EACCES))
        else if \<not> ex_lstat X host_path then Some (Inl (- EPERM))
        else Some (Inr host_path)))"

definition blank :: "char \<Rightarrow> bool" where
  "blank c \<longleftrightarrow> c = CHR '' '' \<or> c = CHR 0x09"

definition newline :: "char \<Rightarrow> bool" where
  "newline c \<longleftrightarrow> c = CHR 0x0A \<or> c = CHR 0x0D"

text \<open>What a failed read of a byte gives: the error, or else the answer at the end of file.\<close>

definition at_end :: "int option \<Rightarrow> (int + 'a) \<Rightarrow> int + 'a" where
  "at_end e eof = (case e of Some errno \<Rightarrow> Inl (- errno) | None \<Rightarrow> eof)"

fun skip_spaces :: "nat \<Rightarrow> int option \<Rightarrow> string \<Rightarrow> nat \<Rightarrow> int + (char \<times> string \<times> nat)" where
  "skip_spaces B e [] n = at_end e (Inl (- ENOEXEC))"
| "skip_spaces B e (tmp # cs) n =
     (if blank tmp \<and> n + 1 < B then skip_spaces B e cs (n + 1) else Inr (tmp, cs, n + 1))"

text \<open>The string in a buffer.\<close>

definition c_string :: "string \<Rightarrow> string" where
  "c_string s = takeWhile (\<lambda>c. c \<noteq> CHR 0x00) s"

text \<open>Trailing blanks, but not the first character.\<close>

fun strip_from :: "string \<Rightarrow> string" where
  "strip_from [] = []"
| "strip_from [c] = [c]"
| "strip_from (c # d # a) = c # rev (dropWhile blank (rev (d # a)))"

fun slurp_argument ::
    "nat \<Rightarrow> int option \<Rightarrow> string \<Rightarrow> char \<Rightarrow> string \<Rightarrow> nat \<Rightarrow> string \<Rightarrow> int + (string \<times> string)" where
  "slurp_argument B e user_path tmp cs n argument =
     (if \<not> n < B then Inr (c_string user_path, c_string argument)
      else if newline tmp then Inr (c_string user_path, c_string (strip_from argument))
      else case cs of
             [] \<Rightarrow> at_end e (Inr (c_string user_path, []))
           | c # cs \<Rightarrow> slurp_argument B e user_path c cs (n + 1) (argument @ [tmp]))"

text \<open>
  \<open>user_path\<close> is what has been written to the buffer, so that its length is the index \<open>i\<close>.  The
  terminator stored at the end of file goes to the index of the character just stored.
\<close>

fun slurp_path ::
    "nat \<Rightarrow> int option \<Rightarrow> char \<Rightarrow> string \<Rightarrow> nat \<Rightarrow> string \<Rightarrow> int + (string \<times> string)" where
  "slurp_path B e tmp cs n user_path =
     (if \<not> n < B then Inr (c_string user_path, [])
      else if newline tmp then Inr (c_string user_path, [])
      else if \<not> blank tmp \<and> length user_path > 1 \<and> last user_path = CHR 0x00
      then slurp_argument B e user_path tmp cs n []
      else case cs of
             [] \<Rightarrow> at_end e (Inr (c_string user_path, []))
           | c # cs \<Rightarrow>
               slurp_path B e c cs (n + 1) (user_path @ [if blank tmp then CHR 0x00 else tmp]))"

declare slurp_argument.simps [simp del] slurp_path.simps [simp del]

text \<open>No shebang is \<open>Inr None\<close>, else the interpreter and its argument.\<close>

definition extract_shebang :: "Exec \<Rightarrow> string \<Rightarrow> (string \<times> string) option result" where
  "extract_shebang X host_path =
     (if \<not> BINPRM_BUF_SIZE X < PATH_MAX then None
      else case ex_open X host_path of
             Inl errno \<Rightarrow> Some (Inl (- errno))
           | Inr f \<Rightarrow>
               (case f_bytes f of
                  [] \<Rightarrow> Some (at_end (f_error f) (Inr None))
                | [_] \<Rightarrow> Some (Inr None)
                | c # d # cs \<Rightarrow>
                    if c \<noteq> CHR ''#'' \<or> d \<noteq> CHR ''!'' then Some (Inr None)
                    else case skip_spaces (BINPRM_BUF_SIZE X) (f_error f) cs 2 of
                           Inl status \<Rightarrow> Some (Inl status)
                         | Inr (tmp, cs, n) \<Rightarrow>
                             (case slurp_path (BINPRM_BUF_SIZE X) (f_error f) tmp cs n [] of
                                Inl status \<Rightarrow> Some (Inl status)
                              | Inr found \<Rightarrow> Some (Inr (Some found)))))"

text \<open>The result is whether a shebang was found, and both paths of the program.\<close>

fun expand_loop :: "Exec \<Rightarrow> Tracee \<Rightarrow> nat \<Rightarrow> bool \<Rightarrow> string \<Rightarrow> (bool \<times> string \<times> string) result" where
  "expand_loop X tracee 0 has_shebang user_path = Some (Inl (- ELOOP))"
| "expand_loop X tracee (Suc k) has_shebang user_path =
     bind_ok (translate_and_check_exec X tracee user_path) (\<lambda>host_path.
       if \<not> ex_strdup X user_path then Some (Inl (- ENOMEM))
       else bind_ok (extract_shebang X host_path) (\<lambda>r.
         case r of
           None \<Rightarrow> Some (Inr (has_shebang, host_path, user_path))
         | Some (interpreter, argument) \<Rightarrow>
             bind_ok (translate_and_check_exec X tracee interpreter) (\<lambda>_.
               expand_loop X tracee k True interpreter)))"

definition expand_shebang :: "Exec \<Rightarrow> Tracee \<Rightarrow> string \<Rightarrow> (bool \<times> string \<times> string) result" where
  "expand_shebang X tracee user_path = expand_loop X tracee (MAXSYMLINKS X) False user_path"

section \<open>Extraction\<close>

lemma skip_blanks:
  "\<forall>c \<in> set sp. blank c \<Longrightarrow> \<not> blank c \<Longrightarrow> n + length sp < B \<Longrightarrow>
   skip_spaces B e (sp @ c # cs) n = Inr (c, cs, n + length sp + 1)"
  by (induction sp arbitrary: n) simp_all

definition plain :: "string \<Rightarrow> bool" where
  "plain p \<longleftrightarrow> (\<forall>c \<in> set p. \<not> blank c \<and> \<not> newline c \<and> c \<noteq> CHR 0x00)"

text \<open>Reading a name from any point of it on.\<close>

lemma slurp_plain:
  assumes "plain [c]" "u = [] \<or> last u \<noteq> CHR 0x00" "n < B"
  shows "slurp_path B e c (d # cs) n u = slurp_path B e d cs (n + 1) (u @ [c])"
proof -
  have "\<not> blank c" "\<not> newline c" "\<not> (length u > 1 \<and> last u = CHR 0x00)"
    using assms(1,2) by (auto simp: plain_def)
  then show ?thesis using assms(3) by (subst slurp_path.simps) auto
qed

lemma slurp_name:
  "plain (c # p) \<Longrightarrow> u = [] \<or> last u \<noteq> CHR 0x00 \<Longrightarrow> n + length p < B \<Longrightarrow>
   slurp_path B e c (p @ d # cs) n u = slurp_path B e d cs (n + length p + 1) (u @ c # p)"
proof (induction p arbitrary: c n u)
  case Nil
  then show ?case using slurp_plain [of c u n B e d cs] by simp
next
  case (Cons c' p)
  have "slurp_path B e c ((c' # p) @ d # cs) n u = slurp_path B e c' (p @ d # cs) (n + 1) (u @ [c])"
    using Cons.prems slurp_plain [of c u n B e c'] by (simp add: plain_def)
  also have "\<dots> = slurp_path B e d cs (n + 1 + length p + 1) ((u @ [c]) @ c' # p)"
    by (rule Cons.IH) (use Cons.prems in \<open>simp_all add: plain_def\<close>)
  finally show ?case by simp
qed

lemma blank_not_newline: "blank c \<Longrightarrow> \<not> newline c" by (auto simp: blank_def newline_def)

lemma slurp_blanks:
  "\<forall>c \<in> set (s # sp). blank c \<Longrightarrow> n + length sp < B \<Longrightarrow>
   slurp_path B e s (sp @ d # cs) n u =
   slurp_path B e d cs (n + length sp + 1) (u @ replicate (length sp + 1) (CHR 0x00))"
proof (induction sp arbitrary: s n u)
  case Nil
  then show ?case by (subst slurp_path.simps) (simp add: blank_not_newline)
next
  case (Cons s' sp)
  have "slurp_path B e s ((s' # sp) @ d # cs) n u =
      slurp_path B e s' (sp @ d # cs) (n + 1) (u @ [CHR 0x00])"
    using Cons.prems by (subst slurp_path.simps) (simp add: blank_not_newline)
  also have "\<dots> = slurp_path B e d cs (n + 1 + length sp + 1) ((u @ [CHR 0x00]) @ replicate (length sp + 1) (CHR 0x00))"
    using Cons.IH [of s' "n + 1" "u @ [CHR 0x00]"] Cons.prems by simp
  finally show ?case by simp
qed

lemma slurp_argument_line:
  "\<forall>x \<in> set (c # a). \<not> newline x \<Longrightarrow> newline d \<Longrightarrow> n + length a + 1 < B \<Longrightarrow>
   slurp_argument B e u c (a @ d # cs) n b = Inr (c_string u, c_string (strip_from (b @ c # a)))"
proof (induction a arbitrary: c n b)
  case Nil
  then show ?case by (subst slurp_argument.simps) (simp add: slurp_argument.simps [of _ _ _ d])
next
  case (Cons c' a)
  have "slurp_argument B e u c ((c' # a) @ d # cs) n b = slurp_argument B e u c' (a @ d # cs) (n + 1) (b @ [c])"
    using Cons.prems by (subst slurp_argument.simps) simp
  then show ?case using Cons.IH [of c' "n + 1" "b @ [c]"] Cons.prems by simp
qed

lemma strip_blanks:
  assumes "a \<noteq> []" "\<not> blank (last a)" "\<forall>c \<in> set sp. blank c"
  shows "strip_from (a @ sp) = a"
proof (cases a)
  case (Cons c a')
  show ?thesis
  proof (cases "a' @ sp")
    case Nil then show ?thesis using Cons by simp
  next
    case (Cons d b)
    have "strip_from (c # a' @ sp) = c # rev (dropWhile blank (rev (a' @ sp)))" using Cons by simp
    also have "dropWhile blank (rev (a' @ sp)) = dropWhile blank (rev a')"
      unfolding rev_append using assms(3) by (intro dropWhile_append2) simp
    also have "\<dots> = rev a'"
      using assms(2) \<open>a = c # a'\<close> by (cases a' rule: rev_cases) auto
    finally show ?thesis using \<open>a = c # a'\<close> by simp
  qed
qed (use assms in simp)


lemma c_string_plain: "plain p \<Longrightarrow> c_string p = p" "plain p \<Longrightarrow> c_string (p @ CHR 0x00 # q) = p"
  by (induction p) (simp_all add: c_string_def plain_def)

text \<open>A text file with these bytes.\<close>

abbreviation opens :: "Exec \<Rightarrow> string \<Rightarrow> string \<Rightarrow> bool" where
  "opens X host_path bs \<equiv> ex_open X host_path = Inr \<lparr>f_bytes = bs, f_error = None\<rparr>"

lemma slurp_name_blanks:
  assumes "plain (c # q)" "\<forall>b \<in> set sp. blank b" "n + length q + length sp < B"
  shows "slurp_path B e c (q @ sp @ d # cs) n [] =
    slurp_path B e d cs (n + length q + length sp + 1) (c # q @ replicate (length sp) (CHR 0x00))"
proof (cases sp)
  case Nil
  then show ?thesis using slurp_name [of c q "[]" n B e d cs] assms by simp
next
  case (Cons s sp')
  have "slurp_path B e c (q @ s # sp' @ d # cs) n [] =
      slurp_path B e s (sp' @ d # cs) (n + length q + 1) ([] @ c # q)"
    by (rule slurp_name) (use assms in simp_all)
  also have "\<dots> = slurp_path B e d cs (n + length q + 1 + length sp' + 1)
      (([] @ c # q) @ replicate (length sp' + 1) (CHR 0x00))"
    by (rule slurp_blanks) (use assms Cons in simp_all)
  finally show ?thesis using Cons by (simp add: add_ac)
qed

lemma slurp_to_argument:
  assumes "\<not> newline d" "\<not> blank d" "n < B" "0 < m"
  shows "slurp_path B e d cs n (c # q @ replicate m (CHR 0x00)) =
    slurp_argument B e (c # q @ replicate m (CHR 0x00)) d cs n []"
proof -
  obtain m' where "m = Suc m'" using assms(4) by (cases m) auto
  then have "length (c # q @ replicate m (CHR 0x00)) > 1" "last (c # q @ replicate m (CHR 0x00)) = CHR 0x00"
    by (simp_all add: replicate_append_same [symmetric] del: replicate_Suc)
  then show ?thesis using assms by (subst slurp_path.simps) simp
qed

section \<open>Properties\<close>

text \<open>C28: the shebang line of a script is split as documented: blanks around the interpreter and
  behind the argument are dropped, and the argument is everything between them, with its inner
  blanks; the line must be shorter than the buffer of the kernel.\<close>

theorem extract_shebang_line:
  assumes "opens X host (''#!'' @ sp @ p @ sp2 @ a @ sp3 @ nl # rest)"
    and "BINPRM_BUF_SIZE X < PATH_MAX" "2 + length (sp @ p @ sp2 @ a @ sp3) + 1 < BINPRM_BUF_SIZE X"
    and "\<forall>c \<in> set (sp @ sp2 @ sp3). blank c" "newline nl" "p \<noteq> []" "plain p"
    and "a \<noteq> [] \<longrightarrow> sp2 \<noteq> [] \<and> \<not> blank (hd a) \<and> \<not> blank (last a)"
    and "\<forall>c \<in> set a. \<not> newline c \<and> c \<noteq> CHR 0x00" "a = [] \<longrightarrow> sp3 = []"
  shows "extract_shebang X host = Some (Inr (Some (p, a)))"
proof -
  let ?B = "BINPRM_BUF_SIZE X" and ?n = "2 + length sp + 1"
  obtain c q where p: "p = c # q" using assms(6) by (cases p) auto
  let ?u = "c # q @ replicate (length sp2) (CHR 0x00)"
  have cu: "c_string ?u = p"
    using c_string_plain [of p] assms(7) p by (cases "length sp2") simp_all
  have skip: "skip_spaces ?B None (sp @ c # q @ sp2 @ a @ sp3 @ nl # rest) 2 =
      Inr (c, q @ sp2 @ a @ sp3 @ nl # rest, ?n)"
    by (rule skip_blanks) (use assms p in \<open>auto simp: plain_def\<close>)
  have "slurp_path ?B None c (q @ sp2 @ a @ sp3 @ nl # rest) ?n [] = Inr (p, a)"
  proof (cases a)
    case Nil
    have "slurp_path ?B None c (q @ sp2 @ nl # rest) ?n [] =
        slurp_path ?B None nl rest (?n + length q + length sp2 + 1) ?u"
      by (rule slurp_name_blanks) (use assms p in auto)
    then show ?thesis using Nil assms(3,5,10) cu p by (subst (asm) (2) slurp_path.simps) simp
  next
    case (Cons d b)
    then have d: "\<not> newline d" "\<not> blank d" "0 < length sp2" using assms(8,9) by auto
    let ?m = "?n + length q + length sp2 + 1"
    have "slurp_path ?B None c (q @ sp2 @ d # b @ sp3 @ nl # rest) ?n [] =
        slurp_path ?B None d (b @ sp3 @ nl # rest) ?m ?u"
      by (rule slurp_name_blanks) (use assms p Cons in auto)
    also have "\<dots> = slurp_argument ?B None ?u d ((b @ sp3) @ nl # rest) ?m []"
      using slurp_to_argument [OF d(1,2) _ d(3)] assms(3) p Cons by simp
    also have "\<dots> = Inr (c_string ?u, c_string (strip_from ([] @ d # b @ sp3)))"
      by (rule slurp_argument_line) (use assms p Cons blank_not_newline in auto)
    also have "strip_from ([] @ d # b @ sp3) = a"
      using strip_blanks [of a sp3] assms(4,8) Cons by simp
    also have "c_string a = a" using assms(9) by (simp add: c_string_def takeWhile_eq_all_conv)
    finally show ?thesis using Cons cu by simp
  qed
  then show ?thesis using assms(1,2) skip by (simp add: extract_shebang_def p)
qed


text \<open>A script that ends in its shebang line, without a line end, loses the last character of
  its interpreter: the terminator is stored where the character was.\<close>

theorem extract_shebang_unterminated:
  assumes "opens X host (''#!'' @ sp @ p)" "BINPRM_BUF_SIZE X < PATH_MAX"
    and "2 + length (sp @ p) < BINPRM_BUF_SIZE X" "\<forall>c \<in> set sp. blank c" "p \<noteq> []" "plain p"
  shows "extract_shebang X host = Some (Inr (Some (butlast p, [])))"
proof -
  let ?B = "BINPRM_BUF_SIZE X" and ?n = "2 + length sp + 1"
  obtain c q where p: "p = c # q" using assms(5) by (cases p) auto
  have skip: "skip_spaces ?B None (sp @ c # q) 2 = Inr (c, q, ?n)"
    by (rule skip_blanks) (use assms p in \<open>auto simp: plain_def\<close>)
  have ends: "slurp_path ?B None z [] n u = Inr (u, [])" if "plain u" "plain [z]" "n < ?B" for z n u
  proof -
    have "\<not> (length u > 1 \<and> last u = CHR 0x00)" "\<not> newline z"
      using that(1,2) by (cases u rule: rev_cases; simp add: plain_def)+
    then have "\<not> (\<not> blank z \<and> length u > 1 \<and> last u = CHR 0x00)" by blast
    then show ?thesis using that(3) \<open>\<not> newline z\<close> c_string_plain(1) [OF that(1)]
      by (subst slurp_path.simps) (simp only: at_end_def if_False not_not if_True not_True_eq_False list.case option.case)
  qed
  have "slurp_path ?B None c q ?n [] = Inr (butlast p, [])"
  proof (cases q rule: rev_cases)
    case Nil
    then show ?thesis using ends [of "[]" c ?n] assms(3,6) p by (simp add: plain_def)
  next
    case (snoc r z)
    have "slurp_path ?B None c (r @ z # []) ?n [] = slurp_path ?B None z [] (?n + length r + 1) ([] @ c # r)"
      by (rule slurp_name) (use assms p snoc in \<open>auto simp: plain_def\<close>)
    also have "\<dots> = Inr (c # r, [])"
      using ends [of "c # r" z "?n + length r + 1"] assms(3,6) p snoc by (simp add: plain_def)
    finally show ?thesis using snoc p by simp
  qed
  then show ?thesis using assms(1,2) skip by (simp add: extract_shebang_def p)
qed

section \<open>Interpreters of interpreters\<close>

text \<open>The program a path runs next: the interpreter of its script.\<close>

definition runs :: "Exec \<Rightarrow> Tracee \<Rightarrow> string \<Rightarrow> string \<Rightarrow> bool" where
  "runs X tracee p q \<longleftrightarrow> (\<exists>host argument host'.
     translate_and_check_exec X tracee p = Some (Inr host) \<and>
     extract_shebang X host = Some (Inr (Some (q, argument))) \<and>
     translate_and_check_exec X tracee q = Some (Inr host'))"

definition final :: "Exec \<Rightarrow> Tracee \<Rightarrow> string \<Rightarrow> string \<Rightarrow> bool" where
  "final X tracee p host \<longleftrightarrow>
     translate_and_check_exec X tracee p = Some (Inr host) \<and> extract_shebang X host = Some (Inr None)"

inductive reaches :: "Exec \<Rightarrow> Tracee \<Rightarrow> nat \<Rightarrow> string \<Rightarrow> string \<Rightarrow> bool" for X tracee where
  here: "reaches X tracee 0 p p"
| there: "runs X tracee p q \<Longrightarrow> reaches X tracee n q r \<Longrightarrow> reaches X tracee (Suc n) p r"

inductive_simps reaches_0: "reaches X tracee 0 p q"
inductive_simps reaches_Suc: "reaches X tracee (Suc n) p q"

lemma final_not_runs: "final X tracee p host \<Longrightarrow> \<not> runs X tracee p q"
  by (auto simp: final_def runs_def)

lemma runs_det: "runs X tracee p q \<Longrightarrow> runs X tracee p q' \<Longrightarrow> q = q'"
  by (auto simp: runs_def)

lemma expand_loop_step:
  assumes "\<And>p. ex_strdup X p"
  shows "expand_loop X tracee (Suc k) has p = Some (Inr (h, host, prog)) \<longleftrightarrow>
    (final X tracee p host \<and> h = has \<and> prog = p) \<or>
    (\<exists>q. runs X tracee p q \<and> expand_loop X tracee k True q = Some (Inr (h, host, prog)))"
  using assms by (auto simp: bind_ok_Inr final_def runs_def split: option.splits prod.splits)

lemma expand_loop_reaches:
  assumes "\<And>p. ex_strdup X p"
  shows "expand_loop X tracee k has p = Some (Inr (h, host, prog)) \<longleftrightarrow>
    (\<exists>n < k. reaches X tracee n p prog \<and> final X tracee prog host \<and> h = (has \<or> 0 < n))"
proof (induction k arbitrary: has p)
  case (Suc k)
  have "(\<exists>n < Suc k. reaches X tracee n p prog \<and> final X tracee prog host \<and> h = (has \<or> 0 < n)) \<longleftrightarrow>
      (reaches X tracee 0 p prog \<and> final X tracee prog host \<and> h = has) \<or>
      (\<exists>n < k. reaches X tracee (Suc n) p prog \<and> final X tracee prog host \<and> h)"
    unfolding Ex_less_Suc2 by simp
  then show ?case unfolding expand_loop_step [OF assms] Suc.IH
    by (auto simp: reaches_0 reaches_Suc)
qed simp

text \<open>C21: \<open>expand_shebang\<close> follows the interpreters of scripts, scripts themselves or not, to the
  first program that is not a script, and reports whether it followed one: it succeeds exactly
  when such a program is reached in fewer steps than the limit, each path on the way being an
  executable file.\<close>

theorem expand_shebang_follows:
  assumes "\<And>p. ex_strdup X p"
  shows "expand_shebang X tracee user = Some (Inr (has, host, prog)) \<longleftrightarrow>
    (\<exists>n < MAXSYMLINKS X. reaches X tracee n user prog \<and> final X tracee prog host \<and> has = (0 < n))"
  unfolding expand_shebang_def expand_loop_reaches [OF assms] by simp


definition scripts :: Exec where
  "scripts = \<lparr>ex_fs = bin_fs, ex_exists = (\<lambda>_. True), ex_executable = (\<lambda>_. True),
     ex_lstat = (\<lambda>_. True),
     ex_open = (\<lambda>p. Inr \<lparr>f_bytes = (if p = ''/run'' then ''#! /bin/sh -e  '' @ [CHR 0x0A] @ ''exit''
                                  else if p = ''/cut'' then ''#!/bin/sh'' else ''ELF''),
                        f_error = None\<rparr>),
     ex_strdup = (\<lambda>_. True), BINPRM_BUF_SIZE = 128, MAXSYMLINKS = 8\<rparr>"

theorem extract_shebang_line_witness:
  "extract_shebang scripts ''/run'' = Some (Inr (Some (''/bin/sh'', ''-e'')))"
proof -
  have "opens scripts ''/run'' (''#!'' @ '' '' @ ''/bin/sh'' @ '' '' @ ''-e'' @ ''  '' @ CHR 0x0A # ''exit'')"
    by (simp add: scripts_def)
  from extract_shebang_line [OF this] show ?thesis
    by (simp add: scripts_def blank_def newline_def plain_def)
qed

theorem extract_shebang_unterminated_witness:
  "extract_shebang scripts ''/cut'' = Some (Inr (Some (''/bin/s'', [])))"
proof -
  have "opens scripts ''/cut'' (''#!'' @ [] @ ''/bin/sh'')" by (simp add: scripts_def)
  from extract_shebang_unterminated [OF this] show ?thesis
    by (simp add: scripts_def blank_def newline_def plain_def)
qed

lemma scripts_facts:
  "runs scripts calloc_tracee ''/run'' ''/bin/sh''" "final scripts calloc_tracee ''/bin/sh'' ''/bin/sh''"
  by (simp_all add: runs_def final_def translate_and_check_exec_def translate_path_def translate_base_def
        VERBOSE_def calloc_tracee_def join_paths_def char_at_def scripts_def extract_shebang_def slurp_path.simps slurp_argument.simps
        blank_def newline_def c_string_def at_end_def)

theorem expand_shebang_follows_witness:
  "expand_shebang scripts calloc_tracee ''/run'' = Some (Inr (True, ''/bin/sh'', ''/bin/sh''))"
proof -
  have "\<exists>n < MAXSYMLINKS scripts. reaches scripts calloc_tracee n ''/run'' ''/bin/sh'' \<and>
      final scripts calloc_tracee ''/bin/sh'' ''/bin/sh'' \<and> True = (0 < n)"
    using scripts_facts reaches.intros by (intro exI [of _ 1]) (auto simp: scripts_def reaches_Suc reaches_0)
  then show ?thesis using expand_shebang_follows [of scripts calloc_tracee] by (simp add: scripts_def)
qed

end
