(* ===== verification/Load_Info.thy ===== *)
theory Load_Info
  imports Shebang Mem
begin

text \<open>
  The load information of a program (execve/elf.c and the first half of execve/enter.c): the
  checks of an ELF header, the walk over the program headers, the mappings of the segments, the
  interpreter, and the load addresses.

  The files are a parameter, as are the answers of \<open>malloc\<close>.  The memory image a list of
  mappings stands for is \<open>memory_image\<close>; the properties relate it with the segments of the file.
\<close>

unbundle bit_operations_syntax

section \<open>Files\<close>

text \<open>
  An open file: the errno of a seek to an offset that fails, and what a read of a number of
  bytes at an offset gives.  \<open>read\<close> is a read at the current position, which it moves.
\<close>

record Fd =
  fd_lseek :: "u64 \<Rightarrow> int option"
  fd_pread :: "u64 \<Rightarrow> u64 \<Rightarrow> int + byte list"

text \<open>
  What the system answers during one execve: the calls of theory \<open>Shebang\<close>, the files, which
  blocks \<open>malloc\<close> grants, whether \<open>asprintf\<close> has memory, and \<open>sysconf(_SC_PAGE_SIZE)\<close>.
\<close>

record Elf_sys =
  es_exec :: Exec
  es_open :: "string \<Rightarrow> int + Fd"
  es_malloc :: "nat \<Rightarrow> bool"
  es_asprintf :: bool
  es_page_size :: int

definition string_of_bytes :: "byte list \<Rightarrow> string" where
  "string_of_bytes bs = c_string (map (\<lambda>b. char_of (unat b)) bs)"

section \<open>Headers of a file\<close>

text \<open>
  The result is a status or an open file, and the header that was read.
\<close>

definition open_elf :: "Elf_sys \<Rightarrow> string \<Rightarrow> ElfHeader \<Rightarrow> (int + Fd) \<times> ElfHeader" where
  "open_elf X t_path elf_header =
     (case es_open X t_path of
        Inl errno \<Rightarrow> (Inl (- errno), elf_header)
      | Inr fd \<Rightarrow>
          (case fd_pread fd 0 (of_nat sizeof_ElfHeader) of
             Inl errno \<Rightarrow> (Inl (- errno), elf_header)
           | Inr bs \<Rightarrow>
               let elf_header = bs @ drop (length bs) elf_header
               in if length bs < sizeof_ElfHeader
                     \<or> ELF_IDENT elf_header 0 \<noteq> 0x7f
                     \<or> ELF_IDENT elf_header 1 \<noteq> 0x45
                     \<or> ELF_IDENT elf_header 2 \<noteq> 0x4c
                     \<or> ELF_IDENT elf_header 3 \<noteq> 0x46
                  then (Inl (- ENOEXEC), elf_header)
                  else if \<not> IS_CLASS32 elf_header \<and> \<not> IS_CLASS64 elf_header
                  then (Inl (- ENOEXEC), elf_header)
                  else (Inr fd, elf_header)))"

text \<open>
  \<open>iterate_program_headers\<close>, for a callback that changes a state.  \<open>errno\<close> is the value of that
  variable, which the calls that succeed leave: the code reads it when a seek succeeds whose
  offset is negative as an \<open>int\<close>.
\<close>

fun iterate_loop ::
    "nat \<Rightarrow> Fd \<Rightarrow> nat \<Rightarrow> u64 \<Rightarrow> (ProgramHeader \<Rightarrow> 's \<Rightarrow> (int \<times> 's) option) \<Rightarrow> 's \<Rightarrow> (int \<times> 's) option" where
  "iterate_loop 0 fd elf_phentsize position callback data = Some (0, data)"
| "iterate_loop (Suc n) fd elf_phentsize position callback data =
     (case fd_pread fd position (of_nat elf_phentsize) of
        Inl errno \<Rightarrow> Some (- errno, data)
      | Inr program_header \<Rightarrow>
          if length program_header \<noteq> elf_phentsize then Some (- ENOTSUP, data)
          else case callback program_header data of
                 None \<Rightarrow> None
               | Some (status, data) \<Rightarrow>
                   if status \<noteq> 0 then Some (status, data)
                   else iterate_loop n fd elf_phentsize (position + of_nat elf_phentsize) callback data)"

definition iterate_program_headers ::
    "Fd \<Rightarrow> ElfHeader \<Rightarrow> int \<Rightarrow> (ProgramHeader \<Rightarrow> 's \<Rightarrow> (int \<times> 's) option) \<Rightarrow> 's \<Rightarrow> (int \<times> 's) option" where
  "iterate_program_headers fd elf_header errno callback data =
     (let elf_phnum = unat (ELF_FIELD elf_header e_phnum);
          elf_phentsize = unat (ELF_FIELD elf_header e_phentsize);
          elf_phoff = ELF_FIELD elf_header e_phoff
      in if elf_phnum \<ge> 0xffff then Some (- ENOTSUP, data)
         else if \<not> KNOWN_PHENTSIZE elf_header elf_phentsize then Some (- ENOTSUP, data)
         else case fd_lseek fd elf_phoff of
                Some errno \<Rightarrow> Some (- errno, data)
              | None \<Rightarrow>
                  if c_int (uint elf_phoff) < 0 then Some (- errno, data)
                  else iterate_loop elf_phnum fd elf_phentsize elf_phoff callback data)"

section \<open>Load information of a file\<close>

abbreviation PROT_READ :: u64 where "PROT_READ \<equiv> 1"
abbreviation PROT_WRITE :: u64 where "PROT_WRITE \<equiv> 2"
abbreviation PROT_EXEC :: u64 where "PROT_EXEC \<equiv> 4"
abbreviation MAP_PRIVATE :: u64 where "MAP_PRIVATE \<equiv> 0x02"
abbreviation MAP_FIXED :: u64 where "MAP_FIXED \<equiv> 0x10"
abbreviation MAP_ANONYMOUS :: u64 where "MAP_ANONYMOUS \<equiv> 0x20"

text \<open>\<open>sizeof\<close> of the structures, and the blocks of an array with a length header.\<close>

abbreviation sizeof_Mapping :: nat where "sizeof_Mapping \<equiv> 56"
abbreviation sizeof_LoadInfo :: nat where "sizeof_LoadInfo \<equiv> 112"

definition mappings_block :: "nat \<Rightarrow> nat" where
  "mappings_block count = sizeof_Mapping * count + 4"

definition page_size :: "Elf_sys \<Rightarrow> u64" where
  "page_size X = (if c_int (es_page_size X) \<le> 0 then 0x1000 else of_int (es_page_size X))"

definition page_mask :: "Elf_sys \<Rightarrow> u64" where
  "page_mask X = NOT (page_size X - 1)"

definition segment_prot :: "u64 \<Rightarrow> u64" where
  "segment_prot flags = (if flags AND PF_R \<noteq> 0 then PROT_READ else 0)
     OR (if flags AND PF_W \<noteq> 0 then PROT_WRITE else 0)
     OR (if flags AND PF_X \<noteq> 0 then PROT_EXEC else 0)"

text \<open>
  The array is reallocated for each mapping; without memory the pointer to it becomes null.
\<close>

definition add_mapping :: "Elf_sys \<Rightarrow> LoadInfo \<Rightarrow> ProgramHeader \<Rightarrow> (int \<times> LoadInfo) option" where
  "add_mapping X load_info program_header =
     (let P = PROGRAM_FIELD (li_elf_header load_info) program_header
      in case (case li_mappings load_info of
                 None \<Rightarrow> if es_malloc X (mappings_block 0) then Some [] else None
               | Some mappings \<Rightarrow> Some mappings) of
           None \<Rightarrow> None
         | Some mappings \<Rightarrow>
             if \<not> es_malloc X (mappings_block (length mappings + 1))
             then Some (- ENOMEM, set_mappings None load_info)
             else
               let start_address = P p_vaddr AND page_mask X;
                   end_address = (P p_vaddr + P p_filesz + page_size X) AND page_mask X;
                   mapping = \<lparr>m_addr = start_address, m_length = end_address - start_address,
                     m_clear_length = (if P p_memsz > P p_filesz
                                       then end_address - P p_vaddr - P p_filesz else 0),
                     m_prot = segment_prot (P p_flags), m_flags = MAP_PRIVATE OR MAP_FIXED,
                     m_fd = - 1, m_offset = P p_offset AND page_mask X\<rparr>;
                   start_address = end_address;
                   end_address = (P p_vaddr + P p_memsz + page_size X) AND page_mask X
               in if P p_memsz > P p_filesz \<and> end_address > start_address then
                    (if \<not> es_malloc X (mappings_block (length mappings + 2))
                     then Some (- ENOMEM, set_mappings None load_info)
                     else Some (0, set_mappings (Some (mappings @ [mapping,
                       \<lparr>m_addr = start_address, m_length = end_address - start_address,
                        m_clear_length = 0, m_prot = m_prot mapping,
                        m_flags = MAP_PRIVATE OR MAP_ANONYMOUS OR MAP_FIXED, m_fd = - 1,
                        m_offset = 0\<rparr>])) load_info))
                  else Some (0, set_mappings (Some (mappings @ [mapping])) load_info))"

text \<open>The number of bytes \<open>pread\<close> returns is converted to \<open>int\<close> and back.\<close>

definition add_interp ::
    "Elf_sys \<Rightarrow> Tracee \<Rightarrow> Fd \<Rightarrow> LoadInfo \<Rightarrow> ProgramHeader \<Rightarrow> (int \<times> LoadInfo) option" where
  "add_interp X tracee fd load_info program_header =
     (let P = PROGRAM_FIELD (li_elf_header load_info) program_header
      in if li_interp load_info \<noteq> None then Some (- EINVAL, load_info)
         else if \<not> es_malloc X sizeof_LoadInfo then Some (- ENOMEM, load_info)
         else let interp = calloc_LoadInfo;
                  with = (\<lambda>interp. set_interp (Some interp) load_info)
         in if \<not> es_malloc X (unat (P p_filesz + 1)) then Some (- ENOMEM, with interp)
            else
              let r = fd_pread fd (P p_offset) (P p_filesz);
                  status = c_int (case r of Inl errno \<Rightarrow> -1 | Inr bs \<Rightarrow> int (length bs));
                  status = (if (of_int status :: u64) \<noteq> P p_filesz then - EACCES else status)
              in if status < 0 then Some (status, with interp)
                 else
                   let user_path = string_of_bytes (case r of Inl errno \<Rightarrow> [] | Inr bs \<Rightarrow> bs)
                   in case translate_and_check_exec (es_exec X) tracee user_path of
                        None \<Rightarrow> None
                      | Some (Inl status) \<Rightarrow> Some (status, with interp)
                      | Some (Inr host_path) \<Rightarrow>
                          if \<not> ex_strdup (es_exec X) host_path then Some (- ENOMEM, with interp)
                          else if \<not> ex_strdup (es_exec X) user_path
                          then Some (- ENOMEM, with (set_host_path (Some host_path) interp))
                          else Some (0, with (set_user_path (Some user_path)
                                        (set_host_path (Some host_path) interp))))"

definition add_load_info ::
    "Elf_sys \<Rightarrow> Tracee \<Rightarrow> Fd \<Rightarrow> ElfHeader \<Rightarrow> ProgramHeader \<Rightarrow> LoadInfo \<Rightarrow> (int \<times> LoadInfo) option" where
  "add_load_info X tracee fd elf_header program_header load_info =
     (let type = PROGRAM_FIELD elf_header program_header p_type
      in if type = PT_LOAD then add_mapping X load_info program_header
         else if type = PT_INTERP then add_interp X tracee fd load_info program_header
         else if type = PT_GNU_STACK then
           Some (0, set_needs_executable_stack (li_needs_executable_stack load_info
             \<or> PROGRAM_FIELD elf_header program_header p_flags AND PF_X \<noteq> 0) load_info)
         else Some (0, load_info))"

definition extract_load_info ::
    "Elf_sys \<Rightarrow> Tracee \<Rightarrow> int \<Rightarrow> LoadInfo \<Rightarrow> (int \<times> LoadInfo) option" where
  "extract_load_info X tracee errno load_info =
     (case li_host_path load_info of
        None \<Rightarrow> None
      | Some host_path \<Rightarrow>
          (case open_elf X host_path (li_elf_header load_info) of
             (Inl status, elf_header) \<Rightarrow> Some (status, set_elf_header elf_header load_info)
           | (Inr fd, elf_header) \<Rightarrow>
               let load_info = set_elf_header elf_header load_info
               in if ELF_FIELD elf_header e_type \<noteq> ET_EXEC \<and> ELF_FIELD elf_header e_type \<noteq> ET_DYN
                  then Some (- EINVAL, load_info)
                  else iterate_program_headers fd elf_header errno
                         (add_load_info X tracee fd elf_header) load_info))"

section \<open>Load addresses\<close>

abbreviation EXEC_PIC_ADDRESS :: u64 where "EXEC_PIC_ADDRESS \<equiv> 0x3000000000"
abbreviation INTERP_PIC_ADDRESS :: u64 where "INTERP_PIC_ADDRESS \<equiv> 0x3f00000000"

text \<open>The length of a null array and its first element are undefined.\<close>

definition add_load_base :: "u64 \<Rightarrow> LoadInfo \<Rightarrow> LoadInfo option" where
  "add_load_base load_base load_info =
     (case li_mappings load_info of
        None \<Rightarrow> None
      | Some mappings \<Rightarrow>
          let f = (if IS_CLASS64 (li_elf_header load_info) then ElfHeader64 e_entry
                   else ElfHeader32 e_entry)
          in Some (set_elf_header (put_field (li_elf_header load_info) f
                     (get_field (li_elf_header load_info) f + load_base))
               (set_mappings (Some (map (m_addr_update (\<lambda>addr. addr + load_base)) mappings)) load_info)))"

definition place :: "u64 \<Rightarrow> LoadInfo \<Rightarrow> LoadInfo option" where
  "place load_base load_info =
     (if \<not> IS_POSITION_INDENPENDANT (li_elf_header load_info) then Some load_info
      else case li_mappings load_info of
             Some (first # _) \<Rightarrow>
               if m_addr first = 0 then add_load_base load_base load_info else Some load_info
           | _ \<Rightarrow> None)"

definition compute_load_addresses :: "LoadInfo \<Rightarrow> LoadInfo option" where
  "compute_load_addresses load_info =
     (case place EXEC_PIC_ADDRESS load_info of
        None \<Rightarrow> None
      | Some load_info \<Rightarrow>
          (case li_interp load_info of
             None \<Rightarrow> Some load_info
           | Some interp \<Rightarrow>
               map_option (\<lambda>interp. set_interp (Some interp) load_info)
                 (place INTERP_PIC_ADDRESS interp)))"

section \<open>Pages\<close>

lemma split_low: "(a :: u64) = (a AND NOT (mask k)) + take_bit k a"
proof -
  have "a = (a AND NOT (mask k)) OR take_bit k a"
    by (rule bit_eqI) (auto simp only: bit_or_iff bit_and_iff bit_not_iff bit_mask_iff bit_take_bit_iff possible_bit_word)
  also have "\<dots> = (a AND NOT (mask k)) + take_bit k a"
    by (rule disjunctive_add_eq_or [symmetric], rule bit_eqI)
      (simp only: bit_and_iff bit_not_iff bit_mask_iff bit_take_bit_iff possible_bit_word, auto)
  finally show ?thesis .
qed

lemma unat_page: "unat ((a :: u64) AND NOT (2 ^ k - 1)) = unat a - unat a mod 2 ^ k"
proof -
  have "(a AND NOT (2 ^ k - 1)) = a - take_bit k a"
    using split_low [of a k] by (simp add: mask_eq_exp_minus_1 algebra_simps)
  moreover have "unat (take_bit k a) = unat a mod 2 ^ k"
    by (simp add: unsigned_take_bit_eq) (simp add: take_bit_eq_mod)
  ultimately show ?thesis by (simp add: unat_sub word_le_nat_alt)
qed

definition paged :: "Elf_sys \<Rightarrow> nat \<Rightarrow> bool" where
  "paged X k \<longleftrightarrow> k < 31 \<and> es_page_size X = 2 ^ k"

lemma paged_size: "paged X k \<Longrightarrow> page_size X = 2 ^ k"
  using power_strict_increasing [of k 31 "2 :: int"] by (auto simp: paged_def page_size_def c_int_small)

lemma paged_unat: "paged X k \<Longrightarrow> unat (page_size X) = 2 ^ k"
proof -
  assume k: "paged X k"
  then have "(2 :: nat) ^ k < 2 ^ 64" by (intro power_strict_increasing) (simp_all add: paged_def)
  then have "unat (of_nat (2 ^ k) :: u64) = 2 ^ k" by (rule unat_of_nat_u64)
  then show ?thesis by (simp add: paged_size [OF k])
qed

lemma unat_page_mask: "paged X k \<Longrightarrow> unat (a AND page_mask X) = unat a - unat a mod 2 ^ k"
  by (simp add: page_mask_def paged_size unat_page)

section \<open>Segments\<close>

text \<open>
  What a mapping gives for an address, from the bytes of the file (zero behind its end), and
  the memory image of a list of mappings, of which a later one replaces an earlier one.
\<close>

definition mapped_byte :: "(u64 \<Rightarrow> byte) \<Rightarrow> Mapping \<Rightarrow> u64 \<Rightarrow> byte option" where
  "mapped_byte file m a =
     (if \<not> a - m_addr m < m_length m then None
      else if m_flags m AND MAP_ANONYMOUS \<noteq> 0 \<or> m_length m - m_clear_length m \<le> a - m_addr m
      then Some 0
      else Some (file (m_offset m + (a - m_addr m))))"

definition memory_image :: "(u64 \<Rightarrow> byte) \<Rightarrow> Mapping list \<Rightarrow> space" where
  "memory_image file ms = fold (\<lambda>m im. im ++ mapped_byte file m) ms Map.empty"

lemma fold_image: "fold (\<lambda>m im. im ++ mapped_byte file m) ms im = im ++ memory_image file ms"
proof (induction ms arbitrary: im)
  case (Cons m ms)
  show ?case using Cons.IH [of "im ++ mapped_byte file m"] Cons.IH [of "mapped_byte file m"]
    by (simp add: memory_image_def)
qed (simp add: memory_image_def)

lemma image_simps [simp]:
  "memory_image file [] = Map.empty" "memory_image file (m # ms) = mapped_byte file m ++ memory_image file ms"
  using fold_image [where im = "mapped_byte file m"] by (simp_all add: memory_image_def)

lemma image_append: "memory_image file (xs @ ys) = memory_image file xs ++ memory_image file ys"
  by (induction xs) simp_all

text \<open>The mappings \<open>add_mapping\<close> appends.\<close>

definition segment_end :: "Elf_sys \<Rightarrow> u64 \<Rightarrow> u64 \<Rightarrow> u64" where
  "segment_end X vaddr n = (vaddr + n + page_size X) AND page_mask X"

definition file_mapping :: "Elf_sys \<Rightarrow> (Program_field \<Rightarrow> u64) \<Rightarrow> Mapping" where
  "file_mapping X P =
     \<lparr>m_addr = P p_vaddr AND page_mask X,
      m_length = segment_end X (P p_vaddr) (P p_filesz) - (P p_vaddr AND page_mask X),
      m_clear_length = (if P p_memsz > P p_filesz
        then segment_end X (P p_vaddr) (P p_filesz) - P p_vaddr - P p_filesz else 0),
      m_prot = segment_prot (P p_flags), m_flags = MAP_PRIVATE OR MAP_FIXED, m_fd = - 1,
      m_offset = P p_offset AND page_mask X\<rparr>"

definition zero_mapping :: "Elf_sys \<Rightarrow> (Program_field \<Rightarrow> u64) \<Rightarrow> Mapping" where
  "zero_mapping X P =
     \<lparr>m_addr = segment_end X (P p_vaddr) (P p_filesz),
      m_length = segment_end X (P p_vaddr) (P p_memsz) - segment_end X (P p_vaddr) (P p_filesz),
      m_clear_length = 0, m_prot = segment_prot (P p_flags),
      m_flags = MAP_PRIVATE OR MAP_ANONYMOUS OR MAP_FIXED, m_fd = - 1, m_offset = 0\<rparr>"

definition segment_mappings :: "Elf_sys \<Rightarrow> (Program_field \<Rightarrow> u64) \<Rightarrow> Mapping list" where
  "segment_mappings X P = file_mapping X P #
     (if P p_memsz > P p_filesz \<and>
         segment_end X (P p_vaddr) (P p_memsz) > segment_end X (P p_vaddr) (P p_filesz)
      then [zero_mapping X P] else [])"

lemma add_mapping_appends:
  assumes "add_mapping X load_info ph = Some (0, load_info')"
  shows "load_info' = set_mappings (Some ((case li_mappings load_info of None \<Rightarrow> [] | Some ms \<Rightarrow> ms) @
    segment_mappings X (PROGRAM_FIELD (li_elf_header load_info) ph))) load_info"
  using assms
  by (auto simp: add_mapping_def Let_def segment_mappings_def file_mapping_def zero_mapping_def
      segment_end_def split: option.splits if_splits)

text \<open>A segment whose pages do not wrap around the address space.\<close>

definition segment_ok :: "nat \<Rightarrow> (Program_field \<Rightarrow> u64) \<Rightarrow> bool" where
  "segment_ok k P \<longleftrightarrow> P p_filesz \<le> P p_memsz \<and>
     unat (P p_vaddr) + unat (P p_memsz) + 2 ^ k < 2 ^ 64 \<and>
     unat (P p_offset) mod 2 ^ k = unat (P p_vaddr) mod 2 ^ k"

lemma unat_segment_end:
  assumes k: "paged X k" and n: "unat vaddr + unat n + 2 ^ k < 2 ^ 64"
  shows "unat (segment_end X vaddr n) = (unat vaddr + unat n) div 2 ^ k * 2 ^ k + 2 ^ k"
proof -
  have "unat (vaddr + n + page_size X) = unat vaddr + unat n + 2 ^ k"
    using n paged_unat [OF k] by (simp add: unat_word_ariths)
  then show ?thesis
    by (simp add: segment_end_def unat_page_mask [OF k] minus_mod_eq_div_mult [symmetric] mod_le_divisor)
qed

lemma segment_end_bounds:
  assumes k: "paged X k" and n: "unat vaddr + unat n + 2 ^ k < 2 ^ 64"
  shows "unat vaddr + unat n < unat (segment_end X vaddr n)"
    "unat (segment_end X vaddr n) \<le> unat vaddr + unat n + 2 ^ k"
proof -
  have "(unat vaddr + unat n) mod 2 ^ k < 2 ^ k" by simp
  then show "unat vaddr + unat n < unat (segment_end X vaddr n)"
    "unat (segment_end X vaddr n) \<le> unat vaddr + unat n + 2 ^ k"
    using unat_segment_end [OF assms] mod_div_mult_eq [of "unat vaddr + unat n" "2 ^ k"] by linarith+
qed

lemma unat_diff: "(a :: u64) \<le> b \<Longrightarrow> unat (b - a) = unat b - unat a"
  by (simp add: unat_sub)

lemma unat_diff_wrap: "(a :: u64) < b \<Longrightarrow> unat (a - b) = 2 ^ 64 + unat a - unat b"
proof -
  assume l: "a < b"
  have "unat a = (unat (a - b) + unat b) mod 2 ^ 64"
    using unat_word_ariths(1) [of "a - b" b] by simp
  moreover have "unat (a - b) < 2 ^ 64" "unat b < 2 ^ 64"
    using unsigned_less [of "a - b", where 'a = nat] unsigned_less [of b, where 'a = nat] by simp_all
  moreover have "unat a < unat b" using l by (simp add: word_less_nat_alt)
  moreover have "x mod 2 ^ 64 = (if x < 2 ^ 64 then x else x - 2 ^ 64)" if "x < 2 ^ 64 + 2 ^ 64" for x :: nat
    using that by (simp add: mod_if)
  ultimately have "unat a = (if unat (a - b) + unat b < 2 ^ 64 then unat (a - b) + unat b
      else unat (a - b) + unat b - 2 ^ 64)" "unat a < unat b" by simp_all
  then show ?thesis by (auto split: if_splits)
qed

lemma segment_image_inv:
  assumes k: "paged X k" and ok: "segment_ok k P" and i: "i < unat (P p_memsz)"
  shows "memory_image file (segment_mappings X P) (P p_vaddr + of_nat i) =
    Some (if i < unat (P p_filesz) then file (P p_offset + of_nat i) else 0)"
proof -
  let ?v = "P p_vaddr" and ?s = "P p_vaddr AND page_mask X"
  let ?e = "segment_end X ?v (P p_filesz)" and ?e2 = "segment_end X ?v (P p_memsz)"
  let ?a = "?v + of_nat i"
  have le: "unat (P p_filesz) \<le> unat (P p_memsz)" and w: "unat ?v + unat (P p_memsz) + 2 ^ k < 2 ^ 64"
    using ok by (simp_all add: segment_ok_def word_le_nat_alt)
  have wf: "unat ?v + unat (P p_filesz) + 2 ^ k < 2 ^ 64" using le w by simp
  note e = segment_end_bounds [OF k wf] and e2 = segment_end_bounds [OF k w]
  have s: "unat ?s = unat ?v - unat ?v mod 2 ^ k" "unat ?s \<le> unat ?v" by (simp_all add: unat_page_mask [OF k])
  have ni: "unat (of_nat i :: u64) = i" using i w by (simp add: unat_of_nat_u64)
  have a: "unat ?a = unat ?v + i" using ni i w by (simp add: unat_plus_nowrap)
  have sa: "unat (?a - ?s) = unat ?v + i - unat ?s" using a s by (simp add: unat_diff word_le_nat_alt)
  have len: "unat (?e - ?s) = unat ?e - unat ?s" using e s by (simp add: unat_diff word_le_nat_alt)
  have off: "(P p_offset AND page_mask X) + (?a - ?s) = P p_offset + of_nat i"
  proof -
    have "unat (P p_offset - (P p_offset AND page_mask X)) = unat (?v - ?s)"
      using ok mod_less_eq_dividend [of "unat (P p_offset)" "2 ^ k"]
      by (simp add: unat_diff word_le_nat_alt unat_page_mask [OF k] segment_ok_def)
    then have "P p_offset - (P p_offset AND page_mask X) = ?v - ?s" by (rule unsigned_word_eqI)
    then show ?thesis by (simp add: algebra_simps)
  qed
  have clear: "unat (?v + P p_filesz - ?s) = unat ?v + unat (P p_filesz) - unat ?s"
    using s wf by (simp add: unat_diff word_le_nat_alt unat_plus_nowrap)
  show ?thesis
  proof (cases "unat ?v + i < unat ?e")
    case True
    have ee: "unat ?e \<le> unat ?e2"
      unfolding unat_segment_end [OF k wf] unat_segment_end [OF k w] using le by (simp add: div_le_mono)
    have none: "mapped_byte file (zero_mapping X P) ?a = None"
      using True unat_diff_wrap [of ?a ?e] a unat_diff [of ?e ?e2] e2 w ee
      by (simp add: mapped_byte_def zero_mapping_def word_less_nat_alt word_le_nat_alt)
    have "mapped_byte file (file_mapping X P) ?a =
        Some (if i < unat (P p_filesz) then file (P p_offset + of_nat i) else 0)"
      using True sa len s(2) e clear i le
      by (cases "i < unat (P p_filesz)"; cases "unat (P p_filesz) < unat (P p_memsz)")
        (auto simp: mapped_byte_def file_mapping_def word_less_nat_alt word_le_nat_alt off)
    then show ?thesis using none by (simp add: segment_mappings_def map_add_def)
  next
    case False
    then have "unat ?e < unat ?e2" "\<not> i < unat (P p_filesz)" "unat (P p_filesz) < unat (P p_memsz)"
      using e e2 i by linarith+
    moreover have "mapped_byte file (zero_mapping X P) ?a = Some 0"
      using False e e2 i a unat_diff [of ?e ?e2] unat_diff [of ?e ?a] calculation
      by (simp add: mapped_byte_def zero_mapping_def word_less_nat_alt word_le_nat_alt)
    ultimately show ?thesis by (simp add: segment_mappings_def map_add_def word_less_nat_alt)
  qed
qed

section \<open>Program headers\<close>

text \<open>The program headers of a file, and the walk over a list of them.\<close>

definition phdr_at :: "Fd \<Rightarrow> nat \<Rightarrow> u64 \<Rightarrow> ProgramHeader" where
  "phdr_at fd sz position =
     (case fd_pread fd position (of_nat sz) of Inr bs \<Rightarrow> bs | Inl errno \<Rightarrow> [])"

definition phdrs :: "Fd \<Rightarrow> ElfHeader \<Rightarrow> ProgramHeader list" where
  "phdrs fd h = (let sz = unat (ELF_FIELD h e_phentsize)
     in map (\<lambda>i. phdr_at fd sz (ELF_FIELD h e_phoff + of_nat (i * sz))) [0..<unat (ELF_FIELD h e_phnum)])"

fun walk :: "(ProgramHeader \<Rightarrow> 's \<Rightarrow> (int \<times> 's) option) \<Rightarrow> ProgramHeader list \<Rightarrow> 's \<Rightarrow> (int \<times> 's) option" where
  "walk callback [] data = Some (0, data)"
| "walk callback (ph # phs) data =
     (case callback ph data of
        None \<Rightarrow> None
      | Some (status, data) \<Rightarrow> if status \<noteq> 0 then Some (status, data) else walk callback phs data)"

definition reads_ok :: "Fd \<Rightarrow> bool" where
  "reads_ok fd \<longleftrightarrow> (\<forall>a n e. fd_pread fd a n = Inl e \<longrightarrow> e \<noteq> 0) \<and> (\<forall>a e. fd_lseek fd a = Some e \<longrightarrow> e \<noteq> 0)"

lemma iterate_loop_walk:
  "reads_ok fd \<Longrightarrow> iterate_loop n fd sz position callback data = Some (0, data') \<Longrightarrow>
   walk callback (map (\<lambda>i. phdr_at fd sz (position + of_nat (i * sz))) [0..<n]) data = Some (0, data')"
proof (induction n arbitrary: position data)
  case (Suc n)
  obtain ph where ph: "fd_pread fd position (of_nat sz) = Inr ph"
    using Suc.prems by (auto simp: reads_ok_def split: sum.splits)
  obtain data1 where cb: "callback ph data = Some (0, data1)"
    and rest: "iterate_loop n fd sz (position + of_nat sz) callback data1 = Some (0, data')"
    using Suc.prems ph by (auto split: option.splits if_splits)
  have "map (\<lambda>i. phdr_at fd sz (position + of_nat (i * sz))) [0..<Suc n] =
      ph # map (\<lambda>i. phdr_at fd sz (position + of_nat sz + of_nat (i * sz))) [0..<n]"
    by (simp add: map_upt_Suc phdr_at_def ph algebra_simps del: upt_Suc)
  then show ?case using cb Suc.IH [OF Suc.prems(1) rest] by simp
qed simp

text \<open>What an \<open>int\<close> makes of an offset beyond 2 GiB.\<close>

definition seek_ok :: "ElfHeader \<Rightarrow> int \<Rightarrow> bool" where
  "seek_ok h errno \<longleftrightarrow> 0 \<le> c_int (uint (ELF_FIELD h e_phoff)) \<or> errno \<noteq> 0"

lemma iterate_walk:
  assumes "reads_ok fd" "seek_ok h errno" "iterate_program_headers fd h errno callback data = Some (0, data')"
  shows "walk callback (phdrs fd h) data = Some (0, data')"
proof -
  have "iterate_loop (unat (ELF_FIELD h e_phnum)) fd (unat (ELF_FIELD h e_phentsize)) (ELF_FIELD h e_phoff)
      callback data = Some (0, data')"
    using assms by (auto simp: iterate_program_headers_def Let_def seek_ok_def reads_ok_def
        split: if_splits option.splits)
  then show ?thesis using iterate_loop_walk [OF assms(1)] by (simp only: phdrs_def Let_def)
qed

section \<open>The image of a program\<close>

definition mapping_list :: "LoadInfo \<Rightarrow> Mapping list" where
  "mapping_list load_info = (case li_mappings load_info of None \<Rightarrow> [] | Some ms \<Rightarrow> ms)"

definition of_type :: "u64 \<Rightarrow> ElfHeader \<Rightarrow> ProgramHeader \<Rightarrow> bool" where
  "of_type type h ph \<longleftrightarrow> PROGRAM_FIELD h ph p_type = type"

definition executable_stack :: "ElfHeader \<Rightarrow> ProgramHeader \<Rightarrow> bool" where
  "executable_stack h ph \<longleftrightarrow> of_type PT_GNU_STACK h ph \<and> PROGRAM_FIELD h ph p_flags AND PF_X \<noteq> 0"

lemma add_interp_keeps:
  assumes "add_interp X tracee fd load_info ph = Some (0, load_info')"
  shows "li_interp load_info = None" "\<exists>i. load_info' = set_interp (Some i) load_info"
  using assms by (auto simp: add_interp_def Let_def split: if_splits option.splits sum.splits)

lemma walk_load_info:
  "walk (add_load_info X tracee fd h) phs load_info = Some (0, load_info') \<Longrightarrow>
   li_elf_header load_info = h \<Longrightarrow>
   li_elf_header load_info' = h \<and>
   mapping_list load_info' = mapping_list load_info @
     concat (map (\<lambda>ph. segment_mappings X (PROGRAM_FIELD h ph)) (filter (of_type PT_LOAD h) phs)) \<and>
   li_needs_executable_stack load_info' =
     (li_needs_executable_stack load_info \<or> (\<exists>ph \<in> set phs. executable_stack h ph)) \<and>
   (li_interp load_info' = None \<longleftrightarrow> li_interp load_info = None \<and> filter (of_type PT_INTERP h) phs = [])"
proof (induction phs arbitrary: load_info)
  case (Cons ph phs)
  obtain load_info1 where s: "add_load_info X tracee fd h ph load_info = Some (0, load_info1)"
    and r: "walk (add_load_info X tracee fd h) phs load_info1 = Some (0, load_info')"
    using Cons.prems by (auto split: option.splits if_splits)
  consider "of_type PT_LOAD h ph" | "of_type PT_INTERP h ph"
    | "\<not> of_type PT_LOAD h ph" "\<not> of_type PT_INTERP h ph" by blast
  then have "li_elf_header load_info1 = h \<and>
     mapping_list load_info1 = mapping_list load_info @
       concat (map (\<lambda>ph. segment_mappings X (PROGRAM_FIELD h ph)) (filter (of_type PT_LOAD h) [ph])) \<and>
     li_needs_executable_stack load_info1 = (li_needs_executable_stack load_info \<or> executable_stack h ph) \<and>
     (li_interp load_info1 = None \<longleftrightarrow> li_interp load_info = None \<and> \<not> of_type PT_INTERP h ph)"
  proof cases
    case 1
    then have "add_mapping X load_info ph = Some (0, load_info1)"
      using s by (simp add: add_load_info_def of_type_def)
    then show ?thesis
      using add_mapping_appends [of X load_info ph load_info1] 1 Cons.prems(2)
      by (auto simp: mapping_list_def of_type_def executable_stack_def)
  next
    case 2
    then have "add_interp X tracee fd load_info ph = Some (0, load_info1)"
      using s by (simp add: add_load_info_def of_type_def)
    then show ?thesis
      using add_interp_keeps [of X tracee fd load_info ph load_info1] 2 Cons.prems(2)
      by (auto simp: mapping_list_def of_type_def executable_stack_def)
  next
    case 3
    then show ?thesis
      using s Cons.prems(2)
      by (auto simp: add_load_info_def Let_def of_type_def executable_stack_def mapping_list_def split: if_splits)
  qed
  then show ?case using Cons.IH [OF r] by auto
qed simp

lemma extract_walk:
  assumes "extract_load_info X tracee errno load_info = Some (0, load_info')"
    and fd: "li_host_path load_info = Some path" "es_open X path = Inr fd" "reads_ok fd"
    and h: "h = (case fd_pread fd 0 64 of Inr bs \<Rightarrow> bs | Inl _ \<Rightarrow> [])"
    and len: "length (li_elf_header load_info) = 64" "length h \<le> 64"
    and seek: "seek_ok h errno"
  shows "walk (add_load_info X tracee fd h) (phdrs fd h) (set_elf_header h load_info) = Some (0, load_info')"
    "length h = 64" "IS_CLASS32 h \<or> IS_CLASS64 h" "take 4 h = [0x7f, 0x45, 0x4c, 0x46]"
    "ELF_FIELD h e_type \<in> {ET_EXEC, ET_DYN}" "unat (ELF_FIELD h e_phnum) < 0xffff"
proof -
  obtain bs where bs: "fd_pread fd 0 64 = Inr bs"
    using assms(1) fd by (auto simp: extract_load_info_def open_elf_def reads_ok_def split: sum.splits)
  have hb: "h = bs" using h bs by simp
  have ok: "open_elf X path (li_elf_header load_info) = (Inr fd, h)"
    "ELF_FIELD h e_type \<in> {ET_EXEC, ET_DYN}"
    "iterate_program_headers fd h errno (add_load_info X tracee fd h) (set_elf_header h load_info) =
       Some (0, load_info')" and l: "length h = 64"
    using assms(1) fd bs hb len
    by (auto simp: extract_load_info_def open_elf_def Let_def split: if_splits)
  show "walk (add_load_info X tracee fd h) (phdrs fd h) (set_elf_header h load_info) = Some (0, load_info')"
    by (rule iterate_walk [OF fd(3) seek ok(3)])
  show "length h = 64" "ELF_FIELD h e_type \<in> {ET_EXEC, ET_DYN}" by fact+
  show "IS_CLASS32 h \<or> IS_CLASS64 h" "take 4 h = [0x7f, 0x45, 0x4c, 0x46]"
    using ok(1) fd bs hb l
    by (auto simp: open_elf_def Let_def ELF_IDENT_def take_Suc_conv_app_nth numeral_eq_Suc split: if_splits)
  show "unat (ELF_FIELD h e_phnum) < 0xffff"
    using ok(3) by (auto simp: iterate_program_headers_def Let_def split: if_splits)
qed

definition apart :: "nat \<Rightarrow> (Program_field \<Rightarrow> u64) \<Rightarrow> (Program_field \<Rightarrow> u64) \<Rightarrow> bool" where
  "apart k P Q \<longleftrightarrow> unat (P p_vaddr) + unat (P p_memsz) \<le> unat (Q p_vaddr) - unat (Q p_vaddr) mod 2 ^ k"

lemma below_mapping:
  assumes "a < m_addr m" "unat (m_addr m) + unat (m_length m) \<le> 2 ^ 64"
  shows "mapped_byte file m a = None"
proof -
  have "unat (m_length m) \<le> unat (a - m_addr m)" using unat_diff_wrap [OF assms(1)] assms(2) by simp
  then show ?thesis by (simp add: mapped_byte_def word_less_nat_alt)
qed

lemma below_segment:
  assumes k: "paged X k" and ok: "segment_ok k Q" and a: "unat a < unat (Q p_vaddr) - unat (Q p_vaddr) mod 2 ^ k"
  shows "memory_image file (segment_mappings X Q) a = None"
proof -
  let ?v = "Q p_vaddr" and ?s = "Q p_vaddr AND page_mask X"
  let ?e = "segment_end X ?v (Q p_filesz)" and ?e2 = "segment_end X ?v (Q p_memsz)"
  have le: "unat (Q p_filesz) \<le> unat (Q p_memsz)" and w: "unat ?v + unat (Q p_memsz) + 2 ^ k < 2 ^ 64"
    using ok by (simp_all add: segment_ok_def word_le_nat_alt)
  have wf: "unat ?v + unat (Q p_filesz) + 2 ^ k < 2 ^ 64" using le w by simp
  note e = segment_end_bounds [OF k wf] and e2 = segment_end_bounds [OF k w]
  have s: "unat a < unat ?s" "unat ?s \<le> unat ?v" using a by (simp_all add: unat_page_mask [OF k])
  have l: "unat ?e < 2 ^ 64" "unat ?e2 < 2 ^ 64" 
    using unsigned_less [of ?e, where 'a = nat] unsigned_less [of ?e2, where 'a = nat] by simp_all
  have "mapped_byte file (file_mapping X Q) a = None"
    using s e l by (intro below_mapping) (simp_all add: file_mapping_def word_less_nat_alt word_le_nat_alt unat_diff)
  moreover have "mapped_byte file (zero_mapping X Q) a = None" if "?e < ?e2"
    using that s e l
    by (intro below_mapping) (simp_all add: zero_mapping_def word_less_nat_alt word_le_nat_alt unat_diff)
  ultimately show ?thesis by (auto simp: segment_mappings_def map_add_def)
qed

lemma segments_image:
  assumes k: "paged X k" and "\<forall>P \<in> set Ps. segment_ok k P" "sorted_wrt (apart k) Ps" "P \<in> set Ps"
    and i: "i < unat (P p_memsz)"
  shows "memory_image file (concat (map (segment_mappings X) Ps)) (P p_vaddr + of_nat i) =
    Some (if i < unat (P p_filesz) then file (P p_offset + of_nat i) else 0)"
  using assms(2-4)
proof (induction Ps)
  case (Cons Q Ps)
  let ?a = "P p_vaddr + of_nat i"
  show ?case
  proof (cases "P \<in> set Ps")
    case True
    then have "memory_image file (concat (map (segment_mappings X) Ps)) ?a =
      Some (if i < unat (P p_filesz) then file (P p_offset + of_nat i) else 0)" using Cons by simp
    then show ?thesis by (simp add: image_append map_add_def)
  next
    case False
    then have P: "P = Q" "segment_ok k P" using Cons.prems by auto
    have "unat ?a = unat (P p_vaddr) + i"
      using i P(2) by (simp add: segment_ok_def unat_plus_nowrap unat_of_nat_u64)
    then have "memory_image file (segment_mappings X R) ?a = None" if "R \<in> set Ps" for R
      using that i P Cons.prems by (intro below_segment [OF k]) (auto simp: apart_def)
    then have "memory_image file (concat (map (segment_mappings X) Ps)) ?a = None"
      by (induction Ps) (auto simp: image_append map_add_None)
    then show ?thesis
      using segment_image_inv [OF k P(2) i, of "file"] P(1) by (simp add: image_append map_add_def)
  qed
qed simp

text \<open>
  C7: When \<open>extract_load_info\<close> succeeds, the mappings it recorded give the program its image: for
  every loadable segment of the file, in any number and as long as they lie on different pages
  in ascending order, the bytes of the file at the addresses of the segment, and zero from the
  end of its part in the file to its end in memory.
\<close>

theorem program_image:
  assumes "extract_load_info X tracee errno load_info = Some (0, load_info')"
    and new: "li_mappings load_info = None" "length (li_elf_header load_info) = 64"
    and fd: "li_host_path load_info = Some path" "es_open X path = Inr fd" "reads_ok fd"
    and h: "fd_pread fd 0 64 = Inr h" "length h \<le> 64" "seek_ok h errno"
    and k: "paged X k"
    and segments: "segments = map (PROGRAM_FIELD h) (filter (of_type PT_LOAD h) (phdrs fd h))"
    and ok: "\<forall>P \<in> set segments. segment_ok k P" "sorted_wrt (apart k) segments"
  shows "\<forall>P \<in> set segments. \<forall>i < unat (P p_memsz).
    memory_image file (mapping_list load_info') (P p_vaddr + of_nat i) =
      Some (if i < unat (P p_filesz) then file (P p_offset + of_nat i) else 0)"
proof -
  have "walk (add_load_info X tracee fd h) (phdrs fd h) (set_elf_header h load_info) = Some (0, load_info')"
    by (rule extract_walk(1) [OF assms(1) fd]) (use h new in simp_all)
  from walk_load_info [OF this] have "mapping_list load_info' = concat (map (segment_mappings X) segments)"
    using new by (simp add: mapping_list_def segments comp_def)
  then show ?thesis using segments_image [OF k ok] by simp
qed

text \<open>A program of two segments, the second with a part that is not in the file.\<close>

definition le16 :: "u64 \<Rightarrow> byte list" where "le16 v = take 2 (le_bytes v)"
definition le32 :: "u64 \<Rightarrow> byte list" where "le32 v = take 4 (le_bytes v)"

definition demo_header :: "byte list" where
  "demo_header = [0x7f, 0x45, 0x4c, 0x46, 2] @ replicate 11 0 @ le16 2 @ le16 183 @ le32 1 @
     le_bytes 0x400000 @ le_bytes 64 @ le_bytes 0 @ le32 0 @ le16 64 @ le16 56 @ le16 2 @ le16 0 @ le16 0 @ le16 0"

definition demo_phdr :: "u64 \<Rightarrow> u64 \<Rightarrow> u64 \<Rightarrow> u64 \<Rightarrow> u64 \<Rightarrow> byte list" where
  "demo_phdr flags off vaddr filesz memsz = le32 PT_LOAD @ le32 flags @ le_bytes off @ le_bytes vaddr @
     le_bytes vaddr @ le_bytes filesz @ le_bytes memsz @ le_bytes 0x1000"

definition demo_bytes :: "byte list" where
  "demo_bytes = demo_header @ demo_phdr 5 0 0x400000 0x800 0x800 @ demo_phdr 6 0x800 0x410800 0x100 0x2000"

definition demo_fd :: Fd where
  "demo_fd = \<lparr>fd_lseek = (\<lambda>a. None),
     fd_pread = (\<lambda>a n. Inr (take (unat n) (drop (unat a) demo_bytes)))\<rparr>"

definition demo_exec :: Exec where
  "demo_exec = \<lparr>ex_fs = bin_fs, ex_exists = (\<lambda>_. True), ex_executable = (\<lambda>_. True), ex_lstat = (\<lambda>_. True),
     ex_open = (\<lambda>_. Inr \<lparr>f_bytes = [], f_error = None\<rparr>), ex_strdup = (\<lambda>_. True),
     BINPRM_BUF_SIZE = 256, MAXSYMLINKS = 40\<rparr>"

definition demo_sys :: Elf_sys where
  "demo_sys = \<lparr>es_exec = demo_exec, es_open = (\<lambda>_. Inr demo_fd), es_malloc = (\<lambda>_. True),
     es_asprintf = True, es_page_size = 4096\<rparr>"

definition demo_info :: LoadInfo where
  "demo_info = set_host_path (Some ''/bin/demo'') calloc_LoadInfo"

definition demo_ph1 :: ProgramHeader where "demo_ph1 = demo_phdr 5 0 0x400000 0x800 0x800"
definition demo_ph2 :: ProgramHeader where "demo_ph2 = demo_phdr 6 0x800 0x410800 0x100 0x2000"

lemma demo_lengths: "length demo_header = 64" "length demo_ph1 = 56" "length demo_ph2 = 56"
  by (simp_all add: demo_header_def demo_ph1_def demo_ph2_def demo_phdr_def le16_def le32_def)

lemma demo_header_fields:
  "ELF_FIELD demo_header e_phnum = 2" "ELF_FIELD demo_header e_phentsize = 56"
  "ELF_FIELD demo_header e_phoff = 64" "ELF_FIELD demo_header e_type = 2" "IS_CLASS64 demo_header"
  by (code_simp)+

lemma demo_fields:
  "PROGRAM_FIELD demo_header demo_ph1 p_vaddr = 0x400000" "PROGRAM_FIELD demo_header demo_ph1 p_offset = 0"
  "PROGRAM_FIELD demo_header demo_ph1 p_filesz = 0x800" "PROGRAM_FIELD demo_header demo_ph1 p_memsz = 0x800"
  "PROGRAM_FIELD demo_header demo_ph2 p_vaddr = 0x410800" "PROGRAM_FIELD demo_header demo_ph2 p_offset = 0x800"
  "PROGRAM_FIELD demo_header demo_ph2 p_filesz = 0x100" "PROGRAM_FIELD demo_header demo_ph2 p_memsz = 0x2000"
  by code_simp+

lemma demo_read: "fd_pread demo_fd 0 64 = Inr demo_header"
  by code_simp

lemma demo_fd_eqs: "fd_lseek demo_fd = (\<lambda>a. None)" "fd_pread demo_fd a n \<noteq> Inl e"
  by (simp_all add: demo_fd_def)

lemma demo_segments: "filter (of_type PT_LOAD demo_header) (phdrs demo_fd demo_header) = [demo_ph1, demo_ph2]"
  by code_simp

lemma demo_add:
  "ph \<in> {demo_ph1, demo_ph2} \<Longrightarrow>
   \<exists>load_info'. add_load_info demo_sys tracee fd demo_header ph load_info = Some (0, load_info') \<and>
     li_interp load_info' = li_interp load_info"
proof -
  have t: "PROGRAM_FIELD demo_header demo_ph1 p_type = PT_LOAD" "PROGRAM_FIELD demo_header demo_ph2 p_type = PT_LOAD"
    by code_simp+
  have "\<exists>load_info'. add_mapping demo_sys load_info ph = Some (0, load_info') \<and> li_interp load_info' = li_interp load_info"
    by (cases "li_mappings load_info") (simp_all add: add_mapping_def Let_def demo_sys_def)
  then show "ph \<in> {demo_ph1, demo_ph2} \<Longrightarrow> ?thesis"
    using t by (auto simp: add_load_info_def Let_def)
qed

lemma demo_reads: "fd_pread demo_fd 64 56 = Inr demo_ph1" "fd_pread demo_fd 120 56 = Inr demo_ph2"
  by code_simp+

lemma demo_open: "length h = 64 \<Longrightarrow> open_elf demo_sys path h = (Inr demo_fd, demo_header)"
proof -
  have "ELF_IDENT demo_header 0 = 0x7f" "ELF_IDENT demo_header 1 = 0x45" "ELF_IDENT demo_header 2 = 0x4c"
    "ELF_IDENT demo_header 3 = 0x46" by code_simp+
  then show "length h = 64 \<Longrightarrow> ?thesis"
    using demo_read demo_lengths(1) demo_header_fields(5) by (simp add: open_elf_def demo_sys_def)
qed

lemma demo_extract_any:
  assumes "li_host_path info = Some path" "length (li_elf_header info) = 64"
  shows "\<exists>load_info. extract_load_info demo_sys tracee 0 info = Some (0, load_info) \<and> li_interp load_info = li_interp info"
proof -
  let ?add = "add_load_info demo_sys tracee demo_fd demo_header"
  obtain l1 where l1: "?add demo_ph1 (set_elf_header demo_header info) = Some (0, l1)" "li_interp l1 = li_interp info"
    using demo_add [of demo_ph1 tracee demo_fd "set_elf_header demo_header info"] by auto
  obtain l2 where l2: "?add demo_ph2 l1 = Some (0, l2)" "li_interp l2 = li_interp info" using demo_add [of demo_ph2 tracee demo_fd l1] l1 by auto
  have "iterate_loop 2 demo_fd 56 64 ?add (set_elf_header demo_header info) = Some (0, l2)"
    using demo_reads demo_lengths l1 l2 by (simp add: numeral_2_eq_2)
  then have "iterate_program_headers demo_fd demo_header 0 ?add (set_elf_header demo_header info) = Some (0, l2)"
    using demo_header_fields
    by (simp add: iterate_program_headers_def KNOWN_PHENTSIZE_def c_int_small) (simp add: demo_fd_def)
  then show ?thesis
    using demo_open [OF assms(2)] demo_header_fields assms(1) l2(2) by (simp add: extract_load_info_def)
qed

lemma demo_extract: "\<exists>load_info. extract_load_info demo_sys calloc_tracee 0 demo_info = Some (0, load_info)"
  using demo_extract_any [of demo_info "''/bin/demo''" calloc_tracee] by (auto simp: demo_info_def calloc_LoadInfo_def)

theorem program_image_witness:
  "\<exists>load_info. extract_load_info demo_sys calloc_tracee 0 demo_info = Some (0, load_info) \<and>
     memory_image (\<lambda>a. ucast a) (mapping_list load_info) 0x410801 = Some 1 \<and>
     memory_image (\<lambda>a. ucast a) (mapping_list load_info) 0x411fff = Some 0"
proof -
  obtain load_info where e: "extract_load_info demo_sys calloc_tracee 0 demo_info = Some (0, load_info)"
    using demo_extract by blast
  let ?P1 = "PROGRAM_FIELD demo_header demo_ph1" and ?P2 = "PROGRAM_FIELD demo_header demo_ph2"
  have "\<forall>P \<in> set [?P1, ?P2]. \<forall>i < unat (P p_memsz).
      memory_image (\<lambda>a. ucast a) (mapping_list load_info) (P p_vaddr + of_nat i) =
      Some (if i < unat (P p_filesz) then ucast (P p_offset + of_nat i) else 0)"
    by (rule program_image [OF e, where path = "''/bin/demo''" and fd = demo_fd and h = demo_header and k = 12])
      (simp_all add: demo_segments demo_read demo_lengths demo_fields demo_header_fields segment_ok_def apart_def
        demo_info_def calloc_LoadInfo_def demo_sys_def reads_ok_def seek_ok_def paged_def c_int_small demo_fd_eqs)
  then have "\<forall>i < 0x2000. memory_image (\<lambda>a. ucast a) (mapping_list load_info) (0x410800 + of_nat i) =
      Some (if i < 0x100 then ucast (0x800 + of_nat i :: u64) else 0)"
    by (simp add: demo_fields)
  from spec [OF this, of 1] spec [OF this, of "0x17ff"] e show ?thesis by simp
qed

section \<open>Load addresses\<close>

lemma mapped_byte_moved: "mapped_byte file (m_addr_update (\<lambda>addr. addr + b) m) (a + b) = mapped_byte file m a"
  by (simp add: mapped_byte_def)

lemma image_moved: "memory_image file (map (m_addr_update (\<lambda>addr. addr + b)) ms) (a + b) = memory_image file ms a"
  by (induction ms) (simp_all add: mapped_byte_moved map_add_def split: option.splits)

lemma get_put_field:
  "fst f + snd f \<le> length bs \<Longrightarrow> snd f \<le> 8 \<Longrightarrow>
   get_field (put_field bs f v) f = of_le (take (snd f) (le_bytes v))"
  by (cases f) (simp add: get_field_def put_field_def)

lemma get_put_other:
  assumes "fst f + snd f \<le> length bs" "snd f \<le> 8" "fst g + snd g \<le> fst f \<or> fst f + snd f \<le> fst g"
  shows "get_field (put_field bs f v) g = get_field bs g"
proof -
  have len: "length (put_field bs f v) = length bs"
    using assms by (cases f) (simp add: put_field_def)
  have nth: "put_field bs f v ! x = bs ! x" if "x < length bs" "x < fst f \<or> fst f + snd f \<le> x" for x
    using that assms by (cases f) (auto simp: put_field_def nth_append)
  have "take (snd g) (drop (fst g) (put_field bs f v)) = take (snd g) (drop (fst g) bs)"
    using assms by (intro nth_equalityI) (auto simp: len nth)
  then show ?thesis by (simp add: get_field_def split_beta)
qed

lemma put_field_ident:
  "4 < fst f \<Longrightarrow> 4 < length bs \<Longrightarrow> ELF_IDENT (put_field bs f v) 4 = ELF_IDENT bs 4"
  by (cases f) (simp add: put_field_def ELF_IDENT_def nth_append)

definition load_base :: "u64 \<Rightarrow> LoadInfo \<Rightarrow> u64" where
  "load_base address load_info =
     (if IS_POSITION_INDENPENDANT (li_elf_header load_info) \<and> m_addr (hd (mapping_list load_info)) = 0
      then address else 0)"

definition elf64 :: "LoadInfo \<Rightarrow> bool" where
  "elf64 load_info \<longleftrightarrow> length (li_elf_header load_info) = 64 \<and> IS_CLASS64 (li_elf_header load_info)"

definition moved :: "u64 \<Rightarrow> LoadInfo \<Rightarrow> LoadInfo \<Rightarrow> bool" where
  "moved b l l' \<longleftrightarrow>
     (\<forall>file a. memory_image file (mapping_list l') (a + b) = memory_image file (mapping_list l) a) \<and>
     ELF_FIELD (li_elf_header l') e_entry = ELF_FIELD (li_elf_header l) e_entry + b \<and>
     (\<forall>f. f \<noteq> e_entry \<longrightarrow> ELF_FIELD (li_elf_header l') f = ELF_FIELD (li_elf_header l) f) \<and>
     elf64 l' \<and> li_interp l' = li_interp l \<and> li_user_path l' = li_user_path l"

lemma add_load_base_moves:
  assumes l: "elf64 l" and "add_load_base b l = Some l'"
  shows "moved b l l'"
proof -
  obtain ms where ms: "li_mappings l = Some ms" using assms(2) by (auto simp: add_load_base_def split: option.splits)
  let ?h = "put_field (li_elf_header l) (24, 8) (get_field (li_elf_header l) (24, 8) + b)"
  have l': "l' = set_elf_header ?h (set_mappings (Some (map (m_addr_update (\<lambda>addr. addr + b)) ms)) l)"
    using assms ms by (simp add: add_load_base_def elf64_def Let_def)
  have c: "IS_CLASS64 ?h" using l put_field_ident [of "(24, 8)" "li_elf_header l"] by (simp add: elf64_def IS_CLASS64_def)
  have h: "length ?h = 64" using l by (simp add: elf64_def put_field_def)
  have e: "get_field ?h (24, 8) = get_field (li_elf_header l) (24, 8) + b"
    using l by (subst get_put_field) (simp_all add: elf64_def)
  have f: "get_field ?h (ElfHeader64 f) = get_field (li_elf_header l) (ElfHeader64 f)" if "f \<noteq> e_entry" for f
    using l that by (intro get_put_other; cases f) (simp_all add: elf64_def)
  have im: "memory_image f (mapping_list l') (a + b) = memory_image f (mapping_list l) a" for f a
    by (simp add: l' mapping_list_def ms image_moved)
  show ?thesis
    unfolding moved_def using im c h e f l by (simp add: l' elf64_def ELF_FIELD_def)
qed

lemma moved_0: "elf64 l \<Longrightarrow> moved 0 l l"
  by (simp add: moved_def)

lemma place_moves: "elf64 l \<Longrightarrow> place b l = Some l' \<Longrightarrow> moved (load_base b l) l l'"
  using add_load_base_moves [of l b l'] moved_0 [of l]
  by (auto simp: place_def load_base_def mapping_list_def split: if_splits option.splits list.splits)

lemma place_defined:
  "place b l = None \<longleftrightarrow> IS_POSITION_INDENPENDANT (li_elf_header l) \<and> mapping_list l = []"
  by (auto simp: place_def mapping_list_def add_load_base_def Let_def split: option.splits list.splits)

text \<open>
  C36: \<open>compute_load_addresses\<close> moves a position independent program whose first segment is at 0 to
  its load address as a whole: the image of all its mappings and its entry point by the same
  distance, no other field of the header; the interpreter likewise to its own; programs with
  fixed addresses stay.  It is undefined exactly for a position independent file without a
  loadable segment.
\<close>

theorem load_addresses_move:
  assumes "elf64 l" "\<forall>i. li_interp l = Some i \<longrightarrow> elf64 i"
  shows "case compute_load_addresses l of
      None \<Rightarrow> (\<exists>i \<in> insert l (set_option (li_interp l)).
                IS_POSITION_INDENPENDANT (li_elf_header i) \<and> mapping_list i = [])
    | Some l' \<Rightarrow> moved (load_base EXEC_PIC_ADDRESS l) l (set_interp (li_interp l) l') \<and>
        (case li_interp l of
           None \<Rightarrow> li_interp l' = None
         | Some i \<Rightarrow> \<exists>i'. li_interp l' = Some i' \<and> moved (load_base INTERP_PIC_ADDRESS i) i i')"
proof (cases "place EXEC_PIC_ADDRESS l")
  case None
  then show ?thesis
    using place_defined [of EXEC_PIC_ADDRESS l] by (simp add: compute_load_addresses_def)
next
  case (Some l1)
  have m: "moved (load_base EXEC_PIC_ADDRESS l) l l1" by (rule place_moves [OF assms(1) Some])
  then have i: "li_interp l1 = li_interp l" by (simp add: moved_def)
  have same: "set_interp (li_interp l1) l1 = l1" "set_interp x (set_interp y l1) = set_interp x l1" for x y
    by (cases l1; simp)+
  show ?thesis
  proof (cases "li_interp l")
    case None
    then show ?thesis using Some m i same by (simp add: compute_load_addresses_def)
  next
    case (Some i1)
    then show ?thesis
      using \<open>place EXEC_PIC_ADDRESS l = Some l1\<close> m i same assms(2) place_moves [of i1 INTERP_PIC_ADDRESS]
        place_defined [of INTERP_PIC_ADDRESS i1]
      by (cases "place INTERP_PIC_ADDRESS i1") (auto simp: compute_load_addresses_def)
  qed
qed

text \<open>A position independent program of one segment, which has an interpreter with fixed addresses.\<close>

definition pie_info :: LoadInfo where
  "pie_info = set_mappings (Some [\<lparr>m_addr = 0, m_length = 0x1000, m_clear_length = 0, m_prot = 5,
      m_flags = MAP_PRIVATE OR MAP_FIXED, m_fd = - 1, m_offset = 0\<rparr>])
     (set_elf_header (put_field demo_header (16, 2) ET_DYN)
       (set_interp (Some (set_elf_header demo_header calloc_LoadInfo)) calloc_LoadInfo))"

theorem load_addresses_move_witness:
  "\<exists>l'. compute_load_addresses pie_info = Some l' \<and> ELF_FIELD (li_elf_header l') e_entry = 0x3000400000"
proof -
  have dyn: "IS_POSITION_INDENPENDANT (li_elf_header pie_info)" by code_simp
  have fixed: "\<not> IS_POSITION_INDENPENDANT demo_header" by code_simp
  have e: "elf64 pie_info" "elf64 (set_elf_header demo_header calloc_LoadInfo)" by code_simp+
  have i: "li_interp pie_info = Some (set_elf_header demo_header calloc_LoadInfo)"
    and ms: "mapping_list pie_info \<noteq> []" and b: "load_base EXEC_PIC_ADDRESS pie_info = EXEC_PIC_ADDRESS"
    using dyn by (simp_all add: pie_info_def mapping_list_def load_base_def)
  have entry: "ELF_FIELD (li_elf_header pie_info) e_entry = 0x400000" by code_simp
  have "compute_load_addresses pie_info \<noteq> None"
    using load_addresses_move [OF e(1)] e(2) dyn fixed i ms by (auto split: option.splits)
  then show ?thesis
    using load_addresses_move [OF e(1)] e(2) i b entry by (auto simp: moved_def split: option.splits)
qed

end
