(* ===== verification/Chain.thy ===== *)
theory Chain
  imports Regs
begin

text \<open>
  Unrequested system calls chained after the one a tracee asked for
  (src/library/src/main/jni/syscall/chain.c).  The list is the state \<open>Live\<close> of the pointer
  \<open>chain.syscalls\<close>; after \<open>free\<close> the pointer is not reset, and any use of it is undefined
  (\<open>None\<close>).  The two calls of \<open>calloc\<close> are arguments: from the size that is asked for to
  the size of the block that is handed out, or \<open>None\<close> for \<open>NULL\<close>.  Both calls ask for the
  size of the list head; storing into a block that is too small is undefined.
\<close>

section \<open>Definitions\<close>

abbreviation SYSTRAP_SIZE :: u64 where "SYSTRAP_SIZE \<equiv> 4"
abbreviation SYSTRAP_NUM :: Reg where "SYSTRAP_NUM \<equiv> SYSARG_NUM"

definition set_chain :: "chain_ptr \<Rightarrow> Tracee \<Rightarrow> Tracee" where
  "set_chain p tracee = tracee\<lparr>t_chain := (t_chain tracee)\<lparr>ch_syscalls := p\<rparr>\<rparr>"

text \<open>
  Sizes on arm64: the list head is two pointers; an element is the number (padded), six
  words and the link.
\<close>

definition sizeof_chained_syscalls :: nat where "sizeof_chained_syscalls = 2 * 8"
definition sizeof_chained_syscall :: nat where "sizeof_chained_syscall = 8 + 6 * 8 + 8"

definition register_chained_syscall ::
    "(nat \<Rightarrow> nat option) \<Rightarrow> (nat \<Rightarrow> nat option) \<Rightarrow> Tracee \<Rightarrow> Sysnum \<Rightarrow> u64 list \<Rightarrow>
     (int \<times> Tracee) option" where
  "register_chained_syscall calloc_list calloc_element tracee sysnum sysargs =
     (let append = (\<lambda>cs. case calloc_element sizeof_chained_syscalls of
             None \<Rightarrow> Some (- ENOMEM, set_chain (Live cs) tracee)
           | Some block \<Rightarrow>
               if block < sizeof_chained_syscall then None
               else Some (0, set_chain (Live (cs @ [\<lparr>cs_sysnum = sysnum,
                                                      cs_sysargs = sysargs\<rparr>])) tracee))
      in case ch_syscalls (t_chain tracee) of
           Null \<Rightarrow>
             (case calloc_list sizeof_chained_syscalls of
                None \<Rightarrow> Some (- ENOMEM, tracee)
              | Some block \<Rightarrow> if block < sizeof_chained_syscalls then None else append [])
         | Live cs \<Rightarrow> append cs
         | Dangling \<Rightarrow> None)"

definition chain_next_syscall :: "Tracee \<Rightarrow> Tracee option" where
  "chain_next_syscall tracee =
     (case ch_syscalls (t_chain tracee) of
        Null \<Rightarrow> None
      | Dangling \<Rightarrow> None
      | Live [] \<Rightarrow>
          let tracee = set_chain Dangling tracee;
              tracee = (if ch_force_final_result (t_chain tracee)
                        then poke_reg tracee SYSARG_RESULT (ch_final_result (t_chain tracee))
                        else tracee)
          in Some (tracee\<lparr>t_chain := (t_chain tracee)\<lparr>ch_force_final_result := False,
                                                       ch_final_result := 0\<rparr>\<rparr>)
      | Live (syscall # cs) \<Rightarrow>
          let tracee = tracee\<lparr>t_restore_original_regs := False\<rparr>;
              tracee = set_chain (Live cs) tracee;
              tracee = poke_reg tracee SYSARG_1 (cs_sysargs syscall ! 0);
              tracee = poke_reg tracee SYSARG_2 (cs_sysargs syscall ! 1);
              tracee = poke_reg tracee SYSARG_3 (cs_sysargs syscall ! 2);
              tracee = poke_reg tracee SYSARG_4 (cs_sysargs syscall ! 3);
              tracee = poke_reg tracee SYSARG_5 (cs_sysargs syscall ! 4);
              tracee = poke_reg tracee SYSARG_6 (cs_sysargs syscall ! 5)
          in case detranslate_sysnum (get_abi tracee) (cs_sysnum syscall) of
               None \<Rightarrow> None
             | Some sysnum \<Rightarrow>
                 let tracee = poke_reg tracee SYSTRAP_NUM sysnum;
                     instr_pointer = peek_reg tracee CURRENT INSTR_POINTER
                 in Some (poke_reg tracee INSTR_POINTER (instr_pointer - SYSTRAP_SIZE)))"

definition force_chain_final_result :: "Tracee \<Rightarrow> u64 \<Rightarrow> Tracee" where
  "force_chain_final_result tracee forced_result =
     tracee\<lparr>t_chain := (t_chain tracee)\<lparr>ch_force_final_result := True,
                                        ch_final_result := forced_result\<rparr>\<rparr>"

definition restart_original_syscall :: "Tracee \<Rightarrow> int \<times> Tracee" where
  "restart_original_syscall tracee =
     (let tracee = poke_reg tracee SYSARG_1 (peek_reg tracee ORIGINAL SYSARG_1);
          tracee = poke_reg tracee SYSARG_2 (peek_reg tracee ORIGINAL SYSARG_2);
          tracee = poke_reg tracee SYSARG_3 (peek_reg tracee ORIGINAL SYSARG_3);
          tracee = poke_reg tracee SYSARG_4 (peek_reg tracee ORIGINAL SYSARG_4);
          tracee = poke_reg tracee SYSARG_5 (peek_reg tracee ORIGINAL SYSARG_5);
          tracee = poke_reg tracee SYSARG_6 (peek_reg tracee ORIGINAL SYSARG_6);
          tracee = poke_reg tracee SYSTRAP_NUM (peek_reg tracee ORIGINAL SYSARG_NUM);
          tracee = poke_reg tracee INSTR_POINTER
                     (peek_reg tracee CURRENT INSTR_POINTER - SYSTRAP_SIZE)
      in (0, tracee))"

lemma element_does_not_fit: "sizeof_chained_syscalls < sizeof_chained_syscall"
  by (simp add: sizeof_chained_syscalls_def sizeof_chained_syscall_def)

section \<open>Queue\<close>

text \<open>
  What the callers rely on: the chained calls form a queue.  \<open>taken x s s'\<close> says what the
  removal of \<open>x\<close> in the step from \<open>s\<close> to \<open>s'\<close> does.
\<close>

locale fifo =
  fixes contents :: "'s \<Rightarrow> 'a list option"
    and enq :: "'a \<Rightarrow> 's \<Rightarrow> 's option"
    and deq :: "'s \<Rightarrow> 's option"
    and taken :: "'a \<Rightarrow> 's \<Rightarrow> 's \<Rightarrow> bool"
  assumes enq_contents: "contents s = Some xs \<Longrightarrow> enq x s = Some s' \<Longrightarrow> contents s' = Some (xs @ [x])"
    and enq_defined: "contents s = Some xs \<Longrightarrow> enq x s \<noteq> None"
    and deq_contents: "contents s = Some (x # xs) \<Longrightarrow> deq s = Some s' \<Longrightarrow>
      contents s' = Some xs \<and> taken x s s'"
    and deq_defined: "contents s = Some (x # xs) \<Longrightarrow> deq s \<noteq> None"
begin

fun enq_all :: "'a list \<Rightarrow> 's \<Rightarrow> 's option" where
  "enq_all [] s = Some s"
| "enq_all (x # xs) s = (case enq x s of None \<Rightarrow> None | Some s \<Rightarrow> enq_all xs s)"

lemma enq_all_contents:
  "contents s = Some ys \<Longrightarrow> \<exists>s'. enq_all xs s = Some s' \<and> contents s' = Some (ys @ xs)"
proof (induction xs arbitrary: s ys)
  case (Cons x xs)
  obtain s1 where s1: "enq x s = Some s1" using enq_defined [OF Cons.prems] by blast
  then have "contents s1 = Some (ys @ [x])" by (rule enq_contents [OF Cons.prems])
  then show ?case using Cons.IH s1 by fastforce
qed simp

text \<open>Steps \<open>f\<close> of the environment may come between two removals if they keep the contents.\<close>

fun deq_all :: "('s \<Rightarrow> 's) list \<Rightarrow> 's \<Rightarrow> ('s \<times> 's) list option" where
  "deq_all [] s = Some []"
| "deq_all (f # fs) s =
     (case deq (f s) of
        None \<Rightarrow> None
      | Some s' \<Rightarrow> (case deq_all fs s' of None \<Rightarrow> None | Some ss \<Rightarrow> Some ((f s, s') # ss)))"

lemma deq_all_order:
  "contents s = Some xs \<Longrightarrow> length fs \<le> length xs \<Longrightarrow>
   \<forall>f \<in> set fs. \<forall>t. contents (f t) = contents t \<Longrightarrow>
   \<exists>ss. deq_all fs s = Some ss \<and> length ss = length fs \<and>
     (\<forall>i < length fs. taken (xs ! i) (fst (ss ! i)) (snd (ss ! i)))"
proof (induction fs arbitrary: s xs)
  case (Cons f fs)
  then obtain x xs' where xs: "xs = x # xs'" by (cases xs) auto
  then have c: "contents (f s) = Some (x # xs')" using Cons.prems by simp
  then obtain s' where s': "deq (f s) = Some s'" using deq_defined by blast
  then have t: "contents s' = Some xs'" "taken x (f s) s'" using deq_contents [OF c] by auto
  then obtain ss where ss: "deq_all fs s' = Some ss" "length ss = length fs"
    "\<forall>i < length fs. taken (xs' ! i) (fst (ss ! i)) (snd (ss ! i))"
    using Cons.IH [of s' xs'] Cons.prems xs by auto
  then show ?case using s' t(2) xs
    by (intro exI [of _ "(f s, s') # ss"]) (auto simp: less_Suc_eq_0_disj)
qed simp

end

section \<open>The chain is a queue\<close>

definition chain_contents :: "Tracee \<Rightarrow> Chained_syscall list option" where
  "chain_contents tracee = (case ch_syscalls (t_chain tracee) of
     Null \<Rightarrow> Some [] | Live cs \<Rightarrow> Some cs | Dangling \<Rightarrow> None)"

text \<open>The registers of \<open>tracee'\<close> make the tracee of \<open>tracee\<close> issue the call \<open>c\<close> again at its trap.\<close>

definition issues :: "Chained_syscall \<Rightarrow> Tracee \<Rightarrow> Tracee \<Rightarrow> bool" where
  "issues c tracee tracee' \<longleftrightarrow>
     (\<forall>i < 6. peek_reg tracee' CURRENT ([SYSARG_1, SYSARG_2, SYSARG_3, SYSARG_4, SYSARG_5, SYSARG_6] ! i) =
        norm_word tracee (cs_sysargs c ! i)) \<and>
     map_option (norm_word tracee) (detranslate_sysnum (get_abi tracee) (cs_sysnum c)) =
        Some (peek_reg tracee' CURRENT SYSARG_NUM) \<and>
     peek_reg tracee' CURRENT INSTR_POINTER =
        norm_word tracee (peek_reg tracee CURRENT INSTR_POINTER - SYSTRAP_SIZE) \<and>
     \<not> t_restore_original_regs tracee'"

lemma set_chain_simps [reg_simps]:
  "peek_reg (set_chain p tracee) v r = peek_reg tracee v r"
  "reg_cell (set_chain p tracee) = reg_cell tracee"
  "norm_word (set_chain p tracee) = norm_word tracee"
  "get_abi (set_chain p tracee) = get_abi tracee"
  "t_is_aarch32 (set_chain p tracee) = t_is_aarch32 tracee"
  "t_restore_original_regs (set_chain p tracee) = t_restore_original_regs tracee"
  "ch_syscalls (t_chain (set_chain p tracee)) = p"
  by (simp_all add: set_chain_def peek_reg_def REG_def reg_cell_def norm_word_def get_abi_def
      is_32on64_mode_def fun_eq_iff)

lemma restore_flag_simps [reg_simps]:
  "peek_reg (tracee\<lparr>t_restore_original_regs := b\<rparr>) v r = peek_reg tracee v r"
  "reg_cell (tracee\<lparr>t_restore_original_regs := b\<rparr>) = reg_cell tracee"
  "norm_word (tracee\<lparr>t_restore_original_regs := b\<rparr>) = norm_word tracee"
  "get_abi (tracee\<lparr>t_restore_original_regs := b\<rparr>) = get_abi tracee"
  by (simp_all add: peek_reg_def REG_def reg_cell_def norm_word_def get_abi_def
      is_32on64_mode_def fun_eq_iff)

lemma reg_cell_eq_iff:
  "reg_cell tracee r = reg_cell tracee r' \<longleftrightarrow> r = r' \<or>
    {r, r'} \<subseteq> {SYSARG_1, SYSARG_RESULT, RTLD_FINI, STATE_FLAGS, USERARG_1}"
  by (cases r; cases r')
    (auto simp: reg_cell_def USER_REGS_OFFSET_def USER_REGS_OFFSET_32_def)

lemma detranslate_defined: "abi \<noteq> ABI_3 \<Longrightarrow> \<exists>n. detranslate_sysnum abi s = Some n"
  by (cases "s = PR_void") (auto simp: detranslate_sysnum_alt, auto simp: detranslate_sysnum_def)

lemma norm_word_idem [simp]: "norm_word tracee (norm_word tracee v) = norm_word tracee v"
  by (simp add: norm_word_def and.assoc)

lemma less_6: "(\<forall>i < 6. P i) \<longleftrightarrow> P 0 \<and> P 1 \<and> P 2 \<and> P 3 \<and> P 4 \<and> P (5::nat)"
proof -
  have "i < 6 \<longleftrightarrow> i \<in> {0, 1, 2, 3, 4, 5}" for i :: nat by auto
  then show ?thesis by auto
qed

lemma chain_next_Cons:
  assumes "ch_syscalls (t_chain tracee) = Live (c # cs)"
  shows "\<exists>tracee'. chain_next_syscall tracee = Some tracee' \<and>
    ch_syscalls (t_chain tracee') = Live cs \<and> issues c tracee tracee'"
proof -
  obtain n where n: "detranslate_sysnum (get_abi tracee) (cs_sysnum c) = Some n"
    using detranslate_defined [OF get_abi_valid] by blast
  show ?thesis
    unfolding chain_next_syscall_def Let_def issues_def less_6
    using assms n by (simp add: reg_simps peek_poke reg_cell_eq_iff)
qed

lemma chain_next_Nil:
  assumes "ch_syscalls (t_chain tracee) = Live []"
  shows "\<exists>tracee'. chain_next_syscall tracee = Some tracee' \<and>
    ch_syscalls (t_chain tracee') = Dangling \<and>
    \<not> ch_force_final_result (t_chain tracee') \<and>
    peek_reg tracee' CURRENT SYSARG_RESULT =
      (if ch_force_final_result (t_chain tracee)
       then norm_word tracee (ch_final_result (t_chain tracee))
       else peek_reg tracee CURRENT SYSARG_RESULT) \<and>
    chain_next_syscall tracee' = None"
proof -
  have p: "peek_reg (t\<lparr>t_chain := x\<rparr>) v r = peek_reg t v r" for t x v r
    by (simp add: peek_reg_def REG_def reg_cell_def is_32on64_mode_def)
  show ?thesis
    using assms by (simp add: chain_next_syscall_def Let_def reg_simps p peek_poke)
      (simp add: set_chain_def)
qed

text \<open>A registration where \<open>calloc\<close> hands out more than it is asked for, enough for an element.\<close>

definition roomy :: "(nat \<Rightarrow> nat option) \<Rightarrow> bool" where
  "roomy calloc \<longleftrightarrow>
     (\<exists>block. calloc sizeof_chained_syscalls = Some block \<and> sizeof_chained_syscall \<le> block)"

lemma register_roomy:
  assumes "roomy calloc"
  shows "register_chained_syscall calloc calloc tracee sysnum sysargs =
    map_option (\<lambda>cs. (0, set_chain (Live (cs @ [\<lparr>cs_sysnum = sysnum, cs_sysargs = sysargs\<rparr>])) tracee))
      (case ch_syscalls (t_chain tracee) of Null \<Rightarrow> Some [] | Live cs \<Rightarrow> Some cs | Dangling \<Rightarrow> None)"
  using assms element_does_not_fit
  by (auto simp: roomy_def register_chained_syscall_def split: chain_ptr.splits)

lemma register_exact:
  assumes "calloc sizeof_chained_syscalls = Some block" "block < sizeof_chained_syscall"
  shows "register_chained_syscall calloc calloc tracee sysnum sysargs = None"
  using assms by (simp add: register_chained_syscall_def split: chain_ptr.split)

definition enq_chain :: "Chained_syscall \<Rightarrow> Tracee \<Rightarrow> Tracee option" where
  "enq_chain c tracee =
     map_option snd (register_chained_syscall (\<lambda>_. Some sizeof_chained_syscall)
       (\<lambda>_. Some sizeof_chained_syscall) tracee (cs_sysnum c) (cs_sysargs c))"

lemma enq_chain_eq:
  "enq_chain c tracee = map_option (\<lambda>cs. set_chain (Live (cs @ [c])) tracee) (chain_contents tracee)"
  by (cases c) (simp add: enq_chain_def register_roomy roomy_def chain_contents_def
      option.map_comp comp_def split: chain_ptr.split)

interpretation chain: fifo chain_contents enq_chain chain_next_syscall issues
proof
  fix s s' x xs assume "chain_contents s = Some xs" "enq_chain x s = Some s'"
  then show "chain_contents s' = Some (xs @ [x])"
    by (auto simp: enq_chain_eq chain_contents_def [of "set_chain p t" for p t] reg_simps)
next
  fix s xs x assume "chain_contents s = Some xs"
  then show "enq_chain x s \<noteq> None" by (simp add: enq_chain_eq)
next
  fix s s' x xs assume "chain_contents s = Some (x # xs)" "chain_next_syscall s = Some s'"
  then show "chain_contents s' = Some xs \<and> issues x s s'"
    using chain_next_Cons [of s x xs] by (auto simp: chain_contents_def split: chain_ptr.splits)
next
  fix s x xs assume "chain_contents s = Some (x # xs)"
  then show "chain_next_syscall s \<noteq> None"
    using chain_next_Cons [of s x xs] by (auto simp: chain_contents_def split: chain_ptr.splits)
qed

section \<open>Properties\<close>

text \<open>
  Several registrations, and one exit stage after another: the registers are fetched (the
  tracee ran in between), then the next chained call is forged.  The pairs hold the tracee
  before and after it.
\<close>

fun register_all :: "(nat \<Rightarrow> nat option) \<Rightarrow> Chained_syscall list \<Rightarrow> Tracee \<Rightarrow> Tracee option" where
  "register_all calloc [] tracee = Some tracee"
| "register_all calloc (c # cs) tracee =
     (case register_chained_syscall calloc calloc tracee (cs_sysnum c) (cs_sysargs c) of
        Some (status, tracee) \<Rightarrow> if status < 0 then None else register_all calloc cs tracee
      | None \<Rightarrow> None)"

fun drain :: "bank list \<Rightarrow> Tracee \<Rightarrow> (Tracee \<times> Tracee) list option" where
  "drain [] tracee = Some []"
| "drain (b # bs) tracee =
     (case chain_next_syscall (put_bank CURRENT b tracee) of
        None \<Rightarrow> None
      | Some tracee' \<Rightarrow>
          (case drain bs tracee' of
             None \<Rightarrow> None
           | Some ss \<Rightarrow> Some ((put_bank CURRENT b tracee, tracee') # ss)))"

lemma drain_deq_all: "drain bs tracee = chain.deq_all (map (put_bank CURRENT) bs) tracee"
  by (induction bs arbitrary: tracee) (auto split: option.splits)

lemma register_all_enq_all:
  assumes "roomy calloc"
  shows "register_all calloc cs tracee = chain.enq_all cs tracee"
proof (induction cs arbitrary: tracee)
  case (Cons c cs)
  have "register_chained_syscall calloc calloc tracee (cs_sysnum c) (cs_sysargs c) =
      map_option (Pair 0) (enq_chain c tracee)"
    by (cases c) (simp add: enq_chain_eq register_roomy [OF assms] chain_contents_def
        option.map_comp comp_def)
  then show ?case using Cons.IH by (cases "enq_chain c tracee") simp_all
qed simp

text \<open>C3: an element is allocated with the size of the list head, 16 bytes for its 64: where
  \<open>calloc\<close> hands out a block of the size it is asked for, or any block below 64 bytes, every
  registration overflows it, and nothing is ever chained.  Where the block happens to have room
  for the element, chained system calls are issued first in, first out, whatever the registers
  hold when each of them ends: after registering \<open>cs\<close> on an empty chain, the \<open>i\<close>-th exit stage
  loads the six arguments and the translated number of the \<open>i\<close>-th call, moves the program
  counter back on the trap instruction, and keeps the original registers from being restored.\<close>

theorem chain_in_order:
  assumes "ch_syscalls (t_chain tracee) = Null" "length bs = length cs"
    "calloc sizeof_chained_syscalls = Some block"
  shows "(block < sizeof_chained_syscall \<and> cs \<noteq> [] \<longrightarrow> register_all calloc cs tracee = None) \<and>
    (sizeof_chained_syscall \<le> block \<longrightarrow>
      (\<exists>tracee1 ss. register_all calloc cs tracee = Some tracee1 \<and> drain bs tracee1 = Some ss \<and>
         (\<forall>i < length cs. issues (cs ! i) (fst (ss ! i)) (snd (ss ! i)))))"
proof (intro conjI impI)
  assume "block < sizeof_chained_syscall \<and> cs \<noteq> []"
  then show "register_all calloc cs tracee = None"
    using register_exact [of calloc block, OF assms(3)] by (cases cs) simp_all
next
  assume "sizeof_chained_syscall \<le> block"
  then have roomy: "roomy calloc" using assms(3) by (simp add: roomy_def)
  have "chain_contents tracee = Some []" using assms(1) by (simp add: chain_contents_def)
  then obtain tracee1 where t: "register_all calloc cs tracee = Some tracee1"
      "chain_contents tracee1 = Some cs"
    using chain.enq_all_contents [of tracee "[]" cs] by (auto simp: register_all_enq_all [OF roomy])
  have "chain_contents (put_bank CURRENT b t) = chain_contents t" for b t
    by (simp add: chain_contents_def put_bank_def)
  then show "\<exists>tracee1 ss. register_all calloc cs tracee = Some tracee1 \<and> drain bs tracee1 = Some ss \<and>
      (\<forall>i < length cs. issues (cs ! i) (fst (ss ! i)) (snd (ss ! i)))"
    using chain.deq_all_order [OF t(2), of "map (put_bank CURRENT) bs"] t(1) assms(2)
    by (auto simp: drain_deq_all)
qed

theorem chain_in_order_witness:
  "register_all Some [\<lparr>cs_sysnum = PR_close, cs_sysargs = [3, 0, 0, 0, 0, 0]\<rparr>] calloc_tracee = None \<and>
   (\<exists>tracee1 ss. register_all (\<lambda>_. Some 64) [\<lparr>cs_sysnum = PR_close, cs_sysargs = [3, 0, 0, 0, 0, 0]\<rparr>]
        calloc_tracee = Some tracee1 \<and> drain [\<lambda>_. 7] tracee1 = Some ss \<and>
      peek_reg (snd (ss ! 0)) CURRENT SYSARG_1 = 3)"
proof -
  let ?c = "\<lparr>cs_sysnum = PR_close, cs_sysargs = [3, 0, 0, 0, 0, 0]\<rparr>"
  have null: "ch_syscalls (t_chain calloc_tracee) = Null" by (simp add: calloc_tracee_def)
  have len: "length [\<lambda>_ :: nat. 7 :: u32] = length [?c]" by simp
  have exact: "register_all Some [?c] calloc_tracee = None"
    using chain_in_order [OF null len, of Some] element_does_not_fit by blast
  obtain tracee1 ss where s: "register_all (\<lambda>_. Some 64) [?c] calloc_tracee = Some tracee1"
    "drain [\<lambda>_. 7] tracee1 = Some ss" "issues ?c (fst (ss ! 0)) (snd (ss ! 0))"
    using chain_in_order [OF null len, of "\<lambda>_. Some 64"] by (auto simp: sizeof_chained_syscall_def)
  have "norm_word t 3 = 3" for t by (simp add: norm_word_def)
  with s(3) have "peek_reg (snd (ss ! 0)) CURRENT SYSARG_1 = 3"
    unfolding issues_def less_6 by simp
  with s(1,2) exact show ?thesis by blast
qed

text \<open>C34: the exit stage that finds the chain empty forces the final result if one was set, and
  leaves the pointer to the freed list behind: the next use of the chain is undefined, where a
  null pointer was meant to end it.\<close>

theorem chain_end:
  assumes "ch_syscalls (t_chain tracee) = Live []"
  shows "\<exists>tracee'. chain_next_syscall tracee = Some tracee' \<and>
    peek_reg tracee' CURRENT SYSARG_RESULT =
      (if ch_force_final_result (t_chain tracee)
       then (if t_is_aarch32 tracee then ch_final_result (t_chain tracee) AND 0xFFFFFFFF
             else ch_final_result (t_chain tracee))
       else peek_reg tracee CURRENT SYSARG_RESULT) \<and>
    ch_syscalls (t_chain tracee') \<noteq> Null \<and> chain_next_syscall tracee' = None"
  using chain_next_Nil [OF assms] by (auto simp: norm_word_def)

theorem chain_end_witness:
  "\<exists>tracee'. chain_next_syscall (force_chain_final_result (set_chain (Live []) calloc_tracee) 42) =
      Some tracee' \<and> peek_reg tracee' CURRENT SYSARG_RESULT = 42 \<and> chain_next_syscall tracee' = None"
proof -
  let ?t = "force_chain_final_result (set_chain (Live []) calloc_tracee) 42"
  have t: "ch_syscalls (t_chain ?t) = Live []" "ch_force_final_result (t_chain ?t)"
    "ch_final_result (t_chain ?t) = 42" "\<not> t_is_aarch32 ?t"
    by (simp_all add: force_chain_final_result_def set_chain_def calloc_tracee_def)
  show ?thesis using chain_end [OF t(1)] t(2-4) by auto
qed

text \<open>Restarting the original call gives the tracee its six arguments and its number back and
  moves the program counter back on the trap instruction.\<close>

theorem restart_original:
  "fst (restart_original_syscall tracee) = 0 \<and>
   map (peek_reg (snd (restart_original_syscall tracee)) CURRENT)
     [SYSARG_NUM, SYSARG_1, SYSARG_2, SYSARG_3, SYSARG_4, SYSARG_5, SYSARG_6] =
   map (peek_reg tracee ORIGINAL)
     [SYSARG_NUM, SYSARG_1, SYSARG_2, SYSARG_3, SYSARG_4, SYSARG_5, SYSARG_6] \<and>
   peek_reg (snd (restart_original_syscall tracee)) CURRENT INSTR_POINTER =
     norm_word tracee (peek_reg tracee CURRENT INSTR_POINTER - SYSTRAP_SIZE)"
  by (simp add: restart_original_syscall_def Let_def reg_simps peek_poke reg_cell_eq_iff)

end
