(* ===== verification/Syscall.thy ===== *)
theory Syscall
  imports Mem Chain
begin

text \<open>
  The two stages of a traced system call (src/library/src/main/jni/syscall/syscall.c, enter.c,
  exit.c with \<open>HANDLE_SYSCALL\<close> and \<open>ENABLE_LOG\<close>) and the operations offered to the callbacks of
  the library (library.c).  The handlers of \<open>execve\<close>, \<open>ptrace\<close> and \<open>wait\<close>, and the callbacks
  the application installs, are fields of a record; a handler may be undefined (\<open>None\<close>).
\<close>

section \<open>Arguments in memory\<close>

definition get_sysarg_path ::
    "'k Kernel \<Rightarrow> Tracee \<Rightarrow> Reg \<Rightarrow> 'k OS \<Rightarrow> (int \<times> byte list \<times> 'k OS) option" where
  "get_sysarg_path K tracee reg os =
     (let src = peek_reg tracee CURRENT reg
      in if src = 0 then Some (0, [0], os)
         else case read_path K tracee src os of
                None \<Rightarrow> None
              | Some (sz, path, os) \<Rightarrow>
                  if sz < 0 then Some (sz, path, os)
                  else Some (sz, take (nat sz) path @ 0 # drop (Suc (nat sz)) path, os))"

definition set_sysarg_data ::
    "'k Kernel \<Rightarrow> Tracee \<Rightarrow> byte list \<Rightarrow> Reg \<Rightarrow> 'k OS \<Rightarrow> (int \<times> Tracee \<times> 'k OS) option" where
  "set_sysarg_data K tracee tracer_ptr reg os =
     (case alloc_mem tracee (int (length tracer_ptr)) of
        None \<Rightarrow> None
      | Some (tracee_ptr, tracee) \<Rightarrow>
          if tracee_ptr = 0 then Some (- EFAULT, tracee, os)
          else case write_data K tracee tracee_ptr tracer_ptr os of
                 (status, os) \<Rightarrow>
                   if status < 0 then Some (status, tracee, os)
                   else Some (0, poke_reg tracee reg tracee_ptr, os))"

text \<open>A path is its bytes without the terminator.\<close>

definition set_sysarg_path ::
    "'k Kernel \<Rightarrow> Tracee \<Rightarrow> byte list \<Rightarrow> Reg \<Rightarrow> 'k OS \<Rightarrow> (int \<times> Tracee \<times> 'k OS) option" where
  "set_sysarg_path K tracee path reg os = set_sysarg_data K tracee (path @ [0]) reg os"

section \<open>Handlers\<close>

record Syscall_data =
  sd_sysnum :: Sysnum
  sd_tracee_pid :: pid
  sd_user_context_data :: u64

record 'k Handlers =
  h_parent_pid :: "nat \<Rightarrow> pid"
  global_on_sysenter :: "(Syscall_data \<Rightarrow> Tracee \<Rightarrow> 'k OS \<Rightarrow> u64 \<times> Tracee \<times> 'k OS) option"
  global_on_sysexit :: "(Syscall_data \<Rightarrow> Tracee \<Rightarrow> 'k OS \<Rightarrow> u64 \<times> Tracee \<times> 'k OS) option"
  h_execve_enter :: "Tracee \<Rightarrow> 'k OS \<Rightarrow> (int \<times> Tracee \<times> 'k OS) option"
  h_ptrace_enter :: "Tracee \<Rightarrow> 'k OS \<Rightarrow> (int \<times> Tracee \<times> 'k OS) option"
  h_wait_enter :: "Tracee \<Rightarrow> 'k OS \<Rightarrow> (int \<times> Tracee \<times> 'k OS) option"
  h_execve_exit :: "Tracee \<Rightarrow> 'k OS \<Rightarrow> (Tracee \<times> 'k OS) option"
  h_ptrace_exit :: "Tracee \<Rightarrow> 'k OS \<Rightarrow> (int \<times> Tracee \<times> 'k OS) option"
  h_wait_exit :: "Tracee \<Rightarrow> 'k OS \<Rightarrow> (int \<times> bool \<times> Tracee \<times> 'k OS) option"

section \<open>Enter stage\<close>

abbreviation AT_FDCWD :: int where "AT_FDCWD \<equiv> -100"
abbreviation PR_SET_DUMPABLE :: u64 where "PR_SET_DUMPABLE \<equiv> 4"

definition translate_execveat_enter ::
    "'k Handlers \<Rightarrow> Tracee \<Rightarrow> 'k OS \<Rightarrow> (int \<times> Tracee \<times> 'k OS) option" where
  "translate_execveat_enter H tracee os =
     (if c_int (uint (peek_reg tracee CURRENT SYSARG_1)) = AT_FDCWD then
        (case set_sysnum tracee PR_execve of
           None \<Rightarrow> None
         | Some tracee \<Rightarrow>
             let tracee = poke_reg tracee SYSARG_1 (peek_reg tracee CURRENT SYSARG_2);
                 tracee = poke_reg tracee SYSARG_2 (peek_reg tracee CURRENT SYSARG_3);
                 tracee = poke_reg tracee SYSARG_3 (peek_reg tracee CURRENT SYSARG_4)
             in h_execve_enter H tracee os)
      else Some (- ENOSYS, tracee, os))"

text \<open>The log line of \<open>open\<close> prints a buffer that was never set: the case is undefined.\<close>

definition translate_syscall_enter ::
    "'k Kernel \<Rightarrow> 'k Handlers \<Rightarrow> Tracee \<Rightarrow> 'k OS \<Rightarrow> (int \<times> Tracee \<times> 'k OS) option" where
  "translate_syscall_enter K H tracee os =
     (case get_sysnum tracee ORIGINAL of
        None \<Rightarrow> None
      | Some syscall_number \<Rightarrow>
          if syscall_number = PR_execve then h_execve_enter H tracee os
          else if syscall_number = PR_execveat then translate_execveat_enter H tracee os
          else if syscall_number = PR_ptrace then h_ptrace_enter H tracee os
          else if syscall_number = PR_wait4 \<or> syscall_number = PR_waitpid
          then h_wait_enter H tracee os
          else if syscall_number = PR_open then None
          else if syscall_number = PR_openat then
            (case get_sysarg_path K tracee SYSARG_2 os of
               None \<Rightarrow> None
             | Some (status, path, os) \<Rightarrow> Some (status, tracee, os))
          else if syscall_number = PR_prctl then
            (if peek_reg tracee CURRENT SYSARG_1 = PR_SET_DUMPABLE
             then map_option (\<lambda>tracee. (0, tracee, os)) (set_sysnum tracee PR_void)
             else Some (0, tracee, os))
          else Some (0, tracee, os))"

section \<open>Exit stage\<close>

definition translate_syscall_exit ::
    "'k Handlers \<Rightarrow> Tracee \<Rightarrow> 'k OS \<Rightarrow> (Tracee \<times> 'k OS) option" where
  "translate_syscall_exit H tracee os =
     (if t_status tracee < 0
      then Some (poke_reg tracee SYSARG_RESULT (of_int (t_status tracee)), os)
      else case get_sysnum tracee ORIGINAL of
        None \<Rightarrow> None
      | Some syscall_number \<Rightarrow>
          if syscall_number = PR_execve then h_execve_exit H tracee os
          else if syscall_number = PR_ptrace then
            (case h_ptrace_exit H tracee os of
               None \<Rightarrow> None
             | Some (status, tracee, os) \<Rightarrow>
                 Some (poke_reg tracee SYSARG_RESULT (of_int status), os))
          else if syscall_number = PR_wait4 \<or> syscall_number = PR_waitpid then
            (if as_waits_in (t_as_ptracer tracee) \<noteq> WAITS_IN_PROOT then Some (tracee, os)
             else case h_wait_exit H tracee os of
                    None \<Rightarrow> None
                  | Some (status, set_result, tracee, os) \<Rightarrow>
                      if \<not> set_result then Some (tracee, os)
                      else Some (poke_reg tracee SYSARG_RESULT (of_int status), os))
          else Some (tracee, os))"

section \<open>Both stages\<close>

text \<open>
  \<open>print_current_regs\<close> reads the path of an \<open>openat\<close> for the log: nothing of the tracee
  changes, but \<open>errno\<close> may, and its number must be in the table.
\<close>

definition print_current_regs :: "'k Kernel \<Rightarrow> Tracee \<Rightarrow> 'k OS \<Rightarrow> 'k OS option" where
  "print_current_regs K tracee os =
     (case get_sysnum tracee CURRENT of
        None \<Rightarrow> None
      | Some s \<Rightarrow>
          if s = PR_openat
          then map_option (\<lambda>(status, path, os). os) (get_sysarg_path K tracee SYSARG_2 os)
          else Some os)"

definition syscall_data ::
    "'k Handlers \<Rightarrow> Tracee \<Rightarrow> Sysnum \<Rightarrow> u64 \<Rightarrow> Syscall_data" where
  "syscall_data H tracee s user =
     \<lparr>sd_sysnum = s,
      sd_tracee_pid = (case t_parent tracee of Some parent \<Rightarrow> h_parent_pid H parent
                       | None \<Rightarrow> t_pid tracee),
      sd_user_context_data = user\<rparr>"

definition notify_sysenter ::
    "'k Handlers \<Rightarrow> Tracee \<Rightarrow> 'k OS \<Rightarrow> (Tracee \<times> 'k OS) option" where
  "notify_sysenter H tracee os =
     (case global_on_sysenter H of
        None \<Rightarrow> Some (tracee, os)
      | Some f \<Rightarrow>
          (case get_sysnum tracee CURRENT of
             None \<Rightarrow> None
           | Some s \<Rightarrow>
               (case f (syscall_data H tracee s 0) tracee os of
                  (user, tracee, os) \<Rightarrow> Some (tracee\<lparr>t_user_context_data := user\<rparr>, os))))"

definition notify_sysexit ::
    "'k Handlers \<Rightarrow> Tracee \<Rightarrow> 'k OS \<Rightarrow> (Tracee \<times> 'k OS) option" where
  "notify_sysexit H tracee os =
     (case global_on_sysexit H of
        None \<Rightarrow> Some (tracee, os)
      | Some f \<Rightarrow>
          (case get_sysnum tracee CURRENT of
             None \<Rightarrow> None
           | Some s \<Rightarrow>
               (case f (syscall_data H tracee s (t_user_context_data tracee)) tracee os of
                  (user, tracee, os) \<Rightarrow> Some (tracee, os))))"

abbreviation PTRACE_CONT :: int where "PTRACE_CONT \<equiv> 7"
abbreviation PTRACE_SYSCALL :: int where "PTRACE_SYSCALL \<equiv> 24"

text \<open>The end of the enter stage, from the status of the translation.\<close>

definition finish_enter :: "int \<Rightarrow> Tracee \<Rightarrow> Tracee option" where
  "finish_enter status tracee =
     (case (if status < 0
            then map_option (\<lambda>tracee. (poke_reg tracee SYSARG_RESULT (of_int status))
                                        \<lparr>t_status := status\<rparr>) (set_sysnum tracee PR_void)
            else Some (tracee\<lparr>t_status := 1\<rparr>)) of
        None \<Rightarrow> None
      | Some tracee \<Rightarrow>
          Some (if t_restart_how tracee = PTRACE_CONT
                then poke_reg (tracee\<lparr>t_status := 0\<rparr>) STACK_POINTER
                       (peek_reg tracee ORIGINAL STACK_POINTER)
                else tracee))"

definition syscall_enter_stage ::
    "'k Kernel \<Rightarrow> 'k Handlers \<Rightarrow> Tracee \<Rightarrow> 'k OS \<Rightarrow> (Tracee \<times> 'k OS) option" where
  "syscall_enter_stage K H tracee os =
     (let tracee = tracee\<lparr>t_restore_original_regs := False\<rparr>
      in case print_current_regs K tracee os of
           None \<Rightarrow> None
         | Some os \<Rightarrow>
             (case (if ch_syscalls (t_chain tracee) = Null then
                      (case notify_sysenter H (save_current_regs tracee ORIGINAL) os of
                         None \<Rightarrow> None
                       | Some (tracee, os) \<Rightarrow>
                           (case translate_syscall_enter K H tracee os of
                              None \<Rightarrow> None
                            | Some (status, tracee, os) \<Rightarrow>
                                Some (status, save_current_regs tracee MODIFIED, os)))
                    else Some (0, tracee\<lparr>t_restart_how := PTRACE_SYSCALL\<rparr>, os)) of
                None \<Rightarrow> None
              | Some (status, tracee, os) \<Rightarrow>
                  map_option (\<lambda>tracee. (tracee, os)) (finish_enter status tracee)))"

definition syscall_exit_stage ::
    "'k Kernel \<Rightarrow> 'k Handlers \<Rightarrow> Tracee \<Rightarrow> 'k OS \<Rightarrow> (Tracee \<times> 'k OS) option" where
  "syscall_exit_stage K H tracee os =
     (let tracee = tracee\<lparr>t_restore_original_regs := True\<rparr>
      in case print_current_regs K tracee os of
           None \<Rightarrow> None
         | Some os \<Rightarrow>
             (case notify_sysexit H tracee os of
                None \<Rightarrow> None
              | Some (tracee, os) \<Rightarrow>
                  (case (if ch_syscalls (t_chain tracee) = Null
                         then translate_syscall_exit H tracee os else Some (tracee, os)) of
                     None \<Rightarrow> None
                   | Some (tracee, os) \<Rightarrow>
                       let tracee = tracee\<lparr>t_status := 0\<rparr>
                       in if ch_syscalls (t_chain tracee) \<noteq> Null
                          then map_option (\<lambda>tracee. (tracee, os)) (chain_next_syscall tracee)
                          else Some (tracee, os))))"

definition translate_syscall ::
    "'k Kernel \<Rightarrow> 'k Handlers \<Rightarrow> Tracee \<Rightarrow> 'k OS \<Rightarrow> (Tracee \<times> 'k OS) option" where
  "translate_syscall K H tracee os =
     (let is_enter_stage = IS_IN_SYSENTER tracee
      in case fetch_regs K tracee os of
           (status, tracee, os) \<Rightarrow>
             if status < 0 then Some (tracee, os)
             else case (if is_enter_stage then syscall_enter_stage K H tracee os
                        else syscall_exit_stage K H tracee os) of
                    None \<Rightarrow> None
                  | Some (tracee, os) \<Rightarrow>
                      (case push_regs K tracee os of
                         (status, tracee, os) \<Rightarrow>
                           map_option (\<lambda>os. (tracee, os)) (print_current_regs K tracee os)))"

section \<open>Operations for callbacks\<close>

definition syscall_peek_reg :: "Tracee \<Rightarrow> Reg \<Rightarrow> u64" where
  "syscall_peek_reg tracee reg = peek_reg tracee CURRENT reg"

definition syscall_poke_reg :: "Tracee \<Rightarrow> Reg \<Rightarrow> u64 \<Rightarrow> Tracee" where
  "syscall_poke_reg tracee reg v = poke_reg tracee reg v"

definition syscall_set_sysarg_data ::
    "'k Kernel \<Rightarrow> Tracee \<Rightarrow> byte list \<Rightarrow> Reg \<Rightarrow> 'k OS \<Rightarrow> (int \<times> Tracee \<times> 'k OS) option" where
  "syscall_set_sysarg_data K tracee tracer_ptr reg os = set_sysarg_data K tracee tracer_ptr reg os"

definition syscall_set_sysarg_str ::
    "'k Kernel \<Rightarrow> Tracee \<Rightarrow> byte list \<Rightarrow> Reg \<Rightarrow> 'k OS \<Rightarrow> (int \<times> Tracee \<times> 'k OS) option" where
  "syscall_set_sysarg_str K tracee str reg os = set_sysarg_data K tracee (str @ [0]) reg os"

definition syscall_get_sysarg_data ::
    "'k Kernel \<Rightarrow> Tracee \<Rightarrow> nat \<Rightarrow> Reg \<Rightarrow> 'k OS \<Rightarrow> int \<times> byte list \<times> 'k OS" where
  "syscall_get_sysarg_data K tracee max_size reg os =
     (let src = peek_reg tracee CURRENT reg
      in if src = 0 then (0, [], os) else read_data K tracee src max_size os)"

text \<open>The buffer has \<open>max_size\<close> bytes; a store outside of it is \<open>None\<close>.\<close>

definition syscall_get_sysarg_str ::
    "'k Kernel \<Rightarrow> Tracee \<Rightarrow> nat \<Rightarrow> Reg \<Rightarrow> 'k OS \<Rightarrow> (int \<times> byte list \<times> 'k OS) option" where
  "syscall_get_sysarg_str K tracee max_size reg os =
     (let src = peek_reg tracee CURRENT reg
      in if src = 0 then (if 0 < max_size then Some (0, [0], os) else None)
         else case read_string K tracee src max_size os of
                None \<Rightarrow> None
              | Some (sz, dest, os) \<Rightarrow>
                  if sz < 0 then Some (sz, dest, os)
                  else if nat sz < max_size
                  then Some (sz, take (nat sz) dest @ 0 # drop (Suc (nat sz)) dest, os)
                  else None)"

definition syscall_write_data :: "'k Kernel \<Rightarrow> Tracee \<Rightarrow> u64 \<Rightarrow> byte list \<Rightarrow> 'k OS \<Rightarrow> int \<times> 'k OS" where
  "syscall_write_data K tracee dest_tracee src os = write_data K tracee dest_tracee src os"

section \<open>Frames\<close>

lemma poke_reg_flags [frame_simps]:
  "t_restart_how (poke_reg tracee reg v) = t_restart_how tracee"
  by (simp add: poke_reg_def set_REG_def set_REG_32_def put_bank_def)

lemma put_bank_frame [frame_simps]:
  "t_status (put_bank v b tracee) = t_status tracee"
  "t_restart_how (put_bank v b tracee) = t_restart_how tracee"
  "t_chain (put_bank v b tracee) = t_chain tracee"
  by (simp_all add: put_bank_def)

lemma push_regs_frame:
  "push_regs K tracee os = (status, tracee', os') \<Longrightarrow>
   t_status tracee' = t_status tracee \<and> t_restart_how tracee' = t_restart_how tracee"
  by (auto simp: push_regs_def Let_def fold_RESTORE frame_simps split: if_splits prod.splits)

lemma chain_next_status:
  "chain_next_syscall tracee = Some tracee' \<Longrightarrow> t_status tracee' = t_status tracee"
  by (auto simp: chain_next_syscall_def Let_def reg_simps set_chain_def
      split: chain_ptr.splits list.splits option.splits)

lemma set_sysnum_frame:
  "set_sysnum tracee s = Some tracee' \<Longrightarrow>
   t_restart_how tracee' = t_restart_how tracee \<and> t_is_aarch32 tracee' = t_is_aarch32 tracee"
  by (auto simp: set_sysnum_def frame_simps reg_simps)

lemma finish_enter_status:
  "finish_enter status tracee = Some tracee' \<Longrightarrow>
   t_restart_how tracee' = t_restart_how tracee \<and>
   (t_status tracee' = 0 \<longleftrightarrow> t_restart_how tracee' = PTRACE_CONT)"
  by (auto simp: finish_enter_def frame_simps reg_simps dest: set_sysnum_frame
      split: if_splits option.splits)

lemma enter_stage_status:
  "syscall_enter_stage K H tracee os = Some (tracee', os') \<Longrightarrow>
   t_status tracee' = 0 \<longleftrightarrow> t_restart_how tracee' = PTRACE_CONT"
  by (auto simp: syscall_enter_stage_def Let_def dest: finish_enter_status split: option.splits)

lemma exit_stage_status:
  "syscall_exit_stage K H tracee os = Some (tracee', os') \<Longrightarrow> t_status tracee' = 0"
  by (auto simp: syscall_exit_stage_def Let_def dest!: chain_next_status
      split: option.splits if_splits prod.splits)

section \<open>Properties\<close>

text \<open>C11: the stages of a system call alternate whatever the handlers and the callbacks do: the
  exit stage always ends ready to enter, and the enter stage ends waiting for the exit exactly
  when the tracee will be stopped there (it is not restarted with \<open>PTRACE_CONT\<close>).\<close>

theorem stages_alternate:
  assumes "translate_syscall K H tracee os = Some (tracee', os')"
    and "fst (sys_ptrace_getregset K (t_pid tracee) os) \<ge> 0"
  shows "if IS_IN_SYSENTER tracee
    then IS_IN_SYSEXIT tracee' \<longleftrightarrow> t_restart_how tracee' \<noteq> PTRACE_CONT
    else IS_IN_SYSENTER tracee'"
proof -
  obtain status b os1 where g: "sys_ptrace_getregset K (t_pid tracee) os = (status, b, os1)"
    by (metis prod.exhaust)
  with assms(2) have st: "\<not> status < 0" by simp
  let ?t = "put_bank CURRENT b tracee"
  have f: "fetch_regs K tracee os = (0, ?t, os1)" using g st by (simp add: fetch_regs_def)
  obtain t2 os2 where stage: "(if IS_IN_SYSENTER tracee then syscall_enter_stage K H ?t os1
      else syscall_exit_stage K H ?t os1) = Some (t2, os2)"
    and p: "fst (snd (push_regs K t2 os2)) = tracee'"
    using assms(1) f by (auto simp: translate_syscall_def split: option.splits prod.splits)
  have "t_status tracee' = t_status t2" "t_restart_how tracee' = t_restart_how t2"
    using push_regs_frame [of K t2 os2] p by (metis prod.collapse)+
  then show ?thesis
    using stage enter_stage_status [of K H ?t os1 t2 os2] exit_stage_status [of K H ?t os1 t2 os2]
    by (cases "IS_IN_SYSENTER tracee") (simp_all add: IS_IN_SYSEXIT_def IS_IN_SYSENTER_def)
qed

definition no_handlers :: "'k Handlers" where
  "no_handlers = \<lparr>h_parent_pid = (\<lambda>_. 0), global_on_sysenter = None, global_on_sysexit = None,
     h_execve_enter = (\<lambda>t os. Some (0, t, os)), h_ptrace_enter = (\<lambda>t os. Some (0, t, os)),
     h_wait_enter = (\<lambda>t os. Some (0, t, os)), h_execve_exit = (\<lambda>t os. Some (t, os)),
     h_ptrace_exit = (\<lambda>t os. Some (0, t, os)),
     h_wait_exit = (\<lambda>t os. Some (0, True, t, os))\<rparr>"

lemma save_current_simps [reg_simps]:
  "peek_reg (save_current_regs tracee v) v' r =
    (if v' = v then peek_reg tracee CURRENT r else peek_reg tracee v' r)"
  "get_abi (save_current_regs tracee v) = get_abi tracee"
  "t_restart_how (save_current_regs tracee v) = t_restart_how tracee"
  "t_chain (save_current_regs tracee v) = t_chain tracee"
  "t_pid (save_current_regs tracee v) = t_pid tracee"
  "t_regs (save_current_regs tracee v) v' = t_regs tracee (if v' = v then CURRENT else v')"
  "t_regs_were_changed (save_current_regs tracee v) =
    (if v = ORIGINAL then False else t_regs_were_changed tracee)"
  by (auto simp: save_current_regs_def put_bank_def peek_reg_def REG_def reg_cell_def
      is_32on64_mode_def get_abi_def)

lemma poke_same: "peek_reg tracee CURRENT r = v \<Longrightarrow> poke_reg tracee r v = tracee"
  by (simp add: poke_reg_def)

lemma get_sysnum_save [reg_simps]:
  "get_sysnum (save_current_regs tracee v) v' = get_sysnum tracee (if v' = v then CURRENT else v')"
  by (simp add: get_sysnum_def reg_simps)

lemma uninteresting_enter_inv:
  assumes "IS_IN_SYSENTER tracee" "ch_syscalls (t_chain tracee) = Null"
    and "global_on_sysenter H = None"
    and "sys_ptrace_getregset K (t_pid tracee) os = (0, b, os1)"
    and "get_sysnum (put_bank CURRENT b tracee) CURRENT = Some s"
    and "s \<notin> {PR_execve, PR_execveat, PR_ptrace, PR_wait4, PR_waitpid, PR_open, PR_openat, PR_prctl}"
  shows "\<exists>tracee'. translate_syscall K H tracee os = Some (tracee', os1) \<and>
    t_regs tracee' = (\<lambda>_. b) \<and> \<not> t_regs_were_changed tracee'"
proof -
  let ?t = "put_bank CURRENT b tracee"
  let ?r = "?t\<lparr>t_restore_original_regs := False\<rparr>"
  have f: "fetch_regs K tracee os = (0, ?t, os1)" using assms(4) by (simp add: fetch_regs_def)
  have sr: "get_sysnum (x\<lparr>t_restore_original_regs := q\<rparr>) v = get_sysnum x v" for x q v
    by (simp add: get_sysnum_def reg_simps)
  have log: "print_current_regs K ?r os1 = Some os1"
    using assms(5,6) by (simp add: print_current_regs_def sr)
  have enter: "translate_syscall_enter K H (save_current_regs ?r ORIGINAL) os1 =
      Some (0, save_current_regs ?r ORIGINAL, os1)"
    using assms(5,6) by (simp add: translate_syscall_enter_def reg_simps sr)
  let ?e = "save_current_regs (save_current_regs ?r ORIGINAL) MODIFIED"
  have "peek_reg (?e\<lparr>t_status := x\<rparr>) v r = peek_reg ?e v r" for x v r
    by (simp add: peek_reg_def REG_def reg_cell_def is_32on64_mode_def)
  then have "poke_reg (?e\<lparr>t_status := 0\<rparr>) STACK_POINTER (peek_reg ?e ORIGINAL STACK_POINTER) =
      ?e\<lparr>t_status := 0\<rparr>"
    by (intro poke_same) (simp add: reg_simps)
  then obtain st where fin: "finish_enter 0 ?e = Some (?e\<lparr>t_status := st\<rparr>)"
    using \<open>\<And>x v r. peek_reg (?e\<lparr>t_status := x\<rparr>) v r = peek_reg ?e v r\<close>
    by (cases "t_restart_how ?e = PTRACE_CONT") (auto simp: finish_enter_def)
  have stage: "syscall_enter_stage K H ?t os1 = Some (?e\<lparr>t_status := st\<rparr>, os1)"
    using assms(2,3) log enter fin
    by (simp add: syscall_enter_stage_def notify_sysenter_def frame_simps)
  have same: "\<not> t_regs_were_changed (?e\<lparr>t_status := st\<rparr>)" by (simp add: reg_simps)
  have "get_sysnum (?e\<lparr>t_status := st\<rparr>) CURRENT = Some s"
    using assms(5) \<open>\<And>x v r. peek_reg (?e\<lparr>t_status := x\<rparr>) v r = peek_reg ?e v r\<close>
    by (simp add: get_sysnum_def reg_simps) (simp add: get_abi_def save_current_regs_def put_bank_def)
  then have "print_current_regs K (?e\<lparr>t_status := st\<rparr>) os1 = Some os1"
    using assms(6) by (simp add: print_current_regs_def)
  then have "translate_syscall K H tracee os = Some (?e\<lparr>t_status := st\<rparr>, os1)"
    using f stage same assms(1) by (simp add: translate_syscall_def push_regs_def)
  moreover have "t_regs (?e\<lparr>t_status := st\<rparr>) = (\<lambda>_. b)"
    by (rule ext, rename_tac v, case_tac v) (simp_all add: reg_simps)
  ultimately show ?thesis using same by blast
qed



lemma sysnum_zero:
  "get_sysnum (put_bank CURRENT (\<lambda>_. 0) calloc_tracee) CURRENT = Some PR_io_setup"
proof -
  have "map_of sysnums_arm64 0 = Some PR_io_setup" by (simp add: sysnums_arm64_def)
  then have "translate_sysnum ABI_DEFAULT 0 = Some PR_io_setup"
    by (simp add: translate_sysnum_alt table_abi_def arm64_length nth_table_of)
  moreover have "peek_reg (put_bank CURRENT (\<lambda>_. 0) calloc_tracee) CURRENT SYSARG_NUM = 0"
    by (simp add: peek_reg_alt reg_simps load64_def)
  ultimately show ?thesis
    by (simp add: get_sysnum_def get_abi_def reg_simps) (simp add: calloc_tracee_def)
qed

lemma ram_getregset: "sys_ptrace_getregset ram_kernel p ram_boot = (0, \<lambda>_. 0, ram_boot)"
  by (simp add: ram_kernel_def ram_boot_def)

lemma open_undefined:
  assumes "IS_IN_SYSENTER tracee" "ch_syscalls (t_chain tracee) = Null" "global_on_sysenter H = None"
    and "sys_ptrace_getregset K (t_pid tracee) os = (0, b, os1)"
    and "get_sysnum (put_bank CURRENT b tracee) CURRENT = Some PR_open"
  shows "translate_syscall K H tracee os = None"
proof -
  let ?t = "put_bank CURRENT b tracee"
  let ?r = "?t\<lparr>t_restore_original_regs := False\<rparr>"
  have sr: "get_sysnum (x\<lparr>t_restore_original_regs := q\<rparr>) v = get_sysnum x v" for x q v
    by (simp add: get_sysnum_def reg_simps)
  have "print_current_regs K ?r os1 = Some os1"
    using assms(5) by (simp add: print_current_regs_def sr)
  moreover have "translate_syscall_enter K H (save_current_regs ?r ORIGINAL) os1 = None"
    using assms(5) by (simp add: translate_syscall_enter_def reg_simps sr)
  ultimately have "syscall_enter_stage K H ?t os1 = None"
    using assms(2,3) by (simp add: syscall_enter_stage_def notify_sysenter_def frame_simps)
  then show ?thesis using assms(1,4) by (simp add: translate_syscall_def fetch_regs_def)
qed

text \<open>C31: a system call that needs no translation is left alone at its entry: after fetching the
  registers nothing is written to the tracee, its registers are those of the kernel, and they
  are saved as the original and the modified ones.  Not so \<open>open\<close>, which needs none either: its
  log line reads a buffer that was never set, which is undefined.\<close>

theorem uninteresting_enter:
  assumes "IS_IN_SYSENTER tracee" "ch_syscalls (t_chain tracee) = Null"
    and "global_on_sysenter H = None"
    and "sys_ptrace_getregset K (t_pid tracee) os = (0, b, os1)"
    and "get_sysnum (put_bank CURRENT b tracee) CURRENT = Some s"
  shows "(s \<notin> {PR_execve, PR_execveat, PR_ptrace, PR_wait4, PR_waitpid, PR_open, PR_openat, PR_prctl} \<longrightarrow>
      (\<exists>tracee'. translate_syscall K H tracee os = Some (tracee', os1) \<and>
         t_regs tracee' = (\<lambda>_. b) \<and> \<not> t_regs_were_changed tracee')) \<and>
    (s = PR_open \<longrightarrow> translate_syscall K H tracee os = None)"
  using uninteresting_enter_inv [OF assms] open_undefined [OF assms(1-4)] assms(5) by blast

theorem uninteresting_enter_witness:
  "\<exists>tracee'. translate_syscall ram_kernel no_handlers calloc_tracee ram_boot = Some (tracee', ram_boot) \<and>
    t_regs tracee' = (\<lambda>_ _. 0)"
proof -
  have "IS_IN_SYSENTER calloc_tracee" "ch_syscalls (t_chain calloc_tracee) = Null"
    "global_on_sysenter no_handlers = None"
    by (simp_all add: IS_IN_SYSENTER_def calloc_tracee_def no_handlers_def)
  from uninteresting_enter [OF this ram_getregset sysnum_zero] show ?thesis by auto
qed

theorem stages_alternate_witness:
  "\<exists>tracee'. translate_syscall ram_kernel no_handlers calloc_tracee ram_boot = Some (tracee', ram_boot) \<and>
    (IS_IN_SYSEXIT tracee' \<longleftrightarrow> t_restart_how tracee' \<noteq> PTRACE_CONT)"
proof -
  have e: "IS_IN_SYSENTER calloc_tracee" "ch_syscalls (t_chain calloc_tracee) = Null"
    "global_on_sysenter no_handlers = None"
    by (simp_all add: IS_IN_SYSENTER_def calloc_tracee_def no_handlers_def)
  obtain tracee' where t: "translate_syscall ram_kernel no_handlers calloc_tracee ram_boot = Some (tracee', ram_boot)"
    using uninteresting_enter_inv [OF e ram_getregset sysnum_zero] by auto
  from stages_alternate [OF t] e(1) ram_getregset [of "t_pid calloc_tracee"] t show ?thesis by auto
qed

lemma peek_push_regs_result:
  "push_regs K t os = (st, t', os') \<Longrightarrow> peek_reg t' CURRENT SYSARG_RESULT = peek_reg t CURRENT SYSARG_RESULT"
  by (auto simp: push_regs_def Let_def peek_reg_fold_RESTORE split: if_splits prod.splits)

lemma peek_status [reg_simps]:
  "peek_reg (t\<lparr>t_status := x\<rparr>) v r = peek_reg t v r"
  "get_abi (t\<lparr>t_status := x\<rparr>) = get_abi t"
  by (simp_all add: peek_reg_def REG_def reg_cell_def get_abi_def is_32on64_mode_def)

lemma avoider_void:
  assumes "peek_reg t v SYSARG_NUM = norm_word t SYSCALL_AVOIDER"
  shows "get_sysnum t v = Some PR_void"
proof -
  have "unat (norm_word t SYSCALL_AVOIDER) > 2 ^ 16"
    by (simp add: norm_word_def unsigned_minus_1_eq_mask mask_eq_exp_minus_1)
  then have "\<not> unat (norm_word t SYSCALL_AVOIDER) \<le> length (table_abi (get_abi t))"
    using table_abi_small [of "get_abi t"] by simp
  then show ?thesis using assms by (simp add: get_sysnum_def translate_sysnum_alt)
qed

lemma finish_enter_failed:
  assumes "status < 0"
  obtains tracee1 where "finish_enter status tracee = Some tracee1"
    "peek_reg tracee1 CURRENT SYSARG_NUM = norm_word tracee1 SYSCALL_AVOIDER"
    "peek_reg tracee1 CURRENT SYSARG_RESULT = norm_word tracee (of_int status)"
    "t_status tracee1 = (if t_restart_how tracee = PTRACE_CONT then 0 else status)"
    "t_chain tracee1 = t_chain tracee"
    "t_restore_original_regs tracee1 = t_restore_original_regs tracee"
    "norm_word tracee1 = norm_word tracee"
proof -
  let ?v = "poke_reg tracee SYSARG_NUM SYSCALL_AVOIDER"
  have v: "set_sysnum tracee PR_void = Some ?v"
    by (simp add: set_sysnum_def detranslate_sysnum_def)
  have n: "norm_word (t\<lparr>t_status := x\<rparr>) = norm_word t" for t x
    by (simp add: fun_eq_iff norm_word_def)
  let ?e = "(poke_reg ?v SYSARG_RESULT (of_int status))\<lparr>t_status := status\<rparr>"
  let ?r = "if t_restart_how tracee = PTRACE_CONT
    then poke_reg (?e\<lparr>t_status := 0\<rparr>) STACK_POINTER (peek_reg ?e ORIGINAL STACK_POINTER) else ?e"
  have "finish_enter status tracee = Some ?r"
    using assms v by (simp add: finish_enter_def frame_simps)
  then show thesis
    by (rule that) (simp_all add: peek_poke reg_cell_eq_iff reg_simps frame_simps n)
qed

lemma exit_failed:
  assumes "t_status tracee < 0" "ch_syscalls (t_chain tracee) = Null" "global_on_sysexit H = None"
    "print_current_regs K (tracee\<lparr>t_restore_original_regs := True\<rparr>) os = Some os1"
  shows "\<exists>tracee2. syscall_exit_stage K H tracee os = Some (tracee2, os1) \<and>
    peek_reg tracee2 CURRENT SYSARG_RESULT = norm_word tracee (of_int (t_status tracee)) \<and>
    t_status tracee2 = 0"
proof -
  have "norm_word (t\<lparr>t_restore_original_regs := x\<rparr>) = norm_word t" for t x
    by (simp add: fun_eq_iff norm_word_def)
  then show ?thesis
    using assms by (simp add: syscall_exit_stage_def notify_sysexit_def translate_syscall_exit_def
        frame_simps reg_simps peek_poke)
qed

text \<open>
  The translation of a call fails with \<open>status\<close>: what the enter stage does with the fetched
  registers up to the status of \<open>translate_syscall_enter\<close>, which leaves the tracee \<open>tracee'\<close>.
\<close>

definition translation_fails ::
    "'k Kernel \<Rightarrow> 'k Handlers \<Rightarrow> Tracee \<Rightarrow> 'k OS \<Rightarrow> int \<Rightarrow> Tracee \<Rightarrow> 'k OS \<Rightarrow> bool" where
  "translation_fails K H tracee os status tracee' os' \<longleftrightarrow>
     (\<exists>os1 tracee2 os2.
        print_current_regs K (tracee\<lparr>t_restore_original_regs := False\<rparr>) os = Some os1 \<and>
        notify_sysenter H (save_current_regs (tracee\<lparr>t_restore_original_regs := False\<rparr>) ORIGINAL) os1 =
          Some (tracee2, os2) \<and>
        translate_syscall_enter K H tracee2 os2 = Some (status, tracee', os')) \<and> status < 0"


text \<open>A kernel that reports \<open>execve\<close>, and a handler that refuses it.\<close>

definition execve_bank :: bank where
  "execve_bank = store64 (\<lambda>_. 0) (reg_cell calloc_tracee SYSARG_NUM) 221"

definition execve_kernel :: "Ram Kernel" where
  "execve_kernel = ram_kernel\<lparr>sys_ptrace_getregset := (\<lambda>p os. (0, execve_bank, os))\<rparr>"

definition refusing_handlers :: "Ram Handlers" where
  "refusing_handlers = no_handlers\<lparr>h_execve_enter := (\<lambda>t os. Some (- ENOEXEC, t, os))\<rparr>"

definition stopped_tracee :: Tracee where
  "stopped_tracee = calloc_tracee\<lparr>t_restart_how := PTRACE_SYSCALL\<rparr>"

lemma execve_num: "translate_sysnum ABI_DEFAULT 221 = Some PR_execve"
proof -
  have "map_of sysnums_arm64 221 = Some PR_execve" by (simp add: sysnums_arm64_def)
  then show ?thesis by (simp add: translate_sysnum_alt table_abi_def arm64_length nth_table_of)
qed

lemma execve_bank_number:
  assumes "t_regs t v = execve_bank" "\<not> t_is_aarch32 t"
  shows "get_sysnum t v = Some PR_execve"
proof -
  have "reg_cell t = reg_cell calloc_tracee"
    using assms(2) by (simp add: fun_eq_iff reg_cell_def calloc_tracee_def)
  then have "peek_reg t v SYSARG_NUM = 221"
    using assms by (simp add: peek_reg_alt execve_bank_def reg_simps)
  then show ?thesis using assms(2) execve_num by (simp add: get_sysnum_def get_abi_def)
qed

lemma execve_fails:
  "translation_fails execve_kernel refusing_handlers (put_bank CURRENT execve_bank stopped_tracee) os (- ENOEXEC)
     (save_current_regs ((put_bank CURRENT execve_bank stopped_tracee)\<lparr>t_restore_original_regs := False\<rparr>) ORIGINAL) os"
proof -
  let ?t = "(put_bank CURRENT execve_bank stopped_tracee)\<lparr>t_restore_original_regs := False\<rparr>"
  have n: "get_sysnum ?t CURRENT = Some PR_execve" "get_sysnum (save_current_regs ?t ORIGINAL) ORIGINAL = Some PR_execve"
    by (rule execve_bank_number; simp add: put_bank_def save_current_regs_def stopped_tracee_def calloc_tracee_def)+
  show ?thesis
    unfolding translation_fails_def
    using n by (simp add: print_current_regs_def notify_sysenter_def translate_syscall_enter_def
        refusing_handlers_def no_handlers_def)
qed


text \<open>C19: an argument set from a callback at the entry of a system call points to a fresh copy of
  the data: the register holds the address of a block below the old stack pointer that contains
  exactly the bytes given, nothing else of the memory of the tracee changed, and the moved stack
  pointer keeps later blocks apart.\<close>

theorem set_sysarg_data_copies:
  assumes "kernel_memory K V" "IS_IN_SYSENTER tracee" "bs \<noteq> []" "length bs < 2 ^ 62"
    and "reg_cell tracee reg \<noteq> reg_cell tracee STACK_POINTER"
    and "set_sysarg_data K tracee bs reg os = Some (0, tracee', os')"
  shows "wrote V (t_pid tracee) (peek_reg tracee' CURRENT reg) bs (os_kern os) (os_kern os') \<and>
    peek_reg tracee' CURRENT reg = peek_reg tracee' CURRENT STACK_POINTER \<and>
    unat (peek_reg tracee' CURRENT reg) + length bs \<le> unat (peek_reg tracee CURRENT STACK_POINTER)"
proof -
  let ?sz = "int (length bs)"
  have sz: "0 < ?sz" "?sz < 2 ^ 62" using assms(3,4) by simp_all
  define n where "n = nat (align_size ?sz)"
  have n: "length bs \<le> n" using align_size_pos(1) [OF sz(1)] by (simp add: n_def)
  have al: "if unat (peek_reg tracee CURRENT STACK_POINTER) \<le> n then alloc_mem tracee ?sz = Some (0, tracee)
      else \<exists>a. alloc_mem tracee ?sz = Some (a, poke_reg tracee STACK_POINTER a) \<and>
        unat a + n = unat (peek_reg tracee CURRENT STACK_POINTER) \<and>
        peek_reg (poke_reg tracee STACK_POINTER a) CURRENT STACK_POINTER = a"
    by (rule alloc_mem_cases [OF assms(2) sz refl n_def])
  obtain a where a: "alloc_mem tracee ?sz = Some (a, poke_reg tracee STACK_POINTER a)" "a \<noteq> 0"
    "unat a + n = unat (peek_reg tracee CURRENT STACK_POINTER)"
    "peek_reg (poke_reg tracee STACK_POINTER a) CURRENT STACK_POINTER = a"
  proof (cases "unat (peek_reg tracee CURRENT STACK_POINTER) \<le> n")
    case True
    then show ?thesis using al assms(6) by (simp add: set_sysarg_data_def)
  next
    case False
    then show ?thesis using al that by (metis add_0 unat_0 order_refl)
  qed
  let ?s = "poke_reg tracee STACK_POINTER a"
  obtain st where w: "write_data K ?s a bs os = (st, os')" "\<not> st < 0" "tracee' = poke_reg ?s reg a"
    using assms(6) a(1,2) by (auto simp: set_sysarg_data_def split: prod.splits if_splits)
  have len: "length bs < 2 ^ 63" using assms(4) by simp
  have "st = 0" using write_data_cases(1) [OF assms(1) len w(1)] w(2) by (simp split: if_splits)
  then have wrote: "wrote V (t_pid tracee) a bs (os_kern os) (os_kern os')"
    using write_data_cases(2) [OF assms(1) len w(1)] by (auto simp: reg_simps)
  have "norm_word tracee a = a" using a(4) by (simp add: peek_poke)
  then have "peek_reg tracee' CURRENT reg = a" "peek_reg tracee' CURRENT STACK_POINTER = a"
    using w(3) assms(5) a(4) by (simp_all add: peek_poke reg_simps)
  then show ?thesis using wrote a(3) n by simp
qed

theorem set_sysarg_data_copies_witness:
  "\<exists>t' os'. set_sysarg_data ram_kernel (poke_reg calloc_tracee STACK_POINTER 0x5100) [1, 2] SYSARG_2 ram_boot =
      Some (0, t', os') \<and> wrote ram_view 0 (peek_reg t' CURRENT SYSARG_2) [1, 2] (os_kern ram_boot) (os_kern os')"
proof -
  let ?t = "poke_reg calloc_tracee STACK_POINTER 0x5100"
  have sp: "peek_reg ?t CURRENT STACK_POINTER = 0x5100"
    by (simp add: peek_poke norm_word_def calloc_tracee_def)
  have e: "IS_IN_SYSENTER ?t" by (simp add: IS_IN_SYSENTER_def reg_simps calloc_tracee_def)
  have p: "t_pid ?t = 0" by (simp add: reg_simps calloc_tracee_def)
  have c: "reg_cell ?t SYSARG_2 \<noteq> reg_cell ?t STACK_POINTER" by (simp add: reg_cell_eq_iff)
  have "within ram_rw (0x5000 + of_nat 0xF0) 2"
    using ram_page5 [of "0xF0 + 2"] unfolding within_add by simp
  then have r: "within ram_rw 0x50F0 (length [1 :: byte, 2])" by (simp add: numeral_2_eq_2)
  have "align_size 2 = 16" by (simp add: align_size_def signed_divide_int_def)
  then have al: "alloc_mem ?t (int (length [1 :: byte, 2])) = Some (0x50F0, poke_reg ?t STACK_POINTER 0x50F0)"
    using e sp by (simp add: alloc_mem_def Let_def)
  obtain st os' where w: "write_data ram_kernel (poke_reg ?t STACK_POINTER 0x50F0) 0x50F0 [1, 2] ram_boot =
      (st, os')" by (metis prod.exhaust)
  have "st = 0" using write_data_cases(1) [OF ram_kernel_memory _ w] r
    by (simp add: write_ok_def ram_view_simps)
  then have "set_sysarg_data ram_kernel ?t [1, 2] SYSARG_2 ram_boot =
      Some (0, poke_reg (poke_reg ?t STACK_POINTER 0x50F0) SYSARG_2 0x50F0, os')"
    using al w by (simp add: set_sysarg_data_def)
  with set_sysarg_data_copies [OF ram_kernel_memory e _ _ c this] p show ?thesis by auto
qed

text \<open>\<open>syscall_get_sysarg_str\<close> stays inside its buffer only for strings at least two bytes
  shorter than it: one that fills the buffer exactly, terminator included, already makes it
  store a byte past its end.\<close>

theorem get_sysarg_str_bounds:
  assumes "kernel_memory K V" "l < max_size" "max_size < 2 ^ 31"
    and "src = peek_reg tracee CURRENT reg" "src \<noteq> 0"
    and "\<And>i. i \<le> l \<Longrightarrow> v_readable V (os_kern os) (t_pid tracee) (src + of_nat i)"
    and "\<And>i. i < l \<Longrightarrow> the (v_mem V (os_kern os) (t_pid tracee) (src + of_nat i)) \<noteq> 0"
    and "the (v_mem V (os_kern os) (t_pid tracee) (src + of_nat l)) = 0"
  shows "syscall_get_sysarg_str K tracee max_size reg os = None \<longleftrightarrow> Suc l = max_size"
proof -
  obtain bs where "read_chunks K (t_pid tracee) src max_size 0 os = (Terminator (Suc l), bs, os)"
    using read_chunks_terminator [OF assms(1,2,6,7,8), of 0] by auto
  then have "read_string K tracee src max_size os = Some (int (Suc l), bs, os)"
    using assms(2,3) by (simp add: read_string_def c_int_small)
  moreover have "nat (int (Suc l)) = Suc l" "\<not> int (Suc l) < 0" by simp_all
  ultimately show ?thesis
    using assms(2,4,5) unfolding syscall_get_sysarg_str_def Let_def by auto
qed

theorem get_sysarg_str_bounds_witness:
  "syscall_get_sysarg_str ram_kernel (poke_reg calloc_tracee SYSARG_2 0x5000) 3 SYSARG_2 hi = None"
proof -
  let ?t = "poke_reg calloc_tracee SYSARG_2 0x5000"
  have sp: "0x5000 = peek_reg ?t CURRENT SYSARG_2"
    by (simp add: peek_poke norm_word_def calloc_tracee_def)
  have p: "t_pid ?t = 0" by (simp add: reg_simps calloc_tracee_def)
  have "syscall_get_sysarg_str ram_kernel ?t 3 SYSARG_2 hi = None \<longleftrightarrow> Suc 2 = 3"
    by (rule get_sysarg_str_bounds [OF ram_kernel_memory _ _ sp])
      (simp_all only: p hi_readable hi_nonzero hi_zero, simp_all)
  then show ?thesis by simp
qed

end
