(* ===== verification/Execve.thy ===== *)
theory Execve
  imports Load_Info Auxv Syscall "HOL-Library.Monad_Syntax"
begin

text \<open>
  The two stages of execve (execve/enter.c, execve/exit.c): the load information of the new
  program, the load script, and the notification of the loader.

  \<open>USE_LOADER_EXE\<close> is an argument: build.h leaves it undefined, so that the enter stage only
  records the load information, and the parts it guards are modelled for both values.  Files,
  memory of the tracer, and the page size are those of theory \<open>Load_Info\<close>; what a failed call
  leaves in \<open>errno\<close> is not modelled.
\<close>

unbundle bit_operations_syntax

section \<open>Load scripts\<close>

text \<open>
  A statement of a load script (loader/script.h): a packed union behind its action.  Its words
  are \<open>words_of\<close>.
\<close>

datatype LoadStatement =
    LOAD_ACTION_OPEN_NEXT u64
  | LOAD_ACTION_OPEN u64
  | LOAD_ACTION_MMAP_FILE u64 u64 u64 u64 u64
  | LOAD_ACTION_MMAP_ANON u64 u64 u64 u64 u64
  | LOAD_ACTION_MAKE_STACK_EXEC u64
  | LOAD_ACTION_START_TRACED u64 u64 u64 u64 u64 u64 u64
  | LOAD_ACTION_START u64 u64 u64 u64 u64 u64 u64

fun words_of :: "LoadStatement \<Rightarrow> u64 list" where
  "words_of (LOAD_ACTION_OPEN_NEXT string_address) = [0, string_address]"
| "words_of (LOAD_ACTION_OPEN string_address) = [1, string_address]"
| "words_of (LOAD_ACTION_MMAP_FILE addr len prot offset clear_len) =
     [2, addr, len, prot, offset, clear_len]"
| "words_of (LOAD_ACTION_MMAP_ANON addr len prot offset clear_len) =
     [3, addr, len, prot, offset, clear_len]"
| "words_of (LOAD_ACTION_MAKE_STACK_EXEC start) = [4, start]"
| "words_of (LOAD_ACTION_START_TRACED sp entry phdr phent phnum at_entry execfn) =
     [5, sp, entry, phdr, phent, phnum, at_entry, execfn]"
| "words_of (LOAD_ACTION_START sp entry phdr phent phnum at_entry execfn) =
     [6, sp, entry, phdr, phent, phnum, at_entry, execfn]"

text \<open>\<open>LOAD_STATEMENT_SIZE\<close>.\<close>

abbreviation size_open :: u64 where "size_open \<equiv> 16"
abbreviation size_mmap :: u64 where "size_mmap \<equiv> 48"
abbreviation size_make_stack_exec :: u64 where "size_make_stack_exec \<equiv> 16"
abbreviation size_start :: u64 where "size_start \<equiv> 64"

definition transcript_mappings :: "Mapping list \<Rightarrow> LoadStatement list" where
  "transcript_mappings mappings =
     map (\<lambda>m. if m_flags m AND MAP_ANONYMOUS \<noteq> 0
              then LOAD_ACTION_MMAP_ANON (m_addr m) (m_length m) (m_prot m) (m_offset m) (m_clear_length m)
              else LOAD_ACTION_MMAP_FILE (m_addr m) (m_length m) (m_prot m) (m_offset m) (m_clear_length m))
       mappings"

definition bytes_of_string :: "string \<Rightarrow> byte list" where
  "bytes_of_string s = map (\<lambda>c. of_nat (of_char c)) s"

text \<open>\<open>strlen\<close>, and the bytes of a string with its terminator, of a string that is there.\<close>

definition raw_string :: "LoadInfo \<Rightarrow> string option option" where
  "raw_string load_info =
     (case li_raw_path load_info of
        Raw_user_path \<Rightarrow> Some None
      | Raw_own s \<Rightarrow> Some (Some s)
      | Raw_null \<Rightarrow> None
      | Raw_freed \<Rightarrow> None)"

definition string_size :: "string option \<Rightarrow> u64" where
  "string_size s = (case s of None \<Rightarrow> 0 | Some s \<Rightarrow> of_nat (length s) + 1)"

definition string_bytes :: "string option \<Rightarrow> byte list" where
  "string_bytes s = (case s of None \<Rightarrow> [] | Some s \<Rightarrow> bytes_of_string s @ [0])"

text \<open>The conversion of a script of 64-bit words in place, for a 32-bit loader.\<close>

definition narrow :: "byte list \<Rightarrow> u64 list \<Rightarrow> byte list" where
  "narrow buffer ws = concat (map (\<lambda>w. take 4 (le_bytes w)) ws) @ drop (4 * length ws) buffer"

abbreviation STACK_ALIGNMENT :: u64 where "STACK_ALIGNMENT \<equiv> 16"

definition needs_executable_stack :: "LoadInfo \<Rightarrow> bool" where
  "needs_executable_stack load_info \<longleftrightarrow> li_needs_executable_stack load_info \<or>
     (case li_interp load_info of None \<Rightarrow> False | Some i \<Rightarrow> li_needs_executable_stack i)"

text \<open>
  The statements of the script, from the stack pointer and the addresses of the three strings.
\<close>

definition load_script ::
    "Elf_sys \<Rightarrow> Tracee \<Rightarrow> LoadInfo \<Rightarrow> Mapping list \<Rightarrow> Mapping list \<Rightarrow> u64 \<Rightarrow> u64 \<Rightarrow> u64 \<Rightarrow> u64 \<Rightarrow>
     LoadStatement list option" where
  "load_script X tracee load_info mappings interp_mappings stack_pointer string1 string2 string3 =
     (let entry_point = ELF_FIELD (case li_interp load_info of None \<Rightarrow> li_elf_header load_info
                                   | Some i \<Rightarrow> li_elf_header i) e_entry;
          H = ELF_FIELD (li_elf_header load_info);
          start = (if ptracer (t_as_ptracee tracee) \<noteq> None then LOAD_ACTION_START_TRACED
                   else LOAD_ACTION_START)
      in case mappings of
           [] \<Rightarrow> None
         | first # _ \<Rightarrow> Some
             ([LOAD_ACTION_OPEN string1] @ transcript_mappings mappings @
              (case li_interp load_info of
                 None \<Rightarrow> []
               | Some i \<Rightarrow> LOAD_ACTION_OPEN_NEXT string2 # transcript_mappings interp_mappings) @
              (if needs_executable_stack load_info
               then [LOAD_ACTION_MAKE_STACK_EXEC (stack_pointer AND page_mask X)] else []) @
              [start stack_pointer entry_point (H e_phoff + m_addr first) (H e_phentsize) (H e_phnum)
                 (H e_entry) string3]))"

text \<open>
  The area of the strings, right below the stack pointer: its padding, its size, and where the
  strings are; a third string of size 0 is the first one.
\<close>

definition strings_area :: "u64 \<Rightarrow> u64 \<Rightarrow> u64 \<Rightarrow> u64 \<Rightarrow> u64 \<times> u64 \<times> u64 \<times> u64 \<times> u64" where
  "strings_area stack_pointer string1_size string2_size string3_size =
     (let padding_size = (stack_pointer - string1_size - string2_size - string3_size) mod STACK_ALIGNMENT;
          strings_size = string1_size + string2_size + string3_size + padding_size
      in (padding_size, strings_size, stack_pointer - strings_size,
          stack_pointer - strings_size + string1_size,
          (if string3_size = 0 then stack_pointer - strings_size
           else stack_pointer - strings_size + string1_size + string2_size)))"

definition script_size_of :: "LoadInfo \<Rightarrow> Mapping list \<Rightarrow> Mapping list \<Rightarrow> u64" where
  "script_size_of load_info mappings interp_mappings =
     size_open + size_mmap * of_nat (length mappings)
     + (case li_interp load_info of None \<Rightarrow> 0
        | Some i \<Rightarrow> size_open + size_mmap * of_nat (length interp_mappings))
     + (if needs_executable_stack load_info then size_make_stack_exec else 0) + size_start"

text \<open>The end of \<open>transfer_load_script\<close>: the buffer goes below the stack pointer.\<close>

definition send_script ::
    "'k Kernel \<Rightarrow> Tracee \<Rightarrow> u64 \<Rightarrow> byte list \<Rightarrow> 'k OS \<Rightarrow> int \<times> Tracee \<times> 'k OS" where
  "send_script K tracee address buffer os =
     (let tracee = poke_reg tracee STACK_POINTER address;
          tracee = poke_reg tracee USERARG_1 address
      in case write_data K tracee address buffer os of
           (status, os) \<Rightarrow>
             if status < 0 then (status, tracee, os)
             else (0, (save_current_regs tracee ORIGINAL)\<lparr>t_regs_were_changed := True\<rparr>, os))"

definition transfer_load_script ::
    "'k Kernel \<Rightarrow> Elf_sys \<Rightarrow> Tracee \<Rightarrow> 'k OS \<Rightarrow> (int \<times> Tracee \<times> 'k OS) option" where
  "transfer_load_script K X tracee os = do {
     let stack_pointer = peek_reg tracee CURRENT STACK_POINTER;
     load_info \<leftarrow> t_load_info tracee;
     user_path \<leftarrow> li_user_path load_info;
     interp_path \<leftarrow> (case li_interp load_info of None \<Rightarrow> Some None
                    | Some i \<Rightarrow> map_option Some (li_user_path i));
     raw_path \<leftarrow> raw_string load_info;
     mappings \<leftarrow> li_mappings load_info;
     interp_mappings \<leftarrow> (case li_interp load_info of None \<Rightarrow> Some [] | Some i \<Rightarrow> li_mappings i);
     let (padding_size, strings_size, string1_address, string2_address, string3_address) =
       strings_area stack_pointer (string_size (Some user_path)) (string_size interp_path) (string_size raw_path);
     let script_size = script_size_of load_info mappings interp_mappings;
     let buffer_size = script_size + strings_size;
     if \<not> es_malloc X (unat buffer_size) then Some (- ENOMEM, tracee, os)
     else do {
       statements \<leftarrow> load_script X tracee load_info mappings interp_mappings stack_pointer
                      string1_address string2_address string3_address;
       let ws = concat (map words_of statements);
       let script = concat (map le_bytes ws);
       if of_nat (length script) \<noteq> script_size then None
       else do {
         let script = (if is_32on64_mode tracee then narrow script ws else script);
         let buffer = script @ string_bytes (Some user_path) @ string_bytes interp_path @
               string_bytes raw_path @ replicate (unat padding_size) 0;
         if of_nat (length buffer) \<noteq> buffer_size then None
         else Some (send_script K tracee (stack_pointer - buffer_size) buffer os)
       }
     }
   }"

section \<open>Enter stage\<close>

abbreviation EISDIR :: int where "EISDIR \<equiv> 21"

text \<open>The arguments of the execve by which the loader reports that it is done.\<close>

definition IS_NOTIFICATION_PTRACED_LOAD_DONE :: "Tracee \<Rightarrow> bool" where
  "IS_NOTIFICATION_PTRACED_LOAD_DONE tracee \<longleftrightarrow>
     ptracer (t_as_ptracee tracee) \<noteq> None
     \<and> peek_reg tracee ORIGINAL SYSARG_1 = 1
     \<and> peek_reg tracee ORIGINAL SYSARG_4 = 2
     \<and> peek_reg tracee ORIGINAL SYSARG_5 = 3
     \<and> peek_reg tracee ORIGINAL SYSARG_6 = 4"

definition set_ignore_loader_syscalls :: "bool \<Rightarrow> Tracee \<Rightarrow> Tracee" where
  "set_ignore_loader_syscalls b tracee =
     tracee\<lparr>t_as_ptracee := (t_as_ptracee tracee)\<lparr>ignore_loader_syscalls := b\<rparr>\<rparr>"

definition get_loader_path :: "LoadInfo \<Rightarrow> string" where
  "get_loader_path load_info =
     (if IS_CLASS32 (li_elf_header load_info) then ''./loader_arm32'' else ''./loader_arm64'')"

text \<open>
  What is loaded in place of the old load information: the status, and the new one, null
  when there was no memory for it.
\<close>

definition new_load_info ::
    "Elf_sys \<Rightarrow> Tracee \<Rightarrow> int \<Rightarrow> string \<Rightarrow> string \<Rightarrow> Raw_path \<Rightarrow> (int \<times> LoadInfo option) option" where
  "new_load_info X tracee errno host_path user_path raw_path =
     (let load_info = calloc_LoadInfo
      in if \<not> es_malloc X sizeof_LoadInfo then Some (- ENOMEM, None)
         else if \<not> ex_strdup (es_exec X) host_path then Some (- ENOMEM, Some load_info)
         else let load_info = set_host_path (Some host_path) load_info
         in if \<not> ex_strdup (es_exec X) user_path then Some (- ENOMEM, Some load_info)
         else let load_info = set_raw_path raw_path (set_user_path (Some user_path) load_info)
         in do {
           (status, load_info) \<leftarrow> extract_load_info X tracee errno load_info;
           if status < 0 then Some (status, Some load_info)
           else case li_interp load_info of
             None \<Rightarrow> Some (0, Some load_info)
           | Some interp \<Rightarrow> do {
               (status, interp) \<leftarrow> extract_load_info X tracee errno interp;
               let load_info = set_interp (Some interp) load_info;
               if status < 0 then Some (status, Some load_info)
               else if li_interp interp \<noteq> None then Some (- EINVAL, Some load_info)
               else Some (0, Some load_info)
             }
         })"

text \<open>The part for \<open>USE_LOADER_EXE\<close>.\<close>

definition use_loader_enter ::
    "'k Kernel \<Rightarrow> Tracee \<Rightarrow> 'k OS \<Rightarrow> (int \<times> Tracee \<times> 'k OS) option" where
  "use_loader_enter K tracee os = do {
     load_info \<leftarrow> t_load_info tracee;
     load_info \<leftarrow> compute_load_addresses load_info;
     let tracee = tracee\<lparr>t_load_info := Some load_info\<rparr>;
     (status, tracee, os) \<leftarrow> set_sysarg_path K tracee (bytes_of_string (get_loader_path load_info)) SYSARG_1 os;
     if status < 0 then Some (status, tracee, os)
     else Some (0, set_ignore_loader_syscalls True tracee, os)
   }"

definition translate_execve_enter ::
    "bool \<Rightarrow> 'k Kernel \<Rightarrow> Elf_sys \<Rightarrow> Tracee \<Rightarrow> 'k OS \<Rightarrow> (int \<times> Tracee \<times> 'k OS) option" where
  "translate_execve_enter USE_LOADER_EXE K X tracee os =
     (if IS_NOTIFICATION_PTRACED_LOAD_DONE tracee
      then map_option (\<lambda>tracee. (0, tracee, os))
             (set_sysnum (set_ignore_loader_syscalls False tracee) PR_void)
      else do {
        (status, path, os) \<leftarrow> get_sysarg_path K tracee SYSARG_1 os;
        if status < 0 then Some (status, tracee, os)
        else do {
          let user_path = string_of_bytes path;
          let raw_path = user_path;
          if \<not> ex_strdup (es_exec X) raw_path then Some (- ENOMEM, tracee, os)
          else do {
            r \<leftarrow> expand_shebang (es_exec X) tracee user_path;
            case r of
              Inl status \<Rightarrow> Some (if status = - EISDIR then - EACCES else status, tracee, os)
            | Inr (has_shebang, host_path, user_path) \<Rightarrow> do {
                let raw_path = (if has_shebang then Raw_own raw_path else Raw_freed);
                let tracee = tracee\<lparr>t_new_exe := Some host_path\<rparr>;
                (status, load_info) \<leftarrow> new_load_info X tracee (os_errno os) host_path user_path raw_path;
                let tracee = tracee\<lparr>t_load_info := load_info\<rparr>;
                if status < 0 then Some (status, tracee, os)
                else if USE_LOADER_EXE then use_loader_enter K tracee os
                else Some (0, tracee, os)
              }
          }
        }
      })"

section \<open>Exit stage\<close>

text \<open>
  \<open>fill_file_with_auxv\<close>: what is written to an open file, of which a write may be short.  The
  vectors end with a sentinel; reading on behind the array is \<open>None\<close>.
\<close>

fun fill_file_with_auxv :: "(byte list \<Rightarrow> bool) \<Rightarrow> Tracee \<Rightarrow> ElfAuxVector list \<Rightarrow> (int \<times> byte list) option" where
  "fill_file_with_auxv write ptracee [] = None"
| "fill_file_with_auxv write ptracee (v # vectors) =
     (let type = take (sizeof_word ptracee) (le_bytes (av_type v));
          v' = take (sizeof_word ptracee) (le_bytes (av_value v))
      in if \<not> write type then Some (-1, [])
         else if \<not> write v' then Some (-1, type)
         else if av_type v = AT_NULL then Some (0, type @ v')
         else map_option (\<lambda>(status, bs). (status, type @ v' @ bs))
                (fill_file_with_auxv write ptracee vectors))"

definition bind_proc_pid_auxv ::
    "'k Kernel \<Rightarrow> (nat \<Rightarrow> bool) \<Rightarrow> bool \<Rightarrow> Tracee \<Rightarrow> 'k OS \<Rightarrow> (int \<times> 'k OS) option" where
  "bind_proc_pid_auxv K alloc asprintf ptracee os = do {
     (vectors_address, os) \<leftarrow> get_elf_aux_vectors_address K ptracee os;
     if vectors_address = 0 then Some (-1, os)
     else do {
       (vectors, os) \<leftarrow> fetch_elf_aux_vectors K alloc ptracee vectors_address os;
       Some (if vectors = None \<or> \<not> asprintf then -1 else 0, os)
     }
   }"

abbreviation PTRACE_O_TRACEEXEC :: u64 where "PTRACE_O_TRACEEXEC \<equiv> 0x10"

definition translate_execve_exit ::
    "bool \<Rightarrow> 'k Kernel \<Rightarrow> Elf_sys \<Rightarrow> (pid \<Rightarrow> 'k OS \<Rightarrow> 'k OS) \<Rightarrow> Tracee \<Rightarrow> 'k OS \<Rightarrow>
     (Tracee \<times> 'k OS) option" where
  "translate_execve_exit USE_LOADER_EXE K X kill_SIGTRAP tracee os =
     (if IS_NOTIFICATION_PTRACED_LOAD_DONE tracee then do {
        tracee \<leftarrow> set_sysnum (poke_reg tracee SYSARG_RESULT 0) PR_execve;
        let tracee = poke_reg tracee STACK_POINTER (peek_reg tracee ORIGINAL SYSARG_2);
        let tracee = poke_reg tracee INSTR_POINTER (peek_reg tracee ORIGINAL SYSARG_3);
        let tracee = poke_reg tracee RTLD_FINI 0;
        let tracee = poke_reg tracee STATE_FLAGS 0;
        let tracee = (save_current_regs tracee ORIGINAL)\<lparr>t_regs_were_changed := True\<rparr>;
        (_, os) \<leftarrow> bind_proc_pid_auxv K (\<lambda>n. es_malloc X (16 * n + 4)) (es_asprintf X) tracee os;
        let os = (if ptrace_options (t_as_ptracee tracee) AND PTRACE_O_TRACEEXEC = 0
                  then kill_SIGTRAP (t_pid tracee) os else os);
        Some (tracee, os)
      }
      else do {
        load_info \<leftarrow> t_load_info tracee;
        let tracee = tracee\<lparr>t_is_aarch32 := IS_CLASS32 (li_elf_header load_info)\<rparr>;
        let syscall_result = peek_reg tracee CURRENT SYSARG_RESULT;
        if c_int (uint syscall_result) < 0 then Some (tracee, os)
        else if USE_LOADER_EXE
        then map_option (\<lambda>(status, tracee, os). (tracee, os)) (transfer_load_script K X tracee os)
        else Some (tracee, os)
      })"

section \<open>The notification of the loader\<close>

lemma fetch_spec:
  assumes "kernel_memory K V" "\<forall>v \<in> set vs. fits tracee v"
    "holds_words V (os_kern os) tracee a (flat (vs @ [sentinel]))"
  shows "fetch_elf_aux_vectors K (\<lambda>_. True) tracee a os =
    Some (Some (vs @ [sentinel]), \<lparr>os_errno = 0, os_kern = os_kern os\<rparr>)"
  using fetch_loop_spec [OF assms, of "[]"] by (simp add: fetch_elf_aux_vectors_def sentinel_def)

lemma execve_number:
  assumes "\<not> t_is_aarch32 tracee"
  shows "set_sysnum tracee PR_execve = Some (poke_reg tracee SYSARG_NUM 221)"
proof -
  have "detranslate_sysnum ABI_DEFAULT PR_execve = Some 221"
    using execve_num by (intro detranslate_translate_inv) simp_all
  then show ?thesis using assms by (simp add: set_sysnum_def get_abi_def is_32on64_mode_def)
qed

text \<open>The tracee after the part of the exit stage that sets registers.\<close>

definition load_done :: "Tracee \<Rightarrow> Tracee" where
  "load_done tracee =
     (let tracee = poke_reg (poke_reg tracee SYSARG_RESULT 0) SYSARG_NUM 221;
          tracee = poke_reg tracee STACK_POINTER (peek_reg tracee ORIGINAL SYSARG_2);
          tracee = poke_reg tracee INSTR_POINTER (peek_reg tracee ORIGINAL SYSARG_3);
          tracee = poke_reg (poke_reg tracee RTLD_FINI 0) STATE_FLAGS 0
      in (save_current_regs tracee ORIGINAL)\<lparr>t_regs_were_changed := True\<rparr>)"

lemma poke_ptracee: "t_as_ptracee (poke_reg tracee reg v) = t_as_ptracee tracee"
  by (simp add: poke_reg_def set_REG_def set_REG_32_def put_bank_def)

lemma load_done_regs:
  assumes "\<not> t_is_aarch32 tracee" and v: "version = CURRENT \<or> version = ORIGINAL"
  shows "peek_reg (load_done tracee) version r =
    (if r = SYSARG_NUM then 221
     else if r = STACK_POINTER then peek_reg tracee ORIGINAL SYSARG_2
     else if r = INSTR_POINTER then peek_reg tracee ORIGINAL SYSARG_3
     else if r \<in> {SYSARG_1, SYSARG_RESULT, RTLD_FINI, STATE_FLAGS, USERARG_1} then 0
     else peek_reg tracee CURRENT r)"
proof -
  have f: "peek_reg (t\<lparr>t_regs_were_changed := b\<rparr>) v r = peek_reg t v r" for t b v r
    by (simp add: peek_reg_def REG_def reg_cell_def is_32on64_mode_def get_abi_def)
  show ?thesis
    using assms by (cases r) (auto simp: load_done_def Let_def f reg_simps peek_poke norm_word_def reg_cell_eq_iff)
qed

lemma load_done_frame:
  assumes "\<not> t_is_aarch32 tracee"
  shows "get_sysnum (load_done tracee) ORIGINAL = Some PR_execve"
    and "t_pid (load_done tracee) = t_pid tracee" "t_is_aarch32 (load_done tracee) = t_is_aarch32 tracee"
    and "t_status (load_done tracee) = t_status tracee" "t_as_ptracee (load_done tracee) = t_as_ptracee tracee"
    and "t_regs_were_changed (load_done tracee)"
proof -
  show f: "t_pid (load_done tracee) = t_pid tracee" "t_is_aarch32 (load_done tracee) = t_is_aarch32 tracee"
    "t_status (load_done tracee) = t_status tracee" "t_as_ptracee (load_done tracee) = t_as_ptracee tracee"
    "t_regs_were_changed (load_done tracee)"
    by (simp_all add: load_done_def Let_def save_current_regs_def put_bank_def reg_simps poke_ptracee)
  then show "get_sysnum (load_done tracee) ORIGINAL = Some PR_execve"
    using execve_num load_done_regs [OF assms, of ORIGINAL SYSARG_NUM] assms
    by (simp add: get_sysnum_def get_abi_def is_32on64_mode_def)
qed

text \<open>
  C35: the exit stage of the execve by which the loader reports that it is done returns, and makes
  it look like the exit of the original execve: the traced program starts at the entry point with
  the stack pointer of the notification, its result registers 0, under the number of execve; the
  new registers are the original ones too, so that no later stage undoes them.  The table of
  auxiliary vectors is read without an error, and the \<open>SIGTRAP\<close> of execve is sent exactly when
  the ptracer did not ask for the event instead.
\<close>

theorem loader_notification:
  assumes K: "kernel_memory K V" and X: "es_malloc X = (\<lambda>_. True)"
    and N: "IS_NOTIFICATION_PTRACED_LOAD_DONE tracee" "IS_IN_SYSEXIT tracee" "\<not> t_is_aarch32 tracee"
    and stack: "holds_words V (os_kern os) tracee (peek_reg tracee ORIGINAL SYSARG_2)
      (of_nat (length argv) # argv @ [0] @ envp @ [0] @ flat (vs @ [sentinel]))"
    and argv: "length argv < 2 ^ 32" and envp: "\<forall>w \<in> set envp. w \<noteq> 0" and vs: "\<forall>v \<in> set vs. av_type v \<noteq> AT_NULL"
  shows "\<exists>tracee' os'. os' = \<lparr>os_errno = 0, os_kern = os_kern os\<rparr> \<and>
    translate_execve_exit USE_LOADER_EXE K X kill_SIGTRAP tracee os = Some (tracee',
      if ptrace_options (t_as_ptracee tracee) AND PTRACE_O_TRACEEXEC = 0
      then kill_SIGTRAP (t_pid tracee) os' else os') \<and>
    (\<forall>r. peek_reg tracee' ORIGINAL r = peek_reg tracee' CURRENT r) \<and> t_regs_were_changed tracee' \<and>
    get_sysnum tracee' ORIGINAL = Some PR_execve \<and>
    (\<forall>r. peek_reg tracee' CURRENT r =
      (if r = SYSARG_NUM then 221
       else if r = STACK_POINTER then peek_reg tracee ORIGINAL SYSARG_2
       else if r = INSTR_POINTER then peek_reg tracee ORIGINAL SYSARG_3
       else if r \<in> {SYSARG_1, SYSARG_RESULT, RTLD_FINI, STATE_FLAGS, USERARG_1} then 0
       else peek_reg tracee CURRENT r))"
proof -
  let ?t = "load_done tracee" and ?os = "\<lparr>os_errno = 0, os_kern = os_kern os\<rparr>"
  let ?sp = "peek_reg tracee ORIGINAL SYSARG_2"
  note frame = load_done_frame [OF N(3)]
  have regs: "peek_reg ?t CURRENT STACK_POINTER = ?sp" using load_done_regs [OF N(3)] by simp
  have w: "sizeof_word ?t = 8" "sizeof_word tracee = 8" "norm_word ?t = (\<lambda>w. w)"
    using frame N(3) by (simp_all add: sizeof_word_def is_32on64_mode_def norm_word_def fun_eq_iff)
  have same: "holds_words V k ?t a ws = holds_words V k tracee a ws" for k a ws
    by (simp add: holds_words_def word_bytes_def w frame)
  have e: "IS_IN_SYSEXIT2 ?t PR_execve = Some True"
    using frame N(2) by (simp add: IS_IN_SYSEXIT2_def IS_IN_SYSEXIT_def IS_IN_SYSENTER_def)
  let ?front = "of_nat (length argv) # argv @ [0] @ envp @ [0]"
  let ?at = "?sp + of_nat (8 * (length argv + length envp + 3))"
  have "holds_words V (os_kern os) ?t ?sp (?front @ flat (vs @ [sentinel]))" using stack same by simp
  then have front: "holds_words V (os_kern os) ?t ?sp ?front"
    and tail: "holds_words V (os_kern ?os) ?t ?at (flat (vs @ [sentinel]))"
    unfolding holds_words_append by (simp_all add: w algebra_simps)
  have addr: "get_elf_aux_vectors_address K ?t os = Some (?at, ?os)"
    using behind_envp [OF K e front [folded regs] argv] envp by (simp add: w regs)
  have "\<forall>v \<in> set vs. fits ?t v" using vs by (simp add: fits_def w)
  then have f: "fetch_elf_aux_vectors K (\<lambda>_. True) ?t ?at ?os = Some (Some (vs @ [sentinel]), ?os)"
    using fetch_spec [OF K _ tail] by simp
  have b: "\<exists>st. bind_proc_pid_auxv K (\<lambda>_. True) b ?t os = Some (st, ?os)" for b
    using f by (cases "?at = 0") (simp_all add: bind_proc_pid_auxv_def addr)
  have "translate_execve_exit USE_LOADER_EXE K X kill_SIGTRAP tracee os = Some (?t,
      if ptrace_options (t_as_ptracee tracee) AND PTRACE_O_TRACEEXEC = 0
      then kill_SIGTRAP (t_pid tracee) ?os else ?os)"
  proof -
    obtain st where "bind_proc_pid_auxv K (\<lambda>_. True) (es_asprintf X) ?t os = Some (st, ?os)" using b by blast
    moreover have "load_done tracee =
       (save_current_regs (poke_reg (poke_reg (poke_reg (poke_reg (poke_reg (poke_reg tracee SYSARG_RESULT 0) SYSARG_NUM 221)
          STACK_POINTER (peek_reg tracee ORIGINAL SYSARG_2)) INSTR_POINTER (peek_reg tracee ORIGINAL SYSARG_3)) RTLD_FINI 0)
          STATE_FLAGS 0) ORIGINAL)\<lparr>t_regs_were_changed := True\<rparr>"
      by (simp add: load_done_def Let_def reg_simps)
    moreover have "set_sysnum (poke_reg tracee SYSARG_RESULT 0) PR_execve =
        Some (poke_reg (poke_reg tracee SYSARG_RESULT 0) SYSARG_NUM 221)"
      by (rule execve_number) (simp add: N(3) reg_simps)
    ultimately show ?thesis
      using N(1) frame by (simp add: translate_execve_exit_def Let_def X reg_simps)
  qed
  then show ?thesis using load_done_regs [OF N(3)] frame by auto
qed

definition notifying :: Tracee where
  "notifying = calloc_tracee\<lparr>t_status := 1, t_as_ptracee := (t_as_ptracee calloc_tracee)\<lparr>ptracer := Some 7\<rparr>,
     t_regs := (\<lambda>_. (\<lambda>_. 0)(0 := 1, 2 := 0x5000, 4 := 0x400123, 6 := 2, 8 := 3, 10 := 4, 16 := 221))\<rparr>"

lemma zero_words: "n < 512 \<Longrightarrow> t_pid t = p \<Longrightarrow> sizeof_word t = 8 \<Longrightarrow>
    holds_words ram_view (os_kern ram_boot) t 0x5000 (replicate n 0)"
proof -
  assume h: "n < 512" "t_pid t = p" "sizeof_word t = 8"
  have ok: "within ram_ok 0x5000 (8 * n)" using ram_within_rw [OF ram_page5] h(1) by simp
  have z: "le_bytes 0 ! i = 0" if "i < 8" for i using that by (simp add: nth_le_bytes)
  have "word_bytes t (replicate n 0) = replicate (8 * n) 0"
  proof (induction n)
    case (Suc n)
    have "le_bytes 0 = replicate 8 0" using z by (intro nth_equalityI) simp_all
    then show ?case using Suc by (simp add: h(3) flip: replicate_add)
  qed simp
  moreover have "bytes_at (v_mem ram_view (os_kern ram_boot) (t_pid t)) 0x5000 (8 * n) = replicate (8 * n) 0"
  proof (rule nth_equalityI)
    fix i assume "i < length (bytes_at (v_mem ram_view (os_kern ram_boot) (t_pid t)) 0x5000 (8 * n))"
    then show "bytes_at (v_mem ram_view (os_kern ram_boot) (t_pid t)) 0x5000 (8 * n) ! i = replicate (8 * n) 0 ! i"
      using withinD [OF ok] by (simp add: nth_bytes_at ram_view_def ram_space_def ram_boot_def)
  qed simp
  ultimately show ?thesis using ok by (simp add: holds_words_def h(3) ram_view_simps)
qed

theorem loader_notification_witness:
  "\<exists>tracee'. translate_execve_exit False ram_kernel demo_sys (\<lambda>_ os. os) notifying ram_boot =
      Some (tracee', ram_boot) \<and> peek_reg tracee' CURRENT INSTR_POINTER = 0x400123"
proof -
  have r: "peek_reg notifying ORIGINAL SYSARG_2 = 0x5000" "peek_reg notifying ORIGINAL SYSARG_3 = 0x400123"
    "IS_NOTIFICATION_PTRACED_LOAD_DONE notifying" "IS_IN_SYSEXIT notifying" "\<not> t_is_aarch32 notifying"
    "sizeof_word notifying = 8"
    by code_simp+
  have h: "holds_words ram_view (os_kern ram_boot) notifying 0x5000
      (of_nat (length []) # [] @ [0] @ [] @ [0] @ flat ([] @ [sentinel]))"
    using zero_words [of 5 notifying] r(6) by (simp add: sentinel_def numeral_eq_Suc)
  have m: "es_malloc demo_sys = (\<lambda>_. True)" by (simp add: demo_sys_def)
  have o: "\<lparr>os_errno = 0, os_kern = os_kern ram_boot\<rparr> = ram_boot" by (simp add: ram_boot_def)
  show ?thesis
    using loader_notification [OF ram_kernel_memory m r(3-5) h [folded r(1)], where USE_LOADER_EXE = False
        and kill_SIGTRAP = "\<lambda>_ os. os"] r(2)
    by (simp add: o split: if_splits)
qed

lemma c_int_sign: "c_int (uint w) < 0 \<longleftrightarrow> bit w 31" for w :: u64
  by (simp add: c_int_def signed_take_bit_negative_iff bit_uint_iff)

lemma result_sign:
  "bit (peek_reg (tracee\<lparr>t_is_aarch32 := b\<rparr>) CURRENT SYSARG_RESULT) 31 = bit (peek_reg tracee CURRENT SYSARG_RESULT) 31"
  by (simp add: peek_reg_alt reg_cell_def USER_REGS_OFFSET_def USER_REGS_OFFSET_32_def get_abi_def
      bank_bit bit_ucast_iff)

text \<open>
  After an execve that failed, the exit stage keeps everything of the tracee but its word size,
  which it sets from the program that was not executed: an arm64 process that tries to execute a
  32-bit program in vain is taken for a 32-bit process from then on.  Without load information (a
  tracee that was attached before its first execve) it uses a null pointer.
\<close>

theorem failed_execve_exit:
  assumes "\<not> IS_NOTIFICATION_PTRACED_LOAD_DONE tracee"
    and "c_int (uint (peek_reg tracee CURRENT SYSARG_RESULT)) < 0"
  shows "translate_execve_exit USE_LOADER_EXE K X kill_SIGTRAP tracee os =
    (case t_load_info tracee of
       None \<Rightarrow> None
     | Some load_info \<Rightarrow> Some (tracee\<lparr>t_is_aarch32 := IS_CLASS32 (li_elf_header load_info)\<rparr>, os))"
  using assms by (cases "t_load_info tracee")
    (simp_all add: translate_execve_exit_def Let_def c_int_sign result_sign)

definition failing :: Tracee where
  "failing = (poke_reg calloc_tracee SYSARG_RESULT (- 2))
     \<lparr>t_load_info := Some (set_elf_header ([0x7f, 0x45, 0x4c, 0x46, 1] @ replicate 59 0) calloc_LoadInfo)\<rparr>"

theorem failed_execve_exit_witness:
  "\<exists>tracee'. translate_execve_exit False ram_kernel demo_sys (\<lambda>_ os. os) failing ram_boot = Some (tracee', ram_boot) \<and>
     \<not> t_is_aarch32 failing \<and> t_is_aarch32 tracee'"
proof -
  have f: "\<not> IS_NOTIFICATION_PTRACED_LOAD_DONE failing" "bit (peek_reg failing CURRENT SYSARG_RESULT) 31"
    "\<not> t_is_aarch32 failing" by code_simp+
  obtain l where l: "t_load_info failing = Some l" "IS_CLASS32 (li_elf_header l)"
    by (simp add: failing_def IS_CLASS32_def ELF_IDENT_def)
  show ?thesis
    using failed_execve_exit [OF f(1), of False ram_kernel demo_sys "\<lambda>_ os. os" ram_boot] f l by (simp add: c_int_sign)
qed

end
