(* ===== verification/Loader.thy ===== *)
theory Loader
  imports Execve
begin

text \<open>
  The loader (loader/loader.c with assembly-arm64.h), which runs in the new process in place of
  the program: it interprets the load script the tracer left on its stack, and jumps into the
  program.

  Its memory accesses are explicit, as the script, the strings and the auxiliary vectors lie in
  the memory that the script changes; the system calls are a parameter.  The loops are
  \<open>partial_function (option)\<close>s, so that the properties, which give their results, prove that
  they end without a fault.
\<close>

unbundle bit_operations_syntax

section \<open>Process\<close>

text \<open>
  The process the loader runs in: its memory, which bytes may be written, and the rest of the
  kernel.  A system call is a number and its arguments; an access to a byte that is not mapped
  or not writable is a crash (\<open>None\<close>).
\<close>

record 'k Process =
  pr_mem :: space
  pr_writable :: "u64 \<Rightarrow> bool"
  pr_kern :: 'k

type_synonym 'k svc = "u64 \<Rightarrow> u64 list \<Rightarrow> 'k Process \<Rightarrow> u64 \<times> 'k Process"

definition ld_byte :: "u64 \<Rightarrow> 'k Process \<Rightarrow> byte option" where
  "ld_byte a p = pr_mem p a"

definition ld_word :: "u64 \<Rightarrow> 'k Process \<Rightarrow> u64 option" where
  "ld_word a p = (if within (\<lambda>x. pr_mem p x \<noteq> None) a 8
                  then Some (of_le (bytes_at (pr_mem p) a 8)) else None)"

definition stores :: "'k Process \<Rightarrow> u64 \<Rightarrow> bool" where
  "stores p a \<longleftrightarrow> pr_mem p a \<noteq> None \<and> pr_writable p a"

definition st_bytes :: "u64 \<Rightarrow> byte list \<Rightarrow> 'k Process \<Rightarrow> 'k Process option" where
  "st_bytes a bs p = (if within (stores p) a (length bs)
                      then Some (p\<lparr>pr_mem := put_bytes (pr_mem p) a bs\<rparr>) else None)"

text \<open>The numbers of assembly-arm64.h.\<close>

abbreviation OPENAT :: u64 where "OPENAT \<equiv> 56"
abbreviation CLOSE :: u64 where "CLOSE \<equiv> 57"
abbreviation MMAP :: u64 where "MMAP \<equiv> 222"
abbreviation EXECVE :: u64 where "EXECVE \<equiv> 221"
abbreviation EXIT :: u64 where "EXIT \<equiv> 93"
abbreviation PRCTL :: u64 where "PRCTL \<equiv> 167"
abbreviation MPROTECT :: u64 where "MPROTECT \<equiv> 226"

text \<open>
  How the loader ends: \<open>FATAL\<close>, the jump into the program (\<open>BRANCH\<close>, with the stack pointer,
  the destination and the cleared register \<open>x0\<close>), or the execve that notifies the tracer.
\<close>

datatype 'k outcome =
    FATAL "'k Process"
  | BRANCH u64 u64 u64 "'k Process"
  | NOTIFY "u64 list" "'k Process"

section \<open>Clearing memory\<close>

partial_function (option) clear_bytes :: "u64 \<Rightarrow> u64 \<Rightarrow> 'k Process \<Rightarrow> 'k Process option" where
  "clear_bytes start_misaligned bound p =
     (if start_misaligned < bound
      then do { p \<leftarrow> st_bytes start_misaligned [0] p; clear_bytes (start_misaligned + 1) bound p }
      else Some p)"

partial_function (option) clear_words :: "u64 \<Rightarrow> u64 \<Rightarrow> 'k Process \<Rightarrow> 'k Process option" where
  "clear_words start_aligned end_aligned p =
     (if start_aligned < end_aligned
      then do { p \<leftarrow> st_bytes start_aligned (le_bytes 0) p; clear_words (start_aligned + 8) end_aligned p }
      else Some p)"

definition clear :: "u64 \<Rightarrow> u64 \<Rightarrow> 'k Process \<Rightarrow> 'k Process option" where
  "clear start bound p = do {
     let start_bytes = start mod 8;
     let end_bytes = bound mod 8;
     let start_aligned = (if start_bytes \<noteq> 0 then start + 8 - start_bytes else start);
     let end_aligned = bound - end_bytes;
     p \<leftarrow> clear_bytes start start_aligned p;
     p \<leftarrow> clear_words start_aligned end_aligned p;
     clear_bytes end_aligned bound p
   }"

section \<open>Names\<close>

partial_function (option) find_terminator :: "u64 \<Rightarrow> 'k Process \<Rightarrow> u64 option" where
  "find_terminator cursor p = do {
     c \<leftarrow> ld_byte cursor p;
     if c \<noteq> 0 then find_terminator (cursor + 1) p else Some cursor
   }"

partial_function (option) find_slash :: "u64 \<Rightarrow> u64 \<Rightarrow> 'k Process \<Rightarrow> u64 option" where
  "find_slash string cursor p = do {
     c \<leftarrow> ld_byte cursor p;
     if c \<noteq> 0x2f \<and> cursor > string then find_slash string (cursor - 1) p else Some cursor
   }"

definition basename :: "u64 \<Rightarrow> 'k Process \<Rightarrow> u64 option" where
  "basename string p = do {
     cursor \<leftarrow> find_terminator string p;
     cursor \<leftarrow> find_slash string cursor p;
     Some (if cursor \<noteq> string then cursor + 1 else cursor)
   }"

section \<open>Auxiliary vectors\<close>

abbreviation AT_PHDR :: u64 where "AT_PHDR \<equiv> 3"
abbreviation AT_PHENT :: u64 where "AT_PHENT \<equiv> 4"
abbreviation AT_PHNUM :: u64 where "AT_PHNUM \<equiv> 5"
abbreviation AT_BASE :: u64 where "AT_BASE \<equiv> 7"
abbreviation AT_ENTRY :: u64 where "AT_ENTRY \<equiv> 9"
abbreviation AT_EXECFN :: u64 where "AT_EXECFN \<equiv> 31"

text \<open>\<open>do cursor2++; while (cursor2[0] != 0);\<close>\<close>

partial_function (option) skip_words :: "u64 \<Rightarrow> 'k Process \<Rightarrow> u64 option" where
  "skip_words cursor2 p = do {
     let cursor2 = cursor2 + 8;
     w \<leftarrow> ld_word cursor2 p;
     if w \<noteq> 0 then skip_words cursor2 p else Some cursor2
   }"

text \<open>The word \<open>i\<close> of the statement at \<open>stmt\<close>, of which the action is word 0.\<close>

definition field :: "u64 \<Rightarrow> nat \<Rightarrow> 'k Process \<Rightarrow> u64 option" where
  "field stmt i p = ld_word (stmt + 8 * of_nat i) p"

definition adjust_auxv :: "u64 \<Rightarrow> u64 \<Rightarrow> u64 \<Rightarrow> u64 \<Rightarrow> 'k Process \<Rightarrow> 'k Process option" where
  "adjust_auxv stmt at_base at_execfn cursor2 p = do {
     type \<leftarrow> ld_word cursor2 p;
     if type = AT_PHDR then do { v \<leftarrow> field stmt 3 p; st_bytes (cursor2 + 8) (le_bytes v) p }
     else if type = AT_PHENT then do { v \<leftarrow> field stmt 4 p; st_bytes (cursor2 + 8) (le_bytes v) p }
     else if type = AT_PHNUM then do { v \<leftarrow> field stmt 5 p; st_bytes (cursor2 + 8) (le_bytes v) p }
     else if type = AT_ENTRY then do { v \<leftarrow> field stmt 6 p; st_bytes (cursor2 + 8) (le_bytes v) p }
     else if type = AT_BASE then st_bytes (cursor2 + 8) (le_bytes at_base) p
     else if type = AT_EXECFN then st_bytes (cursor2 + 8) (le_bytes at_execfn) p
     else Some p
   }"

partial_function (option) adjust_loop ::
    "u64 \<Rightarrow> u64 \<Rightarrow> u64 \<Rightarrow> u64 \<Rightarrow> 'k Process \<Rightarrow> 'k Process option" where
  "adjust_loop stmt at_base at_execfn cursor2 p = do {
     p \<leftarrow> adjust_auxv stmt at_base at_execfn cursor2 p;
     let cursor2 = cursor2 + 16;
     type \<leftarrow> ld_word cursor2 p;
     if type \<noteq> AT_NULL then adjust_loop stmt at_base at_execfn cursor2 p else Some p
   }"

section \<open>Statements\<close>

abbreviation PR_SET_NAME :: u64 where "PR_SET_NAME \<equiv> 15"
abbreviation PROT_GROWSDOWN :: u64 where "PROT_GROWSDOWN \<equiv> 0x01000000"

definition failed :: "u64 \<Rightarrow> bool" where
  "failed status \<longleftrightarrow> c_int (uint status) < 0"

definition fatal :: "'k svc \<Rightarrow> 'k Process \<Rightarrow> 'k outcome" where
  "fatal svc p = FATAL (snd (svc EXIT [182] p))"

definition start_program ::
    "'k svc \<Rightarrow> u64 \<Rightarrow> bool \<Rightarrow> u64 \<Rightarrow> u64 \<Rightarrow> 'k Process \<Rightarrow> 'k outcome option" where
  "start_program svc stmt traced at_base fd p = do {
     sp \<leftarrow> field stmt 1 p;
     argc \<leftarrow> ld_word sp p;
     at_execfn \<leftarrow> ld_word (sp + 8) p;
     let (status, p) = svc CLOSE [fd] p;
     if failed status then Some (fatal svc p)
     else do {
       cursor2 \<leftarrow> skip_words (sp + 8 * (argc + 1)) p;
       p \<leftarrow> adjust_loop stmt at_base at_execfn (cursor2 + 8) p;
       execfn \<leftarrow> field stmt 7 p;
       name \<leftarrow> basename execfn p;
       let (status, p) = svc PRCTL [PR_SET_NAME, name, 0] p;
       sp \<leftarrow> field stmt 1 p;
       entry_point \<leftarrow> field stmt 2 p;
       Some (if traced then NOTIFY [1, sp, entry_point, 2, 3, 4] p else BRANCH sp entry_point 0 p)
     }
   }"

definition open_file :: "'k svc \<Rightarrow> u64 \<Rightarrow> 'k Process \<Rightarrow> (u64 \<times> 'k Process) option" where
  "open_file svc stmt p = do {
     string_address \<leftarrow> field stmt 1 p;
     Some (svc OPENAT [of_int AT_FDCWD, string_address, 0, 0] p)
   }"

definition clear_tail :: "u64 \<Rightarrow> 'k Process \<Rightarrow> 'k Process option" where
  "clear_tail stmt p = do {
     clear_length \<leftarrow> field stmt 5 p;
     if clear_length = 0 then Some p
     else do {
       addr \<leftarrow> field stmt 1 p;
       len \<leftarrow> field stmt 2 p;
       clear (addr + len - clear_length) (addr + len) p
     }
   }"

text \<open>The call of \<open>mmap\<close>, and whether it gave the address of the statement.\<close>

definition map_pages ::
    "'k svc \<Rightarrow> u64 \<Rightarrow> u64 \<Rightarrow> u64 \<Rightarrow> u64 \<Rightarrow> 'k Process \<Rightarrow> (bool \<times> 'k Process) option" where
  "map_pages svc stmt flags fd offset p = do {
     addr \<leftarrow> field stmt 1 p;
     len \<leftarrow> field stmt 2 p;
     prot \<leftarrow> field stmt 3 p;
     let (status, p) = svc MMAP [addr, len, prot, flags, fd, offset] p;
     addr \<leftarrow> field stmt 1 p;
     Some (status = addr, p)
   }"

text \<open>
  The locals of \<open>_start\<close>, one turn of its loop, which ends the program or goes on, and the loop.
\<close>

record Locals =
  l_cursor :: u64
  l_reset_at_base :: bool
  l_at_base :: u64
  l_fd :: u64

definition open_statement ::
    "'k svc \<Rightarrow> Locals \<Rightarrow> 'k Process \<Rightarrow> ('k outcome + Locals \<times> 'k Process) option" where
  "open_statement svc l p = do {
     (fd, p) \<leftarrow> open_file svc (l_cursor l) p;
     Some (if failed fd then Inl (fatal svc p)
           else Inr (l\<lparr>l_cursor := l_cursor l + size_open, l_reset_at_base := True, l_fd := fd\<rparr>, p))
   }"

definition step_statement ::
    "'k svc \<Rightarrow> Locals \<Rightarrow> 'k Process \<Rightarrow> ('k outcome + Locals \<times> 'k Process) option" where
  "step_statement svc l p = do {
     let stmt = l_cursor l;
     action \<leftarrow> field stmt 0 p;
     if action = 0 then do {
       let (status, p) = svc CLOSE [l_fd l] p;
       if failed status then Some (Inl (fatal svc p)) else open_statement svc l p
     }
     else if action = 1 then open_statement svc l p
     else if action = 2 then do {
       offset \<leftarrow> field stmt 4 p;
       (mapped, p) \<leftarrow> map_pages svc stmt (MAP_PRIVATE OR MAP_FIXED) (l_fd l) offset p;
       if \<not> mapped then Some (Inl (fatal svc p))
       else do {
         p \<leftarrow> clear_tail stmt p;
         addr \<leftarrow> field stmt 1 p;
         Some (Inr ((if l_reset_at_base l then l\<lparr>l_at_base := addr, l_reset_at_base := False\<rparr> else l)
                      \<lparr>l_cursor := stmt + size_mmap\<rparr>, p))
       }
     }
     else if action = 3 then do {
       (mapped, p) \<leftarrow> map_pages svc stmt (MAP_PRIVATE OR MAP_FIXED OR MAP_ANONYMOUS) (- 1) 0 p;
       Some (if \<not> mapped then Inl (fatal svc p) else Inr (l\<lparr>l_cursor := stmt + size_mmap\<rparr>, p))
     }
     else if action = 4 then do {
       start \<leftarrow> field stmt 1 p;
       let (status, p) = svc MPROTECT [start, 1, PROT_READ OR PROT_WRITE OR PROT_EXEC OR PROT_GROWSDOWN] p;
       Some (Inr (l\<lparr>l_cursor := stmt + size_make_stack_exec\<rparr>, p))
     }
     else if action = 5 then map_option Inl (start_program svc stmt True (l_at_base l) (l_fd l) p)
     else if action = 6 then map_option Inl (start_program svc stmt False (l_at_base l) (l_fd l) p)
     else Some (Inl (fatal svc p))
   }"

partial_function (option) start_loop :: "'k svc \<Rightarrow> Locals \<Rightarrow> 'k Process \<Rightarrow> 'k outcome option" where
  "start_loop svc l p =
     (case step_statement svc l p of
        None \<Rightarrow> None
      | Some r \<Rightarrow> (case r of Inl outcome \<Rightarrow> Some outcome | Inr s \<Rightarrow> start_loop svc (fst s) (snd s)))"

definition start :: "'k svc \<Rightarrow> u64 \<Rightarrow> 'k Process \<Rightarrow> 'k outcome option" where
  "start svc cursor p =
     start_loop svc \<lparr>l_cursor = cursor, l_reset_at_base = True, l_at_base = 0, l_fd = - 1\<rparr> p"

section \<open>Memory of the process\<close>

definition put :: "u64 \<Rightarrow> byte list \<Rightarrow> 'k Process \<Rightarrow> 'k Process" where
  "put a bs p = p\<lparr>pr_mem := put_bytes (pr_mem p) a bs\<rparr>"

lemma put_simps [simp]:
  "pr_mem (put a bs p) = put_bytes (pr_mem p) a bs" "pr_writable (put a bs p) = pr_writable p"
  "pr_kern (put a bs p) = pr_kern p"
  by (simp_all add: put_def)

lemma st_bytes_put: "within (stores p) a (length bs) \<Longrightarrow> st_bytes a bs p = Some (put a bs p)"
  by (simp add: st_bytes_def put_def)

lemma put_append: "put a (xs @ ys) p = put (a + of_nat (length xs)) ys (put a xs p)"
  by (simp add: put_def put_bytes_append)

lemma put_Nil [simp]: "put a [] p = p"
  by (simp add: put_def)

lemma stores_put: "stores p x \<Longrightarrow> stores (put a bs p) x"
  using put_bytes_mapped [of "pr_mem p" x a bs] by (auto simp: stores_def)

lemma within_stores_put: "within (stores p) x n \<Longrightarrow> within (stores (put a bs p)) x n"
  by (erule within_imp) (rule stores_put)

section \<open>Clearing\<close>

lemma less_unat: "(a :: u64) < b \<longleftrightarrow> unat a < unat b"
  by (simp add: word_less_nat_alt)

lemma unat_add_small: "unat (a :: u64) + n < 2 ^ 64 \<Longrightarrow> unat (a + of_nat n) = unat a + n"
  by (simp add: unat_plus_nowrap unat_of_nat_u64)

lemma clear_bytes_spec:
  "unat s + n < 2 ^ 64 \<Longrightarrow> within (stores p) s n \<Longrightarrow>
   clear_bytes s (s + of_nat n) p = Some (put s (replicate n 0) p)"
proof (induction n arbitrary: s p)
  case 0
  then show ?case by (subst clear_bytes.simps) simp
next
  case (Suc n)
  have s1: "unat (s + 1) = unat s + 1" using unat_add_small [of s 1] Suc.prems(1) by simp
  have lt: "s < s + of_nat (Suc n)" using unat_add_small [OF Suc.prems(1)] by (simp add: less_unat)
  have w: "within (stores p) s 1" "within (stores p) (s + 1) n"
    using Suc.prems(2) within_add [of "stores p" s 1 n] by simp_all
  have "clear_bytes (s + 1) (s + 1 + of_nat n) (put s [0] p) =
      Some (put (s + 1) (replicate n 0) (put s [0] p))"
    by (rule Suc.IH) (use Suc.prems(1) s1 w(2) in \<open>simp_all add: within_stores_put\<close>)
  moreover have "s + of_nat (Suc n) = s + 1 + of_nat n" by simp
  moreover have "put s (replicate (Suc n) 0) p = put (s + 1) (replicate n 0) (put s [0] p)"
    using put_append [of s "[0]" "replicate n 0" p] by simp
  moreover have "st_bytes s [0] p = Some (put s [0] p)" using w(1) by (simp add: st_bytes_put)
  ultimately show ?case
    using lt by (subst clear_bytes.simps) (simp only: if_True Option.bind.simps)
qed

lemma clear_words_spec:
  "unat s + 8 * n < 2 ^ 64 \<Longrightarrow> within (stores p) s (8 * n) \<Longrightarrow>
   clear_words s (s + of_nat (8 * n)) p = Some (put s (replicate (8 * n) 0) p)"
proof (induction n arbitrary: s p)
  case 0
  then show ?case by (subst clear_words.simps) simp
next
  case (Suc n)
  have s8: "unat (s + 8) = unat s + 8" using unat_add_small [of s 8] Suc.prems(1) by simp
  have lt: "s < s + of_nat (8 * Suc n)" using unat_add_small [OF Suc.prems(1)] by (simp add: less_unat)
  have w: "within (stores p) s 8" "within (stores p) (s + 8) (8 * n)"
    using Suc.prems(2) within_add [of "stores p" s 8 "8 * n"] by simp_all
  have z: "le_bytes 0 = replicate 8 0" by (simp add: le_bytes_def numeral_eq_Suc)
  have "clear_words (s + 8) (s + 8 + of_nat (8 * n)) (put s (replicate 8 0) p) =
      Some (put (s + 8) (replicate (8 * n) 0) (put s (replicate 8 0) p))"
    by (rule Suc.IH) (use Suc.prems(1) s8 w(2) in \<open>simp_all add: within_stores_put\<close>)
  moreover have "s + of_nat (8 * Suc n) = s + 8 + of_nat (8 * n)" by simp
  moreover have "replicate (8 * Suc n) (0 :: byte) = replicate 8 0 @ replicate (8 * n) 0"
    by (simp add: replicate_add [symmetric])
  then have "put s (replicate (8 * Suc n) 0) p = put (s + 8) (replicate (8 * n) 0) (put s (replicate 8 0) p)"
    using put_append [of s "replicate 8 0" "replicate (8 * n) 0" p] by (simp only: length_replicate of_nat_numeral)
  moreover have "st_bytes s (le_bytes 0) p = Some (put s (replicate 8 0) p)" using w(1) by (simp add: st_bytes_put z)
  ultimately show ?case
    using lt by (subst clear_words.simps) (simp only: if_True Option.bind.simps)
qed

lemma word_mod_unat: "unat ((a :: u64) mod 8) = unat a mod 8"
  by (simp add: unat_mod)

lemma mod8_0: "unat a mod 8 = 0 \<Longrightarrow> (a :: u64) mod 8 = 0"
  using word_mod_unat [of a] by (metis unsigned_eq_0_iff)

lemma put_zeros: "n < 2 ^ 64 \<Longrightarrow> put_bytes m s (replicate n 0) x = (if unat (x - s) < n then Some 0 else m x)"
proof (cases "unat (x - s) < n")
  case True
  assume n: "n < 2 ^ 64"
  have "put_bytes m s (replicate n 0) (s + of_nat (unat (x - s))) = Some (replicate n 0 ! unat (x - s))"
    by (rule put_bytes_at) (use True n in simp_all)
  then show ?thesis using True by simp
next
  case False
  assume n: "n < 2 ^ 64"
  have "put_bytes m s (replicate n 0) x = m x"
  proof (rule put_bytes_other, intro allI impI notI)
    fix i assume i: "i < length (replicate n 0)" and x: "x = s + of_nat i"
    then have "unat (x - s) = i" using n by (simp add: unat_of_nat_u64)
    then show False using False i by simp
  qed
  then show ?thesis using False by simp
qed

text \<open>A range that is not inside of one word.\<close>

definition apart_words :: "u64 \<Rightarrow> nat \<Rightarrow> bool" where
  "apart_words s n \<longleftrightarrow> unat s mod 8 = 0 \<or> unat s div 8 < (unat s + n) div 8"

lemma word_remainder: "s mod 8 = of_nat (unat s mod 8)" for s :: u64
  using word_arith_nat_mod [of s 8] by simp

lemma clear_aligned:
  "clear s e p = do {
     p \<leftarrow> clear_bytes s (if unat s mod 8 \<noteq> 0 then s + of_nat (8 - unat s mod 8) else s) p;
     p \<leftarrow> clear_words (if unat s mod 8 \<noteq> 0 then s + of_nat (8 - unat s mod 8) else s) (e - of_nat (unat e mod 8)) p;
     clear_bytes (e - of_nat (unat e mod 8)) e p
   }"
proof -
  have "s mod 8 = 0 \<longleftrightarrow> unat s mod 8 = 0" using word_mod_unat [of s] by (metis mod8_0 unsigned_0)
  then have "(if s mod 8 \<noteq> 0 then s + 8 - s mod 8 else s) = (if unat s mod 8 \<noteq> 0 then s + of_nat (8 - unat s mod 8) else s)"
    by (simp add: word_remainder of_nat_diff)
  then show ?thesis by (simp only: clear_def Let_def word_remainder [of e])
qed

lemma clear_nothing: "\<not> s < e \<Longrightarrow> clear_bytes s e p = Some p" "\<not> s < e \<Longrightarrow> clear_words s e p = Some p"
  by (subst clear_bytes.simps clear_words.simps; simp)+

lemma split_range:
  assumes "s div 8 < (s + n) div 8"
  shows "n = (8 - s mod 8) + 8 * ((s + n) div 8 - s div 8 - 1) + (s + n) mod (8 :: nat)"
proof -
  define d r q t where "d = s div 8" "r = s mod 8" "q = (s + n) div 8" "t = (s + n) mod 8"
  note defs = this
  have "s = 8 * d + r" "s + n = 8 * q + t" "r < 8" "d < q" using assms by (simp_all add: defs)
  then have "n = (8 - r) + 8 * (q - d - 1) + t" by linarith
  then show ?thesis by (simp only: defs)
qed

lemma clear_apart:
  assumes b: "unat s + n < 2 ^ 64" and a: "apart_words s n" and w: "within (stores p) s n"
  shows "clear s (s + of_nat n) p = Some (put s (replicate n 0) p)"
proof -
  let ?e = "s + of_nat n"
  define k where "k = (if unat s mod 8 = 0 then 0 else 8 - unat s mod 8)"
  define t where "t = (unat s + n) mod 8"
  define m where "m = (n - k - t) div 8"
  have ue: "unat ?e = unat s + n" using b by (rule unat_add_small)
  have n: "n = k + 8 * m + t"
  proof -
    have "\<exists>m. n = k + 8 * m + t"
    proof (cases "unat s mod 8 = 0")
      case True
      have "unat s + n = 8 * ((unat s + n) div 8) + t" "unat s = 8 * (unat s div 8)"
        using True mult_div_mod_eq [of 8 "unat s"] unfolding t_def by (simp, linarith)
      moreover have "unat s div 8 \<le> (unat s + n) div 8" by (rule div_le_mono) simp
      ultimately show ?thesis
        using True by (intro exI [of _ "(unat s + n) div 8 - unat s div 8"]) (simp add: k_def diff_mult_distrib2)
    next
      case False
      then have "unat s div 8 < (unat s + n) div 8" using a by (simp add: apart_words_def)
      from split_range [OF this] have "n = k + 8 * ((unat s + n) div 8 - unat s div 8 - 1) + t" by (simp only: k_def t_def False if_False)
      then show ?thesis by blast
    qed
    then show ?thesis unfolding m_def by auto
  qed
  have sa: "(if unat s mod 8 \<noteq> 0 then s + of_nat (8 - unat s mod 8) else s) = s + of_nat k"
    by (simp add: k_def)
  have ea: "?e - of_nat (unat ?e mod 8) = s + of_nat k + of_nat (8 * m)"
    unfolding ue t_def [symmetric] by (simp add: n)
  have e: "?e = s + of_nat k + of_nat (8 * m) + of_nat t" by (simp add: n)
  have w3: "within (stores p) s k" "within (stores p) (s + of_nat k) (8 * m)"
    "within (stores p) (s + of_nat k + of_nat (8 * m)) t"
    using w unfolding n within_add by (simp_all add: add.assoc)
  have u: "unat (s + of_nat k) = unat s + k" "unat (s + of_nat k + of_nat (8 * m)) = unat s + k + 8 * m"
  proof -
    show k: "unat (s + of_nat k) = unat s + k" by (rule unat_add_small) (use b n in simp)
    show "unat (s + of_nat k + of_nat (8 * m)) = unat s + k + 8 * m"
      unfolding k [symmetric] by (rule unat_add_small) (use b n k in simp)
  qed
  have c1: "clear_bytes s (s + of_nat k) p = Some (put s (replicate k 0) p)"
    by (rule clear_bytes_spec) (use b n w3 in simp_all)
  have c2: "clear_words (s + of_nat k) (s + of_nat k + of_nat (8 * m)) (put s (replicate k 0) p) =
      Some (put (s + of_nat k) (replicate (8 * m) 0) (put s (replicate k 0) p))"
    by (rule clear_words_spec) (use b n w3 u in \<open>simp_all add: within_stores_put\<close>)
  have c3: "clear_bytes (s + of_nat k + of_nat (8 * m)) ?e q =
      Some (put (s + of_nat k + of_nat (8 * m)) (replicate t 0) q)"
    if "within (stores q) (s + of_nat k + of_nat (8 * m)) t" for q :: "'a Process"
    unfolding e by (rule clear_bytes_spec) (use b n u that in simp_all)
  have "put s (replicate n 0) p = put (s + of_nat k + of_nat (8 * m)) (replicate t 0)
      (put (s + of_nat k) (replicate (8 * m) 0) (put s (replicate k 0) p))"
    unfolding n replicate_add put_append by (simp add: add.assoc)
  then show ?thesis
    using c1 c2 c3 w3 unfolding clear_aligned sa ea by (simp add: within_stores_put)
qed

lemma clear_spec:
  assumes b: "unat s + n < 2 ^ 64" "(unat s + n) mod 8 = 0" and w: "within (stores p) s n"
  shows "clear s (s + of_nat n) p = Some (put s (replicate n 0) p)"
proof (rule clear_apart [OF b(1) _ w])
  have "unat s div 8 \<le> (unat s + n) div 8" by (rule div_le_mono) simp
  moreover have "unat s div 8 = (unat s + n) div 8 \<Longrightarrow> unat s mod 8 = 0"
    using b(2) by (metis add_leD1 le_add1 add.right_neutral div_mult_mod_eq le_less_linear linorder_not_less
      mod_less_eq_dividend nat_add_left_cancel_le le_zero_eq)
  ultimately show "apart_words s n" unfolding apart_words_def by linarith
qed

lemma clear_one_word:
  assumes "unat s div 8 = (unat s + n) div 8" "unat s mod 8 \<noteq> 0" "unat s + 8 < 2 ^ 64"
    "within (stores p) (of_nat (8 * (unat s div 8))) 8"
  shows "clear s (s + of_nat n) p = Some (put (of_nat (8 * (unat s div 8))) (replicate 8 0) p)"
proof -
  define d where "d = unat s div 8"
  define r where "r = unat s mod 8"
  define t where "t = (unat s + n) mod 8"
  let ?w = "of_nat (8 * d) :: u64" and ?e = "s + of_nat n"
  have s: "unat s = 8 * d + r" "0 < r" "r < 8" using assms(2) by (simp_all add: d_def r_def)
  have e: "unat s + n = 8 * d + t" using assms(1) by (metis d_def t_def mult_div_mod_eq)
  have t: "t < 8" "r \<le> t" using s e by (simp_all add: t_def)
  have sw: "s = ?w + of_nat r" using arg_cong [OF s(1), of "of_nat :: nat \<Rightarrow> u64"] by simp
  have small: "8 * d + 8 < 2 ^ 64" using s assms(3) by simp
  have uw: "unat (?w + of_nat j) = 8 * d + j" if "j \<le> 8" for j
    using that small by (simp add: unat_of_nat_u64 flip: of_nat_add of_nat_mult)
  have ew: "?e = ?w + of_nat t" using e s(1) by (simp add: sw algebra_simps flip: of_nat_add)
  have ue: "unat ?e mod 8 = t" using uw [of t] t by (simp only: ew) simp
  have sa: "(if unat s mod 8 \<noteq> 0 then s + of_nat (8 - unat s mod 8) else s) = ?w + of_nat 8"
    using s assms(2) by (simp add: r_def [symmetric] sw of_nat_diff)
  have ea: "?e - of_nat (unat ?e mod 8) = ?w" by (simp only: ue) (simp add: ew)
  have w: "within (stores p) (?w + of_nat i) j" if "i + j \<le> 8" for i j
  proof -
    have "within (stores p) ?w (i + j)" using assms(4) that by (simp add: d_def within_mono)
    then show ?thesis by (simp only: within_add)
  qed
  have c1: "clear_bytes s (?w + of_nat 8) p = Some (put s (replicate (8 - r) 0) p)"
  proof -
    have "?w + of_nat 8 = s + of_nat (8 - r)" using s by (simp add: sw of_nat_diff)
    moreover have "clear_bytes s (s + of_nat (8 - r)) p = Some (put s (replicate (8 - r) 0) p)"
      by (rule clear_bytes_spec) (use w [of r "8 - r", folded sw] s small in simp_all)
    ultimately show ?thesis by (simp only:)
  qed
  have c2: "clear_words (?w + of_nat 8) ?w q = Some q" for q :: "'a Process"
    by (rule clear_nothing) (use uw [of 8] uw [of 0] in \<open>simp add: less_unat\<close>)
  have c3: "clear_bytes ?w ?e q = Some (put ?w (replicate t 0) q)" if "within (stores q) ?w t" for q :: "'a Process"
    unfolding ew by (rule clear_bytes_spec) (use uw [of 0] t small that in simp_all)
  have "put ?w (replicate t 0) (put s (replicate (8 - r) 0) p) = put ?w (replicate 8 0) p"
  proof -
    have "(if unat (x - ?w) < t then Some 0 else if unat (x - s) < 8 - r then Some 0 else pr_mem p x) =
        (if unat (x - ?w) < 8 then Some 0 else pr_mem p x)" for x
    proof -
      have x: "x - s = x - ?w - of_nat r" by (simp add: sw)
      have r: "unat (of_nat r :: u64) = r" using s by (simp add: unat_of_nat_u64)
      show ?thesis
      proof (cases "r \<le> unat (x - ?w)")
        case True
        then have "unat (x - s) = unat (x - ?w) - r" unfolding x using r by (subst unat_sub) (simp_all add: word_le_nat_alt)
        then show ?thesis using True t s by auto
      next
        case False
        then have "unat (x - s) = 2 ^ 64 + unat (x - ?w) - r"
          unfolding x using r by (subst unat_diff_wrap) (simp_all add: word_less_nat_alt)
        then show ?thesis using False t s by auto
      qed
    qed
    then have "put_bytes (put_bytes (pr_mem p) s (replicate (8 - r) 0)) ?w (replicate t 0) =
        put_bytes (pr_mem p) ?w (replicate 8 0)"
    proof (intro ext)
      fix x
      assume eq: "\<And>x. (if unat (x - ?w) < t then Some 0 else if unat (x - s) < 8 - r then Some 0 else pr_mem p x) =
        (if unat (x - ?w) < 8 then Some 0 else pr_mem p x)"
      have z: "t < 2 ^ 64" "8 - r < 2 ^ 64" "8 < (2 :: nat) ^ 64" using t by simp_all
      show "put_bytes (put_bytes (pr_mem p) s (replicate (8 - r) 0)) ?w (replicate t 0) x =
          put_bytes (pr_mem p) ?w (replicate 8 0) x"
        unfolding put_zeros [OF z(1)] put_zeros [OF z(2)] put_zeros [OF z(3)] by (rule eq)
    qed
    then show ?thesis by (simp add: put_def)
  qed
  then show ?thesis
    using c1 c2 c3 w [of 0 t] t unfolding clear_aligned sa ea d_def [symmetric]
    by (simp add: within_stores_put)
qed

text \<open>
  C37: \<open>clear\<close> ends without a fault.  It zeroes the bytes of its range and no others, unless the
  range lies inside of one word and does not start with it: then it zeroes the whole word, with
  the bytes before and behind the range (for an empty range too).
\<close>

theorem clear_zeroes:
  assumes small: "unat s + n + 8 < 2 ^ 64"
    and w: "within (stores p) (of_nat (8 * (unat s div 8))) (unat s mod 8 + n + 8)"
  shows "clear s (s + of_nat n) p = Some
    (if unat s mod 8 = 0 \<or> unat s div 8 < (unat s + n) div 8 then put s (replicate n 0) p
     else put (of_nat (8 * (unat s div 8))) (replicate 8 0) p)"
proof -
  have "of_nat (8 * (unat s div 8)) + of_nat (unat s mod 8) = (of_nat (unat s) :: u64)"
    unfolding of_nat_add [symmetric] by (simp only: mult_div_mod_eq)
  then have sw: "s = of_nat (8 * (unat s div 8)) + of_nat (unat s mod 8)" by simp
  show ?thesis
  proof (cases "apart_words s n")
    case True
    have "within (stores p) (of_nat (8 * (unat s div 8))) (unat s mod 8 + n)" using w by (rule within_mono) simp
    then have "within (stores p) s n" unfolding within_add using sw by simp
    then show ?thesis using clear_apart [OF _ True] small True by (simp add: apart_words_def)
  next
    case False
    have "within (stores p) (of_nat (8 * (unat s div 8))) 8" using w by (rule within_mono) simp
    moreover have "unat s div 8 \<le> (unat s + n) div 8" by (rule div_le_mono) simp
    ultimately show ?thesis using clear_one_word [of s n p] small False by (simp add: apart_words_def)
  qed
qed

definition word_process :: "unit Process" where
  "word_process = \<lparr>pr_mem = (\<lambda>_. Some 7), pr_writable = (\<lambda>_. True), pr_kern = ()\<rparr>"

theorem clear_zeroes_witness: "clear 0x5001 0x5003 word_process = Some (put 0x5000 (replicate 8 0) word_process)"
  using clear_zeroes [of "0x5001" 2 word_process]
  by (simp add: within_iff stores_def word_process_def)

section \<open>Words of memory\<close>

definition holds :: "'k Process \<Rightarrow> u64 \<Rightarrow> u64 list \<Rightarrow> bool" where
  "holds p a ws \<longleftrightarrow> (\<forall>i < length ws. ld_word (a + 8 * of_nat i) p = Some (ws ! i))"

lemma holds_field: "holds p a ws \<Longrightarrow> i < length ws \<Longrightarrow> field a i p = Some (ws ! i)"
  by (simp add: holds_def field_def)

lemma holds_append: "holds p a (xs @ ys) \<longleftrightarrow> holds p a xs \<and> holds p (a + 8 * of_nat (length xs)) ys"
  using all_less_add [of "length xs" "length ys" "\<lambda>i. ld_word (a + 8 * of_nat i) p = Some ((xs @ ys) ! i)"]
  by (simp add: holds_def nth_append algebra_simps)

lemma holds_Cons: "holds p a (w # ws) \<longleftrightarrow> ld_word a p = Some w \<and> holds p (a + 8) ws"
  using holds_append [of p a "[w]" ws] by (simp add: holds_def)

text \<open>The bytes two processes have in common.\<close>

definition same :: "'k Process \<Rightarrow> 'k Process \<Rightarrow> u64 \<Rightarrow> nat \<Rightarrow> bool" where
  "same p p' a n \<longleftrightarrow> (\<forall>i < n. pr_mem p' (a + of_nat i) = pr_mem p (a + of_nat i))"

lemma same_add: "same p p' a (m + n) \<longleftrightarrow> same p p' a m \<and> same p p' (a + of_nat m) n"
  using all_less_add [of m n "\<lambda>i. pr_mem p' (a + of_nat i) = pr_mem p (a + of_nat i)"]
  by (simp add: same_def add.assoc)

lemma ld_word_same: "same p p' a 8 \<Longrightarrow> ld_word a p' = ld_word a p"
proof -
  assume s: "same p p' a 8"
  then have "bytes_at (pr_mem p') a 8 = bytes_at (pr_mem p) a 8"
    by (auto simp: bytes_at_def same_def)
  moreover have "within (\<lambda>x. pr_mem p' x \<noteq> None) a 8 = within (\<lambda>x. pr_mem p x \<noteq> None) a 8"
    using s by (simp add: within_iff same_def)
  ultimately show ?thesis by (simp add: ld_word_def)
qed

lemma holds_same: "holds p a ws \<Longrightarrow> same p p' a (8 * length ws) \<Longrightarrow> holds p' a ws"
proof (induction ws arbitrary: a)
  case (Cons w ws)
  have "same p p' a (8 + 8 * length ws)" using Cons.prems(2) by simp
  then have "same p p' a 8" "same p p' (a + 8) (8 * length ws)" unfolding same_add by simp_all
  then show ?case using Cons by (simp add: holds_Cons ld_word_same)
qed (simp add: holds_def)

section \<open>System calls\<close>

text \<open>
  What the manual pages promise of the calls of the loader, as far as it relies on it: the file
  descriptors that are open with the bytes of their files (none behind the last page of a file),
  the strings that name a file, and fixed mappings of whole pages.
\<close>

type_synonym 'k files = "'k \<Rightarrow> u64 \<Rightarrow> space option"

definition string_at :: "'k Process \<Rightarrow> u64 \<Rightarrow> string \<Rightarrow> bool" where
  "string_at p a s \<longleftrightarrow> (\<forall>i \<le> length s. pr_mem p (a + of_nat i) = Some ((bytes_of_string s @ [0]) ! i))"

definition keeps_memory :: "'k Process \<Rightarrow> 'k Process \<Rightarrow> bool" where
  "keeps_memory p p' \<longleftrightarrow> pr_mem p' = pr_mem p \<and> (\<forall>x. pr_writable p x \<longrightarrow> pr_writable p' x)"

definition whole_pages :: "u64 \<Rightarrow> u64 \<Rightarrow> bool" where
  "whole_pages addr len \<longleftrightarrow> unat addr mod 4096 = 0 \<and> unat len mod 4096 = 0 \<and> 0 < len \<and>
     unat addr + unat len < 2 ^ 47"

definition mapped_over ::
    "space \<Rightarrow> u64 \<Rightarrow> u64 \<Rightarrow> u64 \<Rightarrow> 'k Process \<Rightarrow> 'k Process \<Rightarrow> bool" where
  "mapped_over content addr len prot p p' \<longleftrightarrow>
     pr_mem p' = (\<lambda>x. if x - addr < len then content (x - addr) else pr_mem p x) \<and>
     pr_writable p' = (\<lambda>x. if x - addr < len then prot AND PROT_WRITE \<noteq> 0 else pr_writable p x)"

definition svc_ok :: "'k svc \<Rightarrow> 'k files \<Rightarrow> (string \<Rightarrow> space option) \<Rightarrow> bool" where
  "svc_ok svc files disk \<longleftrightarrow>
     (\<forall>fd p c st p'. files (pr_kern p) fd = Some c \<longrightarrow> svc CLOSE [fd] p = (st, p') \<longrightarrow>
        \<not> failed st \<and> keeps_memory p p' \<and> files (pr_kern p') = (files (pr_kern p))(fd := None)) \<and>
     (\<forall>s path c p fd p'. string_at p s path \<longrightarrow> disk path = Some c \<longrightarrow>
        svc OPENAT [of_int AT_FDCWD, s, 0, 0] p = (fd, p') \<longrightarrow>
        \<not> failed fd \<and> keeps_memory p p' \<and> files (pr_kern p') = (files (pr_kern p))(fd \<mapsto> c)) \<and>
     (\<forall>addr len prot fd off c p st p'. files (pr_kern p) fd = Some c \<longrightarrow> whole_pages addr len \<longrightarrow>
        unat off mod 4096 = 0 \<longrightarrow>
        svc MMAP [addr, len, prot, MAP_PRIVATE OR MAP_FIXED, fd, off] p = (st, p') \<longrightarrow>
        st = addr \<and> files (pr_kern p') = files (pr_kern p) \<and>
        mapped_over (\<lambda>i. c (off + i)) addr len prot p p') \<and>
     (\<forall>addr len prot p st p'. whole_pages addr len \<longrightarrow>
        svc MMAP [addr, len, prot, MAP_PRIVATE OR MAP_FIXED OR MAP_ANONYMOUS, - 1, 0] p = (st, p') \<longrightarrow>
        st = addr \<and> files (pr_kern p') = files (pr_kern p) \<and> mapped_over (\<lambda>i. Some 0) addr len prot p p') \<and>
     (\<forall>args p st p'. svc MPROTECT args p = (st, p') \<longrightarrow>
        keeps_memory p p' \<and> files (pr_kern p') = files (pr_kern p)) \<and>
     (\<forall>name p st p'. svc PRCTL [PR_SET_NAME, name, 0] p = (st, p') \<longrightarrow>
        keeps_memory p p' \<and> files (pr_kern p') = files (pr_kern p))"

lemma svc_okD:
  assumes "svc_ok svc files disk"
  shows "files (pr_kern p) fd = Some c \<Longrightarrow> svc CLOSE [fd] p = (st, p') \<Longrightarrow>
      \<not> failed st \<and> keeps_memory p p' \<and> files (pr_kern p') = (files (pr_kern p))(fd := None)"
    and "string_at p s path \<Longrightarrow> disk path = Some c \<Longrightarrow> svc OPENAT [of_int AT_FDCWD, s, 0, 0] p = (fd, p') \<Longrightarrow>
      \<not> failed fd \<and> keeps_memory p p' \<and> files (pr_kern p') = (files (pr_kern p))(fd \<mapsto> c)"
    and "files (pr_kern p) fd = Some c \<Longrightarrow> whole_pages addr len \<Longrightarrow> unat off mod 4096 = 0 \<Longrightarrow>
      svc MMAP [addr, len, prot, MAP_PRIVATE OR MAP_FIXED, fd, off] p = (st, p') \<Longrightarrow>
      st = addr \<and> files (pr_kern p') = files (pr_kern p) \<and> mapped_over (\<lambda>i. c (off + i)) addr len prot p p'"
    and "whole_pages addr len \<Longrightarrow>
      svc MMAP [addr, len, prot, MAP_PRIVATE OR MAP_FIXED OR MAP_ANONYMOUS, - 1, 0] p = (st, p') \<Longrightarrow>
      st = addr \<and> files (pr_kern p') = files (pr_kern p) \<and> mapped_over (\<lambda>i. Some 0) addr len prot p p'"
    and "svc MPROTECT args p = (st, p') \<Longrightarrow> keeps_memory p p' \<and> files (pr_kern p') = files (pr_kern p)"
    and "svc PRCTL [PR_SET_NAME, name, 0] p = (st, p') \<Longrightarrow>
      keeps_memory p p' \<and> files (pr_kern p') = files (pr_kern p)"
  using assms unfolding svc_ok_def by metis+

section \<open>Mapping statements\<close>

definition covers :: "Mapping \<Rightarrow> u64 \<Rightarrow> bool" where
  "covers m x \<longleftrightarrow> x - m_addr m < m_length m"

text \<open>A mapping the kernel can make: of whole pages, all of them in the file, and what is cleared writable.\<close>

definition mapping_ok :: "space \<Rightarrow> Mapping \<Rightarrow> bool" where
  "mapping_ok c m \<longleftrightarrow> whole_pages (m_addr m) (m_length m) \<and>
     (m_flags m AND MAP_ANONYMOUS = 0 \<longrightarrow>
        unat (m_offset m) mod 4096 = 0 \<and> (\<forall>i < m_length m. c (m_offset m + i) \<noteq> None) \<and>
        m_clear_length m \<le> m_length m \<and> (m_clear_length m \<noteq> 0 \<longrightarrow> m_prot m AND PROT_WRITE \<noteq> 0))"

abbreviation content :: "space \<Rightarrow> u64 \<Rightarrow> byte" where
  "content c \<equiv> (\<lambda>a. the (c a))"

definition loaded :: "space \<Rightarrow> Mapping list \<Rightarrow> 'k Process \<Rightarrow> 'k Process \<Rightarrow> bool" where
  "loaded c ms p p' \<longleftrightarrow> pr_mem p' = pr_mem p ++ memory_image (content c) ms \<and>
     (\<forall>x. (\<forall>m \<in> set ms. \<not> covers m x) \<longrightarrow> pr_writable p x \<longrightarrow> pr_writable p' x)"

lemma outside_same:
  assumes "mapped_over g addr len prot p p'" "\<forall>i < n. \<not> a + of_nat i - addr < len"
  shows "same p p' a n"
  using assms by (simp add: mapped_over_def same_def)

lemma covers_unat: "covers m (m_addr m + i) \<longleftrightarrow> i < m_length m"
  by (simp add: covers_def)

lemma clear_mapping:
  assumes ok: "whole_pages (m_addr m) (m_length m)" "m_clear_length m \<le> m_length m"
    and w: "m_clear_length m \<noteq> 0 \<longrightarrow> (\<forall>i < m_length m. stores p (m_addr m + i))"
    and f: "field stmt 1 p = Some (m_addr m)" "field stmt 2 p = Some (m_length m)"
      "field stmt 5 p = Some (m_clear_length m)"
  shows "clear_tail stmt p = Some (put (m_addr m + m_length m - m_clear_length m)
    (replicate (unat (m_clear_length m)) 0) p)"
proof (cases "m_clear_length m = 0")
  case True
  then show ?thesis using f by (simp add: clear_tail_def)
next
  case False
  let ?s = "m_addr m + m_length m - m_clear_length m" and ?n = "unat (m_clear_length m)"
  have le: "?n \<le> unat (m_length m)" using ok(2) by (simp add: word_le_nat_alt)
  have lim: "unat (m_addr m) + unat (m_length m) < 2 ^ 64" using ok(1) by (simp add: whole_pages_def)
  have us: "unat ?s = unat (m_addr m) + unat (m_length m) - ?n"
    using lim le by (simp add: unat_diff word_le_nat_alt unat_plus_nowrap)
  have "(unat (m_addr m) + unat (m_length m)) mod 4096 = 0" using ok(1) by (auto simp: whole_pages_def)
  then have al: "(unat (m_addr m) + unat (m_length m)) mod 8 = 0"
    using mod_mod_cancel [of 8 4096 "unat (m_addr m) + unat (m_length m)"] by simp
  have "within (stores p) ?s ?n"
    unfolding within_iff
  proof (intro allI impI)
    fix i assume i: "i < ?n"
    have "unat (m_length m - m_clear_length m + of_nat i) = unat (m_length m) - ?n + i"
      using i le lim ok(2) by (subst unat_add_small) (simp_all add: unat_diff)
    then have "m_length m - m_clear_length m + of_nat i < m_length m" using i le by (simp add: less_unat)
    then have "stores p (m_addr m + (m_length m - m_clear_length m + of_nat i))" using w False by blast
    then show "stores p (?s + of_nat i)" by (simp add: algebra_simps)
  qed
  then have "clear ?s (?s + of_nat ?n) p = Some (put ?s (replicate ?n 0) p)"
    using us le lim al by (intro clear_spec) simp_all
  then show ?thesis using False f by (simp add: clear_tail_def)
qed

lemma mapped_put:
  assumes ok: "mapping_ok c m" "m_flags m AND MAP_ANONYMOUS = 0"
    and over: "mapped_over (\<lambda>i. c (m_offset m + i)) (m_addr m) (m_length m) prot p p1"
  shows "put_bytes (pr_mem p1) (m_addr m + m_length m - m_clear_length m)
      (replicate (unat (m_clear_length m)) 0) = pr_mem p ++ mapped_byte (content c) m"
proof
  fix x
  let ?n = "unat (m_clear_length m)" and ?i = "x - m_addr m" and ?L = "m_length m"
  have le: "m_clear_length m \<le> ?L" and c: "\<forall>i < ?L. c (m_offset m + i) \<noteq> None"
    using ok by (simp_all add: mapping_ok_def)
  have d: "x - (m_addr m + ?L - m_clear_length m) = ?i - (?L - m_clear_length m)" by simp
  have n: "?n < 2 ^ 64" using unsigned_less [of "m_clear_length m", where 'a = nat] by simp
  have iff: "unat (?i - (?L - m_clear_length m)) < ?n \<longleftrightarrow> ?i < ?L \<and> ?L - m_clear_length m \<le> ?i"
  proof (cases "?L - m_clear_length m \<le> ?i")
    case True
    then have "unat (?i - (?L - m_clear_length m)) = unat ?i - (unat ?L - ?n)" using le by (simp add: unat_diff)
    moreover have "?n \<le> unat ?L" "unat ?L - ?n \<le> unat ?i" using le True by (simp_all add: word_le_nat_alt unat_diff)
    ultimately show ?thesis using True by (simp add: less_unat) linarith
  next
    case False
    then have l: "?i < ?L - m_clear_length m" by simp
    have "unat (?i - (?L - m_clear_length m)) = 2 ^ 64 + unat ?i - (unat ?L - ?n)"
      using unat_diff_wrap [OF l] le by (simp add: unat_diff)
    moreover have "unat ?L < 2 ^ 64" using unsigned_less [of ?L, where 'a = nat] by simp
    moreover have "?n \<le> unat ?L" using le by (simp add: word_le_nat_alt)
    ultimately have "\<not> unat (?i - (?L - m_clear_length m)) < ?n" by linarith
    then show ?thesis using False by simp
  qed
  show "put_bytes (pr_mem p1) (m_addr m + ?L - m_clear_length m) (replicate ?n 0) x =
      (pr_mem p ++ mapped_byte (content c) m) x"
    unfolding put_zeros [OF n] d iff
    using over c ok(2) by (auto simp: mapped_over_def mapped_byte_def map_add_def)
qed

definition statement_of :: "Mapping \<Rightarrow> LoadStatement" where
  "statement_of m = (if m_flags m AND MAP_ANONYMOUS \<noteq> 0
     then LOAD_ACTION_MMAP_ANON (m_addr m) (m_length m) (m_prot m) (m_offset m) (m_clear_length m)
     else LOAD_ACTION_MMAP_FILE (m_addr m) (m_length m) (m_prot m) (m_offset m) (m_clear_length m))"

lemma transcript_statements: "transcript_mappings ms = map statement_of ms"
  by (simp add: transcript_mappings_def statement_of_def)

definition after_mapping :: "Mapping \<Rightarrow> Locals \<Rightarrow> Locals" where
  "after_mapping m l = (if l_reset_at_base l \<and> m_flags m AND MAP_ANONYMOUS = 0
     then l\<lparr>l_at_base := m_addr m, l_reset_at_base := False\<rparr> else l)\<lparr>l_cursor := l_cursor l + size_mmap\<rparr>"

lemma step_mapping:
  assumes K: "svc_ok svc files disk" and fd: "files (pr_kern p) (l_fd l) = Some c"
    and ok: "mapping_ok c m" and h: "holds p (l_cursor l) (words_of (statement_of m))"
    and out: "\<forall>i < 48. \<not> covers m (l_cursor l + of_nat i)"
  shows "\<exists>p'. step_statement svc l p = Some (Inr (after_mapping m l, p')) \<and> loaded c [m] p p' \<and>
    files (pr_kern p') = files (pr_kern p)"
proof (cases "m_flags m AND MAP_ANONYMOUS = 0")
  case True
  let ?stmt = "l_cursor l"
  have ws: "words_of (statement_of m) = [2, m_addr m, m_length m, m_prot m, m_offset m, m_clear_length m]"
    using True by (simp add: statement_of_def)
  have f: "field ?stmt 0 q = Some 2" "field ?stmt 1 q = Some (m_addr m)" "field ?stmt 2 q = Some (m_length m)"
    "field ?stmt 3 q = Some (m_prot m)" "field ?stmt 4 q = Some (m_offset m)"
    "field ?stmt 5 q = Some (m_clear_length m)" if "same p q ?stmt 48" for q :: "'a Process"
    using holds_same [OF h, of q] that holds_field [of q ?stmt "words_of (statement_of m)"] unfolding ws by force+
  have self: "same p p ?stmt 48" by (simp add: same_def)
  obtain st p1 where s: "svc MMAP [m_addr m, m_length m, m_prot m, MAP_PRIVATE OR MAP_FIXED, l_fd l, m_offset m] p = (st, p1)"
    by fastforce
  have w: "whole_pages (m_addr m) (m_length m)" "unat (m_offset m) mod 4096 = 0"
    using ok True by (simp_all add: mapping_ok_def)
  have s1: "st = m_addr m" "files (pr_kern p1) = files (pr_kern p)"
    and over: "mapped_over (\<lambda>i. c (m_offset m + i)) (m_addr m) (m_length m) (m_prot m) p p1"
    using svc_okD(3) [OF K fd w s] by simp_all
  have same1: "same p p1 ?stmt 48" using outside_same [OF over] out by (simp add: covers_def)
  have mp: "map_pages svc ?stmt (MAP_PRIVATE OR MAP_FIXED) (l_fd l) (m_offset m) p = Some (True, p1)"
    using f [OF self] f(2) [OF same1] s s1(1) by (simp add: map_pages_def)
  let ?p' = "put (m_addr m + m_length m - m_clear_length m) (replicate (unat (m_clear_length m)) 0) p1"
  have ct: "clear_tail ?stmt p1 = Some ?p'"
    by (rule clear_mapping [OF w(1) _ _ f(2,3,6) [OF same1]])
      (use ok True over in \<open>auto simp: mapping_ok_def stores_def mapped_over_def\<close>)
  have mem: "pr_mem ?p' = pr_mem p ++ mapped_byte (content c) m"
    using mapped_put [OF ok True over] by simp
  have same2: "same p ?p' ?stmt 48"
    unfolding same_def mem using out by (simp add: map_add_def mapped_byte_def covers_def)
  have "step_statement svc l p = Some (Inr (after_mapping m l, ?p'))"
    using f [OF self] mp ct f(2) [OF same2] True
    by (simp add: step_statement_def after_mapping_def)
  moreover have "loaded c [m] p ?p'"
    using mem over by (simp add: loaded_def mapped_over_def covers_def)
  ultimately show ?thesis using s1(2) by auto
next
  case False
  let ?stmt = "l_cursor l"
  have ws: "words_of (statement_of m) = [3, m_addr m, m_length m, m_prot m, m_offset m, m_clear_length m]"
    using False by (simp add: statement_of_def)
  have f: "field ?stmt 0 q = Some 3" "field ?stmt 1 q = Some (m_addr m)" "field ?stmt 2 q = Some (m_length m)"
    "field ?stmt 3 q = Some (m_prot m)" if "same p q ?stmt 48" for q :: "'a Process"
    using holds_same [OF h, of q] that holds_field [of q ?stmt "words_of (statement_of m)"] unfolding ws by force+
  have self: "same p p ?stmt 48" by (simp add: same_def)
  obtain st p1 where s: "svc MMAP [m_addr m, m_length m, m_prot m, MAP_PRIVATE OR MAP_FIXED OR MAP_ANONYMOUS, - 1, 0] p = (st, p1)"
    by fastforce
  have w: "whole_pages (m_addr m) (m_length m)" using ok by (simp add: mapping_ok_def)
  have s1: "st = m_addr m" "files (pr_kern p1) = files (pr_kern p)"
    and over: "mapped_over (\<lambda>i. Some 0) (m_addr m) (m_length m) (m_prot m) p p1"
    using svc_okD(4) [OF K w s] by simp_all
  have same1: "same p p1 ?stmt 48" using outside_same [OF over] out by (simp add: covers_def)
  have mp: "map_pages svc ?stmt (MAP_PRIVATE OR MAP_FIXED OR MAP_ANONYMOUS) (- 1) 0 p = Some (True, p1)"
    using f [OF self] f(2) [OF same1] s s1(1) by (simp add: map_pages_def)
  have "step_statement svc l p = Some (Inr (after_mapping m l, p1))"
    using f [OF self] mp False by (simp add: step_statement_def after_mapping_def)
  moreover have "pr_mem p1 = pr_mem p ++ mapped_byte (content c) m"
    using over False by (auto simp: mapped_over_def mapped_byte_def map_add_def fun_eq_iff)
  then have "loaded c [m] p p1" using over by (simp add: loaded_def mapped_over_def covers_def)
  ultimately show ?thesis using s1(2) by blast
qed

lemma after_mapping_simps [simp]:
  "l_cursor (after_mapping m l) = l_cursor l + size_mmap" "l_fd (after_mapping m l) = l_fd l"
  by (simp_all add: after_mapping_def)

lemma loaded_trans: "loaded c xs p p1 \<Longrightarrow> loaded c ys p1 p2 \<Longrightarrow> loaded c (xs @ ys) p p2"
  by (auto simp: loaded_def image_append)

lemma image_uncovered: "\<forall>m \<in> set ms. \<not> covers m x \<Longrightarrow> memory_image b ms x = None"
  by (induction ms) (auto simp: mapped_byte_def covers_def map_add_None)

lemma loaded_same: "loaded c ms p p' \<Longrightarrow> \<forall>m \<in> set ms. \<forall>i < n. \<not> covers m (a + of_nat i) \<Longrightarrow> same p p' a n"
  by (auto simp: loaded_def same_def map_add_def image_uncovered split: option.splits)

lemma start_loop_Inr: "step_statement svc l p = Some (Inr (l', p')) \<Longrightarrow> start_loop svc l p = start_loop svc l' p'"
  by (subst start_loop.simps) simp

lemma start_loop_Inl: "step_statement svc l p = Some (Inl r) \<Longrightarrow> start_loop svc l p = Some r"
  by (subst start_loop.simps) simp

text \<open>The bytes a script takes.\<close>

definition script_bytes :: "LoadStatement list \<Rightarrow> nat" where
  "script_bytes stmts = 8 * length (concat (map words_of stmts))"

definition script_at :: "'k Process \<Rightarrow> u64 \<Rightarrow> LoadStatement list \<Rightarrow> bool" where
  "script_at p a stmts \<longleftrightarrow> holds p a (concat (map words_of stmts))"

lemma script_at_Cons: "script_at p a (s # stmts) \<longleftrightarrow>
   holds p a (words_of s) \<and> script_at p (a + 8 * of_nat (length (words_of s))) stmts"
  by (simp add: script_at_def holds_append)

lemma length_statement_of [simp]: "length (words_of (statement_of m)) = 6"
  by (simp add: statement_of_def)

lemma script_bytes_Cons: "script_bytes (s # stmts) = 8 * length (words_of s) + script_bytes stmts"
  by (simp add: script_bytes_def)

definition base_after :: "Mapping list \<Rightarrow> Locals \<Rightarrow> Locals" where
  "base_after ms l = fold after_mapping ms l"

lemma run_mappings:
  assumes K: "svc_ok svc files disk"
  shows "files (pr_kern p) (l_fd l) = Some c \<Longrightarrow> \<forall>m \<in> set ms. mapping_ok c m \<Longrightarrow>
     script_at p (l_cursor l) (map statement_of ms @ rest) \<Longrightarrow>
     \<forall>m \<in> set ms. \<forall>i < script_bytes (map statement_of ms @ rest). \<not> covers m (l_cursor l + of_nat i) \<Longrightarrow>
     \<exists>p'. start_loop svc l p = start_loop svc (fold after_mapping ms l) p' \<and> loaded c ms p p' \<and>
       files (pr_kern p') = files (pr_kern p) \<and>
       script_at p' (l_cursor (fold after_mapping ms l)) rest"
proof (induction ms arbitrary: l p)
  case Nil
  then show ?case by (auto simp: loaded_def)
next
  case (Cons m ms)
  let ?stmts = "map statement_of ms @ rest"
  have h: "holds p (l_cursor l) (words_of (statement_of m))" "script_at p (l_cursor l + 48) ?stmts"
    using Cons.prems(3) by (simp_all add: script_at_Cons)
  have sz: "script_bytes (map statement_of (m # ms) @ rest) = 48 + script_bytes ?stmts"
    by (simp add: script_bytes_Cons)
  have out: "\<forall>i < 48. \<not> covers m' (l_cursor l + of_nat i)"
    "\<forall>i < script_bytes ?stmts. \<not> covers m' (l_cursor l + 48 + of_nat i)" if "m' \<in> set (m # ms)" for m'
    using Cons.prems(4) that all_less_add [of 48 "script_bytes ?stmts" "\<lambda>i. \<not> covers m' (l_cursor l + of_nat i)"]
    unfolding sz by (auto simp: add.assoc)
  obtain p1 where p1: "step_statement svc l p = Some (Inr (after_mapping m l, p1))" "loaded c [m] p p1"
    "files (pr_kern p1) = files (pr_kern p)"
    using step_mapping [OF K Cons.prems(1) _ h(1)] Cons.prems(2) out(1) [of m] by auto
  have s: "same p p1 (l_cursor l + 48) (script_bytes ?stmts)"
    by (rule loaded_same [OF p1(2)]) (use out(2) [of m] in simp)
  have "\<exists>p'. start_loop svc (after_mapping m l) p1 = start_loop svc (fold after_mapping ms (after_mapping m l)) p' \<and>
      loaded c ms p1 p' \<and> files (pr_kern p') = files (pr_kern p1) \<and>
      script_at p' (l_cursor (fold after_mapping ms (after_mapping m l))) rest"
  proof (rule Cons.IH)
    show "script_at p1 (l_cursor (after_mapping m l)) ?stmts"
      using holds_same [of p "l_cursor l + 48" "concat (map words_of ?stmts)" p1] h(2) s
      by (simp add: script_at_def script_bytes_def)
  qed (use Cons.prems p1 out in auto)
  then obtain p' where p': "start_loop svc (after_mapping m l) p1 = start_loop svc (fold after_mapping (m # ms) l) p'"
    "loaded c ms p1 p'" "files (pr_kern p') = files (pr_kern p1)"
    "script_at p' (l_cursor (fold after_mapping (m # ms) l)) rest" by auto
  have "loaded c (m # ms) p p'" using loaded_trans [OF p1(2) p'(2)] by simp
  then show ?case using start_loop_Inr [OF p1(1)] p' p1(3) by auto
qed

section \<open>Names of programs\<close>

lemma byte_of_char: "(of_nat (of_char c) :: byte) = of_nat (of_char d) \<longleftrightarrow> c = d"
proof -
  have "(of_char c :: nat) < 256" "(of_char d :: nat) < 256" by (simp_all add: of_char_def)
  then have "unat (of_nat (of_char c) :: byte) = of_char c" "unat (of_nat (of_char d) :: byte) = of_char d"
    by (simp_all add: unat_of_nat)
  then show ?thesis by (metis of_char_eq_iff)
qed

lemma nth_string: "i < length s \<Longrightarrow> (bytes_of_string s @ [0]) ! i = of_nat (of_char (s ! i))"
  by (simp add: bytes_of_string_def nth_append)

lemma string_byte:
  "string_at p a s \<Longrightarrow> i < length s \<Longrightarrow> ld_byte (a + of_nat i) p = Some (of_nat (of_char (s ! i)))"
  "string_at p a s \<Longrightarrow> ld_byte (a + of_nat (length s)) p = Some 0"
  using nth_string [of i s] by (simp_all add: string_at_def ld_byte_def) (simp add: bytes_of_string_def nth_append)

definition c_chars :: "string \<Rightarrow> bool" where
  "c_chars s \<longleftrightarrow> CHR 0x00 \<notin> set s"

lemma char_nonzero:
  assumes "c_chars s" "i < length s"
  shows "(of_nat (of_char (s ! i)) :: byte) \<noteq> 0"
proof -
  have "s ! i \<in> set s" using assms(2) by (rule nth_mem)
  then have "s ! i \<noteq> CHR 0x00" using assms(1) unfolding c_chars_def by metis
  then show ?thesis using byte_of_char [of "s ! i" "CHR 0x00"] by simp
qed

lemma char_slash: "(of_nat (of_char c) :: byte) = 0x2f \<longleftrightarrow> c = CHR ''/''"
  using byte_of_char [of c "CHR ''/''"] by simp

lemma find_terminator_spec:
  assumes s: "string_at p a s" "c_chars s" and i: "i \<le> length s"
  shows "find_terminator (a + of_nat i) p = Some (a + of_nat (length s))"
  using i
proof (induction "length s - i" arbitrary: i)
  case 0
  then show ?case using string_byte(2) [OF s(1)] by (subst find_terminator.simps) simp
next
  case (Suc n)
  then have i: "i < length s" by simp
  have "find_terminator (a + of_nat (Suc i)) p = Some (a + of_nat (length s))"
    by (rule Suc.hyps(1)) (use Suc.hyps(2) i in simp_all)
  then have "find_terminator (a + of_nat i + 1) p = Some (a + of_nat (length s))"
    by (simp only: of_nat_Suc add.commute [of 1] add.assoc)
  then show ?case
    using string_byte(1) [OF s(1) i] char_nonzero [OF s(2) i]
    by (subst find_terminator.simps) (simp only: Option.bind.simps if_True not_False_eq_True simp_thms)
qed

lemma find_slash_down:
  assumes lim: "unat a + k + j < 2 ^ 64"
    and down: "\<forall>i. k < i \<longrightarrow> i \<le> k + j \<longrightarrow> (\<exists>c. ld_byte (a + of_nat i) p = Some c \<and> c \<noteq> 0x2f)"
    and stop: "\<exists>c. ld_byte (a + of_nat k) p = Some c \<and> (c = 0x2f \<or> k = 0)"
  shows "find_slash a (a + of_nat (k + j)) p = Some (a + of_nat k)"
  using lim down
proof (induction j)
  case 0
  then show ?case using stop by (subst find_slash.simps) auto
next
  case (Suc j)
  obtain c where c: "ld_byte (a + of_nat (k + Suc j)) p = Some c" "c \<noteq> 0x2f" 
    using Suc.prems(2) [rule_format, of "k + Suc j"] by auto
  have "a < a + of_nat (k + Suc j)"
    using unat_add_small [of a "k + Suc j"] Suc.prems(1) by (simp add: less_unat)
  moreover have "a + of_nat (k + Suc j) - 1 = a + of_nat (k + j)" by simp
  moreover have "find_slash a (a + of_nat (k + j)) p = Some (a + of_nat k)" using Suc by simp
  ultimately show ?case using c by (subst find_slash.simps) simp
qed

definition basename_index :: "string \<Rightarrow> nat" where
  "basename_index s = (let d = length (dropWhile (\<lambda>c. c \<noteq> CHR ''/'') (rev s)) in if d \<le> 1 then 0 else d)"

lemma basename_run:
  assumes s: "string_at p a s" "c_chars s" and lim: "unat a + length s < 2 ^ 64"
  shows "basename a p = Some (a + of_nat (basename_index s))"
proof -
  define b where "b = rev (takeWhile (\<lambda>c. c \<noteq> CHR ''/'') (rev s))"
  define d where "d = rev (dropWhile (\<lambda>c. c \<noteq> CHR ''/'') (rev s))"
  have sd: "s = d @ b" unfolding b_def d_def by (metis rev_append rev_rev_ident takeWhile_dropWhile_id)
  have b: "CHR ''/'' \<notin> set b" unfolding b_def by (auto dest: set_takeWhileD)
  have d: "d = [] \<or> last d = CHR ''/''"
    using hd_dropWhile [of "\<lambda>c. c \<noteq> CHR ''/''" "rev s"] unfolding d_def
    by (cases "dropWhile (\<lambda>c. c \<noteq> CHR ''/'') (rev s)") simp_all
  define k where "k = length d - 1"
  have kj: "length s = k + (length s - k)" unfolding k_def sd by simp
  have down: "\<exists>c. ld_byte (a + of_nat i) p = Some c \<and> c \<noteq> 0x2f" if i: "k < i" "i \<le> length s" for i
  proof (cases "i < length s")
    case True
    have "d \<noteq> [] \<or> d = []" by simp
    then have "length d \<le> i" using i unfolding k_def by linarith
    then have "s ! i = b ! (i - length d)" "i - length d < length b" using True unfolding sd by (simp_all add: nth_append)
    then have "s ! i \<noteq> CHR ''/''" using b by (metis nth_mem)
    then show ?thesis using string_byte(1) [OF s(1) True] char_slash by auto
  next
    case False
    then show ?thesis using string_byte(2) [OF s(1)] i by simp
  qed
  have stop: "\<exists>c. ld_byte (a + of_nat k) p = Some c \<and> (c = 0x2f \<or> k = 0)"
  proof (cases "d = []")
    case True
    then show ?thesis using string_byte(1) [OF s(1), of 0] string_byte(2) [OF s(1)] by (cases s) (simp_all add: k_def)
  next
    case False
    then have l: "0 < length d" by simp
    then have "k < length s" unfolding k_def sd length_append by linarith
    moreover have "s ! k = CHR ''/''"
      using d False l unfolding k_def sd by (simp add: nth_append last_conv_nth)
    ultimately have "s ! k = CHR ''/''" "k < length s" by simp_all
    then show ?thesis using string_byte(1) [OF s(1), of k] char_slash [of "s ! k"] by auto
  qed
  have "find_slash a (a + of_nat (k + (length s - k))) p = Some (a + of_nat k)"
    by (rule find_slash_down) (use lim kj down stop in auto)
  then have slash: "find_slash a (a + of_nat (length s)) p = Some (a + of_nat k)" using kj by simp
  have "a + of_nat k = a \<longleftrightarrow> k = 0"
  proof
    assume "a + of_nat k = a"
    moreover have "unat (a + of_nat k) = unat a + k" by (rule unat_add_small) (use lim kj in simp)
    ultimately show "k = 0" by simp
  qed simp
  moreover have "basename_index s = (if k = 0 then 0 else k + 1)"
    unfolding basename_index_def k_def d_def Let_def by auto
  ultimately show ?thesis
    using slash find_terminator_spec [OF s, of 0]
    by (simp add: basename_def add.commute add.left_commute)
qed

lemma string_at_put:
  "pr_mem p = put_bytes m a (bytes_of_string s @ [0]) \<Longrightarrow> length s < 2 ^ 64 \<Longrightarrow> string_at p a s"
  unfolding string_at_def
  using put_bytes_at [of _ "bytes_of_string s @ [0]" m a] by (simp add: bytes_of_string_def del: append_Cons)

text \<open>
  The function \<open>basename\<close> gives the address of what follows the last slash of a string, or of the string
  when it has none; it also gives the whole string when the only slash is its first character,
  so that the name of \<open>/init\<close> has its slash.
\<close>

theorem basename_component:
  assumes "string_at p a s" "c_chars s" "unat a + length s < 2 ^ 64"
  shows "(CHR ''/'' \<notin> set s \<longrightarrow> basename a p = Some a) \<and>
    (\<forall>d b. s = d @ ''/'' @ b \<and> CHR ''/'' \<notin> set b \<longrightarrow>
      basename a p = Some (if d = [] then a else a + of_nat (length d) + 1))"
proof -
  have "basename_index s = 0" if "CHR ''/'' \<notin> set s"
  proof -
    have "dropWhile (\<lambda>c. c \<noteq> CHR ''/'') (rev s) = []" using that by auto
    then show ?thesis unfolding basename_index_def by (simp only: list.size Let_def) simp
  qed
  then have "CHR ''/'' \<notin> set s \<longrightarrow> basename a p = Some a" using basename_run [OF assms] by simp
  moreover have "basename_index (d @ ''/'' @ b) = (if d = [] then 0 else length d + 1)" if "CHR ''/'' \<notin> set b" for d b
  proof -
    have "dropWhile (\<lambda>c. c \<noteq> CHR ''/'') (rev b @ CHR ''/'' # rev d) = CHR ''/'' # rev d"
      by (subst dropWhile_append2) (use that in auto)
    then show ?thesis by (simp add: basename_index_def)
  qed
  then have "\<forall>d b. s = d @ ''/'' @ b \<and> CHR ''/'' \<notin> set b \<longrightarrow>
      basename a p = Some (if d = [] then a else a + of_nat (length d) + 1)"
    using basename_run [OF assms] by (auto simp: add.assoc)
  ultimately show ?thesis by blast
qed

definition init_process :: "unit Process" where
  "init_process = \<lparr>pr_mem = put_bytes Map.empty 0x5000 (bytes_of_string ''/init'' @ [0]),
     pr_writable = (\<lambda>_. False), pr_kern = ()\<rparr>"

theorem basename_component_witness: "basename 0x5000 init_process = Some 0x5000"
proof -
  have s: "string_at init_process 0x5000 ''/init''"
    by (rule string_at_put [where m = Map.empty]) (simp_all add: init_process_def)
  show ?thesis
    using basename_component [OF s] by (fastforce simp: c_chars_def)
qed

end
