(* ===== verification/Loader_Run.thy ===== *)
theory Loader_Run
  imports Loader
begin

text \<open>
  A whole run of the loader: the auxiliary vectors it adjusts, the parts of a script it goes
  through, and what is in memory when it jumps into the program.
\<close>

unbundle bit_operations_syntax

section \<open>Stack of the program\<close>

text \<open>A process that differs from another one in a range of bytes only.\<close>

definition only_at :: "'k Process \<Rightarrow> 'k Process \<Rightarrow> u64 \<Rightarrow> nat \<Rightarrow> bool" where
  "only_at p p' a n \<longleftrightarrow> (\<forall>x. n \<le> unat (x - a) \<longrightarrow> pr_mem p' x = pr_mem p x) \<and>
     (\<forall>x. pr_mem p x \<noteq> None \<longrightarrow> pr_mem p' x \<noteq> None) \<and> pr_writable p' = pr_writable p \<and>
     pr_kern p' = pr_kern p"

lemma only_at_refl [simp]: "only_at p p a n"
  by (simp add: only_at_def)

lemma only_at_put: "length bs < 2 ^ 64 \<Longrightarrow> only_at p (put a bs p) a (length bs)"
proof -
  assume n: "length bs < 2 ^ 64"
  have "put_bytes (pr_mem p) a bs x = pr_mem p x" if "length bs \<le> unat (x - a)" for x
  proof (rule put_bytes_other, intro allI impI notI)
    fix i assume i: "i < length bs" "x = a + of_nat i"
    then have "unat (x - a) = i" using n by (simp add: unat_of_nat_u64)
    then show False using that i by simp
  qed
  then show ?thesis using put_bytes_mapped [of "pr_mem p"] by (auto simp: only_at_def)
qed

lemma only_at_within:
  assumes "only_at p p' (a + of_nat k) n" "k + n \<le> m" "m < 2 ^ 64"
  shows "only_at p p' a m"
proof -
  have "n \<le> unat (x - (a + of_nat k))" if "m \<le> unat (x - a)" for x
  proof -
    have "of_nat k \<le> x - a" using that assms(2,3) by (simp add: word_le_nat_alt unat_of_nat_u64)
    then have "unat (x - a - of_nat k) = unat (x - a) - k"
      using assms(2,3) by (simp add: unat_diff unat_of_nat_u64)
    then show ?thesis using that assms(2) by (simp add: diff_diff_eq)
  qed
  then show ?thesis using assms(1) by (auto simp: only_at_def)
qed

lemma only_at_trans: "only_at p p1 a n \<Longrightarrow> only_at p1 p2 a n \<Longrightarrow> only_at p p2 a n"
  by (simp add: only_at_def)

lemma only_at_same: "only_at p p' a n \<Longrightarrow> \<forall>i < m. n \<le> unat (b + of_nat i - a) \<Longrightarrow> same p p' b m"
  by (simp add: only_at_def same_def)

lemma ld_word_put: "within (stores p) a 8 \<Longrightarrow> ld_word a (put a (le_bytes v) p) = Some v"
proof -
  assume "within (stores p) a 8"
  then have "within (\<lambda>x. pr_mem (put a (le_bytes v) p) x \<noteq> None) a 8"
    by (elim within_imp) (use put_bytes_mapped [of "pr_mem p"] in \<open>auto simp: stores_def\<close>)
  moreover have "bytes_at (put_bytes (pr_mem p) a (le_bytes v)) a 8 = le_bytes v"
    using bytes_at_put_bytes [of "le_bytes v" "pr_mem p" a] by simp
  ultimately show ?thesis by (simp add: ld_word_def)
qed

lemma stores_only: "only_at p p' a n \<Longrightarrow> stores p x \<Longrightarrow> stores p' x"
  by (auto simp: only_at_def stores_def)

lemma within_stores_only: "only_at p p' a n \<Longrightarrow> within (stores p) b m \<Longrightarrow> within (stores p') b m"
  by (erule within_imp) (rule stores_only)

text \<open>What an auxiliary vector becomes.\<close>

definition adjusted :: "(u64 \<Rightarrow> u64 option) \<Rightarrow> ElfAuxVector \<Rightarrow> ElfAuxVector" where
  "adjusted known v = (case known (av_type v) of None \<Rightarrow> v | Some x \<Rightarrow> v\<lparr>av_value := x\<rparr>)"

definition known_vectors :: "u64 \<Rightarrow> u64 \<Rightarrow> u64 \<Rightarrow> u64 \<Rightarrow> u64 \<Rightarrow> u64 \<Rightarrow> u64 \<Rightarrow> u64 option" where
  "known_vectors phdr phent phnum entry base execfn =
     [AT_PHDR \<mapsto> phdr, AT_PHENT \<mapsto> phent, AT_PHNUM \<mapsto> phnum, AT_ENTRY \<mapsto> entry, AT_BASE \<mapsto> base,
      AT_EXECFN \<mapsto> execfn]"

lemma adjust_auxv_run:
  assumes f: "field stmt 3 p = Some phdr" "field stmt 4 p = Some phent" "field stmt 5 p = Some phnum"
      "field stmt 6 p = Some entry"
    and t: "ld_word a p = Some (av_type v)" "ld_word (a + 8) p = Some (av_value v)"
    and w: "within (stores p) (a + 8) 8"
  shows "\<exists>p'. adjust_auxv stmt base execfn a p = Some p' \<and> only_at p p' (a + 8) 8 \<and>
    ld_word (a + 8) p' = Some (av_value (adjusted (known_vectors phdr phent phnum entry base execfn) v))"
proof -
  let ?x = "known_vectors phdr phent phnum entry base execfn (av_type v)"
  have "adjust_auxv stmt base execfn a p =
      (case ?x of None \<Rightarrow> Some p | Some x \<Rightarrow> Some (put (a + 8) (le_bytes x) p))"
    using f t w by (simp add: adjust_auxv_def known_vectors_def st_bytes_put)
  then show ?thesis
    using t w ld_word_put [of p "a + 8"] only_at_put [of "le_bytes _" p "a + 8"]
    by (cases ?x) (auto simp: adjusted_def)
qed

lemma adjust_loop_run:
  assumes "vs \<noteq> []" and h: "holds p a (flat vs @ [0])" and nz: "\<forall>v \<in> set vs. av_type v \<noteq> AT_NULL"
    and w: "within (stores p) a (16 * length vs)"
    and stmt: "holds p stmt ws" "7 \<le> length ws" "ws ! 3 = phdr" "ws ! 4 = phent" "ws ! 5 = phnum" "ws ! 6 = entry"
    and out: "\<forall>i < 8 * length ws. 16 * length vs \<le> unat (stmt + of_nat i - a)"
    and lim: "16 * length vs + 8 < 2 ^ 64"
  shows "\<exists>p'. adjust_loop stmt base execfn a p = Some p' \<and> only_at p p' a (16 * length vs) \<and>
    holds p' a (flat (map (adjusted (known_vectors phdr phent phnum entry base execfn)) vs) @ [0])"
  using assms
proof (induction vs arbitrary: a p)
  case (Cons v vs)
  let ?adj = "adjusted (known_vectors phdr phent phnum entry base execfn)"
  have h: "ld_word a p = Some (av_type v)" "ld_word (a + 8) p = Some (av_value v)" "holds p (a + 16) (flat vs @ [0])"
    using Cons.prems(2) by (simp_all add: holds_Cons add.assoc)
  have w: "within (stores p) (a + 8) 8" "within (stores p) (a + 16) (16 * length vs)"
    using Cons.prems(4) within_add [of "stores p" a 16 "16 * length vs"] within_add [of "stores p" a 8 8] by simp_all
  have f: "field stmt 3 p = Some phdr" "field stmt 4 p = Some phent" "field stmt 5 p = Some phnum"
    "field stmt 6 p = Some entry"
    using holds_field [OF Cons.prems(5)] Cons.prems(6-10) by simp_all
  obtain p1 where p1: "adjust_auxv stmt base execfn a p = Some p1" "only_at p p1 (a + 8) 8"
    "ld_word (a + 8) p1 = Some (av_value (?adj v))"
    using adjust_auxv_run [OF f h(1,2) w(1)] by blast
  have big: "only_at p p1 a (16 * length (v # vs))"
  proof (rule only_at_within [where k = 8])
    show "8 + 8 \<le> 16 * length (v # vs)" by simp
  qed (use p1(2) Cons.prems(12) in simp_all)
  have beyond: "8 \<le> unat (a + 16 + of_nat i - (a + 8))" if "i < 16 * length vs + 8" for i
  proof -
    have "a + 16 + of_nat i - (a + 8) = of_nat (8 + i)" by simp
    moreover have "8 + i < 2 ^ 64" using that Cons.prems(12) by simp
    ultimately show ?thesis by (simp only: unat_of_nat_u64 le_add1)
  qed
  have h1: "holds p1 (a + 16) (flat vs @ [0])"
    by (rule holds_same [OF h(3)], rule only_at_same [OF p1(2)]) (use beyond in auto)
  have before: "same p p1 a 8"
  proof (rule only_at_same [OF p1(2)], intro allI impI)
    fix i :: nat assume i: "i < 8"
    have l: "of_nat i < (8 :: u64)" using i by (simp add: less_unat unat_of_nat_u64)
    have "unat (of_nat i - 8 :: u64) = 2 ^ 64 + i - 8" using unat_diff_wrap [OF l] i by (simp add: unat_of_nat_u64)
    then show "8 \<le> unat (a + of_nat i - (a + 8))" by simp
  qed
  have stmt1: "holds p1 stmt ws"
    by (rule holds_same [OF Cons.prems(5)], rule only_at_same [OF big]) (use Cons.prems(11) in simp)
  have ty: "ld_word a p1 = Some (av_type (?adj v))"
    using ld_word_same [OF before] h(1) by (simp add: adjusted_def split: option.split)
  show ?case
  proof (cases vs)
    case Nil
    have "ld_word (a + 16) p1 = Some 0" using h1 Nil by (simp add: holds_Cons)
    then have "adjust_loop stmt base execfn a p = Some p1" using p1(1) by (subst adjust_loop.simps) simp
    then show ?thesis using big ty p1(3) h1 Nil by (auto simp: holds_Cons add.assoc)
  next
    case (Cons v' vs')
    have "ld_word (a + 16) p1 = Some (av_type v')" using h1 Cons by (simp add: holds_Cons)
    moreover have "av_type v' \<noteq> AT_NULL" using Cons.prems(3) Cons by simp
    ultimately have run: "adjust_loop stmt base execfn a p = adjust_loop stmt base execfn (a + 16) p1"
      using p1(1) by (subst adjust_loop.simps) simp
    have "\<exists>p'. adjust_loop stmt base execfn (a + 16) p1 = Some p' \<and>
      only_at p1 p' (a + 16) (16 * length vs) \<and> holds p' (a + 16) (flat (map ?adj vs) @ [0])"
    proof (rule Cons.IH)
      show "\<forall>i < 8 * length ws. 16 * length vs \<le> unat (stmt + of_nat i - (a + 16))"
      proof (intro allI impI)
        fix i assume "i < 8 * length ws"
        then have l: "16 * length vs + 16 \<le> unat (stmt + of_nat i - a)" using Cons.prems(11) by auto
        then have "16 \<le> stmt + of_nat i - a" by (simp add: word_le_nat_alt)
        then have "unat (stmt + of_nat i - a - 16) = unat (stmt + of_nat i - a) - 16" by (simp add: unat_diff)
        then show "16 * length vs \<le> unat (stmt + of_nat i - (a + 16))" using l by (simp add: diff_diff_eq)
      qed
    qed (use Cons Cons.prems h1 w(2) stmt1 within_stores_only [OF p1(2)] in auto)
    then obtain p' where p': "adjust_loop stmt base execfn a p = Some p'"
      "only_at p1 p' (a + 16) (16 * length vs)" "holds p' (a + 16) (flat (map ?adj vs) @ [0])"
      unfolding run by blast
    have o: "only_at p1 p' a (16 * length (v # vs))"
    proof (rule only_at_within [where k = 16])
      show "16 + 16 * length vs \<le> 16 * length (v # vs)" by simp
    qed (use p'(2) Cons.prems(12) in simp_all)
    have "same p1 p' a 16"
    proof (rule only_at_same [OF p'(2)], intro allI impI)
      fix i :: nat assume i: "i < 16"
      have l: "of_nat i < (16 :: u64)" using i by (simp add: less_unat unat_of_nat_u64)
      have "unat (of_nat i - 16 :: u64) = 2 ^ 64 + i - 16" using unat_diff_wrap [OF l] i by (simp add: unat_of_nat_u64)
      then have "16 * length vs \<le> unat (of_nat i - 16 :: u64)" using Cons.prems(12) by simp
      then show "16 * length vs \<le> unat (a + of_nat i - (a + 16))" by simp
    qed
    then have "same p1 p' a 8" "same p1 p' (a + 8) 8" using same_add [of p1 p' a 8 8] by simp_all
    then have "ld_word a p' = Some (av_type (?adj v))" "ld_word (a + 8) p' = Some (av_value (?adj v))"
      using ld_word_same ty p1(3) by metis+
    then show ?thesis using p' o big only_at_trans by (auto simp: holds_Cons add.assoc)
  qed
qed simp

lemma ld_word_mem: "pr_mem p' = pr_mem p \<Longrightarrow> ld_word a p' = ld_word a p"
  by (simp add: ld_word_def)

lemma holds_mem: "pr_mem p' = pr_mem p \<Longrightarrow> holds p' a ws = holds p a ws"
  unfolding holds_def using ld_word_mem [of p' p] by metis

lemma string_at_same: "string_at p a s \<Longrightarrow> same p p' a (Suc (length s)) \<Longrightarrow> string_at p' a s"
  by (simp add: string_at_def same_def less_Suc_eq_le)

lemma stores_kept: "keeps_memory p p' \<Longrightarrow> within (stores p) a n \<Longrightarrow> within (stores p') a n"
  by (erule within_imp) (simp add: keeps_memory_def stores_def)

lemma skip_words_run:
  "holds p (c + 8) (ws @ [0]) \<Longrightarrow> \<forall>w \<in> set ws. w \<noteq> 0 \<Longrightarrow>
   skip_words c p = Some (c + 8 + 8 * of_nat (length ws))"
proof (induction ws arbitrary: c)
  case Nil
  then have "ld_word (c + 8) p = Some 0" by (simp add: holds_Cons)
  then show ?case by (subst skip_words.simps) simp
next
  case (Cons w ws)
  have h: "ld_word (c + 8) p = Some w" "holds p (c + 8 + 8) (ws @ [0])" using Cons.prems(1) by (simp_all add: holds_Cons)
  have "skip_words (c + 8) p = Some (c + 8 + 8 + 8 * of_nat (length ws))"
    by (rule Cons.IH [OF h(2)]) (use Cons.prems(2) in simp)
  moreover have "c + 8 + 8 + 8 * of_nat (length ws) = c + 8 + 8 * of_nat (length (w # ws))" by simp
  ultimately show ?case using h(1) Cons.prems(2) by (subst skip_words.simps) simp
qed

definition stack_words :: "u64 list \<Rightarrow> u64 list \<Rightarrow> ElfAuxVector list \<Rightarrow> u64 list" where
  "stack_words argv envp vs = of_nat (length argv) # argv @ [0] @ envp @ [0] @ flat vs @ [0]"

text \<open>The stack the kernel gives a program, and where its auxiliary vectors are.\<close>

record Stack =
  st_argv :: "u64 list"
  st_envp :: "u64 list"
  st_auxv :: "ElfAuxVector list"

definition auxv_at :: "u64 \<Rightarrow> Stack \<Rightarrow> u64" where
  "auxv_at sp st = sp + 8 * of_nat (length (st_argv st) + length (st_envp st) + 3)"

definition stack_at :: "'k Process \<Rightarrow> u64 \<Rightarrow> Stack \<Rightarrow> bool" where
  "stack_at p sp st \<longleftrightarrow> holds p sp (stack_words (st_argv st) (st_envp st) (st_auxv st)) \<and>
     (\<forall>w \<in> set (st_envp st). w \<noteq> 0) \<and> st_auxv st \<noteq> [] \<and> (\<forall>v \<in> set (st_auxv st). av_type v \<noteq> AT_NULL) \<and>
     within (stores p) (auxv_at sp st) (16 * length (st_auxv st)) \<and>
     unat sp + 8 * length (stack_words (st_argv st) (st_envp st) (st_auxv st)) < 2 ^ 64"

lemma start_program_run:
  fixes st :: Stack
  defines "n \<equiv> 16 * length (st_auxv st)" and "execfn0 \<equiv> hd (st_argv st @ [0])"
  assumes K: "svc_ok svc files disk" and fd: "files (pr_kern p) fd = Some c"
    and stmt: "holds p stmt [action, sp, entry, phdr, phent, phnum, at_entry, execfn]"
    and stack: "stack_at p sp st"
    and s: "string_at p execfn s" "c_chars s" "unat execfn + length s < 2 ^ 64"
    and out: "\<forall>i < 64. n \<le> unat (stmt + of_nat i - auxv_at sp st)"
      "\<forall>i \<le> length s. n \<le> unat (execfn + of_nat i - auxv_at sp st)"
  shows "\<exists>p'. start_program svc stmt traced base fd p =
      Some (if traced then NOTIFY [1, sp, entry, 2, 3, 4] p' else BRANCH sp entry 0 p') \<and>
    (\<forall>x. n \<le> unat (x - auxv_at sp st) \<longrightarrow> pr_mem p' x = pr_mem p x) \<and>
    holds p' (auxv_at sp st)
      (flat (map (adjusted (known_vectors phdr phent phnum at_entry base execfn0)) (st_auxv st)) @ [0])"
proof -
  let ?a = "auxv_at sp st" and ?argc = "length (st_argv st)" and ?ws = "[action, sp, entry, phdr, phent, phnum, at_entry, execfn]"
  have h: "holds p sp (of_nat ?argc # st_argv st @ [0])"
    "holds p (sp + 8 * (of_nat ?argc + 2)) (st_envp st @ [0])" "holds p ?a (flat (st_auxv st) @ [0])"
  proof -
    have split: "stack_words (st_argv st) (st_envp st) (st_auxv st) =
        (of_nat ?argc # st_argv st @ [0]) @ (st_envp st @ [0]) @ flat (st_auxv st) @ [0]"
      by (simp add: stack_words_def)
    have "sp + 8 * of_nat (length (of_nat ?argc # st_argv st @ [0])) = sp + 8 * (of_nat ?argc + 2)"
      by (simp add: algebra_simps)
    moreover have "sp + 8 * of_nat (length (of_nat ?argc # st_argv st @ [0])) + 8 * of_nat (length (st_envp st @ [0])) = ?a"
      by (simp add: auxv_at_def algebra_simps)
    ultimately show "holds p sp (of_nat ?argc # st_argv st @ [0])"
      "holds p (sp + 8 * (of_nat ?argc + 2)) (st_envp st @ [0])" "holds p ?a (flat (st_auxv st) @ [0])"
      using stack unfolding stack_at_def split holds_append [of p _ "_ # _"] holds_append [of p _ "_ @ [0]" "_ @ _"]
      by (simp_all only: simp_thms)
  qed
  have argc: "ld_word sp p = Some (of_nat ?argc)" using h(1) by (simp add: holds_Cons)
  have x0: "ld_word (sp + 8) p = Some execfn0"
    using h(1) unfolding execfn0_def by (cases "st_argv st") (simp_all add: holds_Cons)
  obtain status p1 where c1: "svc CLOSE [fd] p = (status, p1)" by fastforce
  have p1: "\<not> failed status" "keeps_memory p p1" using svc_okD(1) [OF K fd c1] by simp_all
  then have m1: "pr_mem p1 = pr_mem p" by (simp add: keeps_memory_def)
  have skip: "skip_words (sp + 8 * (of_nat ?argc + 1)) p1 = Some (?a - 8)"
  proof -
    have "holds p1 (sp + 8 * (of_nat ?argc + 1) + 8) (st_envp st @ [0])"
      using h(2) by (simp add: holds_mem [OF m1] algebra_simps)
    from skip_words_run [OF this] show ?thesis
      using stack by (simp add: stack_at_def auxv_at_def algebra_simps)
  qed
  have "\<exists>p'. adjust_loop stmt base execfn0 ?a p1 = Some p' \<and> only_at p1 p' ?a (16 * length (st_auxv st)) \<and>
    holds p' ?a (flat (map (adjusted (known_vectors phdr phent phnum at_entry base execfn0)) (st_auxv st)) @ [0])"
  proof (rule adjust_loop_run [where ws = ?ws])
    show "within (stores p1) ?a (16 * length (st_auxv st))"
      by (rule stores_kept [OF p1(2)]) (use stack in \<open>simp add: stack_at_def\<close>)
    show "16 * length (st_auxv st) + 8 < 2 ^ 64"
      using stack by (simp add: stack_at_def stack_words_def)
  qed (use stack h(3) stmt out(1) in \<open>simp_all add: stack_at_def holds_mem [OF m1] n_def\<close>)
  then obtain p2 where p2: "adjust_loop stmt base execfn0 ?a p1 = Some p2" "only_at p1 p2 ?a n"
    "holds p2 ?a (flat (map (adjusted (known_vectors phdr phent phnum at_entry base execfn0)) (st_auxv st)) @ [0])"
    unfolding n_def by blast
  have stmt2: "holds p2 stmt ?ws"
    by (rule holds_same [of p1], rule stmt [folded holds_mem [OF m1]], rule only_at_same [OF p2(2)])
      (use out(1) in simp)
  have "string_at p1 execfn s" using s(1) m1 by (simp add: string_at_def)
  then have "string_at p2 execfn s"
    by (rule string_at_same, intro only_at_same [OF p2(2)]) (use out(2) in \<open>simp add: less_Suc_eq_le\<close>)
  then obtain name where name: "basename execfn p2 = Some name" using basename_run s(2,3) by blast
  obtain status3 p3 where c3: "svc PRCTL [PR_SET_NAME, name, 0] p2 = (status3, p3)" by fastforce
  have m3: "pr_mem p3 = pr_mem p2" using svc_okD(6) [OF K c3] by (simp add: keeps_memory_def)
  have f: "field stmt 1 p = Some sp" "field stmt 7 p2 = Some execfn" "field stmt 1 p3 = Some sp"
    "field stmt 2 p3 = Some entry"
    using holds_field [OF stmt] holds_field [OF stmt2] holds_field [OF stmt2 [folded holds_mem [OF m3]]] by simp_all
  have "start_program svc stmt traced base fd p =
      Some (if traced then NOTIFY [1, sp, entry, 2, 3, 4] p3 else BRANCH sp entry 0 p3)"
    using f argc x0 c1 p1(1) skip p2(1) name c3 by (simp add: start_program_def)
  moreover have "\<forall>x. n \<le> unat (x - ?a) \<longrightarrow> pr_mem p3 x = pr_mem p x"
    using p2(2) m1 m3 by (simp add: only_at_def)
  ultimately show ?thesis using p2(3) holds_mem [OF m3] by blast
qed

section \<open>A whole script\<close>

lemma step_open:
  assumes K: "svc_ok svc files disk" and h: "holds p (l_cursor l) (words_of (LOAD_ACTION_OPEN s))"
    and s: "string_at p s path" "disk path = Some c"
  shows "\<exists>fd p'. step_statement svc l p =
      Some (Inr (l\<lparr>l_cursor := l_cursor l + size_open, l_reset_at_base := True, l_fd := fd\<rparr>, p')) \<and>
    keeps_memory p p' \<and> files (pr_kern p') fd = Some c"
proof -
  obtain fd p' where o: "svc OPENAT [of_int AT_FDCWD, s, 0, 0] p = (fd, p')" by fastforce
  have f: "field (l_cursor l) 0 p = Some 1" "field (l_cursor l) 1 p = Some s" using holds_field [OF h] by simp_all
  show ?thesis
    using svc_okD(2) [OF K s o] f o by (auto simp: step_statement_def open_statement_def open_file_def)
qed

lemma keeps_trans: "keeps_memory p p1 \<Longrightarrow> keeps_memory p1 p2 \<Longrightarrow> keeps_memory p p2"
  by (simp add: keeps_memory_def)

lemma step_open_next:
  assumes K: "svc_ok svc files disk" and h: "holds p (l_cursor l) (words_of (LOAD_ACTION_OPEN_NEXT s))"
    and s: "string_at p s path" "disk path = Some c" and fd: "files (pr_kern p) (l_fd l) = Some c0"
  shows "\<exists>fd p'. step_statement svc l p =
      Some (Inr (l\<lparr>l_cursor := l_cursor l + size_open, l_reset_at_base := True, l_fd := fd\<rparr>, p')) \<and>
    keeps_memory p p' \<and> files (pr_kern p') fd = Some c"
proof -
  obtain st p1 where c: "svc CLOSE [l_fd l] p = (st, p1)" by fastforce
  have p1: "\<not> failed st" "keeps_memory p p1" using svc_okD(1) [OF K fd c] by simp_all
  then have m: "pr_mem p1 = pr_mem p" by (simp add: keeps_memory_def)
  have s1: "string_at p1 s path" using s(1) m by (simp add: string_at_def)
  obtain fd p' where o: "svc OPENAT [of_int AT_FDCWD, s, 0, 0] p1 = (fd, p')" by fastforce
  have f: "field (l_cursor l) 0 p = Some 0" "field (l_cursor l) 1 p1 = Some s"
    using holds_field [OF h] holds_field [OF h [folded holds_mem [OF m]]] by simp_all
  show ?thesis
    using svc_okD(2) [OF K s1 s(2) o] f o c p1 keeps_trans [OF p1(2)]
    by (auto simp: step_statement_def open_statement_def open_file_def)
qed

lemma step_stack_exec:
  assumes K: "svc_ok svc files disk" and h: "holds p (l_cursor l) (words_of (LOAD_ACTION_MAKE_STACK_EXEC s))"
  shows "\<exists>p'. step_statement svc l p = Some (Inr (l\<lparr>l_cursor := l_cursor l + size_make_stack_exec\<rparr>, p')) \<and>
    keeps_memory p p' \<and> files (pr_kern p') = files (pr_kern p)"
proof -
  obtain st p1 where c: "svc MPROTECT [s, 1, PROT_READ OR PROT_WRITE OR PROT_EXEC OR PROT_GROWSDOWN] p = (st, p1)"
    by fastforce
  have f: "field (l_cursor l) 0 p = Some 4" "field (l_cursor l) 1 p = Some s" using holds_field [OF h] by simp_all
  show ?thesis using svc_okD(5) [OF K c] f c by (auto simp: step_statement_def)
qed

lemma fold_after_mapping [simp]:
  "l_cursor (fold after_mapping ms l) = l_cursor l + size_mmap * of_nat (length ms)"
  "l_fd (fold after_mapping ms l) = l_fd l"
  by (induction ms arbitrary: l) (simp_all add: algebra_simps)

lemma base_kept: "\<not> l_reset_at_base l \<Longrightarrow> l_at_base (fold after_mapping ms l) = l_at_base l"
proof (induction ms arbitrary: l)
  case (Cons m ms)
  have "\<not> l_reset_at_base (after_mapping m l)" "l_at_base (after_mapping m l) = l_at_base l"
    using Cons.prems by (simp_all add: after_mapping_def)
  then show ?case using Cons.IH by simp
qed simp

lemma base_first:
  assumes "l_reset_at_base l" "m_flags m AND MAP_ANONYMOUS = 0"
  shows "l_at_base (fold after_mapping (m # ms) l) = m_addr m"
proof -
  have "\<not> l_reset_at_base (after_mapping m l)" "l_at_base (after_mapping m l) = m_addr m"
    using assms by (simp_all add: after_mapping_def)
  then show ?thesis using base_kept by simp
qed

definition first_file :: "Mapping list \<Rightarrow> bool" where
  "first_file ms \<longleftrightarrow> ms \<noteq> [] \<and> m_flags (hd ms) AND MAP_ANONYMOUS = 0"

lemma base_first_file: "first_file ms \<Longrightarrow> l_reset_at_base l \<Longrightarrow> l_at_base (fold after_mapping ms l) = m_addr (hd ms)"
  using base_first by (cases ms) (auto simp: first_file_def)

text \<open>
  A program as its file, the string that names it, and its mappings; the addresses from the
  script to the end of the stack are spared by the mappings.
\<close>

record Part =
  pt_path :: string
  pt_file :: space
  pt_mappings :: "Mapping list"

definition spares :: "Mapping list \<Rightarrow> u64 \<Rightarrow> nat \<Rightarrow> bool" where
  "spares ms a n \<longleftrightarrow> (\<forall>m \<in> set ms. \<forall>i < n. \<not> covers m (a + of_nat i))"

lemma sparesD: "spares ms a n \<Longrightarrow> k + j \<le> n \<Longrightarrow> spares ms (a + of_nat k) j"
proof (unfold spares_def, intro ballI allI impI)
  fix m i assume h: "\<forall>m \<in> set ms. \<forall>i < n. \<not> covers m (a + of_nat i)" "k + j \<le> n" "m \<in> set ms" "i < j"
  then have "k + i < n" by simp
  then have "\<not> covers m (a + of_nat (k + i))" using h(1,3) by blast
  then show "\<not> covers m (a + of_nat k + of_nat i)" by (simp add: add.assoc)
qed

lemma loaded_spares: "loaded c ms p p' \<Longrightarrow> spares ms a n \<Longrightarrow> same p p' a n"
  by (rule loaded_same) (auto simp: spares_def)

definition part_ok :: "(string \<Rightarrow> space option) \<Rightarrow> u64 \<Rightarrow> nat \<Rightarrow> Part \<Rightarrow> bool" where
  "part_ok disk a n pt \<longleftrightarrow> disk (pt_path pt) = Some (pt_file pt) \<and> first_file (pt_mappings pt) \<and>
     (\<forall>m \<in> set (pt_mappings pt). mapping_ok (pt_file pt) m) \<and> spares (pt_mappings pt) a n"

definition part_image :: "Part \<Rightarrow> space" where
  "part_image pt = memory_image (content (pt_file pt)) (pt_mappings pt)"

text \<open>Opening a file and mapping its segments.\<close>

lemma run_part:
  assumes K: "svc_ok svc files disk" and ok: "part_ok disk a n pt"
    and first: "action = LOAD_ACTION_OPEN s \<or>
      action = LOAD_ACTION_OPEN_NEXT s \<and> (\<exists>c0. files (pr_kern p) (l_fd l) = Some c0)"
    and s: "string_at p s (pt_path pt)"
    and script: "script_at p (l_cursor l) (action # map statement_of (pt_mappings pt) @ rest)"
    and inside: "l_cursor l = a + of_nat k" "k + script_bytes (action # map statement_of (pt_mappings pt) @ rest) \<le> n"
  shows "\<exists>l' p'. start_loop svc l p = start_loop svc l' p' \<and>
    l_cursor l' = l_cursor l + 16 + 48 * of_nat (length (pt_mappings pt)) \<and>
    l_at_base l' = m_addr (hd (pt_mappings pt)) \<and>
    files (pr_kern p') (l_fd l') = Some (pt_file pt) \<and> pr_mem p' = pr_mem p ++ part_image pt \<and>
    same p p' a n \<and> (\<forall>x. (\<forall>m \<in> set (pt_mappings pt). \<not> covers m x) \<longrightarrow> stores p x \<longrightarrow> stores p' x)"
proof -
  let ?ms = "pt_mappings pt"
  have len: "length (words_of action) = 2" using first by auto
  have h: "holds p (l_cursor l) (words_of action)" "script_at p (l_cursor l + 16) (map statement_of ?ms @ rest)"
    using script len by (simp_all add: script_at_Cons)
  have d: "disk (pt_path pt) = Some (pt_file pt)" using ok by (simp add: part_ok_def)
  obtain fd p1 where p1: "step_statement svc l p =
      Some (Inr (l\<lparr>l_cursor := l_cursor l + size_open, l_reset_at_base := True, l_fd := fd\<rparr>, p1))"
    "keeps_memory p p1" "files (pr_kern p1) fd = Some (pt_file pt)"
    using first step_open [OF K _ s d] step_open_next [OF K _ s d] h(1) by blast
  let ?l = "l\<lparr>l_cursor := l_cursor l + size_open, l_reset_at_base := True, l_fd := fd\<rparr>"
  have m1: "pr_mem p1 = pr_mem p" using p1(2) by (simp add: keeps_memory_def)
  have sz: "k + (16 + script_bytes (map statement_of ?ms @ rest)) \<le> n"
    using inside(2) len by (simp add: script_bytes_Cons)
  have sp: "spares ?ms (l_cursor ?l) (script_bytes (map statement_of ?ms @ rest))"
    using sparesD [of ?ms a n "k + 16" "script_bytes (map statement_of ?ms @ rest)"] ok sz inside(1)
    by (simp add: part_ok_def add.assoc)
  have "\<exists>p'. start_loop svc ?l p1 = start_loop svc (fold after_mapping ?ms ?l) p' \<and> loaded (pt_file pt) ?ms p1 p' \<and>
       files (pr_kern p') = files (pr_kern p1) \<and> script_at p' (l_cursor (fold after_mapping ?ms ?l)) rest"
  proof (rule run_mappings [OF K])
    show "script_at p1 (l_cursor ?l) (map statement_of ?ms @ rest)"
      using h(2) by (simp add: script_at_def holds_mem [OF m1])
  qed (use p1 ok sp in \<open>auto simp: part_ok_def spares_def\<close>)
  then obtain p' where p': "start_loop svc ?l p1 = start_loop svc (fold after_mapping ?ms ?l) p'"
    "loaded (pt_file pt) ?ms p1 p'" "files (pr_kern p') = files (pr_kern p1)" by blast
  have "same p1 p' a n" by (rule loaded_spares [OF p'(2)]) (use ok in \<open>simp add: part_ok_def\<close>)
  then have sm: "same p p' a n" by (simp add: same_def m1)
  have st: "stores p' x" if "\<forall>m \<in> set ?ms. \<not> covers m x" "stores p x" for x
    using that p'(2) p1(2) image_uncovered [OF that(1)]
    by (auto simp: loaded_def stores_def keeps_memory_def map_add_def)
  show ?thesis
  proof (intro exI conjI)
    show "start_loop svc l p = start_loop svc (fold after_mapping ?ms ?l) p'"
      using start_loop_Inr [OF p1(1)] p'(1) by simp
    show "pr_mem p' = pr_mem p ++ part_image pt" using p'(2) m1 by (simp add: loaded_def part_image_def)
    show "l_at_base (fold after_mapping ?ms ?l) = m_addr (hd ?ms)"
      by (rule base_first_file) (use ok in \<open>simp_all add: part_ok_def\<close>)
  qed (use sm st p1(3) p'(3) in \<open>simp_all add: algebra_simps\<close>)
qed

text \<open>The script of a program: its parts, then the stack, then the start.\<close>

definition script_of :: "u64 \<Rightarrow> Part \<Rightarrow> (u64 \<times> Part) option \<Rightarrow> u64 option \<Rightarrow> LoadStatement \<Rightarrow> LoadStatement list" where
  "script_of s1 main interp stack launch =
     LOAD_ACTION_OPEN s1 # map statement_of (pt_mappings main) @
     (case interp of None \<Rightarrow> [] | Some (s2, pt) \<Rightarrow> LOAD_ACTION_OPEN_NEXT s2 # map statement_of (pt_mappings pt)) @
     (case stack of None \<Rightarrow> [] | Some page \<Rightarrow> [LOAD_ACTION_MAKE_STACK_EXEC page]) @ [launch]"

lemma same_trans: "same p p1 a n \<Longrightarrow> same p1 p2 a n \<Longrightarrow> same p p2 a n"
  by (simp add: same_def)

lemma same_mem: "pr_mem p' = pr_mem p \<Longrightarrow> same p p' a n"
  by (simp add: same_def)

lemma same_part: "same p p' a n \<Longrightarrow> k + j \<le> n \<Longrightarrow> same p p' (a + of_nat k) j"
  unfolding same_def
proof (intro allI impI)
  fix i assume h: "\<forall>i < n. pr_mem p' (a + of_nat i) = pr_mem p (a + of_nat i)" "k + j \<le> n" "i < j"
  then have "k + i < n" by simp
  then have "pr_mem p' (a + of_nat (k + i)) = pr_mem p (a + of_nat (k + i))" using h(1) by blast
  then show "pr_mem p' (a + of_nat k + of_nat i) = pr_mem p (a + of_nat k + of_nat i)" by (simp add: add.assoc)
qed

lemma script_at_append: "script_at p a (xs @ ys) \<longleftrightarrow>
   script_at p a xs \<and> script_at p (a + of_nat (script_bytes xs)) ys"
  by (simp add: script_at_def script_bytes_def holds_append)

lemma script_bytes_append: "script_bytes (xs @ ys) = script_bytes xs + script_bytes ys"
  by (simp add: script_bytes_def)

lemma script_bytes_map: "script_bytes (map statement_of ms) = 48 * length ms"
  by (induction ms) (simp_all add: script_bytes_Cons, simp add: script_bytes_def)

text \<open>Everything before the launch statement.\<close>

lemma run_script:
  assumes K: "svc_ok svc files disk" and main: "part_ok disk a n main"
    and interp: "\<forall>s2 pt. interp = Some (s2, pt) \<longrightarrow> part_ok disk a n pt \<and> string_at p s2 (pt_path pt) \<and>
      (\<exists>k. s2 = a + of_nat k \<and> k + Suc (length (pt_path pt)) \<le> n)"
    and s1: "string_at p s1 (pt_path main)"
    and script: "script_at p a (script_of s1 main interp stack launch)"
    and size: "script_bytes (script_of s1 main interp stack launch) \<le> n"
  shows "\<exists>l' p'. start svc a p = start_loop svc l' p' \<and>
    (\<exists>k. l_cursor l' = a + of_nat k \<and> k + script_bytes [launch] = script_bytes (script_of s1 main interp stack launch)) \<and>
    l_at_base l' = m_addr (hd (pt_mappings (case interp of None \<Rightarrow> main | Some (s2, pt) \<Rightarrow> pt))) \<and>
    (\<exists>c. files (pr_kern p') (l_fd l') = Some c) \<and>
    pr_mem p' = pr_mem p ++ part_image main ++ (case interp of None \<Rightarrow> Map.empty | Some (s2, pt) \<Rightarrow> part_image pt) \<and>
    same p p' a n \<and> (\<forall>i < n. stores p (a + of_nat i) \<longrightarrow> stores p' (a + of_nat i))"
proof -
  define tail1 where "tail1 = (case stack of None \<Rightarrow> [] | Some page \<Rightarrow> [LOAD_ACTION_MAKE_STACK_EXEC page]) @ [launch]"
  define tail2 where "tail2 = (case interp of None \<Rightarrow> [] | Some (s2, pt) \<Rightarrow>
      LOAD_ACTION_OPEN_NEXT s2 # map statement_of (pt_mappings pt)) @ tail1"
  let ?all = "script_of s1 main interp stack launch"
  have all: "?all = LOAD_ACTION_OPEN s1 # map statement_of (pt_mappings main) @ tail2"
    by (simp add: script_of_def tail2_def tail1_def)
  let ?l0 = "\<lparr>l_cursor = a, l_reset_at_base = True, l_at_base = 0, l_fd = - 1\<rparr>"
  let ?k1 = "16 + 48 * length (pt_mappings main)"
  have b1: "script_bytes ?all = ?k1 + script_bytes tail2"
    by (simp add: all script_bytes_Cons script_bytes_append script_bytes_map)
  obtain l1 p1 where r1: "start svc a p = start_loop svc l1 p1" "l_cursor l1 = a + of_nat ?k1"
    "l_at_base l1 = m_addr (hd (pt_mappings main))" "files (pr_kern p1) (l_fd l1) = Some (pt_file main)"
    "pr_mem p1 = pr_mem p ++ part_image main" "same p p1 a n"
    and st1: "\<And>x. \<forall>m \<in> set (pt_mappings main). \<not> covers m x \<Longrightarrow> stores p x \<Longrightarrow> stores p1 x"
    using run_part [OF K main, of "LOAD_ACTION_OPEN s1" s1 p ?l0 tail2 0] s1 script size
    unfolding all start_def by (auto simp: algebra_simps)
  have st1': "stores p1 (a + of_nat i)" if "i < n" "stores p (a + of_nat i)" for i
    using st1 that main by (auto simp: part_ok_def spares_def)
  have t2: "script_at p1 (a + of_nat ?k1) tail2"
  proof -
    have "script_at p (a + of_nat ?k1) tail2"
      using script script_at_append [of p a "LOAD_ACTION_OPEN s1 # map statement_of (pt_mappings main)" tail2]
      by (simp add: all script_bytes_Cons script_bytes_map)
    moreover have "same p p1 (a + of_nat ?k1) (script_bytes tail2)"
      by (rule same_part [OF r1(6)]) (use size b1 in simp)
    ultimately show ?thesis using holds_same by (simp add: script_at_def script_bytes_def)
  qed
  obtain l2 p2 k2 where r2: "start svc a p = start_loop svc l2 p2" "l_cursor l2 = a + of_nat k2"
    "k2 + script_bytes tail1 = script_bytes ?all"
    "l_at_base l2 = m_addr (hd (pt_mappings (case interp of None \<Rightarrow> main | Some (s2, pt) \<Rightarrow> pt)))"
    "\<exists>c. files (pr_kern p2) (l_fd l2) = Some c"
    "pr_mem p2 = pr_mem p ++ part_image main ++ (case interp of None \<Rightarrow> Map.empty | Some (s2, pt) \<Rightarrow> part_image pt)"
    "same p p2 a n" "\<And>i. i < n \<Longrightarrow> stores p (a + of_nat i) \<Longrightarrow> stores p2 (a + of_nat i)"
    "script_at p2 (a + of_nat k2) tail1"
  proof (cases interp)
    case None
    then have "tail2 = tail1" by (simp add: tail2_def)
    then show thesis using that [of l1 p1 ?k1] r1 st1' t2 b1 None by auto
  next
    case (Some x)
    obtain s2 pt where x: "x = (s2, pt)" by (cases x)
    have t: "tail2 = LOAD_ACTION_OPEN_NEXT s2 # map statement_of (pt_mappings pt) @ tail1"
      by (simp add: tail2_def Some x)
    have pt: "part_ok disk a n pt" "string_at p s2 (pt_path pt)" using interp Some x by auto
    obtain k where k: "s2 = a + of_nat k" "k + Suc (length (pt_path pt)) \<le> n" using interp Some x by auto
    have s2: "string_at p1 s2 (pt_path pt)"
      by (rule string_at_same [OF pt(2)]) (use same_part [OF r1(6) k(2)] k(1) in simp)
    let ?k2 = "?k1 + 16 + 48 * length (pt_mappings pt)"
    have b2: "script_bytes ?all = ?k2 + script_bytes tail1"
      by (simp add: b1 t script_bytes_Cons script_bytes_append script_bytes_map)
    obtain l2 p2 where r: "start_loop svc l1 p1 = start_loop svc l2 p2"
      "l_cursor l2 = l_cursor l1 + 16 + 48 * of_nat (length (pt_mappings pt))"
      "l_at_base l2 = m_addr (hd (pt_mappings pt))" "files (pr_kern p2) (l_fd l2) = Some (pt_file pt)"
      "pr_mem p2 = pr_mem p1 ++ part_image pt" "same p1 p2 a n"
      and st2: "\<And>x. \<forall>m \<in> set (pt_mappings pt). \<not> covers m x \<Longrightarrow> stores p1 x \<Longrightarrow> stores p2 x"
      using run_part [OF K pt(1), of "LOAD_ACTION_OPEN_NEXT s2" s2 p1 l1 tail1 ?k1] s2 t2 r1(2,4) size b1
      unfolding t by auto
    have c2: "l_cursor l2 = a + of_nat ?k2" using r(2) r1(2) by (simp add: algebra_simps)
    have "script_at p1 (a + of_nat ?k1 + of_nat (16 + 48 * length (pt_mappings pt))) tail1"
      using t2 script_at_append [of p1 "a + of_nat ?k1" "LOAD_ACTION_OPEN_NEXT s2 # map statement_of (pt_mappings pt)" tail1]
      by (simp add: t script_bytes_Cons script_bytes_map)
    then have t1: "script_at p1 (a + of_nat ?k2) tail1" by (simp add: algebra_simps)
    have "same p1 p2 (a + of_nat ?k2) (script_bytes tail1)" by (rule same_part [OF r(6)]) (use size b2 in simp)
    with t1 have t2': "script_at p2 (a + of_nat ?k2) tail1" using holds_same by (simp add: script_at_def script_bytes_def)
    show thesis
      using that [of l2 p2 ?k2] r1 r c2 b2 t2' Some x same_trans [OF r1(6) r(6)] st1' st2 pt(1)
      by (auto simp: part_ok_def spares_def)
  qed
  show ?thesis
  proof (cases stack)
    case None
    then have "tail1 = [launch]" by (simp add: tail1_def)
    then show ?thesis using r2 by blast
  next
    case (Some page)
    have t: "tail1 = [LOAD_ACTION_MAKE_STACK_EXEC page, launch]" by (simp add: tail1_def Some)
    have "holds p2 (l_cursor l2) (words_of (LOAD_ACTION_MAKE_STACK_EXEC page))"
      using r2(2,9) by (simp add: t script_at_Cons)
    from step_stack_exec [OF K this] obtain p3 where
      p3: "step_statement svc l2 p2 = Some (Inr (l2\<lparr>l_cursor := l_cursor l2 + size_make_stack_exec\<rparr>, p3))"
      "keeps_memory p2 p3" "files (pr_kern p3) = files (pr_kern p2)" by blast
    have m: "pr_mem p3 = pr_mem p2" using p3(2) by (simp add: keeps_memory_def)
    have b: "k2 + 16 + script_bytes [launch] = script_bytes ?all" using r2(3) by (simp add: t script_bytes_Cons)
    show ?thesis
    proof (intro exI conjI)
      show "start svc a p = start_loop svc (l2\<lparr>l_cursor := l_cursor l2 + size_make_stack_exec\<rparr>) p3"
        using r2(1) start_loop_Inr [OF p3(1)] by simp
      show "same p p3 a n" using same_trans [OF r2(7) same_mem [OF m]] .
      show "l_cursor (l2\<lparr>l_cursor := l_cursor l2 + size_make_stack_exec\<rparr>) = a + of_nat (k2 + 16)"
        using r2(2) by simp
      show "k2 + 16 + script_bytes [launch] = script_bytes ?all" by (rule b)
      show "\<forall>i < n. stores p (a + of_nat i) \<longrightarrow> stores p3 (a + of_nat i)"
        using r2(8) p3(2) by (simp add: keeps_memory_def stores_def)
      show "files (pr_kern p3) (l_fd (l2\<lparr>l_cursor := l_cursor l2 + size_make_stack_exec\<rparr>)) =
          Some (the (files (pr_kern p2) (l_fd l2)))" using r2(5) p3(3) by auto
    qed (use r2 m in simp_all)
  qed
qed

lemma unat_before: "j < q \<Longrightarrow> q + m < 2 ^ 64 \<Longrightarrow> m \<le> unat (a + of_nat j - (a + of_nat q :: u64))"
proof -
  assume j: "j < q" "q + m < 2 ^ 64"
  have l: "of_nat j < (of_nat q :: u64)" using j by (simp add: less_unat unat_of_nat_u64)
  have "unat (of_nat j - of_nat q :: u64) = 2 ^ 64 + j - q"
    using unat_diff_wrap [OF l] j by (simp add: unat_of_nat_u64)
  moreover have "a + of_nat j - (a + of_nat q) = of_nat j - (of_nat q :: u64)" by simp
  ultimately show ?thesis using j by simp
qed

text \<open>The start statement for a traced process and for any other one.\<close>

definition launch_statement :: "bool \<Rightarrow> u64 \<Rightarrow> u64 \<Rightarrow> u64 \<Rightarrow> u64 \<Rightarrow> u64 \<Rightarrow> u64 \<Rightarrow> u64 \<Rightarrow> LoadStatement" where
  "launch_statement traced = (if traced then LOAD_ACTION_START_TRACED else LOAD_ACTION_START)"

definition final_auxv :: "(u64 \<Rightarrow> u64 option) \<Rightarrow> Stack \<Rightarrow> u64 list" where
  "final_auxv known st = flat (map (adjusted known) (st_auxv st)) @ [0]"

lemma loader_run:
  fixes st :: Stack
  defines "stack_size \<equiv> 8 * length (stack_words (st_argv st) (st_envp st) (st_auxv st))"
  assumes K: "svc_ok svc files disk" and main: "part_ok disk a (d + stack_size) main"
    and interp: "\<forall>s2 pt. interp = Some (s2, pt) \<longrightarrow> part_ok disk a (d + stack_size) pt \<and> string_at p s2 (pt_path pt) \<and>
      (\<exists>k. s2 = a + of_nat k \<and> k + Suc (length (pt_path pt)) \<le> d)"
    and s1: "string_at p s1 (pt_path main)"
    and script: "script_at p a (script_of s1 main interp stack
      (launch_statement traced sp entry phdr phent phnum at_entry execfn))"
    and size: "script_bytes (script_of s1 main interp stack
      (launch_statement traced sp entry phdr phent phnum at_entry execfn)) \<le> d"
    and s3: "string_at p execfn s" "c_chars s" "\<exists>k. execfn = a + of_nat k \<and> k + Suc (length s) \<le> d"
    and sp: "sp = a + of_nat d" "unat a + d + stack_size < 2 ^ 64" and st: "stack_at p sp st"
  shows "\<exists>p'. start svc a p = Some (if traced then NOTIFY [1, sp, entry, 2, 3, 4] p' else BRANCH sp entry 0 p') \<and>
    (\<forall>x. 16 * length (st_auxv st) \<le> unat (x - auxv_at sp st) \<longrightarrow>
      pr_mem p' x = (pr_mem p ++ part_image main ++
        (case interp of None \<Rightarrow> Map.empty | Some (s2, pt) \<Rightarrow> part_image pt)) x) \<and>
    holds p' (auxv_at sp st) (final_auxv (known_vectors phdr phent phnum at_entry
      (m_addr (hd (pt_mappings (case interp of None \<Rightarrow> main | Some (s2, pt) \<Rightarrow> pt)))) (hd (st_argv st @ [0]))) st)"
proof -
  let ?launch = "launch_statement traced sp entry phdr phent phnum at_entry execfn"
  let ?all = "script_of s1 main interp stack ?launch" and ?n = "d + stack_size"
  have b: "script_bytes [?launch] = 64" by (simp add: script_bytes_def launch_statement_def)
  have "\<exists>l' p'. start svc a p = start_loop svc l' p' \<and>
    (\<exists>k. l_cursor l' = a + of_nat k \<and> k + script_bytes [?launch] = script_bytes ?all) \<and>
    l_at_base l' = m_addr (hd (pt_mappings (case interp of None \<Rightarrow> main | Some (s2, pt) \<Rightarrow> pt))) \<and>
    (\<exists>c. files (pr_kern p') (l_fd l') = Some c) \<and>
    pr_mem p' = pr_mem p ++ part_image main ++ (case interp of None \<Rightarrow> Map.empty | Some (s2, pt) \<Rightarrow> part_image pt) \<and>
    same p p' a ?n \<and> (\<forall>i < ?n. stores p (a + of_nat i) \<longrightarrow> stores p' (a + of_nat i))"
  proof (rule run_script [OF K main _ s1 script])
    show "\<forall>s2 pt. interp = Some (s2, pt) \<longrightarrow> part_ok disk a ?n pt \<and> string_at p s2 (pt_path pt) \<and>
      (\<exists>k. s2 = a + of_nat k \<and> k + Suc (length (pt_path pt)) \<le> ?n)"
    proof (intro allI impI)
      fix s2 pt assume "interp = Some (s2, pt)"
      from interp [rule_format, OF this] obtain k where "part_ok disk a ?n pt" "string_at p s2 (pt_path pt)"
        "s2 = a + of_nat k" "k + Suc (length (pt_path pt)) \<le> ?n" by (elim conjE exE) (use trans_le_add1 in blast)
      then show "part_ok disk a ?n pt \<and> string_at p s2 (pt_path pt) \<and>
        (\<exists>k. s2 = a + of_nat k \<and> k + Suc (length (pt_path pt)) \<le> ?n)" by blast
    qed
  qed (use size in simp)
  then obtain l1 p1 k where r: "start svc a p = start_loop svc l1 p1" "l_cursor l1 = a + of_nat k"
    "k + 64 = script_bytes ?all"
    "l_at_base l1 = m_addr (hd (pt_mappings (case interp of None \<Rightarrow> main | Some (s2, pt) \<Rightarrow> pt)))"
    "\<exists>c. files (pr_kern p1) (l_fd l1) = Some c"
    "pr_mem p1 = pr_mem p ++ part_image main ++ (case interp of None \<Rightarrow> Map.empty | Some (s2, pt) \<Rightarrow> part_image pt)"
    "same p p1 a ?n" "\<forall>i < ?n. stores p (a + of_nat i) \<longrightarrow> stores p1 (a + of_nat i)" unfolding b by blast
  obtain c where c: "files (pr_kern p1) (l_fd l1) = Some c" using r(5) by blast
  have launch: "script_at p1 (l_cursor l1) [?launch]"
  proof -
    obtain pre where pre: "?all = pre @ [?launch]" by (simp add: script_of_def)
    then have "script_bytes pre = k" using r(3) b by (simp add: script_bytes_append)
    then have "script_at p (a + of_nat k) [?launch]" using script script_at_append [of p a pre "[?launch]"] pre by simp
    moreover have "same p p1 (a + of_nat k) 64" by (rule same_part [OF r(7)]) (use r(3) size in simp)
    moreover have "8 * length (words_of ?launch) = 64" using b by (simp add: script_bytes_Cons script_bytes_def)
    ultimately show ?thesis using holds_same [of p "a + of_nat k" "words_of ?launch" p1] r(2)
      by (simp add: script_at_def del: length_0_conv)
  qed
  let ?act = "if traced then 5 else 6"
  have stmt: "holds p1 (l_cursor l1) [?act, sp, entry, phdr, phent, phnum, at_entry, execfn]"
    using launch by (cases traced) (simp_all add: script_at_def launch_statement_def)
  define q where "q = d + 8 * (length (st_argv st) + length (st_envp st) + 3)"
  have aux: "auxv_at sp st = a + of_nat q" by (simp add: auxv_at_def sp(1) q_def)
  have qn: "q + 16 * length (st_auxv st) + 8 = ?n"
    unfolding q_def stack_size_def stack_words_def by simp
  have lim: "q + 16 * length (st_auxv st) < 2 ^ 64" using sp(2) qn by simp
  have st1: "stack_at p1 sp st"
    unfolding stack_at_def
  proof (intro conjI)
    show "holds p1 sp (stack_words (st_argv st) (st_envp st) (st_auxv st))"
      using st holds_same same_part [OF r(7), of d stack_size] unfolding stack_at_def sp(1) stack_size_def by blast
    show "within (stores p1) (auxv_at sp st) (16 * length (st_auxv st))"
      unfolding within_iff
    proof (intro allI impI)
      fix i assume i: "i < 16 * length (st_auxv st)"
      then have "stores p (auxv_at sp st + of_nat i)" using st by (simp add: stack_at_def within_iff)
      then have "stores p (a + of_nat (q + i))" by (simp add: aux add.assoc)
      moreover have "q + i < ?n" using i qn by simp
      ultimately have "stores p1 (a + of_nat (q + i))" using r(8) by blast
      then show "stores p1 (auxv_at sp st + of_nat i)" by (simp add: aux add.assoc)
    qed
  qed (use st in \<open>simp_all add: stack_at_def\<close>)
  obtain k3 where k3: "execfn = a + of_nat k3" "k3 + Suc (length s) \<le> d" using s3(3) by blast
  have str: "string_at p1 execfn s"
    by (rule string_at_same [OF s3(1)]) (use same_part [OF r(7), of k3] k3 in simp)
  have dq: "d \<le> q" by (simp add: q_def)
  have ue: "unat execfn + length s < 2 ^ 64"
  proof -
    have "unat execfn = unat a + k3" unfolding k3(1) by (rule unat_add_small) (use sp(2) k3(2) in simp)
    then show ?thesis using sp(2) k3(2) by simp
  qed
  have "\<exists>p'. start_program svc (l_cursor l1) traced (l_at_base l1) (l_fd l1) p1 =
      Some (if traced then NOTIFY [1, sp, entry, 2, 3, 4] p' else BRANCH sp entry 0 p') \<and>
    (\<forall>x. 16 * length (st_auxv st) \<le> unat (x - auxv_at sp st) \<longrightarrow> pr_mem p' x = pr_mem p1 x) \<and>
    holds p' (auxv_at sp st)
      (flat (map (adjusted (known_vectors phdr phent phnum at_entry (l_at_base l1) (hd (st_argv st @ [0])))) (st_auxv st)) @ [0])"
  proof (rule start_program_run [OF K c stmt st1 str s3(2) ue])
    show "\<forall>i < 64. 16 * length (st_auxv st) \<le> unat (l_cursor l1 + of_nat i - auxv_at sp st)"
    proof (intro allI impI)
      fix i :: nat assume "i < 64"
      then show "16 * length (st_auxv st) \<le> unat (l_cursor l1 + of_nat i - auxv_at sp st)"
        using unat_before [of "k + i" q "16 * length (st_auxv st)" a] lim r(3) size dq
        by (simp add: r(2) aux add.assoc)
    qed
    show "\<forall>i \<le> length s. 16 * length (st_auxv st) \<le> unat (execfn + of_nat i - auxv_at sp st)"
    proof (intro allI impI)
      fix i :: nat assume "i \<le> length s"
      then show "16 * length (st_auxv st) \<le> unat (execfn + of_nat i - auxv_at sp st)"
        using unat_before [of "k3 + i" q "16 * length (st_auxv st)" a] lim k3 dq
        by (simp add: aux add.assoc)
    qed
  qed
  then obtain p' where p': "start_program svc (l_cursor l1) traced (l_at_base l1) (l_fd l1) p1 =
      Some (if traced then NOTIFY [1, sp, entry, 2, 3, 4] p' else BRANCH sp entry 0 p')"
    "\<forall>x. 16 * length (st_auxv st) \<le> unat (x - auxv_at sp st) \<longrightarrow> pr_mem p' x = pr_mem p1 x"
    "holds p' (auxv_at sp st) (final_auxv (known_vectors phdr phent phnum at_entry (l_at_base l1) (hd (st_argv st @ [0]))) st)"
    unfolding final_auxv_def by blast
  have "step_statement svc l1 p1 = Some (Inl (if traced then NOTIFY [1, sp, entry, 2, 3, 4] p' else BRANCH sp entry 0 p'))"
    using holds_field [OF stmt, of 0] p'(1) by (cases traced) (simp_all add: step_statement_def)
  then have "start svc a p = Some (if traced then NOTIFY [1, sp, entry, 2, 3, 4] p' else BRANCH sp entry 0 p')"
    unfolding r(1) by (rule start_loop_Inl)
  then show ?thesis using p'(2,3) r(4,6) by auto
qed

end
