(* ===== verification/Program.thy ===== *)
theory Program
  imports Loader_Run
begin

text \<open>
  The composition of the tracer and the loader: what \<open>transfer_load_script\<close> (execve/exit.c)
  leaves in the memory of the tracee is what \<open>_start\<close> (loader/loader.c) makes of it.
\<close>

unbundle bit_operations_syntax

text \<open>What a process holds once bytes were put in its memory.\<close>

lemma put_bytes_same:
  "length bs \<le> 2 ^ 64 \<Longrightarrow> j + length ys \<le> length bs \<Longrightarrow> take (length ys) (drop j bs) = ys \<Longrightarrow> i < length ys \<Longrightarrow>
   put_bytes m a bs (a + of_nat j + of_nat i) = Some (ys ! i)"
proof -
  assume h: "length bs \<le> 2 ^ 64" "j + length ys \<le> length bs" "take (length ys) (drop j bs) = ys" "i < length ys"
  have "put_bytes m a bs (a + of_nat (j + i)) = Some (bs ! (j + i))"
    by (rule put_bytes_at) (use h in simp_all)
  moreover have "bs ! (j + i) = ys ! i" using h by (metis nth_drop nth_take add_leD1)
  ultimately show ?thesis by (simp add: add.assoc)
qed

lemma string_at_bytes:
  assumes "pr_mem p = put_bytes m a bs" "length bs \<le> 2 ^ 64" "bs = xs @ bytes_of_string s @ [0] @ ys"
  shows "string_at p (a + of_nat (length xs)) s"
  unfolding string_at_def
proof (intro allI impI)
  fix i assume "i \<le> length s"
  then show "pr_mem p (a + of_nat (length xs) + of_nat i) = Some ((bytes_of_string s @ [0]) ! i)"
    unfolding assms(1)
    by (intro put_bytes_same) (use assms(2) in \<open>simp_all add: assms(3) bytes_of_string_def\<close>)
qed

lemma holds_bytes:
  assumes "pr_mem p = put_bytes m a bs" "length bs \<le> 2 ^ 64" "bs = xs @ concat (map le_bytes ws) @ ys"
  shows "holds p (a + of_nat (length xs)) ws"
  using assms(3)
proof (induction ws arbitrary: xs)
  case (Cons w ws)
  have "holds p (a + of_nat (length (xs @ le_bytes w))) ws"
    by (rule Cons.IH) (use Cons.prems in simp)
  moreover have "ld_word (a + of_nat (length xs)) p = Some w"
  proof -
    have at: "pr_mem p (a + of_nat (length xs) + of_nat i) = Some (le_bytes w ! i)" if "i < 8" for i
      unfolding assms(1)
      by (rule put_bytes_same) (use that assms(2) Cons.prems in simp_all)
    then have "bytes_at (pr_mem p) (a + of_nat (length xs)) 8 = le_bytes w"
      by (intro nth_equalityI) (simp_all add: nth_bytes_at)
    then show ?thesis using at by (simp add: ld_word_def within_iff)
  qed
  ultimately show ?case by (simp add: holds_Cons add.assoc)
qed (simp add: holds_def)

lemma script_at_bytes:
  assumes "pr_mem p = put_bytes m a bs" "length bs \<le> 2 ^ 64"
    "bs = concat (map le_bytes (concat (map words_of stmts))) @ ys"
  shows "script_at p a stmts"
  using holds_bytes [OF assms(1,2), of "[]"] assms(3) by (simp add: script_at_def)

text \<open>The programs a load information is about.\<close>

definition describes :: "LoadInfo \<Rightarrow> Part \<Rightarrow> Part option \<Rightarrow> bool" where
  "describes load_info main interp \<longleftrightarrow>
     li_user_path load_info = Some (pt_path main) \<and> li_mappings load_info = Some (pt_mappings main) \<and>
     (case interp of
        None \<Rightarrow> li_interp load_info = None
      | Some pt \<Rightarrow> \<exists>i. li_interp load_info = Some i \<and> li_user_path i = Some (pt_path pt) \<and>
          li_mappings i = Some (pt_mappings pt))"

text \<open>An upper bound of the bytes the script and its strings take.\<close>

definition script_room :: "Part \<Rightarrow> Part option \<Rightarrow> string option \<Rightarrow> nat" where
  "script_room main interp raw = 112 + 48 * length (pt_mappings main) + Suc (length (pt_path main)) +
     (case interp of None \<Rightarrow> 0 | Some pt \<Rightarrow> 16 + 48 * length (pt_mappings pt) + Suc (length (pt_path pt))) +
     (case raw of None \<Rightarrow> 0 | Some s \<Rightarrow> Suc (length s))"

definition entry_of :: "LoadInfo \<Rightarrow> u64" where
  "entry_of load_info = ELF_FIELD (case li_interp load_info of None \<Rightarrow> li_elf_header load_info
     | Some i \<Rightarrow> li_elf_header i) e_entry"

definition traced :: "Tracee \<Rightarrow> bool" where
  "traced tracee \<longleftrightarrow> ptracer (t_as_ptracee tracee) \<noteq> None"

lemma load_script_of:
  assumes "describes load_info main interp" "pt_mappings main \<noteq> []"
    and "load_script X tracee load_info (pt_mappings main) ims sp s1 s2 s3 = Some stmts"
    and "ims = (case interp of None \<Rightarrow> [] | Some pt \<Rightarrow> pt_mappings pt)"
  shows "\<exists>stack. stmts = script_of s1 main (map_option (\<lambda>pt. (s2, pt)) interp) stack
    (launch_statement (traced tracee) sp (entry_of load_info)
       (ELF_FIELD (li_elf_header load_info) e_phoff + m_addr (hd (pt_mappings main)))
       (ELF_FIELD (li_elf_header load_info) e_phentsize) (ELF_FIELD (li_elf_header load_info) e_phnum)
       (ELF_FIELD (li_elf_header load_info) e_entry) s3) \<and>
    (stack \<noteq> None \<longleftrightarrow> li_needs_executable_stack load_info \<or>
      (\<exists>i. li_interp load_info = Some i \<and> li_needs_executable_stack i))"
proof -
  obtain first rest where ms: "pt_mappings main = first # rest" using assms(2) by (cases "pt_mappings main") auto
  let ?stack = "if li_needs_executable_stack load_info \<or>
      (\<exists>i. li_interp load_info = Some i \<and> li_needs_executable_stack i) then Some (sp AND page_mask X) else None"
  show ?thesis
    by (rule exI [of _ ?stack])
      (use assms(1,3,4) ms in \<open>cases interp;
        auto simp: load_script_def needs_executable_stack_def Let_def script_of_def describes_def transcript_statements launch_statement_def
          entry_of_def traced_def split: option.splits\<close>)
qed

lemma peek_flagged: "peek_reg (tracee\<lparr>t_regs_were_changed := b\<rparr>) version reg = peek_reg tracee version reg"
  by (simp add: peek_reg_def REG_def reg_cell_def is_32on64_mode_def get_abi_def)

text \<open>
  What a successful \<open>transfer_load_script\<close> leaves in the memory of a 64-bit tracee: the
  statements, then the strings, right below the stack pointer.
\<close>

lemma transferred:
  assumes "transfer_load_script K X tracee os = Some (0, tracee', os')"
    and "t_load_info tracee = Some load_info" "describes load_info main interp" "raw_string load_info = Some raw"
    and "\<not> is_32on64_mode tracee" and small: "script_room main interp raw < 2 ^ 63"
  shows "\<exists>stmts buffer pad ss s1 s2 s3 a.
    a = peek_reg tracee CURRENT STACK_POINTER - of_nat (length buffer) \<and>
    peek_reg tracee' CURRENT USERARG_1 = a \<and>
    (\<exists>tracee1 status. t_pid tracee1 = t_pid tracee \<and> 0 \<le> status \<and> write_data K tracee1 a buffer os = (status, os')) \<and>
    load_script X tracee load_info (pt_mappings main) (case interp of None \<Rightarrow> [] | Some pt \<Rightarrow> pt_mappings pt)
      (peek_reg tracee CURRENT STACK_POINTER) s1 s2 s3 = Some stmts \<and>
    ss = concat (map le_bytes (concat (map words_of stmts))) \<and>
    buffer = ss @ string_bytes (Some (pt_path main)) @ string_bytes (map_option pt_path interp) @
      string_bytes raw @ replicate pad 0 \<and> pad < 16 \<and>
    s1 = a + of_nat (length ss) \<and> s2 = s1 + of_nat (Suc (length (pt_path main))) \<and>
    s3 = (if raw = None then s1 else s2 + of_nat (length (string_bytes (map_option pt_path interp))))"
proof -
  define sp where "sp = peek_reg tracee CURRENT STACK_POINTER"
  define ipath where "ipath = map_option pt_path interp"
  define ims where "ims = (case interp of None \<Rightarrow> [] | Some pt \<Rightarrow> pt_mappings pt)"
  have path: "li_user_path load_info = Some (pt_path main)" "li_mappings load_info = Some (pt_mappings main)"
    using assms(3) by (simp_all add: describes_def)
  have ip: "(case li_interp load_info of None \<Rightarrow> Some None | Some i \<Rightarrow> map_option Some (li_user_path i)) = Some ipath"
    "(case li_interp load_info of None \<Rightarrow> Some [] | Some i \<Rightarrow> li_mappings i) = Some ims"
    using assms(3) by (auto simp: describes_def ipath_def ims_def split: option.splits)
  obtain pad zs s1 s2 s3 where area: "strings_area sp (string_size (Some (pt_path main))) (string_size ipath)
      (string_size raw) = (pad, zs, s1, s2, s3)" using prod_cases5 by blast
  have zero: "string_size raw = 0 \<longleftrightarrow> raw = None"
  proof (cases raw)
    case (Some s)
    have "(of_nat (Suc (length s)) :: u64) \<noteq> of_nat 0"
      by (subst of_nat_u64_inj) (use small Some in \<open>simp_all add: script_room_def\<close>)
    then show ?thesis using Some by (simp add: string_size_def add.commute)
  qed (simp add: string_size_def)
  have bytes: "string_size s = of_nat (length (string_bytes s))" for s
    by (cases s) (simp_all add: string_size_def string_bytes_def bytes_of_string_def)
  have s: "s1 = sp - zs" "s2 = s1 + string_size (Some (pt_path main))"
    "s3 = (if raw = None then s1 else s2 + string_size ipath)" "pad < 16"
    using area zero word_mod_less_divisor [of STACK_ALIGNMENT] by (auto simp: strings_area_def Let_def)
  let ?zc = "script_size_of load_info (pt_mappings main) ims"
  obtain stmts ss buffer where
    l: "load_script X tracee load_info (pt_mappings main) ims sp s1 s2 s3 = Some stmts"
    and ss: "ss = concat (map le_bytes (concat (map words_of stmts)))"
    and buffer: "buffer = ss @ string_bytes (Some (pt_path main)) @ string_bytes ipath @
       string_bytes raw @ replicate (unat pad) 0"
    and len: "of_nat (length ss) = ?zc" "of_nat (length buffer) = ?zc + zs"
    and w: "send_script K tracee (sp - (?zc + zs)) buffer os = (0, tracee', os')"
    using assms(1,2,4,5) path ip area
    by (auto simp: transfer_load_script_def Let_def bind_eq_Some_conv simp flip: sp_def split: if_splits)
  define a where "a = sp - of_nat (length buffer)"
  have a: "sp - (?zc + zs) = a" by (simp add: a_def len)
  have "s1 = a + of_nat (length ss)" by (simp add: s(1) a_def len algebra_simps)
  moreover have "peek_reg tracee' CURRENT USERARG_1 = a"
    "\<exists>t1 st. t_pid t1 = t_pid tracee \<and> 0 \<le> st \<and> write_data K t1 a buffer os = (st, os')"
  proof -
    let ?t1 = "poke_reg (poke_reg tracee STACK_POINTER a) USERARG_1 a"
    have f: "0 \<le> fst (write_data K ?t1 a buffer os)" "snd (write_data K ?t1 a buffer os) = os'"
      "tracee' = (save_current_regs ?t1 ORIGINAL)\<lparr>t_regs_were_changed := True\<rparr>"
      using w unfolding a by (auto simp: send_script_def Let_def split: prod.splits if_splits)
    have "\<not> t_is_aarch32 tracee" using assms(5) by (simp add: is_32on64_mode_def)
    then show "peek_reg tracee' CURRENT USERARG_1 = a"
      by (simp add: f(3) peek_flagged reg_simps peek_poke norm_word_def is_32on64_mode_def)
    show "\<exists>t1 st. t_pid t1 = t_pid tracee \<and> 0 \<le> st \<and> write_data K t1 a buffer os = (st, os')"
      using f(1,2) by (intro exI [of _ ?t1] exI [of _ "fst (write_data K ?t1 a buffer os)"])
        (auto simp: reg_simps prod_eq_iff)
  qed
  moreover have "s2 = s1 + of_nat (Suc (length (pt_path main)))" "unat pad < 16"
    "s3 = (if raw = None then s1 else s2 + of_nat (length (string_bytes ipath)))"
    using s bytes [of ipath] by (simp_all add: string_size_def word_less_nat_alt)
  moreover note l [unfolded ims_def sp_def] ss buffer [unfolded ipath_def] a_def [unfolded sp_def]
  ultimately show ?thesis unfolding ipath_def
    by (intro exI [of _ stmts] exI [of _ buffer] exI [of _ "unat pad"] exI [of _ ss] exI [of _ s1] exI [of _ s2]
        exI [of _ s3] exI [of _ a] conjI) assumption+
qed

lemma part_ok_sub:
  "part_ok disk (sp - of_nat n) (n + k) pt \<Longrightarrow> d \<le> n \<Longrightarrow> part_ok disk (sp - of_nat d) (d + k) pt"
  using sparesD [of "pt_mappings pt" "sp - of_nat n" "n + k" "n - d" "d + k"]
  by (simp add: part_ok_def of_nat_diff)

lemma outside_room:
  fixes x sp :: u64
  assumes "n \<le> unat (x - (sp - of_nat n))" "d \<le> n"
  shows "d \<le> unat (x - (sp - of_nat d))"
proof -
  have "n < 2 ^ 64" using assms(1) unsigned_less [where 'a = nat, of "x - (sp - of_nat n)"] by simp
  then have u: "unat (of_nat (n - d) :: u64) = n - d" by (simp add: unat_of_nat_u64)
  have "x - (sp - of_nat d) = (x - (sp - of_nat n)) - of_nat (n - d)" using assms(2) by (simp add: of_nat_diff)
  then have "unat (x - (sp - of_nat d)) = unat (x - (sp - of_nat n)) - (n - d)"
    using assms u by (simp only:) (subst unat_sub, simp_all add: word_le_nat_alt)
  then show ?thesis using assms by simp
qed

text \<open>The tracee after the transfer is ready for the loader.\<close>

lemma script_bytes_of:
  "script_bytes (script_of s1 main interp stack (launch_statement tr sp e h he hn en fn)) =
     80 + 48 * length (pt_mappings main) + (case interp of None \<Rightarrow> 0 | Some (s2, pt) \<Rightarrow> 16 + 48 * length (pt_mappings pt)) +
     (if stack = None then 0 else 16)"
  by (auto simp: script_of_def script_bytes_Cons script_bytes_append script_bytes_map launch_statement_def split: option.splits)
    (simp_all add: script_bytes_def)

lemma length_script: "length (concat (map le_bytes (concat (map words_of stmts)))) = script_bytes stmts"
proof -
  have "length (concat (map le_bytes ws)) = 8 * length ws" for ws by (induction ws) simp_all
  then show ?thesis by (simp add: script_bytes_def)
qed

text \<open>What the tracer left, as a program to be run.\<close>

definition launch_of :: "Tracee \<Rightarrow> LoadInfo \<Rightarrow> Part \<Rightarrow> u64 \<Rightarrow> u64 \<Rightarrow> LoadStatement" where
  "launch_of tracee load_info main sp execfn =
     launch_statement (traced tracee) sp (entry_of load_info)
       (ELF_FIELD (li_elf_header load_info) e_phoff + m_addr (hd (pt_mappings main)))
       (ELF_FIELD (li_elf_header load_info) e_phentsize) (ELF_FIELD (li_elf_header load_info) e_phnum)
       (ELF_FIELD (li_elf_header load_info) e_entry) execfn"

lemma transferred_script:
  fixes p :: "'p Process"
  defines "sp tracee \<equiv> peek_reg tracee CURRENT STACK_POINTER"
  assumes M: "kernel_memory K V" and T: "transfer_load_script K X tracee os = Some (0, tracee', os')"
    and li: "t_load_info tracee = Some load_info" "describes load_info main interp" "raw_string load_info = Some raw"
    and b64: "\<not> is_32on64_mode tracee" and ms: "pt_mappings main \<noteq> []"
    and room: "script_room main interp raw \<le> unat (sp tracee)" "unat (sp tracee) < 2 ^ 63"
    and mem: "pr_mem p = v_mem V (os_kern os) (t_pid tracee)"
  shows "\<exists>bs stmts s1 s2 s3 stack a. let p1 = put a bs p in
    length bs \<le> script_room main interp raw \<and> a = sp tracee - of_nat (length bs) \<and>
    peek_reg tracee' CURRENT USERARG_1 = a \<and> pr_mem p1 = v_mem V (os_kern os') (t_pid tracee) \<and>
    stmts = script_of s1 main (map_option (\<lambda>pt. (s2, pt)) interp) stack (launch_of tracee load_info main (sp tracee) s3) \<and>
    script_bytes stmts \<le> length bs \<and> script_at p1 a stmts \<and> string_at p1 s1 (pt_path main) \<and>
    (\<forall>pt. interp = Some pt \<longrightarrow> string_at p1 s2 (pt_path pt) \<and>
      (\<exists>k. s2 = a + of_nat k \<and> k + Suc (length (pt_path pt)) \<le> length bs)) \<and>
    (let s = (case raw of None \<Rightarrow> pt_path main | Some s \<Rightarrow> s) in
      string_at p1 s3 s \<and> (\<exists>k. s3 = a + of_nat k \<and> k + Suc (length s) \<le> length bs))"
proof -
  obtain stmts bs pad ss s1 s2 s3 a where
    a: "a = sp tracee - of_nat (length bs)" "peek_reg tracee' CURRENT USERARG_1 = a"
    and w: "\<exists>tracee1 status. t_pid tracee1 = t_pid tracee \<and> 0 \<le> status \<and> write_data K tracee1 a bs os = (status, os')"
    and l: "load_script X tracee load_info (pt_mappings main) (case interp of None \<Rightarrow> [] | Some pt \<Rightarrow> pt_mappings pt)
      (sp tracee) s1 s2 s3 = Some stmts"
    and ss: "ss = concat (map le_bytes (concat (map words_of stmts)))"
    and bs: "bs = ss @ string_bytes (Some (pt_path main)) @ string_bytes (map_option pt_path interp) @
      string_bytes raw @ replicate pad 0" "pad < 16"
    and s1: "s1 = a + of_nat (length ss)" and s2: "s2 = s1 + of_nat (Suc (length (pt_path main)))"
    and s3: "s3 = (if raw = None then s1 else s2 + of_nat (length (string_bytes (map_option pt_path interp))))"
  proof -
    have "script_room main interp raw < 2 ^ 63" using room by simp
    from transferred [OF T li b64 this] show ?thesis
      unfolding sp_def by (elim exE conjE) (rule that [unfolded sp_def]; (assumption | blast))
  qed
  obtain stack where stmts: "stmts = script_of s1 main (map_option (\<lambda>pt. (s2, pt)) interp) stack
      (launch_of tracee load_info main (sp tracee) s3)"
    using load_script_of [OF li(2) ms l] unfolding launch_of_def by auto
  have lens: "length ss = script_bytes stmts" by (simp add: ss length_script)
  have sb: "length (string_bytes s) = (case s of None \<Rightarrow> 0 | Some s \<Rightarrow> Suc (length s))" for s
    by (cases s) (simp_all add: string_bytes_def bytes_of_string_def)
  have le: "length bs \<le> script_room main interp raw"
    using bs lens unfolding stmts launch_of_def script_bytes_of
    by (simp add: script_room_def sb split: option.splits)
  have small: "length bs < 2 ^ 63" "length bs \<le> 2 ^ 64" using le room by simp_all
  define p1 where "p1 = put a bs p"
  have m1: "pr_mem p1 = put_bytes (pr_mem p) a bs" by (simp add: p1_def put_def)
  have "v_mem V (os_kern os') (t_pid tracee) = pr_mem p1"
  proof -
    obtain t1 st where t1: "t_pid t1 = t_pid tracee" "0 \<le> st" "write_data K t1 a bs os = (st, os')" using w by blast
    then have "st = 0" using write_data_cases(1) [OF M small(1) t1(3)] by (auto split: if_splits)
    then show ?thesis using write_data_cases(2) [OF M small(1) t1(3)] t1(1) mem m1 by (auto simp: wrote_def)
  qed
  moreover have "script_at p1 a stmts" by (rule script_at_bytes [OF m1 small(2)]) (simp add: bs(1) ss)
  moreover have str1: "string_at p1 s1 (pt_path main)"
    unfolding s1 by (rule string_at_bytes [OF m1 small(2)]) (simp add: bs(1) string_bytes_def)
  moreover have interp: "string_at p1 s2 (pt_path pt) \<and> (\<exists>k. s2 = a + of_nat k \<and> k + Suc (length (pt_path pt)) \<le> length bs)"
    if i: "interp = Some pt" for pt
  proof
    have e: "s2 = a + of_nat (length (ss @ string_bytes (Some (pt_path main))))" by (simp add: s2 s1 sb)
    show "string_at p1 s2 (pt_path pt)"
      unfolding e by (rule string_at_bytes [OF m1 small(2)]) (simp add: bs(1) i string_bytes_def)
    show "\<exists>k. s2 = a + of_nat k \<and> k + Suc (length (pt_path pt)) \<le> length bs"
      by (rule exI [of _ "length (ss @ string_bytes (Some (pt_path main)))"], rule conjI, rule e)
        (simp add: bs(1) i sb)
  qed
  moreover have "let s = (case raw of None \<Rightarrow> pt_path main | Some s \<Rightarrow> s) in
      string_at p1 s3 s \<and> (\<exists>k. s3 = a + of_nat k \<and> k + Suc (length s) \<le> length bs)"
  proof (cases raw)
    case None
    then show ?thesis using str1 s1 by (auto simp: s3 bs(1) sb intro!: exI [of _ "length ss"])
  next
    case (Some s)
    have e: "s3 = a + of_nat (length (ss @ string_bytes (Some (pt_path main)) @ string_bytes (map_option pt_path interp)))"
      by (simp add: s3 s2 s1 sb Some)
    have "string_at p1 s3 s"
      unfolding e by (rule string_at_bytes [OF m1 small(2)]) (simp add: bs(1) Some string_bytes_def)
    moreover have "\<exists>k. s3 = a + of_nat k \<and> k + Suc (length s) \<le> length bs"
      by (rule exI [of _ "length (ss @ string_bytes (Some (pt_path main)) @ string_bytes (map_option pt_path interp))"],
          rule conjI, rule e) (simp add: bs(1) Some sb)
    ultimately show ?thesis using Some by simp
  qed
  moreover have "script_bytes stmts \<le> length bs" using lens by (simp add: bs(1))
  moreover have i: "\<forall>pt. interp = Some pt \<longrightarrow> string_at p1 s2 (pt_path pt) \<and>
      (\<exists>k. s2 = a + of_nat k \<and> k + Suc (length (pt_path pt)) \<le> length bs)"
    using interp by blast
  ultimately show ?thesis unfolding Let_def
    by (intro exI [of _ bs] exI [of _ stmts] exI [of _ s1] exI [of _ s2] exI [of _ s3] exI [of _ stack]
        exI [of _ a] conjI) (fold p1_def, (rule le a stmts i | simp)+)
qed

text \<open>
  C1: the two halves of the execution of a program agree.  When \<open>transfer_load_script\<close> succeeds
  for a 64-bit tracee, and the loader is then started on the address it left in the register of
  the first argument, the loader opens the program and its interpreter and maps their segments,
  adjusts the auxiliary vectors, and ends by jumping to the entry point with the initial stack
  pointer (by notifying the tracer of both, for a traced process).  Outside of the script and of
  the auxiliary vectors, the memory is the one before the transfer with the segments over it.
  (The segments are whole pages apart from the stack, and the room below the stack pointer
  suffices for the script.)
\<close>

theorem execve_loads_program:
  fixes p :: "'p Process" and st :: Stack
  defines "sp tracee \<equiv> peek_reg tracee CURRENT STACK_POINTER"
    and "frame \<equiv> 8 * length (stack_words (st_argv st) (st_envp st) (st_auxv st))"
  assumes M: "kernel_memory K V" and T: "transfer_load_script K X tracee os = Some (0, tracee', os')"
    and li: "t_load_info tracee = Some load_info" "describes load_info main interp" "raw_string load_info = Some raw"
    and b64: "\<not> is_32on64_mode tracee"
    and room: "script_room main interp raw \<le> unat (sp tracee)" "unat (sp tracee) < 2 ^ 63"
    and mem: "pr_mem p = v_mem V (os_kern os) (t_pid tracee)" and stack: "stack_at p (sp tracee) st"
    and name: "c_chars (case raw of None \<Rightarrow> pt_path main | Some s \<Rightarrow> s)"
    and S: "svc_ok svc files disk"
    and parts: "\<forall>pt \<in> insert main (set_option interp).
      part_ok disk (sp tracee - of_nat (script_room main interp raw)) (script_room main interp raw + frame) pt"
  shows "\<exists>p'. start svc (peek_reg tracee' CURRENT USERARG_1) (p\<lparr>pr_mem := v_mem V (os_kern os') (t_pid tracee)\<rparr>) =
      Some (if traced tracee then NOTIFY [1, sp tracee, entry_of load_info, 2, 3, 4] p'
            else BRANCH (sp tracee) (entry_of load_info) 0 p') \<and>
    (\<forall>x. script_room main interp raw \<le> unat (x - (sp tracee - of_nat (script_room main interp raw))) \<longrightarrow>
       16 * length (st_auxv st) \<le> unat (x - auxv_at (sp tracee) st) \<longrightarrow>
       pr_mem p' x = (pr_mem p ++ part_image main ++
         (case interp of None \<Rightarrow> Map.empty | Some pt \<Rightarrow> part_image pt)) x) \<and>
    holds p' (auxv_at (sp tracee) st) (final_auxv (known_vectors
      (ELF_FIELD (li_elf_header load_info) e_phoff + m_addr (hd (pt_mappings main)))
      (ELF_FIELD (li_elf_header load_info) e_phentsize) (ELF_FIELD (li_elf_header load_info) e_phnum)
      (ELF_FIELD (li_elf_header load_info) e_entry)
      (m_addr (hd (pt_mappings (case interp of None \<Rightarrow> main | Some pt \<Rightarrow> pt)))) (hd (st_argv st @ [0]))) st)"
proof -
  let ?n = "script_room main interp raw" and ?sp = "sp tracee"
  let ?name = "case raw of None \<Rightarrow> pt_path main | Some s \<Rightarrow> s"
  have ms: "pt_mappings main \<noteq> []" using parts by (auto simp: part_ok_def first_file_def)
  obtain bs stmts s1 s2 s3 stack a where d: "length bs \<le> ?n" and a: "a = ?sp - of_nat (length bs)"
    and reg: "peek_reg tracee' CURRENT USERARG_1 = a" and m1: "pr_mem (put a bs p) = v_mem V (os_kern os') (t_pid tracee)"
    and stmts: "stmts = script_of s1 main (map_option (\<lambda>pt. (s2, pt)) interp) stack (launch_of tracee load_info main ?sp s3)"
    and sb: "script_bytes stmts \<le> length bs" and at: "script_at (put a bs p) a stmts"
    and str1: "string_at (put a bs p) s1 (pt_path main)"
    and str2: "\<forall>pt. interp = Some pt \<longrightarrow> string_at (put a bs p) s2 (pt_path pt) \<and>
      (\<exists>k. s2 = a + of_nat k \<and> k + Suc (length (pt_path pt)) \<le> length bs)"
    and str3: "string_at (put a bs p) s3 ?name" "\<exists>k. s3 = a + of_nat k \<and> k + Suc (length ?name) \<le> length bs"
    using transferred_script [OF M T li b64 ms room [unfolded sp_def] mem]
    unfolding Let_def sp_def by (elim exE conjE) (rule that [unfolded sp_def]; (assumption | blast))
  define p1 where "p1 = put a bs p"
  have p1: "p\<lparr>pr_mem := v_mem V (os_kern os') (t_pid tracee)\<rparr> = p1"
    using m1 by (simp add: p1_def put_def)
  have small: "unat ?sp + frame < 2 ^ 64" using stack by (simp add: stack_at_def frame_def)
  have only: "only_at p p1 a (length bs)" unfolding p1_def by (rule only_at_put) (use d room in simp)
  have lim: "unat a + length bs = unat ?sp"
    unfolding a using d room by (subst unat_sub) (simp_all add: word_le_nat_alt unat_of_nat_u64)
  have sp: "?sp = a + of_nat (length bs)" by (simp add: a)
  have st1: "stack_at p1 ?sp st"
  proof -
    have "same p p1 ?sp frame"
    proof (rule only_at_same [OF only], intro allI impI)
      fix i assume "i < frame"
      then have "unat (of_nat (length bs + i) :: u64) = length bs + i"
        using lim small by (subst unat_of_nat_u64) simp_all
      moreover have "?sp + of_nat i - a = of_nat (length bs + i)" by (simp add: a)
      ultimately show "length bs \<le> unat (?sp + of_nat i - a)" by (simp only: le_add1)
    qed
    then show ?thesis
      using stack within_stores_only [OF only] holds_same [of p ?sp "stack_words (st_argv st) (st_envp st) (st_auxv st)" p1]
      by (simp add: stack_at_def frame_def)
  qed
  have ok: "part_ok disk a (length bs + frame) pt" if "pt \<in> insert main (set_option interp)" for pt
    unfolding a by (rule part_ok_sub [OF _ d]) (rule parts [rule_format, OF that])
  have script: "\<exists>p'. start svc a p1 = Some (if traced tracee then NOTIFY [1, ?sp, entry_of load_info, 2, 3, 4] p'
        else BRANCH ?sp (entry_of load_info) 0 p') \<and>
    (\<forall>x. 16 * length (st_auxv st) \<le> unat (x - auxv_at ?sp st) \<longrightarrow>
      pr_mem p' x = (pr_mem p1 ++ part_image main ++
        (case map_option (\<lambda>pt. (s2, pt)) interp of None \<Rightarrow> Map.empty | Some (s2, pt) \<Rightarrow> part_image pt)) x) \<and>
    holds p' (auxv_at ?sp st) (final_auxv (known_vectors
      (ELF_FIELD (li_elf_header load_info) e_phoff + m_addr (hd (pt_mappings main)))
      (ELF_FIELD (li_elf_header load_info) e_phentsize) (ELF_FIELD (li_elf_header load_info) e_phnum)
      (ELF_FIELD (li_elf_header load_info) e_entry)
      (m_addr (hd (pt_mappings (case map_option (\<lambda>pt. (s2, pt)) interp of None \<Rightarrow> main | Some (s2, pt) \<Rightarrow> pt))))
      (hd (st_argv st @ [0]))) st)"
  proof (rule loader_run [OF S, where d = "length bs" and s = ?name])
    show "\<forall>s2' pt. map_option (\<lambda>pt. (s2, pt)) interp = Some (s2', pt) \<longrightarrow>
        part_ok disk a (length bs + 8 * length (stack_words (st_argv st) (st_envp st) (st_auxv st))) pt \<and>
        string_at p1 s2' (pt_path pt) \<and> (\<exists>k. s2' = a + of_nat k \<and> k + Suc (length (pt_path pt)) \<le> length bs)"
      using ok str2 by (auto simp: p1_def frame_def)
    show "script_at p1 a (script_of s1 main (map_option (\<lambda>pt. (s2, pt)) interp) stack
        (launch_statement (traced tracee) ?sp (entry_of load_info)
      (ELF_FIELD (li_elf_header load_info) e_phoff + m_addr (hd (pt_mappings main)))
      (ELF_FIELD (li_elf_header load_info) e_phentsize) (ELF_FIELD (li_elf_header load_info) e_phnum)
      (ELF_FIELD (li_elf_header load_info) e_entry) s3))"
      using at unfolding stmts launch_of_def p1_def .
    show "script_bytes (script_of s1 main (map_option (\<lambda>pt. (s2, pt)) interp) stack
        (launch_statement (traced tracee) ?sp (entry_of load_info)
      (ELF_FIELD (li_elf_header load_info) e_phoff + m_addr (hd (pt_mappings main)))
      (ELF_FIELD (li_elf_header load_info) e_phentsize) (ELF_FIELD (li_elf_header load_info) e_phnum)
      (ELF_FIELD (li_elf_header load_info) e_entry) s3)) \<le> length bs"
      using sb unfolding stmts launch_of_def .
    show "unat a + length bs + 8 * length (stack_words (st_argv st) (st_envp st) (st_auxv st)) < 2 ^ 64"
      using lim small by (simp add: frame_def)
  qed (use ok str1 str3 sp st1 name in \<open>simp_all add: p1_def frame_def\<close>)
  have c: "(case map_option (\<lambda>pt. (s2, pt)) interp of None \<Rightarrow> f | Some (s2, pt) \<Rightarrow> g pt) =
      (case interp of None \<Rightarrow> f | Some pt \<Rightarrow> g pt)" for f :: 'z and g by (cases interp) simp_all
  have out: "pr_mem p1 x = pr_mem p x" if "?n \<le> unat (x - (?sp - of_nat ?n))" for x
    using outside_room [OF that d] only by (simp add: only_at_def a)
  then have out2: "(pr_mem p1 ++ m ++ m') x = (pr_mem p ++ m ++ m') x" if "?n \<le> unat (x - (?sp - of_nat ?n))" for x m m'
    using out [OF that] by (simp add: map_add_def split: option.splits)
  show ?thesis
    unfolding p1 reg using script unfolding c by (metis (no_types, lifting) out2)
qed

definition demo_file :: space where
  "demo_file = (\<lambda>a. Some (ucast a))"

definition demo_svc :: "(u64 \<Rightarrow> space option) svc" where
  "demo_svc n args p =
     (if n = CLOSE then (0, p\<lparr>pr_kern := (pr_kern p)(args ! 0 := None)\<rparr>)
      else if n = OPENAT then
        (if string_at p (args ! 1) ''/b'' then (3, p\<lparr>pr_kern := (pr_kern p)(3 \<mapsto> demo_file)\<rparr>) else (- 2, p))
      else if n = MMAP then
        (args ! 0, p\<lparr>pr_mem := (\<lambda>x. if x - args ! 0 < args ! 1
                                 then if args ! 3 AND MAP_ANONYMOUS \<noteq> 0 then Some 0
                                      else the (pr_kern p (args ! 4)) (args ! 5 + (x - args ! 0))
                                 else pr_mem p x),
                     pr_writable := (\<lambda>x. if x - args ! 0 < args ! 1 then args ! 2 AND PROT_WRITE \<noteq> 0
                                      else pr_writable p x)\<rparr>)
      else (0, p))"

lemma demo_svc_ok: "svc_ok demo_svc (\<lambda>k. k) [''/b'' \<mapsto> demo_file]"
proof -
  have f: "\<not> failed 0" "\<not> failed 3" by (simp_all add: failed_def c_int_small)
  show ?thesis
    unfolding svc_ok_def by (intro conjI allI impI) (auto simp: demo_svc_def keeps_memory_def mapped_over_def f split: if_splits)
qed

definition demo_mapping :: Mapping where
  "demo_mapping = \<lparr>m_addr = 0x400000, m_length = 0x1000, m_clear_length = 0, m_prot = 5, m_flags = 2, m_fd = 0, m_offset = 0\<rparr>"

definition demo_load :: LoadInfo where
  "demo_load = set_raw_path Raw_user_path (set_user_path (Some ''/b'') (set_mappings (Some [demo_mapping])
     (set_elf_header demo_header calloc_LoadInfo)))"

definition demo_tracee :: Tracee where
  "demo_tracee = poke_reg (calloc_tracee\<lparr>t_load_info := Some demo_load\<rparr>) STACK_POINTER 0x5800"

definition demo_part :: Part where
  "demo_part = \<lparr>pt_path = ''/b'', pt_file = demo_file, pt_mappings = [demo_mapping]\<rparr>"

definition demo_stack :: Stack where
  "demo_stack = \<lparr>st_argv = [0x5900], st_envp = [], st_auxv = [\<lparr>av_type = 7, av_value = 0\<rparr>]\<rparr>"

definition demo_words :: "byte list" where
  "demo_words = concat (map le_bytes [1, 0x5900, 0, 0, 7, 0, 0])"

definition demo_os :: "Ram OS" where
  "demo_os = ram_boot\<lparr>os_kern := (os_kern ram_boot)\<lparr>ram_mem := (\<lambda>_. ram_put (\<lambda>_. 0) 0x5800 demo_words)\<rparr>\<rparr>"

definition demo_process :: "(u64 \<Rightarrow> space option) Process" where
  "demo_process = \<lparr>pr_mem = v_mem ram_view (os_kern demo_os) 0, pr_writable = (\<lambda>_. True), pr_kern = (\<lambda>_. None)\<rparr>"

lemma demo_regs: "peek_reg demo_tracee CURRENT STACK_POINTER = 0x5800" "t_load_info demo_tracee = Some demo_load"
  "t_pid demo_tracee = 0" "\<not> is_32on64_mode demo_tracee" "\<not> traced demo_tracee"
  by code_simp+

lemma demo_length: "length demo_words = 56"
  by (simp add: demo_words_def)

lemma ram_part: "k + n < 4096 \<Longrightarrow> within ram_rw (0x5000 + of_nat k) n"
  using ram_page5 [of "k + n"] by (simp add: within_add)

lemma demo_mem: "pr_mem demo_process = put_bytes (ram_space (\<lambda>_. 0)) 0x5800 demo_words"
proof -
  have "within ram_ok 0x5800 (length demo_words)"
    using ram_part [of "0x800" 56] by (simp add: demo_length ram_within_rw)
  from ram_put_space [OF this] show ?thesis by (simp add: demo_process_def demo_os_def ram_view_def)
qed

lemma demo_size: "stack_words (st_argv demo_stack) (st_envp demo_stack) (st_auxv demo_stack) = [1, 0x5900, 0, 0, 7, 0, 0]"
  by (simp add: demo_stack_def stack_words_def flat_def)

lemma demo_stack_at: "stack_at demo_process 0x5800 demo_stack"
proof -
  have "holds demo_process 0x5800 [1, 0x5900, 0, 0, 7, 0, 0]"
    using holds_bytes [OF demo_mem, of "[]" "[1, 0x5900, 0, 0, 7, 0, 0]" "[]"]
    by (simp only: demo_length) (simp add: demo_words_def)
  moreover have "within (stores demo_process) (auxv_at 0x5800 demo_stack) 16"
  proof -
    have "within ram_rw 0x5820 16" using ram_part [of "0x820" 16] by simp
    moreover have "stores demo_process x" if "ram_rw x" for x
      using ram_rw_ok [OF that] by (simp add: stores_def demo_process_def ram_view_def ram_space_def)
    ultimately show ?thesis by (simp add: auxv_at_def demo_stack_def within_imp)
  qed
  ultimately show ?thesis unfolding stack_at_def demo_size by (simp add: demo_stack_def)
qed

lemma demo_room: "script_room demo_part None None = 163"
  by (simp add: script_room_def demo_part_def)

lemma demo_transfer: "\<exists>tracee' os'. transfer_load_script ram_kernel demo_sys demo_tracee demo_os = Some (0, tracee', os')"
proof -
  have send: "\<exists>tracee' os'. send_script ram_kernel demo_tracee a buffer demo_os = (0, tracee', os')"
    if "a = 0x5000 + of_nat k" "k + length buffer < 4096" for a buffer k
  proof -
    let ?t = "poke_reg (poke_reg demo_tracee STACK_POINTER a) USERARG_1 a"
    have "within ram_rw a (length buffer)" using ram_part that by simp
    then have "fst (write_data ram_kernel ?t a buffer demo_os) = 0"
      using write_data_cases(1) [OF ram_kernel_memory _ prod.collapse [symmetric]] that(2)
      by (simp add: write_ok_def ram_view_simps)
    then obtain os' where "write_data ram_kernel ?t a buffer demo_os = (0, os')" by (metis prod.collapse)
    then show ?thesis by (simp add: send_script_def Let_def)
  qed
  have "\<exists>tracee' os'. send_script ram_kernel demo_tracee 0x5770 buffer demo_os = (0, tracee', os')"
    if "length buffer = 144" for buffer
    by (rule send [of _ "0x770"]) (simp_all add: that)
  moreover have "ptracer (t_as_ptracee demo_tracee) = None" using demo_regs(5) by (simp add: traced_def)
  ultimately show ?thesis
    by (simp add: transfer_load_script_def demo_regs demo_load_def Let_def calloc_LoadInfo_def raw_string_def
        strings_area_def string_size_def string_bytes_def bytes_of_string_def script_size_of_def
        needs_executable_stack_def demo_sys_def load_script_def transcript_mappings_def demo_mapping_def)
qed

lemma demo_part_ok: "part_ok [''/b'' \<mapsto> demo_file] (0x5800 - 163) (163 + 56) demo_part"
  unfolding part_ok_def
proof (intro conjI)
  have "\<not> covers demo_mapping (0x575d + of_nat i)" if "i < 219" for i
  proof -
    have "0x575d + of_nat i - 0x400000 = (of_nat i - 0x3fa8a3 :: u64)" by simp
    moreover have "unat (of_nat i - 0x3fa8a3 :: u64) = 2 ^ 64 + i - 0x3fa8a3"
      using unat_diff_wrap [of "of_nat i" "0x3fa8a3"] that by (simp add: word_less_nat_alt unat_of_nat_u64)
    ultimately show ?thesis by (simp add: covers_def demo_mapping_def word_less_nat_alt)
  qed
  then show "spares (pt_mappings demo_part) (0x5800 - 163) (163 + 56)"
    by (simp add: spares_def demo_part_def)
qed (simp_all add: demo_part_def demo_mapping_def demo_file_def first_file_def mapping_ok_def whole_pages_def)

theorem execve_loads_program_witness:
  "\<exists>tracee' os' p'. transfer_load_script ram_kernel demo_sys demo_tracee demo_os = Some (0, tracee', os') \<and>
     start demo_svc (peek_reg tracee' CURRENT USERARG_1)
       (demo_process\<lparr>pr_mem := v_mem ram_view (os_kern os') 0\<rparr>) = Some (BRANCH 0x5800 (entry_of demo_load) 0 p') \<and>
     pr_mem p' 0x400123 = Some 0x23"
proof -
  obtain tracee' os' where t: "transfer_load_script ram_kernel demo_sys demo_tracee demo_os = Some (0, tracee', os')"
    using demo_transfer by blast
  have d: "describes demo_load demo_part None" by (simp add: describes_def demo_load_def demo_part_def calloc_LoadInfo_def)
  have r: "raw_string demo_load = Some None" by (simp add: raw_string_def demo_load_def)
  have img: "part_image demo_part 0x400123 = Some 0x23"
    by (simp add: part_image_def demo_part_def demo_mapping_def mapped_byte_def demo_file_def)
  have c: "c_chars (pt_path demo_part)" by (simp add: c_chars_def demo_part_def)
  have m: "pr_mem demo_process = v_mem ram_view (os_kern demo_os) 0" by (simp add: demo_process_def)
  have "\<exists>p'. start demo_svc (peek_reg tracee' CURRENT USERARG_1)
       (demo_process\<lparr>pr_mem := v_mem ram_view (os_kern os') 0\<rparr>) = Some (BRANCH 0x5800 (entry_of demo_load) 0 p') \<and>
    (\<forall>x. 163 \<le> unat (x - (0x5800 - 163)) \<longrightarrow> 16 \<le> unat (x - 0x5820) \<longrightarrow>
       pr_mem p' x = (pr_mem demo_process ++ part_image demo_part) x)"
    using execve_loads_program [OF ram_kernel_memory t demo_regs(2) d r demo_regs(4) _ _ _ _ _ demo_svc_ok,
        where p = demo_process and st = demo_stack]
      demo_stack_at demo_part_ok c m
    unfolding demo_regs demo_room demo_size
    by (simp add: demo_regs auxv_at_def demo_stack_def) blast
  then obtain p' where "start demo_svc (peek_reg tracee' CURRENT USERARG_1)
       (demo_process\<lparr>pr_mem := v_mem ram_view (os_kern os') 0\<rparr>) = Some (BRANCH 0x5800 (entry_of demo_load) 0 p')"
    "pr_mem p' 0x400123 = (pr_mem demo_process ++ part_image demo_part) 0x400123" by fastforce
  then show ?thesis using t img by (auto simp: map_add_def)
qed

end
