(* ===== verification/Frame.thy ===== *)
theory Frame
  imports Syscall
begin

text \<open>
  What the access to registers and memory and the stages of a system call leave alone.
  \<open>kernel_frame\<close> is the interface: a predicate every call of the kernel keeps.  Its lemmas
  carry the predicate through the functions of tracee/reg.c, tracee/mem.c and
  syscall/syscall.c; theory \<open>Tracees\<close> interprets it on the kernel of the tracer.
\<close>

section \<open>Registers and memory\<close>

locale kernel_frame =
  fixes K :: "'k Kernel" and I :: "'k OS \<Rightarrow> bool"
  assumes set_errno: "I os \<Longrightarrow> I (set_errno e os)"
    and readv: "I os \<Longrightarrow> I (snd (snd (sys_process_vm_readv K p n a os)))"
    and writev: "I os \<Longrightarrow> I (snd (sys_process_vm_writev K p iov a os))"
    and peekdata: "I os \<Longrightarrow> I (snd (sys_ptrace_peekdata K p a os))"
    and pokedata: "I os \<Longrightarrow> I (snd (sys_ptrace_pokedata K p a v os))"
    and getregset: "I os \<Longrightarrow> I (snd (snd (sys_ptrace_getregset K p os)))"
    and setregset: "I os \<Longrightarrow> I (snd (sys_ptrace_setregset K p b os))"
    and set_syscall: "I os \<Longrightarrow> I (snd (sys_ptrace_set_syscall K p v os))"
begin

lemmas calls = set_errno readv writev peekdata pokedata getregset setregset set_syscall

lemma fetch_regs: "I os \<Longrightarrow> I (snd (snd (fetch_regs K tracee os)))"
  by (simp add: fetch_regs_def split_beta calls)

lemma push_regs: "I os \<Longrightarrow> I (snd (snd (push_regs K tracee os)))"
  by (simp add: push_regs_def split_beta Let_def calls)

lemma poke_words: "I os \<Longrightarrow> I (snd (poke_words n K p dest src os))"
  by (induction n arbitrary: dest src os) (simp_all add: split_beta calls)

lemma write_data: "I os \<Longrightarrow> I (snd (write_data K tracee dest src os))"
  by (simp add: write_data_def split_beta Let_def calls poke_words)

lemma write_iovs: "I os \<Longrightarrow> I (snd (write_iovs K tracee dest srcs os))"
  by (induction srcs arbitrary: dest os) (simp_all add: split_beta write_data)

lemma writev_data: "I os \<Longrightarrow> I (snd (writev_data K tracee dest srcs os))"
  by (simp add: writev_data_def split_beta calls write_iovs)

lemma peek_words: "I os \<Longrightarrow> I (snd (snd (peek_words n K p src os)))"
  by (induction n arbitrary: src os) (simp_all add: split_beta calls)

lemma read_data: "I os \<Longrightarrow> I (snd (snd (read_data K tracee src sz os)))"
  by (simp add: read_data_def split_beta Let_def calls peek_words)

lemma read_chunks: "I os \<Longrightarrow> I (snd (snd (read_chunks K p src max_size offset os)))"
proof (induction "max_size - offset" arbitrary: offset os rule: less_induct)
  case less
  let ?sz = "next_bytes (src + of_nat offset) (max_size - offset)"
  have "I (snd (snd (sys_process_vm_readv K p ?sz (src + of_nat offset) os)))"
    using less.prems by (rule readv)
  moreover have "I (snd (snd (read_chunks K p src max_size (offset + ?sz) os')))"
    if "offset + ?sz < max_size" "I os'" for os'
  proof -
    have "0 < ?sz" using that(1) by (intro next_bytes_pos) simp
    then show ?thesis using less.hyps [of "offset + ?sz" os'] that by simp
  qed
  ultimately show ?case
    by (subst read_chunks.simps) (simp add: split_beta Let_def)
qed

lemma peek_string: "I os \<Longrightarrow> I (snd (snd (peek_string n i K p src os)))"
  by (induction n arbitrary: i src os) (simp_all add: split_beta Let_def calls)

lemma string_fallback: "I os \<Longrightarrow> I (snd (snd (string_fallback K p src max_size os)))"
  by (simp add: string_fallback_def split_beta Let_def calls peek_string split: option.splits)

lemma read_string:
  "I os \<Longrightarrow> read_string K tracee src max_size os = Some (status, dest, os') \<Longrightarrow> I os'"
  using read_chunks [of os "t_pid tracee" src max_size 0] string_fallback
  by (auto simp: read_string_def split_beta split: chunks_end.splits prod.splits)

lemma read_path: "I os \<Longrightarrow> read_path K tracee src os = Some (status, dest, os') \<Longrightarrow> I os'"
  by (auto simp: read_path_def dest: read_string split: option.splits if_splits)

lemma eio: "I os \<Longrightarrow> I (eio_to_efault os)"
  by (simp add: eio_to_efault_def calls)

lemma peek_word: "I os \<Longrightarrow> I (snd (peek_word K tracee a os))"
  by (simp add: peek_word_def split_beta calls eio)

lemma poke_word: "I os \<Longrightarrow> I (poke_word K tracee a v os)"
  by (simp add: poke_word_def split_beta calls eio)

lemma poke_type: "I os \<Longrightarrow> I (poke_type K tracee a v os)"
  by (simp add: poke_type_def split_beta calls write_data)

lemma get_sysarg_path:
  "I os \<Longrightarrow> get_sysarg_path K tracee reg os = Some (status, path, os') \<Longrightarrow> I os'"
  by (auto simp: get_sysarg_path_def Let_def dest: read_path split: option.splits if_splits)

lemma print_current_regs: "I os \<Longrightarrow> print_current_regs K tracee os = Some os' \<Longrightarrow> I os'"
  by (auto simp: print_current_regs_def dest: get_sysarg_path split: option.splits if_splits)

end

section \<open>Stages\<close>

text \<open>The fields the stages themselves change; the core of a tracee is the rest.\<close>

definition core :: "Tracee \<Rightarrow> Tracee" where
  "core t = t\<lparr>t_regs := t_regs calloc_tracee, t_regs_were_changed := False,
              t_restore_original_regs := False, t_status := 0,
              t_chain := t_chain calloc_tracee, t_restart_how := 0, t_user_context_data := 0\<rparr>"

lemma core_update [frame_simps]:
  "core (t\<lparr>t_regs := x1\<rparr>) = core t" "core (t\<lparr>t_regs_were_changed := x2\<rparr>) = core t"
  "core (t\<lparr>t_restore_original_regs := x2\<rparr>) = core t" "core (t\<lparr>t_status := x3\<rparr>) = core t"
  "core (t\<lparr>t_chain := x4\<rparr>) = core t" "core (t\<lparr>t_restart_how := x3\<rparr>) = core t"
  "core (t\<lparr>t_user_context_data := x5\<rparr>) = core t"
  by (simp_all add: core_def)

lemma core_regs [frame_simps]:
  "core (put_bank v b t) = core t" "core (poke_reg t r x) = core t"
  "core (save_current_regs t v) = core t" "core (RESTORE r t) = core t"
  "core (set_chain c t) = core t"
  by (simp_all add: put_bank_def poke_reg_def set_REG_def set_REG_32_def save_current_regs_def
      RESTORE_def set_chain_def core_def)

lemma core_fold_RESTORE [frame_simps]: "core (fold RESTORE rs t) = core t"
  by (induction rs arbitrary: t) (simp_all add: frame_simps)

lemma core_fetch_regs [frame_simps]: "core (fst (snd (fetch_regs K t os))) = core t"
  by (simp add: fetch_regs_def split_beta frame_simps)

lemma core_push_regs [frame_simps]: "core (fst (snd (push_regs K t os))) = core t"
  by (simp add: push_regs_def split_beta Let_def frame_simps)

lemma core_set_sysnum: "set_sysnum t s = Some t' \<Longrightarrow> core t' = core t"
  by (auto simp: set_sysnum_def frame_simps)

lemma core_chain_next: "chain_next_syscall t = Some t' \<Longrightarrow> core t' = core t"
  by (auto simp: chain_next_syscall_def Let_def frame_simps
      split: chain_ptr.splits list.splits option.splits)

lemma core_finish_enter: "finish_enter status t = Some t' \<Longrightarrow> core t' = core t"
  by (auto simp: finish_enter_def frame_simps dest!: core_set_sysnum split: if_splits option.splits)

text \<open>
  The interface of the handlers: \<open>J t os\<close> is kept by the kernel's calls, by changes of those
  fields, by the handlers and by the callbacks.
\<close>

locale enter_frame =
  fixes K :: "'k Kernel" and H :: "'k Handlers" and J :: "Tracee \<Rightarrow> 'k OS \<Rightarrow> bool"
  assumes kernel: "kernel_frame K (J t)"
    and fields: "core t' = core t \<Longrightarrow> J t os \<Longrightarrow> J t' os"
    and on_sysenter: "global_on_sysenter H = Some f \<Longrightarrow> J t os \<Longrightarrow> f d t os = (user, t', os') \<Longrightarrow>
      J t' os'"
    and execve_enter: "J t os \<Longrightarrow> h_execve_enter H t os = Some (st, t', os') \<Longrightarrow> J t' os'"
    and ptrace_enter: "J t os \<Longrightarrow> h_ptrace_enter H t os = Some (st, t', os') \<Longrightarrow> J t' os'"
    and wait_enter: "J t os \<Longrightarrow> h_wait_enter H t os = Some (st, t', os') \<Longrightarrow> J t' os'"
begin

lemma notify_sysenter:
  assumes J: "J t os" and n: "notify_sysenter H t os = Some (t', os')"
  shows "J t' os'"
proof (cases "global_on_sysenter H")
  case None
  then show ?thesis using J n by (simp add: notify_sysenter_def)
next
  case (Some f)
  then obtain d user t1 where f: "f d t os = (user, t1, os')"
    and t': "t' = t1\<lparr>t_user_context_data := user\<rparr>"
    using n by (auto simp: notify_sysenter_def split: option.splits prod.splits)
  have "core t' = core t1" by (simp add: t' frame_simps)
  then show ?thesis using on_sysenter [OF Some J f] by (rule fields)
qed

lemma execveat_enter:
  "J t os \<Longrightarrow> translate_execveat_enter H t os = Some (status, t', os') \<Longrightarrow> J t' os'"
  using fields [where t = t and os = os]
  by (auto simp: translate_execveat_enter_def Let_def frame_simps dest!: execve_enter [rotated] core_set_sysnum
      split: if_splits option.splits)

lemma sysnum: "J t os \<Longrightarrow> set_sysnum t s = Some t' \<Longrightarrow> J t' os"
  using fields core_set_sysnum by blast

lemma syscall_enter:
  "J t os \<Longrightarrow> translate_syscall_enter K H t os = Some (status, t', os') \<Longrightarrow> J t' os'"
  using kernel_frame.get_sysarg_path [OF kernel [of t]]
  by (auto simp: translate_syscall_enter_def dest: execve_enter [rotated] ptrace_enter [rotated] wait_enter [rotated] execveat_enter [rotated] sysnum [rotated]
      split: if_splits option.splits prod.splits)

lemma log: "J t os \<Longrightarrow> print_current_regs K t' os = Some os' \<Longrightarrow> J t os'"
  by (rule kernel_frame.print_current_regs [OF kernel])

lemma enter_stage:
  assumes J: "J t os" and s: "syscall_enter_stage K H t os = Some (t', os')"
  shows "J t' os'"
proof -
  let ?t = "t\<lparr>t_restore_original_regs := False\<rparr>"
  obtain os1 where log1: "print_current_regs K ?t os = Some os1"
    using s by (auto simp: syscall_enter_stage_def Let_def split: option.splits)
  have t: "J ?t os1" by (rule fields [OF _ log [OF J log1]]) (simp add: frame_simps)
  show ?thesis
  proof (cases "ch_syscalls (t_chain ?t) = Null")
    case True
    then obtain t1 os2 status t2 where n: "notify_sysenter H (save_current_regs ?t ORIGINAL) os1 = Some (t1, os2)"
      and e: "translate_syscall_enter K H t1 os2 = Some (status, t2, os')"
      and f: "finish_enter status (save_current_regs t2 MODIFIED) = Some t'"
      using s log1 by (auto simp: syscall_enter_stage_def Let_def split: option.splits prod.splits)
    have "J (save_current_regs ?t ORIGINAL) os1" by (rule fields [OF _ t]) (simp add: frame_simps)
    then have "J t1 os2" using n by (rule notify_sysenter)
    then have "J t2 os'" using e by (rule syscall_enter)
    moreover have "core t' = core t2" using core_finish_enter [OF f] by (simp add: frame_simps)
    ultimately show ?thesis using fields by blast
  next
    case False
    then have "core t' = core ?t" "os' = os1" using s log1
      by (auto simp: syscall_enter_stage_def Let_def frame_simps dest!: core_finish_enter)
    then show ?thesis using fields t by blast
  qed
qed

lemma begin_and_end:
  assumes J: "J t os" and s: "translate_syscall K H t os = Some (t', os')"
    and stage: "\<And>t1 os1 t2 os2. J t1 os1 \<Longrightarrow> (if IS_IN_SYSENTER t then syscall_enter_stage K H t1 os1
        else syscall_exit_stage K H t1 os1) = Some (t2, os2) \<Longrightarrow> J t2 os2"
  shows "J t' os'"
proof -
  obtain status t1 os1 where f: "fetch_regs K t os = (status, t1, os1)" by (metis prod.exhaust)
  have "J t os1" using kernel_frame.fetch_regs [OF kernel J, of t] f by simp
  then have t1: "J t1 os1" by (rule fields [rotated]) (use core_fetch_regs [of K t os] f in simp)
  show ?thesis
  proof (cases "status < 0")
    case True
    then show ?thesis using s f t1 by (simp add: translate_syscall_def)
  next
    case False
    then obtain t2 os2 where st: "(if IS_IN_SYSENTER t then syscall_enter_stage K H t1 os1
        else syscall_exit_stage K H t1 os1) = Some (t2, os2)"
      and p: "t' = fst (snd (push_regs K t2 os2))"
      and l: "print_current_regs K t' (snd (snd (push_regs K t2 os2))) = Some os'"
      using s f by (auto simp: translate_syscall_def Let_def split: option.splits prod.splits)
    have "J t2 os2" using t1 st by (rule stage)
    then have "J t' os2" by (rule fields [rotated]) (use core_push_regs [of K t2 os2] p in simp)
    then have "J t' (snd (snd (push_regs K t2 os2)))" by (rule kernel_frame.push_regs [OF kernel])
    then show ?thesis using l by (rule log)
  qed
qed

theorem first_stage:
  assumes "J t os" "translate_syscall K H t os = Some (t', os')" "IS_IN_SYSENTER t"
  shows "J t' os'"
proof (rule begin_and_end [OF assms(1,2)])
  fix t1 os1 t2 os2
  assume "J t1 os1" and "(if IS_IN_SYSENTER t then syscall_enter_stage K H t1 os1
    else syscall_exit_stage K H t1 os1) = Some (t2, os2)"
  then show "J t2 os2" using assms(3) by (simp only: if_True) (rule enter_stage)
qed

end

locale stage_frame = enter_frame +
  assumes on_sysexit: "global_on_sysexit H = Some f \<Longrightarrow> J t os \<Longrightarrow> f d t os = (user, t', os') \<Longrightarrow>
      J t' os'"
    and execve_exit: "J t os \<Longrightarrow> h_execve_exit H t os = Some (t', os') \<Longrightarrow> J t' os'"
    and ptrace_exit: "J t os \<Longrightarrow> h_ptrace_exit H t os = Some (st, t', os') \<Longrightarrow> J t' os'"
    and wait_exit: "J t os \<Longrightarrow> h_wait_exit H t os = Some (st, r, t', os') \<Longrightarrow> J t' os'"
begin

lemma notify_sysexit:
  assumes J: "J t os" and n: "notify_sysexit H t os = Some (t', os')"
  shows "J t' os'"
proof (cases "global_on_sysexit H")
  case None
  then show ?thesis using J n by (simp add: notify_sysexit_def)
next
  case (Some f)
  then obtain d user where "f d t os = (user, t', os')"
    using n by (auto simp: notify_sysexit_def split: option.splits prod.splits)
  then show ?thesis by (rule on_sysexit [OF Some J])
qed

lemma poke: "J t os \<Longrightarrow> J (poke_reg t r v) os"
  by (rule fields [rotated], assumption) (simp add: frame_simps)

lemma syscall_exit:
  assumes J: "J t os" and s: "translate_syscall_exit H t os = Some (t', os')"
  shows "J t' os'"
proof -
  have ptrace: "J (poke_reg t1 r v) os1" if "h_ptrace_exit H t os = Some (st, t1, os1)" for st t1 os1 r v
    by (rule poke, rule ptrace_exit [OF J that])
  have wait: "J t1 os1" "J (poke_reg t1 r v) os1" if "h_wait_exit H t os = Some (st, b, t1, os1)" for st b t1 os1 r v
    by (rule wait_exit [OF J that], rule poke, rule wait_exit [OF J that])
  note exec = execve_exit [OF J]
  show ?thesis
    using s J poke [OF J]
    by (clarsimp simp: translate_syscall_exit_def ptrace wait exec
        split: if_split_asm option.split_asm prod.split_asm)
qed

lemma exit_stage:
  assumes J: "J t os" and s: "syscall_exit_stage K H t os = Some (t', os')"
  shows "J t' os'"
proof -
  let ?t = "t\<lparr>t_restore_original_regs := True\<rparr>"
  obtain os1 t1 os2 where log1: "print_current_regs K ?t os = Some os1"
    and n: "notify_sysexit H ?t os1 = Some (t1, os2)"
    using s by (auto simp: syscall_exit_stage_def Let_def split: option.splits prod.splits)
  have "J ?t os1" by (rule fields [OF _ log [OF J log1]]) (simp add: frame_simps)
  then have t1: "J t1 os2" using n by (rule notify_sysexit)
  obtain t2 where "J t2 os'" "core t' = core t2"
  proof (cases "ch_syscalls (t_chain t1) = Null")
    case True
    then obtain t2 where e: "translate_syscall_exit H t1 os2 = Some (t2, os')"
      and "core t' = core t2"
      using s log1 n by (auto simp: syscall_exit_stage_def Let_def frame_simps dest: core_chain_next
          split: option.splits prod.splits if_splits)
    then show ?thesis using that syscall_exit [OF t1 e] by blast
  next
    case False
    then have "core t' = core t1" "os' = os2" using s log1 n
      by (auto simp: syscall_exit_stage_def Let_def frame_simps dest!: core_chain_next
          split: option.splits prod.splits if_splits)
    then show ?thesis using that t1 by blast
  qed
  then show ?thesis using fields by blast
qed

theorem both_stages:
  assumes J: "J t os" and s: "translate_syscall K H t os = Some (t', os')"
  shows "J t' os'"
proof (rule begin_and_end [OF J s])
  fix t1 os1 t2 os2
  assume "J t1 os1" and "(if IS_IN_SYSENTER t then syscall_enter_stage K H t1 os1
    else syscall_exit_stage K H t1 os1) = Some (t2, os2)"
  then show "J t2 os2"
    by (cases "IS_IN_SYSENTER t", simp_all only: if_True if_False)
      (rule enter_stage, assumption, assumption, rule exit_stage)
qed

end

end
