(* ===== verification/Tracees.thy ===== *)
theory Tracees
  imports Frame "HOL-Library.Monad_Syntax"
begin

text \<open>
  The tracees of the tracer (src/library/src/main/jni/tracee/tracee.c), the links of the
  emulation of \<open>ptrace\<close> between them (\<open>attach_to_ptracer\<close>, \<open>detach_from_ptracer\<close> of
  ptrace/ptrace.c) and \<open>restart_tracee\<close> of tracee/event.c.

  The tracer's state is a heap of tracee objects, the list \<open>tracees\<close> of their addresses, the
  global variables of the event loop, and the state of the kernel.  A pointer to a tracee is
  an address or \<open>None\<close> (\<open>NULL\<close>); following an address without an object is undefined.  An
  operation is a function from state to state in the option monad; \<open>None\<close> is an undefined
  operation or a failed assertion.
\<close>

unbundle bit_operations_syntax

section \<open>State of the tracer\<close>

type_synonym addr = nat

record 'k World =
  w_objects :: "addr \<Rightarrow> Tracee option"
  w_break :: addr
  w_tracees :: "addr list"
  w_next_vpid :: nat
  w_last_exit_status :: int
  w_snew_attach_pid :: pid
  w_waitting_for_tracee :: bool
  w_kern :: 'k

type_synonym 'k world = "'k World OS"

definition modify :: "('k World \<Rightarrow> 'k World) \<Rightarrow> 'k world \<Rightarrow> 'k world" where
  "modify f w = w\<lparr>os_kern := f (os_kern w)\<rparr>"

definition tracees :: "'k world \<Rightarrow> addr list" where
  "tracees w = w_tracees (os_kern w)"

text \<open>A load and a store through a pointer to a tracee; undefined when it dangles.\<close>

definition tracee_at :: "addr \<Rightarrow> 'k world \<Rightarrow> Tracee option" where
  "tracee_at a w = w_objects (os_kern w) a"

definition put_tracee :: "addr \<Rightarrow> Tracee \<Rightarrow> 'k world \<Rightarrow> 'k world" where
  "put_tracee a t = modify (\<lambda>k. k\<lparr>w_objects := (w_objects k)(a \<mapsto> t)\<rparr>)"

definition upd :: "addr \<Rightarrow> (Tracee \<Rightarrow> Tracee) \<Rightarrow> 'k world \<Rightarrow> 'k world option" where
  "upd a f w = do { t \<leftarrow> tracee_at a w; Some (put_tracee a (f t) w) }"

definition upd_PTRACER ::
    "addr \<Rightarrow> (As_ptracer \<Rightarrow> As_ptracer) \<Rightarrow> 'k world \<Rightarrow> 'k world option" where
  "upd_PTRACER a f = upd a (\<lambda>t. t\<lparr>t_as_ptracer := f (t_as_ptracer t)\<rparr>)"

definition upd_PTRACEE ::
    "addr \<Rightarrow> (As_ptracee \<Rightarrow> As_ptracee) \<Rightarrow> 'k world \<Rightarrow> 'k world option" where
  "upd_PTRACEE a f = upd a (\<lambda>t. t\<lparr>t_as_ptracee := f (t_as_ptracee t)\<rparr>)"

section \<open>Calls\<close>

text \<open>
  The calls that concern processes, in the calling convention of the C library.
  \<open>sp_ptrace\<close> is a request whose address and data are words, \<open>sp_ptrace_get\<close> and
  \<open>sp_ptrace_set\<close> are requests whose data is a buffer the kernel fills or reads.
\<close>

record 'k Procs =
  sp_calloc :: "'k OS \<Rightarrow> bool \<times> 'k OS"
  sp_calloc_bytes :: "nat \<Rightarrow> 'k OS \<Rightarrow> bool \<times> 'k OS"
  sp_kill :: "pid \<Rightarrow> int \<Rightarrow> 'k OS \<Rightarrow> int \<times> 'k OS"
  sp_ptrace :: "int \<Rightarrow> pid \<Rightarrow> u64 \<Rightarrow> u64 \<Rightarrow> 'k OS \<Rightarrow> int \<times> 'k OS"
  sp_ptrace_peek :: "int \<Rightarrow> pid \<Rightarrow> u64 \<Rightarrow> 'k OS \<Rightarrow> u64 \<times> 'k OS"
  sp_ptrace_get :: "int \<Rightarrow> pid \<Rightarrow> u64 \<Rightarrow> nat \<Rightarrow> 'k OS \<Rightarrow> int \<times> byte list \<times> 'k OS"
  sp_ptrace_set :: "int \<Rightarrow> pid \<Rightarrow> u64 \<Rightarrow> byte list \<Rightarrow> 'k OS \<Rightarrow> int \<times> 'k OS"
  sp_getregset :: "pid \<Rightarrow> u64 \<Rightarrow> nat \<Rightarrow> 'k OS \<Rightarrow> int \<times> byte list \<times> 'k OS"
  sp_setregset :: "pid \<Rightarrow> u64 \<Rightarrow> byte list \<Rightarrow> 'k OS \<Rightarrow> int \<times> 'k OS"
  sp_geteventmsg :: "pid \<Rightarrow> 'k OS \<Rightarrow> int \<times> u64 \<times> 'k OS"
  sp_waitpid :: "'k OS \<Rightarrow> int \<times> int \<times> 'k OS"
  sp_cond_signal :: "'k OS \<Rightarrow> 'k OS"

definition base_os :: "'k world \<Rightarrow> 'k OS" where
  "base_os w = \<lparr>os_errno = os_errno w, os_kern = w_kern (os_kern w)\<rparr>"

definition with_os :: "'k world \<Rightarrow> 'k OS \<Rightarrow> 'k world" where
  "with_os w os = \<lparr>os_errno = os_errno os, os_kern = (os_kern w)\<lparr>w_kern := os_kern os\<rparr>\<rparr>"

definition call0 :: "('k OS \<Rightarrow> 'k OS) \<Rightarrow> 'k world \<Rightarrow> 'k world" where
  "call0 f w = with_os w (f (base_os w))"

definition call1 :: "('k OS \<Rightarrow> 'a \<times> 'k OS) \<Rightarrow> 'k world \<Rightarrow> 'a \<times> 'k world" where
  "call1 f w = (case f (base_os w) of (r, os) \<Rightarrow> (r, with_os w os))"

definition call2 :: "('k OS \<Rightarrow> 'a \<times> 'b \<times> 'k OS) \<Rightarrow> 'k world \<Rightarrow> 'a \<times> 'b \<times> 'k world" where
  "call2 f w = (case f (base_os w) of (r, s, os) \<Rightarrow> (r, s, with_os w os))"

definition lift_kernel :: "'k Kernel \<Rightarrow> 'k World Kernel" where
  "lift_kernel K =
    \<lparr>sys_process_vm_readv = (\<lambda>p n a. call2 (sys_process_vm_readv K p n a)),
     sys_process_vm_writev = (\<lambda>p iov a. call1 (sys_process_vm_writev K p iov a)),
     sys_ptrace_peekdata = (\<lambda>p a. call1 (sys_ptrace_peekdata K p a)),
     sys_ptrace_pokedata = (\<lambda>p a v. call1 (sys_ptrace_pokedata K p a v)),
     sys_ptrace_getregset = (\<lambda>p. call2 (sys_ptrace_getregset K p)),
     sys_ptrace_setregset = (\<lambda>p b. call1 (sys_ptrace_setregset K p b)),
     sys_ptrace_set_syscall = (\<lambda>p v. call1 (sys_ptrace_set_syscall K p v)),
     sys_mmap_zeros = (\<lambda>n. call1 (sys_mmap_zeros K n)),
     sys_munmap = (\<lambda>n. call0 (sys_munmap K n))\<rparr>"

definition lift_view :: "'k View \<Rightarrow> 'k World View" where
  "lift_view V = \<lparr>v_mem = (\<lambda>k. v_mem V (w_kern k)), v_readable = (\<lambda>k. v_readable V (w_kern k)),
                  v_writable = (\<lambda>k. v_writable V (w_kern k))\<rparr>"

abbreviation (input) SIGTRAP :: int where "SIGTRAP \<equiv> 5"
abbreviation (input) SIGKILL :: int where "SIGKILL \<equiv> 9"
abbreviation (input) SIGCHLD :: int where "SIGCHLD \<equiv> 17"
abbreviation (input) SIGSTOP :: int where "SIGSTOP \<equiv> 19"

text \<open>The macros of \<open><sys/wait.h>\<close>.\<close>

definition WIFEXITED :: "int \<Rightarrow> bool" where
  "WIFEXITED status \<longleftrightarrow> status AND 0x7f = 0"

definition WIFSIGNALED :: "int \<Rightarrow> bool" where
  "WIFSIGNALED status \<longleftrightarrow> 2 \<le> (status + 1) AND 0x7f"

definition WIFSTOPPED :: "int \<Rightarrow> bool" where
  "WIFSTOPPED status \<longleftrightarrow> status AND 0x7f = 0x7f"

definition WEXITSTATUS :: "int \<Rightarrow> int" where
  "WEXITSTATUS status = drop_bit 8 (status AND 0xff00)"

definition W_STOPCODE :: "int \<Rightarrow> int" where
  "W_STOPCODE sig = push_bit 8 sig OR 0x7f"

definition stop_event :: "int \<Rightarrow> int" where
  "stop_event status = drop_bit 8 (status AND 0xfff00)"

abbreviation (input) W_NOHANG :: u64 where "W_NOHANG \<equiv> 1"
abbreviation (input) W_WALL :: u64 where "W_WALL \<equiv> 0x40000000"
abbreviation (input) W_WCLONE :: u64 where "W_WCLONE \<equiv> 0x80000000"

definition EXPECTED_WAIT_CLONE :: "u64 \<Rightarrow> Tracee \<Rightarrow> bool" where
  "EXPECTED_WAIT_CLONE options tracee \<longleftrightarrow>
     options AND W_WALL \<noteq> 0 \<or> (options AND W_WCLONE \<noteq> 0 \<and> t_clone tracee) \<or>
     (options AND W_WCLONE = 0 \<and> \<not> t_clone tracee)"

section \<open>Creation and lookup\<close>

text \<open>\<open>calloc\<close> hands out a fresh address.\<close>

definition new_dummy_tracee :: "'k Procs \<Rightarrow> 'k world \<Rightarrow> addr option \<times> 'k world" where
  "new_dummy_tracee P w =
     (case call1 (sp_calloc P) w of
        (available, w) \<Rightarrow>
          if \<not> available then (None, w)
          else (Some (w_break (os_kern w)),
                modify (\<lambda>k. k\<lparr>w_objects := (w_objects k)(w_break k \<mapsto> calloc_tracee),
                              w_break := w_break k + 1\<rparr>) w))"

definition new_vpid :: "addr \<Rightarrow> pid \<Rightarrow> 'k world \<Rightarrow> 'k world option" where
  "new_vpid tracee pid w = do {
     w \<leftarrow> upd tracee (\<lambda>t. t\<lparr>t_pid := pid, t_vpid := w_next_vpid (os_kern w)\<rparr>) w;
     Some (modify (\<lambda>k. k\<lparr>w_next_vpid := (w_next_vpid k + 1) mod 2 ^ 64\<rparr>) w)
   }"

definition new_tracee :: "'k Procs \<Rightarrow> pid \<Rightarrow> 'k world \<Rightarrow> (addr option \<times> 'k world) option" where
  "new_tracee P pid w =
     (case new_dummy_tracee P w of
        (None, w) \<Rightarrow> Some (None, w)
      | (Some tracee, w) \<Rightarrow> do {
          w \<leftarrow> new_vpid tracee pid w;
          Some (Some tracee, modify (\<lambda>k. k\<lparr>w_tracees := tracee # w_tracees k\<rparr>) w)
        })"

definition get_tracee_for_ee ::
    "'k Procs \<Rightarrow> pid \<Rightarrow> 'k world \<Rightarrow> (addr option \<times> 'k world) option" where
  "get_tracee_for_ee P pid w =
     (case new_dummy_tracee P w of
        (None, w) \<Rightarrow> Some (None, w)
      | (Some tracee, w) \<Rightarrow> do { w \<leftarrow> new_vpid tracee pid w; Some (Some tracee, w) })"

fun find_pid :: "'k world \<Rightarrow> pid \<Rightarrow> addr list \<Rightarrow> addr option option" where
  "find_pid w pid [] = Some None"
| "find_pid w pid (tracee # ts) = do {
     t \<leftarrow> tracee_at tracee w;
     if t_pid t = pid then Some (Some tracee) else find_pid w pid ts
   }"

definition get_tracee ::
    "'k Procs \<Rightarrow> addr option \<Rightarrow> pid \<Rightarrow> bool \<Rightarrow> 'k world \<Rightarrow> (addr option \<times> 'k world) option" where
  "get_tracee P current_tracee pid create w = do {
     is_current \<leftarrow> (case current_tracee of
        None \<Rightarrow> Some False
      | Some c \<Rightarrow> map_option (\<lambda>t. t_pid t = pid) (tracee_at c w));
     if is_current then Some (current_tracee, w)
     else do {
       found \<leftarrow> find_pid w pid (tracees w);
       case found of
         Some tracee \<Rightarrow> Some (Some tracee, w)
       | None \<Rightarrow> if create then new_tracee P pid w else Some (None, w)
     }
   }"

fun find_zombie :: "'k world \<Rightarrow> pid \<Rightarrow> u64 \<Rightarrow> addr list \<Rightarrow> addr option option" where
  "find_zombie w pid options [] = Some None"
| "find_zombie w pid options (ptracee # zs) = do {
     t \<leftarrow> tracee_at ptracee w;
     if pid \<noteq> t_pid t \<and> pid \<noteq> -1 then find_zombie w pid options zs
     else if \<not> EXPECTED_WAIT_CLONE options t then find_zombie w pid options zs
     else Some (Some ptracee)
   }"

fun find_ptracee ::
    "'k world \<Rightarrow> addr \<Rightarrow> pid \<Rightarrow> bool \<Rightarrow> bool \<Rightarrow> u64 \<Rightarrow> addr list \<Rightarrow> addr option option" where
  "find_ptracee w ptracer' pid only_stopped only_with_pevent options [] = Some None"
| "find_ptracee w ptracer' pid only_stopped only_with_pevent options (ptracee # ts) = do {
     t \<leftarrow> tracee_at ptracee w;
     let continue = find_ptracee w ptracer' pid only_stopped only_with_pevent options ts;
     if ptracer (t_as_ptracee t) \<noteq> Some ptracer' then continue
     else if pid \<noteq> t_pid t \<and> pid \<noteq> -1 then continue
     else if \<not> EXPECTED_WAIT_CLONE options t then continue
     else if \<not> only_stopped then Some (Some ptracee)
     else if t_running t then continue
     else if ev_pending (event_ptracer (t_as_ptracee t)) \<or> \<not> only_with_pevent
     then Some (Some ptracee)
     else if pid = t_pid t then Some None
     else continue
   }"

definition get_ptracee ::
    "addr \<Rightarrow> pid \<Rightarrow> bool \<Rightarrow> bool \<Rightarrow> u64 \<Rightarrow> 'k world \<Rightarrow> addr option option" where
  "get_ptracee ptracer' pid only_stopped only_with_pevent options w = do {
     p \<leftarrow> tracee_at ptracer' w;
     zombie \<leftarrow> find_zombie w pid options (zombies (t_as_ptracer p));
     case zombie of
       Some z \<Rightarrow> Some (Some z)
     | None \<Rightarrow> find_ptracee w ptracer' pid only_stopped only_with_pevent options (tracees w)
   }"

definition get_stopped_ptracee :: "addr \<Rightarrow> pid \<Rightarrow> bool \<Rightarrow> u64 \<Rightarrow> 'k world \<Rightarrow> addr option option" where
  "get_stopped_ptracee ptracer' pid only_with_pevent options =
     get_ptracee ptracer' pid True only_with_pevent options"

definition has_ptracees :: "addr \<Rightarrow> pid \<Rightarrow> u64 \<Rightarrow> 'k world \<Rightarrow> bool option" where
  "has_ptracees ptracer' pid options w =
     map_option (\<lambda>ptracee. ptracee \<noteq> None) (get_ptracee ptracer' pid False False options w)"

section \<open>Tracers of the emulation\<close>

definition attach_to_ptracer :: "addr \<Rightarrow> addr \<Rightarrow> 'k world \<Rightarrow> 'k world option" where
  "attach_to_ptracer ptracee ptracer' w = do {
     w \<leftarrow> upd_PTRACEE ptracee (\<lambda>_. t_as_ptracee calloc_tracee) w;
     w \<leftarrow> upd_PTRACEE ptracee (\<lambda>p. p\<lparr>ptracer := Some ptracer'\<rparr>) w;
     upd_PTRACER ptracer' (\<lambda>p. p\<lparr>nb_ptracees := nb_ptracees p + 1\<rparr>) w
   }"

definition detach_from_ptracer :: "addr \<Rightarrow> 'k world \<Rightarrow> 'k world option" where
  "detach_from_ptracer ptracee w = do {
     t \<leftarrow> tracee_at ptracee w;
     ptracer' \<leftarrow> ptracer (t_as_ptracee t);
     w \<leftarrow> upd_PTRACEE ptracee (\<lambda>p. p\<lparr>ptracer := None\<rparr>) w;
     p \<leftarrow> tracee_at ptracer' w;
     if 0 < nb_ptracees (t_as_ptracer p)
     then upd_PTRACER ptracer' (\<lambda>p. p\<lparr>nb_ptracees := nb_ptracees p - 1\<rparr>) w
     else None
   }"

section \<open>Restart\<close>

definition restart_tracee ::
    "'k Procs \<Rightarrow> addr \<Rightarrow> int \<Rightarrow> 'k world \<Rightarrow> (bool \<times> 'k world) option" where
  "restart_tracee P tracee signal w = do {
     t \<leftarrow> tracee_at tracee w;
     if wait_pid (t_as_ptracer t) \<noteq> 0 \<or> signal = -1 then Some (False, w)
     else do {
       let (status, w) = call1 (sp_ptrace P (t_restart_how t) (t_pid t) 0 (of_int signal)) w;
       if status < 0 then Some (False, w)
       else do {
         w \<leftarrow> upd tracee (\<lambda>t. t\<lparr>t_restart_how := 0, t_running := True\<rparr>) w;
         Some (True, w)
       }
     }
   }"

section \<open>End of a tracee\<close>

definition kill_all_tracees :: "'k Procs \<Rightarrow> 'k world \<Rightarrow> 'k world option" where
  "kill_all_tracees P w =
     fold (\<lambda>tracee m. do {
             w \<leftarrow> m;
             t \<leftarrow> tracee_at tracee w;
             Some (snd (call1 (sp_kill P (t_pid t) SIGKILL) w))
           }) (tracees w) (Some w)"

definition terminate_tracee :: "'k Procs \<Rightarrow> addr \<Rightarrow> 'k world \<Rightarrow> 'k world option" where
  "terminate_tracee P tracee w = do {
     w \<leftarrow> upd tracee (\<lambda>t. t\<lparr>t_terminated := True\<rparr>) w;
     t \<leftarrow> tracee_at tracee w;
     if t_killall_on_exit t then kill_all_tracees P w else Some w
   }"

definition push_regs_at :: "'k Kernel \<Rightarrow> addr \<Rightarrow> 'k world \<Rightarrow> (int \<times> 'k world) option" where
  "push_regs_at K tracee w = do {
     t \<leftarrow> tracee_at tracee w;
     let (status, t, w) = push_regs (lift_kernel K) t w;
     Some (status, put_tracee tracee t w)
   }"

definition fetch_regs_at :: "'k Kernel \<Rightarrow> addr \<Rightarrow> 'k world \<Rightarrow> (int \<times> 'k world) option" where
  "fetch_regs_at K tracee w = do {
     t \<leftarrow> tracee_at tracee w;
     let (status, t, w) = fetch_regs (lift_kernel K) t w;
     Some (status, put_tracee tracee t w)
   }"

text \<open>\<open>LIST_REMOVE\<close> through the link of a zombie: it leaves the list that holds it.\<close>

definition remove_zombie :: "addr \<Rightarrow> 'k world \<Rightarrow> 'k world" where
  "remove_zombie zombie = modify (\<lambda>k. k\<lparr>w_objects := (\<lambda>a. map_option (\<lambda>t. t\<lparr>t_as_ptracer :=
     (t_as_ptracer t)\<lparr>zombies := remove1 zombie (zombies (t_as_ptracer t))\<rparr>\<rparr>) (w_objects k a))\<rparr>)"

text \<open>
  The handling of an event (\<open>handle_tracee_event\<close> of tracee/event.c) is an argument of the
  operations that call it back; theory \<open>Event\<close> ties the knot.
\<close>

type_synonym 'k handle_event = "addr \<Rightarrow> int \<Rightarrow> 'k world \<Rightarrow> (int \<times> 'k world) option"

definition release_relative ::
    "'k Procs \<Rightarrow> 'k handle_event \<Rightarrow> addr \<Rightarrow> addr \<Rightarrow> 'k world \<Rightarrow> 'k world option" where
  "release_relative P handle_event tracee relative w = do {
     r \<leftarrow> tracee_at relative w;
     w \<leftarrow> (if t_parent r = Some tracee then upd relative (\<lambda>t. t\<lparr>t_parent := None\<rparr>) w else Some w);
     if ptracer (t_as_ptracee r) = Some tracee then do {
       w \<leftarrow> upd_PTRACEE relative (\<lambda>p. p\<lparr>ptracer := None\<rparr>) w;
       w \<leftarrow> (if ev_pending (event_proot (t_as_ptracee r)) then do {
               (event, w) \<leftarrow> handle_event relative (ev_value (event_proot (t_as_ptracee r))) w;
               map_option snd (restart_tracee P relative event w)
             }
             else if ev_pending (event_ptracer (t_as_ptracee r))
             then map_option snd
                    (restart_tracee P relative (ev_value (event_proot (t_as_ptracee r))) w)
             else Some w);
       upd_PTRACEE relative (\<lambda>_. t_as_ptracee calloc_tracee) w
     }
     else Some w
   }"

fun release_relatives ::
    "'k Procs \<Rightarrow> 'k handle_event \<Rightarrow> addr \<Rightarrow> addr list \<Rightarrow> 'k world \<Rightarrow> 'k world option" where
  "release_relatives P handle_event tracee [] w = Some w"
| "release_relatives P handle_event tracee (relative # rs) w = do {
     w \<leftarrow> release_relative P handle_event tracee relative w;
     release_relatives P handle_event tracee rs w
   }"

text \<open>\<open>None\<close> for the address: out of memory.\<close>

definition zombify ::
    "'k Procs \<Rightarrow> addr \<Rightarrow> addr \<Rightarrow> int \<Rightarrow> 'k world \<Rightarrow> (addr option \<times> 'k world) option" where
  "zombify P tracee ptracer' event w =
     (case new_dummy_tracee P w of
        (None, w) \<Rightarrow> Some (None, w)
      | (Some zombie, w) \<Rightarrow> do {
          t \<leftarrow> tracee_at tracee w;
          w \<leftarrow> upd_PTRACER ptracer' (\<lambda>p. p\<lparr>zombies := zombie # zombies p\<rparr>) w;
          w \<leftarrow> upd zombie (\<lambda>z. z\<lparr>t_is_zombie := True, t_parent := t_parent t, t_clone := t_clone t,
                              t_pid := t_pid t\<rparr>) w;
          w \<leftarrow> detach_from_ptracer tracee w;
          w \<leftarrow> attach_to_ptracer zombie ptracer' w;
          w \<leftarrow> upd_PTRACEE zombie
                 (\<lambda>p. p\<lparr>event_ptracer := \<lparr>ev_value = event, ev_pending = True\<rparr>,
                      ee_is_zombie := True\<rparr>) w;
          Some (Some zombie, w)
        })"

definition wake_without_ptracees ::
    "'k Kernel \<Rightarrow> 'k Procs \<Rightarrow> addr \<Rightarrow> 'k world \<Rightarrow> 'k world option" where
  "wake_without_ptracees K P ptracer' w = do {
     p \<leftarrow> tracee_at ptracer' w;
     if nb_ptracees (t_as_ptracer p) = 0 \<and> wait_pid (t_as_ptracer p) \<noteq> 0 then do {
       w \<leftarrow> upd ptracer' (\<lambda>t. poke_reg t SYSARG_RESULT (of_int (- ECHILD))) w;
       (status, w) \<leftarrow> push_regs_at K ptracer' w;
       w \<leftarrow> upd_PTRACER ptracer' (\<lambda>p. p\<lparr>wait_pid := 0\<rparr>) w;
       map_option snd (restart_tracee P ptracer' 0 w)
     }
     else Some w
   }"

definition remove_tracee ::
    "'k Kernel \<Rightarrow> 'k Procs \<Rightarrow> 'k handle_event \<Rightarrow> addr \<Rightarrow> 'k world \<Rightarrow> 'k world option" where
  "remove_tracee K P handle_event tracee w = do {
     let w = modify (\<lambda>k. k\<lparr>w_tracees := remove1 tracee (w_tracees k)\<rparr>) w;
     w \<leftarrow> release_relatives P handle_event tracee (tracees w) w;
     t \<leftarrow> tracee_at tracee w;
     case ptracer (t_as_ptracee t) of
       None \<Rightarrow> Some w
     | Some ptracer' \<Rightarrow> do {
         let event = ev_value (event_ptracer (t_as_ptracee t));
         (zombie, w) \<leftarrow> (if ev_pending (event_ptracer (t_as_ptracee t)) \<and>
                            (WIFEXITED event \<or> WIFSIGNALED event)
                         then zombify P tracee ptracer' event w else Some (None, w));
         if zombie \<noteq> None then Some w
         else do {
           w \<leftarrow> detach_from_ptracer tracee w;
           wake_without_ptracees K P ptracer' w
         }
       }
   }"

definition before_tracee_free ::
    "'k Kernel \<Rightarrow> 'k Procs \<Rightarrow> 'k handle_event \<Rightarrow> addr \<Rightarrow> 'k world \<Rightarrow> 'k world option" where
  "before_tracee_free K P handle_event tracee w = do {
     t \<leftarrow> tracee_at tracee w;
     if t_is_zombie t then Some (remove_zombie tracee w)
     else remove_tracee K P handle_event tracee w
   }"

definition free_tracee :: "addr \<Rightarrow> 'k world \<Rightarrow> 'k world option" where
  "free_tracee tracee w = do {
     t \<leftarrow> tracee_at tracee w;
     Some (modify (\<lambda>k. k\<lparr>w_objects := (w_objects k)(tracee := None)\<rparr>) w)
   }"

fun free_terminated ::
    "'k Kernel \<Rightarrow> 'k Procs \<Rightarrow> 'k handle_event \<Rightarrow> addr list \<Rightarrow> 'k world \<Rightarrow> 'k world option" where
  "free_terminated K P handle_event [] w = Some w"
| "free_terminated K P handle_event (tracee # next) w = do {
     t \<leftarrow> tracee_at tracee w;
     w \<leftarrow> (if t_terminated t then do {
             w \<leftarrow> before_tracee_free K P handle_event tracee w;
             free_tracee tracee w
           }
           else Some w);
     free_terminated K P handle_event next w
   }"

definition free_terminated_tracees ::
    "'k Kernel \<Rightarrow> 'k Procs \<Rightarrow> 'k handle_event \<Rightarrow> 'k world \<Rightarrow> 'k world option" where
  "free_terminated_tracees K P handle_event w =
     free_terminated K P handle_event (tracees w) w"

section \<open>Configuration\<close>

definition reparent_config :: "Tracee \<Rightarrow> Tracee \<Rightarrow> Tracee" where
  "reparent_config new_parent old_parent =
     new_parent\<lparr>t_verbose := t_verbose old_parent, t_glue := t_glue old_parent\<rparr>"

text \<open>The temporary is a block of its own; \<open>malloc_ok\<close> says whether there is memory for it.\<close>

definition swap_config :: "bool \<Rightarrow> Tracee \<Rightarrow> Tracee \<Rightarrow> int \<times> Tracee \<times> Tracee" where
  "swap_config malloc_ok tracee1 tracee2 =
     (if \<not> malloc_ok then (- ENOMEM, tracee1, tracee2)
      else
        let tmp = reparent_config calloc_tracee tracee1;
            tracee1 = reparent_config tracee1 tracee2;
            tracee2 = reparent_config tracee2 tmp
        in (0, tracee1, tracee2))"

end
