(* ===== verification/Wait.thy ===== *)
theory Wait
  imports Tracees
begin

text \<open>
  The emulation of \<open>wait\<close> (src/library/src/main/jni/ptrace/wait.c): the two stages of the
  call in a ptracer, the events of a ptracee, and \<open>new_child\<close> of tracee/tracee.c, which may
  announce the first stop of a child to its ptracer.
\<close>

unbundle bit_operations_syntax

section \<open>Wait\<close>

definition poke_int32 :: "'k Kernel \<Rightarrow> addr \<Rightarrow> u64 \<Rightarrow> int \<Rightarrow> 'k world \<Rightarrow> 'k world option" where
  "poke_int32 K tracee address v w = do {
     t \<leftarrow> tracee_at tracee w;
     Some (poke_type (lift_kernel K) t address (take 4 (le_bytes (of_int v))) w)
   }"

definition translate_wait_enter :: "addr \<Rightarrow> 'k world \<Rightarrow> (int \<times> 'k world) option" where
  "translate_wait_enter ptracer' w = do {
     w \<leftarrow> upd_PTRACER ptracer' (\<lambda>p. p\<lparr>as_waits_in := WAITS_IN_KERNEL\<rparr>) w;
     p \<leftarrow> tracee_at ptracer' w;
     if nb_ptracees (t_as_ptracer p) = 0 then Some (0, w)
     else do {
       let pid = c_int (uint (peek_reg p ORIGINAL SYSARG_1));
       is_ptracee \<leftarrow>
         (if pid = -1 then Some True
          else do {
            found \<leftarrow> get_ptracee ptracer' pid False True (peek_reg p ORIGINAL SYSARG_3) w;
            case found of
              None \<Rightarrow> Some False
            | Some ptracee \<Rightarrow>
                map_option (\<lambda>t. ptracer (t_as_ptracee t) = Some ptracer') (tracee_at ptracee w)
          });
       if \<not> is_ptracee then Some (0, w)
       else do {
         p \<leftarrow> set_sysnum p PR_void;
         let w = put_tracee ptracer' p w;
         w \<leftarrow> upd_PTRACER ptracer' (\<lambda>p. p\<lparr>as_waits_in := WAITS_IN_PROOT\<rparr>) w;
         Some (0, w)
       }
     }
   }"

definition update_wait_status ::
    "'k Kernel \<Rightarrow> 'k Procs \<Rightarrow> 'k handle_event \<Rightarrow> addr \<Rightarrow> addr \<Rightarrow> 'k world \<Rightarrow>
     (int \<times> 'k world) option" where
  "update_wait_status K P handle_event ptracer' ptracee w = do {
     t \<leftarrow> tracee_at ptracee w;
     let event = ev_value (event_ptracer (t_as_ptracee t));
     if ptracer (t_as_ptracee t) = t_parent t \<and> (WIFEXITED event \<or> WIFSIGNALED event) then do {
       w \<leftarrow> upd ptracer' (\<lambda>p. snd (restart_original_syscall p)) w;
       w \<leftarrow> detach_from_ptracer ptracee w;
       w \<leftarrow> (if ee_is_zombie (t_as_ptracee t) then do {
               w \<leftarrow> before_tracee_free K P handle_event ptracee w;
               free_tracee ptracee w
             }
             else Some w);
       Some (0, w)
     }
     else do {
       p \<leftarrow> tracee_at ptracer' w;
       let address = peek_reg p ORIGINAL SYSARG_2;
       w \<leftarrow> (if address \<noteq> 0 then poke_int32 K ptracer' address event w else Some w);
       if address \<noteq> 0 \<and> os_errno w \<noteq> 0 then Some (- os_errno w, w)
       else do {
         w \<leftarrow> upd_PTRACEE ptracee (\<lambda>p. p\<lparr>event_ptracer := (event_ptracer p)\<lparr>ev_pending := False\<rparr>\<rparr>) w;
         w \<leftarrow> (if ee_is_zombie (t_as_ptracee t) then do {
                 w \<leftarrow> detach_from_ptracer ptracee w;
                 w \<leftarrow> before_tracee_free K P handle_event ptracee w;
                 free_tracee ptracee w
               }
               else Some w);
         Some (t_pid t, w)
       }
     }
   }"

text \<open>The result with the flag \<open>set_result\<close>.\<close>

definition translate_wait_exit ::
    "'k Kernel \<Rightarrow> 'k Procs \<Rightarrow> 'k handle_event \<Rightarrow> addr \<Rightarrow> 'k world \<Rightarrow>
     (int \<times> bool \<times> 'k world) option" where
  "translate_wait_exit K P handle_event ptracer' w = do {
     p \<leftarrow> tracee_at ptracer' w;
     if as_waits_in (t_as_ptracer p) \<noteq> WAITS_IN_PROOT then None
     else do {
       w \<leftarrow> upd_PTRACER ptracer' (\<lambda>p. p\<lparr>as_waits_in := DOESNT_WAIT\<rparr>) w;
       let pid = c_int (uint (peek_reg p ORIGINAL SYSARG_1));
       let options = peek_reg p ORIGINAL SYSARG_3;
       found \<leftarrow> get_stopped_ptracee ptracer' pid True options w;
       case found of
         None \<Rightarrow>
           if nb_ptracees (t_as_ptracer p) = 0 then Some (- ECHILD, True, w)
           else if options AND W_NOHANG \<noteq> 0 then do {
             some \<leftarrow> has_ptracees ptracer' pid options w;
             Some (if some then 0 else - ECHILD, True, w)
           }
           else do {
             w \<leftarrow> upd_PTRACER ptracer' (\<lambda>p. p\<lparr>wait_pid := pid, wait_options := options\<rparr>) w;
             Some (0, True, w)
           }
       | Some ptracee \<Rightarrow> do {
           (status, w) \<leftarrow> update_wait_status K P handle_event ptracer' ptracee w;
           Some (status, status \<noteq> 0, w)
         }
     }
   }"

section \<open>Events of a ptracee\<close>

abbreviation (input) O_TRACESYSGOOD :: u64 where "O_TRACESYSGOOD \<equiv> 0x1"
abbreviation (input) O_TRACEFORK :: u64 where "O_TRACEFORK \<equiv> 0x2"
abbreviation (input) O_TRACEVFORK :: u64 where "O_TRACEVFORK \<equiv> 0x4"
abbreviation (input) O_TRACECLONE :: u64 where "O_TRACECLONE \<equiv> 0x8"
abbreviation (input) O_TRACEEXEC :: u64 where "O_TRACEEXEC \<equiv> 0x10"
abbreviation (input) O_TRACEVFORKDONE :: u64 where "O_TRACEVFORKDONE \<equiv> 0x20"
abbreviation (input) O_TRACEEXIT :: u64 where "O_TRACEEXIT \<equiv> 0x40"
abbreviation (input) O_TRACESECCOMP :: u64 where "O_TRACESECCOMP \<equiv> 0x80"

text \<open>\<open>SIGTRAP | PTRACE_EVENT_x << 8\<close>\<close>

abbreviation (input) EVENT_FORK :: int where "EVENT_FORK \<equiv> SIGTRAP OR push_bit 8 1"
abbreviation (input) EVENT_VFORK :: int where "EVENT_VFORK \<equiv> SIGTRAP OR push_bit 8 2"
abbreviation (input) EVENT_CLONE :: int where "EVENT_CLONE \<equiv> SIGTRAP OR push_bit 8 3"
abbreviation (input) EVENT_EXEC :: int where "EVENT_EXEC \<equiv> SIGTRAP OR push_bit 8 4"
abbreviation (input) EVENT_VFORK_DONE :: int where "EVENT_VFORK_DONE \<equiv> SIGTRAP OR push_bit 8 5"
abbreviation (input) EVENT_EXIT :: int where "EVENT_EXIT \<equiv> SIGTRAP OR push_bit 8 6"
abbreviation (input) EVENT_SECCOMP :: int where "EVENT_SECCOMP \<equiv> SIGTRAP OR push_bit 8 7"
abbreviation (input) EVENT_SECCOMP2 :: int where "EVENT_SECCOMP2 \<equiv> SIGTRAP OR push_bit 8 8"
abbreviation (input) SYSCALL_TRAP :: int where "SYSCALL_TRAP \<equiv> SIGTRAP OR 0x80"

text \<open>
  The \<open>switch\<close> of \<open>handle_ptracee_event\<close>: an event that is not for the ptracer, or the event
  it will see, whether it is handled by the tracer first, whether it starts the tracing,
  and whether the ptracee stays stopped.
\<close>

record Ptracee_case =
  pc_event :: int
  pc_handled_by_proot_first :: bool
  pc_tracing_started :: bool
  pc_keep_stopped :: bool

definition filter_event :: "Tracee \<Rightarrow> u64 \<Rightarrow> int \<Rightarrow> Ptracee_case option" where
  "filter_event ptracee option event =
     (if ptrace_options (t_as_ptracee ptracee) AND option = 0 then None
      else Some \<lparr>pc_event = event, pc_handled_by_proot_first = True, pc_tracing_started = True,
                 pc_keep_stopped = True\<rparr>)"

definition ptracee_case :: "Tracee \<Rightarrow> int \<Rightarrow> Ptracee_case option" where
  "ptracee_case ptracee event =
     (let as_ptracee = t_as_ptracee ptracee;
          plain = \<lparr>pc_event = event, pc_handled_by_proot_first = False,
                   pc_tracing_started = tracing_started as_ptracee, pc_keep_stopped = True\<rparr>
      in if WIFSTOPPED event then
           (let ev = stop_event event
            in if ev = SYSCALL_TRAP then
                 (if ignore_syscalls as_ptracee \<or> ignore_loader_syscalls as_ptracee then None
                  else Some (plain
                    \<lparr>pc_event := (if ptrace_options as_ptracee AND O_TRACESYSGOOD = 0
                                  then event AND NOT (push_bit 8 0x80) else event),
                     pc_handled_by_proot_first := IS_IN_SYSEXIT ptracee\<rparr>))
               else if ev = EVENT_FORK then filter_event ptracee O_TRACEFORK event
               else if ev = EVENT_VFORK then filter_event ptracee O_TRACEVFORK event
               else if ev = EVENT_VFORK_DONE then filter_event ptracee O_TRACEVFORKDONE event
               else if ev = EVENT_CLONE then filter_event ptracee O_TRACECLONE event
               else if ev = EVENT_EXIT then filter_event ptracee O_TRACEEXIT event
               else if ev = EVENT_EXEC then filter_event ptracee O_TRACEEXEC event
               else if ev = EVENT_SECCOMP2 \<or> ev = EVENT_SECCOMP then None
               else Some (plain\<lparr>pc_tracing_started := True\<rparr>))
         else if WIFEXITED event \<or> WIFSIGNALED event
         then Some (plain\<lparr>pc_tracing_started := True, pc_keep_stopped := False\<rparr>)
         else Some plain)"

definition notify_ptracer ::
    "'k Kernel \<Rightarrow> 'k Procs \<Rightarrow> 'k handle_event \<Rightarrow> addr \<Rightarrow> addr \<Rightarrow> bool \<Rightarrow> 'k world \<Rightarrow>
     (bool \<times> 'k world) option" where
  "notify_ptracer K P handle_event ptracer' ptracee keep_stopped w = do {
     p \<leftarrow> tracee_at ptracer' w;
     let w = snd (call1 (sp_kill P (t_pid p) SIGCHLD) w);
     t \<leftarrow> tracee_at ptracee w;
     if (wait_pid (t_as_ptracer p) = -1 \<or> wait_pid (t_as_ptracer p) = t_pid t) \<and>
        EXPECTED_WAIT_CLONE (wait_options (t_as_ptracer p)) t
     then do {
       (status, w) \<leftarrow> update_wait_status K P handle_event ptracer' ptracee w;
       w \<leftarrow> (if status \<noteq> 0 then upd ptracer' (\<lambda>p. poke_reg p SYSARG_RESULT (of_int status)) w
             else Some w);
       (_, w) \<leftarrow> push_regs_at K ptracer' w;
       w \<leftarrow> upd_PTRACER ptracer' (\<lambda>p. p\<lparr>wait_pid := 0\<rparr>) w;
       (restarted, w) \<leftarrow> restart_tracee P ptracer' 0 w;
       Some (restarted \<and> keep_stopped, w)
     }
     else Some (keep_stopped, w)
   }"

definition handle_ptracee_event ::
    "'k Kernel \<Rightarrow> 'k Procs \<Rightarrow> 'k handle_event \<Rightarrow> addr \<Rightarrow> int \<Rightarrow> 'k world \<Rightarrow>
     (bool \<times> 'k world) option" where
  "handle_ptracee_event K P handle_event ptracee event w = do {
     t \<leftarrow> tracee_at ptracee w;
     ptracer' \<leftarrow> ptracer (t_as_ptracee t);
     w \<leftarrow> upd_PTRACEE ptracee (\<lambda>p. p\<lparr>event_proot := \<lparr>ev_value = event, ev_pending = True\<rparr>\<rparr>) w;
     case ptracee_case t event of
       None \<Rightarrow> Some (False, w)
     | Some c \<Rightarrow> do {
         w \<leftarrow> upd_PTRACEE ptracee (\<lambda>p. p\<lparr>tracing_started := pc_tracing_started c\<rparr>) w;
         if \<not> pc_tracing_started c then Some (False, w)
         else do {
           w \<leftarrow> (if pc_handled_by_proot_first c then do {
                   (signal, w) \<leftarrow> handle_event ptracee event w;
                   w \<leftarrow> upd_PTRACEE ptracee
                          (\<lambda>p. p\<lparr>event_proot := (event_proot p)\<lparr>ev_value := signal\<rparr>\<rparr>) w;
                   if signal = 0 then Some w else None
                 }
                 else Some w);
           w \<leftarrow> upd_PTRACEE ptracee
                  (\<lambda>p. p\<lparr>event_ptracer := \<lparr>ev_value = pc_event c, ev_pending = True\<rparr>\<rparr>) w;
           notify_ptracer K P handle_event ptracer' ptracee (pc_keep_stopped c) w
         }
       }
   }"

section \<open>Children\<close>

abbreviation (input) CLONE_PTRACE :: u64 where "CLONE_PTRACE \<equiv> 0x2000"
abbreviation (input) CLONE_VFORK :: u64 where "CLONE_VFORK \<equiv> 0x4000"
abbreviation (input) CLONE_PARENT :: u64 where "CLONE_PARENT \<equiv> 0x8000"
abbreviation (input) CLONE_THREAD :: u64 where "CLONE_THREAD \<equiv> 0x10000"

definition event_option :: "u64 \<Rightarrow> u64" where
  "event_option clone_flags =
     (if clone_flags = 0 then O_TRACEFORK
      else if clone_flags AND 0xFF = of_int SIGCHLD then O_TRACEFORK
      else if clone_flags AND CLONE_VFORK \<noteq> 0 then O_TRACEVFORK
      else O_TRACECLONE)"

definition inherit :: "Tracee \<Rightarrow> addr \<Rightarrow> u64 \<Rightarrow> Tracee \<Rightarrow> Tracee" where
  "inherit p parent clone_flags child =
     child\<lparr>t_verbose := t_verbose p, t_seccomp := t_seccomp p,
           t_sysexit_pending := t_sysexit_pending p, t_restart_how := t_restart_how p,
           t_is_aarch32 := t_is_aarch32 p,
           t_parent := (if clone_flags AND CLONE_PARENT \<noteq> 0 then t_parent p else Some parent),
           t_clone := (clone_flags AND CLONE_THREAD \<noteq> 0)\<rparr>"

definition inherit_paths :: "Tracee \<Rightarrow> Tracee \<Rightarrow> Tracee" where
  "inherit_paths p child =
     child\<lparr>t_glue := t_glue p, t_host_ldso_paths := t_host_ldso_paths p,
           t_guest_ldso_paths := t_guest_ldso_paths p, t_tool_name := t_tool_name p\<rparr>"

definition inherited_options :: u64 where
  "inherited_options = O_TRACECLONE OR O_TRACEEXEC OR O_TRACEEXIT OR O_TRACEFORK OR
     O_TRACESYSGOOD OR O_TRACEVFORK OR O_TRACEVFORKDONE"

definition attach_child :: "Tracee \<Rightarrow> addr \<Rightarrow> u64 \<Rightarrow> 'k world \<Rightarrow> 'k world option" where
  "attach_child p child clone_flags w =
     (case ptracer (t_as_ptracee p) of
        Some ptracer' \<Rightarrow>
          if event_option clone_flags AND ptrace_options (t_as_ptracee p) \<noteq> 0 \<or>
             clone_flags AND CLONE_PTRACE \<noteq> 0
          then do {
            w \<leftarrow> attach_to_ptracer child ptracer' w;
            upd_PTRACEE child (\<lambda>c. c\<lparr>ptrace_options := ptrace_options c OR
              (ptrace_options (t_as_ptracee p) AND inherited_options)\<rparr>) w
          }
          else Some w
      | None \<Rightarrow> Some w)"

definition release_sigstop ::
    "'k Kernel \<Rightarrow> 'k Procs \<Rightarrow> 'k handle_event \<Rightarrow> addr \<Rightarrow> 'k world \<Rightarrow> 'k world option" where
  "release_sigstop K P handle_event child w = do {
     c \<leftarrow> tracee_at child w;
     if t_sigstop c \<noteq> SIGSTOP_PENDING then Some w
     else do {
       w \<leftarrow> upd child (\<lambda>c. c\<lparr>t_sigstop := SIGSTOP_ALLOWED\<rparr>) w;
       (keep_stopped, w) \<leftarrow>
         (if ptracer (t_as_ptracee c) = None then Some (False, w)
          else if tracing_started (t_as_ptracee c) then None
          else do {
            (keep_stopped, w) \<leftarrow>
              handle_ptracee_event K P handle_event child (W_STOPCODE SIGSTOP) w;
            w \<leftarrow> upd_PTRACEE child (\<lambda>c. c\<lparr>event_proot := \<lparr>ev_value = 0, ev_pending = False\<rparr>\<rparr>) w;
            Some (keep_stopped, w)
          });
       if keep_stopped then Some w else map_option snd (restart_tracee P child 0 w)
     }
   }"

definition new_child ::
    "'k Kernel \<Rightarrow> 'k Procs \<Rightarrow> 'k handle_event \<Rightarrow> addr \<Rightarrow> u64 \<Rightarrow> 'k world \<Rightarrow>
     (int \<times> 'k world) option" where
  "new_child K P handle_event parent clone_flags w = do {
     (status, w) \<leftarrow> fetch_regs_at K parent w;
     p \<leftarrow> tracee_at parent w;
     is_clone \<leftarrow> (if status \<ge> 0 then map_option (\<lambda>s. s = PR_clone) (get_sysnum p CURRENT)
                  else Some False);
     let clone_flags = (if is_clone then peek_reg p CURRENT SYSARG_1 else clone_flags);
     let (status, pid, w) = call2 (sp_geteventmsg P (t_pid p)) w;
     if status < 0 \<or> pid = 0 then Some (status, w)
     else do {
       (child, w) \<leftarrow> get_tracee P (Some parent) (c_int (uint pid)) True w;
       case child of
         None \<Rightarrow> Some (- ENOMEM, w)
       | Some child \<Rightarrow> do {
           c \<leftarrow> tracee_at child w;
           if t_glue c \<noteq> None \<or> t_parent c \<noteq> None \<or> ptracer (t_as_ptracee c) \<noteq> None then None
           else do {
             w \<leftarrow> upd child (inherit p parent clone_flags) w;
             w \<leftarrow> attach_child p child clone_flags w;
             w \<leftarrow> upd child (inherit_paths p) w;
             w \<leftarrow> release_sigstop K P handle_event child w;
             Some (0, w)
           }
         }
     }
   }"

end
