(* ===== verification/Ptrace.thy ===== *)
theory Ptrace
  imports Wait
begin

text \<open>
  The emulation of \<open>ptrace\<close> (src/library/src/main/jni/ptrace/ptrace.c): the call is void for
  the kernel and served at its exit stage, on the ptracees of the calling tracee.
\<close>

unbundle bit_operations_syntax

section \<open>Requests\<close>

abbreviation (input) PTRACE_TRACEME :: u64 where "PTRACE_TRACEME \<equiv> 0"
abbreviation (input) PTRACE_PEEKTEXT :: u64 where "PTRACE_PEEKTEXT \<equiv> 1"
abbreviation (input) PTRACE_PEEKDATA :: u64 where "PTRACE_PEEKDATA \<equiv> 2"
abbreviation (input) PTRACE_PEEKUSER :: u64 where "PTRACE_PEEKUSER \<equiv> 3"
abbreviation (input) PTRACE_POKETEXT :: u64 where "PTRACE_POKETEXT \<equiv> 4"
abbreviation (input) PTRACE_POKEDATA :: u64 where "PTRACE_POKEDATA \<equiv> 5"
abbreviation (input) PTRACE_POKEUSER :: u64 where "PTRACE_POKEUSER \<equiv> 6"
abbreviation (input) PTRACE_KILL :: u64 where "PTRACE_KILL \<equiv> 8"
abbreviation (input) PTRACE_GETREGS :: u64 where "PTRACE_GETREGS \<equiv> 12"
abbreviation (input) PTRACE_SETREGS :: u64 where "PTRACE_SETREGS \<equiv> 13"
abbreviation (input) PTRACE_GETFPREGS :: u64 where "PTRACE_GETFPREGS \<equiv> 14"
abbreviation (input) PTRACE_SETFPREGS :: u64 where "PTRACE_SETFPREGS \<equiv> 15"
abbreviation (input) PTRACE_ATTACH :: u64 where "PTRACE_ATTACH \<equiv> 16"
abbreviation (input) PTRACE_DETACH :: u64 where "PTRACE_DETACH \<equiv> 17"
abbreviation (input) PTRACE_SET_SYSCALL :: u64 where "PTRACE_SET_SYSCALL \<equiv> 23"
abbreviation (input) PTRACE_SETOPTIONS :: u64 where "PTRACE_SETOPTIONS \<equiv> 0x4200"
abbreviation (input) PTRACE_GETEVENTMSG :: u64 where "PTRACE_GETEVENTMSG \<equiv> 0x4201"
abbreviation (input) PTRACE_GETSIGINFO :: u64 where "PTRACE_GETSIGINFO \<equiv> 0x4202"
abbreviation (input) PTRACE_SETSIGINFO :: u64 where "PTRACE_SETSIGINFO \<equiv> 0x4203"
abbreviation (input) PTRACE_GETREGSET :: u64 where "PTRACE_GETREGSET \<equiv> 0x4204"
abbreviation (input) PTRACE_SETREGSET :: u64 where "PTRACE_SETREGSET \<equiv> 0x4205"
abbreviation (input) PTRACE_SINGLESTEP :: int where "PTRACE_SINGLESTEP \<equiv> 9"
abbreviation (input) PTRACE_SINGLEBLOCK :: int where "PTRACE_SINGLEBLOCK \<equiv> 33"

text \<open>Sizes of the structures of an arm64 build.\<close>

abbreviation (input) sizeof_siginfo :: nat where "sizeof_siginfo \<equiv> 128"
abbreviation (input) sizeof_regs :: nat where "sizeof_regs \<equiv> 272"
abbreviation (input) sizeof_fpregs :: nat where "sizeof_fpregs \<equiv> 528"

section \<open>Enter stage\<close>

definition translate_ptrace_enter :: "addr \<Rightarrow> 'k world \<Rightarrow> (int \<times> 'k world) option" where
  "translate_ptrace_enter tracee w = do {
     t \<leftarrow> tracee_at tracee w;
     t \<leftarrow> set_sysnum t PR_void;
     Some (0, put_tracee tracee t w)
   }"

section \<open>Requests without a stopped ptracee\<close>

definition ptrace_traceme :: "'k Procs \<Rightarrow> addr \<Rightarrow> 'k world \<Rightarrow> (int \<times> 'k world) option" where
  "ptrace_traceme P tracee w = do {
     t \<leftarrow> tracee_at tracee w;
     if ptracer (t_as_ptracee t) \<noteq> None \<or> t_parent t = Some tracee then Some (- EPERM, w)
     else do {
       ptracer' \<leftarrow> t_parent t;
       w \<leftarrow> attach_to_ptracer tracee ptracer' w;
       p \<leftarrow> tracee_at ptracer' w;
       w \<leftarrow> (if as_waits_in (t_as_ptracer p) \<noteq> WAITS_IN_KERNEL then Some w
             else do {
               let (status, w) = call1 (sp_kill P (t_pid p) SIGSTOP) w;
               if status < 0 then Some w
               else do {
                 w \<leftarrow> upd ptracer' (\<lambda>p. p\<lparr>t_sigstop := SIGSTOP_IGNORED\<rparr>) w;
                 upd_PTRACER ptracer' (\<lambda>p. p\<lparr>as_waits_in := WAITS_IN_PROOT\<rparr>) w
               }
             });
       w \<leftarrow> upd tracee (\<lambda>t. if t_seccomp t = ENABLED then t\<lparr>t_seccomp := DISABLING\<rparr> else t) w;
       Some (0, w)
     }
   }"

definition ptrace_attach :: "'k Procs \<Rightarrow> addr \<Rightarrow> pid \<Rightarrow> 'k world \<Rightarrow> (int \<times> 'k world) option" where
  "ptrace_attach P ptracer' pid w = do {
     (found, w) \<leftarrow> get_tracee P (Some ptracer') pid False w;
     case found of
       None \<Rightarrow> Some (- ESRCH, w)
     | Some ptracee \<Rightarrow> do {
         t \<leftarrow> tracee_at ptracee w;
         if ptracer (t_as_ptracee t) \<noteq> None \<or> ptracee = ptracer' then Some (- EPERM, w)
         else do {
           w \<leftarrow> attach_to_ptracer ptracee ptracer' w;
           Some (0, snd (call1 (sp_kill P pid SIGSTOP) w))
         }
       }
   }"

section \<open>Requests on a stopped ptracee\<close>

text \<open>
  A request either returns its status (\<open>Inl\<close>), or restarts the ptracee with a forced signal
  (\<open>-1\<close> for none) and a status (\<open>Inr\<close>).
\<close>

type_synonym 'k request = "(((int, int \<times> int) sum) \<times> 'k world) option"

definition request_done :: "'k world \<Rightarrow> 'k request" where
  "request_done w = Some (Inl 0, w)"

definition request_errno :: "'k world \<Rightarrow> 'k request" where
  "request_errno w = Some (Inl (- os_errno w), w)"

definition poke_word_at :: "'k Kernel \<Rightarrow> addr \<Rightarrow> u64 \<Rightarrow> u64 \<Rightarrow> 'k world \<Rightarrow> 'k request" where
  "poke_word_at K ptracer' address v w = do {
     p \<leftarrow> tracee_at ptracer' w;
     let w = poke_word (lift_kernel K) p address v w;
     if os_errno w \<noteq> 0 then request_errno w else request_done w
   }"

definition write_data_at :: "'k Kernel \<Rightarrow> addr \<Rightarrow> u64 \<Rightarrow> byte list \<Rightarrow> 'k world \<Rightarrow> 'k request" where
  "write_data_at K ptracer' address bs w = do {
     p \<leftarrow> tracee_at ptracer' w;
     let (status, w) = write_data (lift_kernel K) p address bs w;
     if status < 0 then Some (Inl status, w) else request_done w
   }"

definition ptrace_peek :: "'k Kernel \<Rightarrow> 'k Procs \<Rightarrow> addr \<Rightarrow> u64 \<Rightarrow> pid \<Rightarrow> u64 \<Rightarrow> u64 \<Rightarrow>
    'k world \<Rightarrow> 'k request" where
  "ptrace_peek K P ptracer' request pid address data w =
     (let (result, w) = call1 (sp_ptrace_peek P (uint request) pid address) (set_errno 0 w)
      in if os_errno w \<noteq> 0 then request_errno w else poke_word_at K ptracer' data result w)"

definition ptrace_poke ::
    "'k Procs \<Rightarrow> u64 \<Rightarrow> pid \<Rightarrow> u64 \<Rightarrow> u64 \<Rightarrow> 'k world \<Rightarrow> 'k request" where
  "ptrace_poke P request pid address data w =
     (let (status, w) = call1 (sp_ptrace P (uint request) pid address data) w
      in if status < 0 then request_errno w else request_done w)"

definition ptrace_poke_data ::
    "'k Procs \<Rightarrow> Tracee \<Rightarrow> Tracee \<Rightarrow> u64 \<Rightarrow> pid \<Rightarrow> u64 \<Rightarrow> u64 \<Rightarrow> 'k world \<Rightarrow> 'k request" where
  "ptrace_poke_data P p t request pid address data w =
     (if is_32on64_mode p then
        (let (tmp, w) = call1 (sp_ptrace_peek P (uint PTRACE_PEEKDATA) (t_pid t) address)
                          (set_errno 0 w)
         in if os_errno w \<noteq> 0 then request_errno w
            else ptrace_poke P request pid address (data OR (tmp AND 0xFFFFFFFF00000000)) w)
      else ptrace_poke P request pid address data w)"

definition ptrace_get_struct :: "'k Kernel \<Rightarrow> 'k Procs \<Rightarrow> addr \<Rightarrow> u64 \<Rightarrow> pid \<Rightarrow> u64 \<Rightarrow> nat \<Rightarrow>
    (byte list \<Rightarrow> byte list option) \<Rightarrow> 'k world \<Rightarrow> 'k request" where
  "ptrace_get_struct K P ptracer' request pid data sz convert w =
     (let (status, buffer, w) = call2 (sp_ptrace_get P (uint request) pid 0 sz) w
      in if status < 0 then request_errno w
         else do { buffer \<leftarrow> convert buffer; write_data_at K ptracer' data buffer w })"

definition ptrace_set_struct :: "'k Kernel \<Rightarrow> 'k Procs \<Rightarrow> Tracee \<Rightarrow> u64 \<Rightarrow> pid \<Rightarrow> u64 \<Rightarrow> nat \<Rightarrow>
    (byte list \<Rightarrow> byte list result) \<Rightarrow> 'k world \<Rightarrow> 'k request" where
  "ptrace_set_struct K P p request pid data sz convert w =
     (let (status, buffer, w) = read_data (lift_kernel K) p data sz w
      in if status < 0 then Some (Inl status, w)
         else do {
           converted \<leftarrow> convert buffer;
           case converted of
             Inl status \<Rightarrow> Some (Inl status, w)
           | Inr buffer \<Rightarrow>
               let (status, w) = call1 (sp_ptrace_set P (uint request) pid 0 buffer) w
               in if status < 0 then request_errno w else request_done w
         })"

text \<open>
  The vector of a register set in the memory of the ptracer.  For the log, the answer to
  \<open>PTRACE_GETREGSET\<close> is read as the general purpose registers: nine words of the block.
\<close>

definition ptrace_iovec ::
    "'k Kernel \<Rightarrow> Tracee \<Rightarrow> u64 \<Rightarrow> 'k world \<Rightarrow> (int + u64 \<times> u64) \<times> 'k world" where
  "ptrace_iovec K p data w =
     (let (base, w) = peek_word (lift_kernel K) p data w
      in if os_errno w \<noteq> 0 then (Inl (- os_errno w), w)
         else let (len, w) = peek_word (lift_kernel K) p (data + of_nat (sizeof_word p)) w
              in if os_errno w \<noteq> 0 then (Inl (- os_errno w), w) else (Inr (base, len), w))"

definition ptrace_getregset :: "'k Kernel \<Rightarrow> 'k Procs \<Rightarrow> addr \<Rightarrow> Tracee \<Rightarrow> pid \<Rightarrow> u64 \<Rightarrow> u64 \<Rightarrow>
    'k world \<Rightarrow> 'k request" where
  "ptrace_getregset K P ptracer' p pid address data w =
     (case ptrace_iovec K p data w of
        (Inl status, w) \<Rightarrow> Some (Inl status, w)
      | (Inr (base, len), w) \<Rightarrow>
          let (available, w) = call1 (sp_calloc_bytes P (unat len)) w
          in if \<not> available then Some (Inl (- ENOMEM), w)
             else let (status, bs, w) = call2 (sp_getregset P pid address (unat len)) w
                  in if status < 0 then Some (Inl status, w)
                     else let bs = take (unat len) bs;
                              (status, w) = writev_data (lift_kernel K) p base [bs] w
                          in if status < 0 then Some (Inl status, w)
                             else do {
                               (r, w) \<leftarrow> poke_word_at K ptracer' (data + of_nat (sizeof_word p))
                                          (of_nat (length bs)) w;
                               if r = Inl 0 \<and> unat len < 9 * 8 then None else Some (r, w)
                             })"

definition ptrace_setregset ::
    "'k Kernel \<Rightarrow> 'k Procs \<Rightarrow> Tracee \<Rightarrow> pid \<Rightarrow> u64 \<Rightarrow> u64 \<Rightarrow> 'k world \<Rightarrow> 'k request" where
  "ptrace_setregset K P p pid address data w =
     (case ptrace_iovec K p data w of
        (Inl status, w) \<Rightarrow> Some (Inl status, w)
      | (Inr (base, len), w) \<Rightarrow>
          let (available, w) = call1 (sp_calloc_bytes P (unat len)) w
          in if \<not> available then Some (Inl (- ENOMEM), w)
             else let (status, bs, w) = read_data (lift_kernel K) p base (unat len) w
                  in if status < 0 then Some (Inl status, w)
                     else let (status, w) = call1 (sp_setregset P pid address bs) w
                          in if status < 0 then Some (Inl status, w) else request_done w)"

text \<open>
  The conversions of the registers of a 32-bit ptracer are \<open>assert(0)\<close> in an arm64 build
  (ptrace/user.h); there its register structures have no bytes.
\<close>

definition ptrace_getregs :: "'k Kernel \<Rightarrow> 'k Procs \<Rightarrow> addr \<Rightarrow> Tracee \<Rightarrow> pid \<Rightarrow> u64 \<Rightarrow>
    'k world \<Rightarrow> 'k request" where
  "ptrace_getregs K P ptracer' p pid data =
     ptrace_get_struct K P ptracer' PTRACE_GETREGS pid data sizeof_regs
       (\<lambda>bs. if is_32on64_mode p then None else Some bs)"

definition ptrace_setregs :: "'k Kernel \<Rightarrow> 'k Procs \<Rightarrow> Tracee \<Rightarrow> pid \<Rightarrow> u64 \<Rightarrow>
    'k world \<Rightarrow> 'k request" where
  "ptrace_setregs K P p pid data =
     ptrace_set_struct K P p PTRACE_SETREGS pid data
       (if is_32on64_mode p then 0 else sizeof_regs)
       (\<lambda>bs. if is_32on64_mode p then None else Some (Inr bs))"

definition ptrace_getfpregs :: "'k Kernel \<Rightarrow> 'k Procs \<Rightarrow> addr \<Rightarrow> Tracee \<Rightarrow> pid \<Rightarrow> u64 \<Rightarrow>
    'k world \<Rightarrow> 'k request" where
  "ptrace_getfpregs K P ptracer' p pid data =
     ptrace_get_struct K P ptracer' PTRACE_GETFPREGS pid data sizeof_fpregs
       (\<lambda>bs. Some (if is_32on64_mode p then [] else bs))"

definition ptrace_setfpregs :: "'k Kernel \<Rightarrow> 'k Procs \<Rightarrow> Tracee \<Rightarrow> pid \<Rightarrow> u64 \<Rightarrow>
    'k world \<Rightarrow> 'k request" where
  "ptrace_setfpregs K P p pid data =
     ptrace_set_struct K P p PTRACE_SETFPREGS pid data
       (if is_32on64_mode p then 0 else sizeof_fpregs)
       (\<lambda>bs. Some (if is_32on64_mode p then Inl (- ENOTSUP) else Inr bs))"

text \<open>The \<open>switch\<close> on the request.\<close>

definition ptrace_request :: "'k Kernel \<Rightarrow> 'k Procs \<Rightarrow> addr \<Rightarrow> addr \<Rightarrow> u64 \<Rightarrow> pid \<Rightarrow> u64 \<Rightarrow> u64 \<Rightarrow>
    'k world \<Rightarrow> 'k request" where
  "ptrace_request K P ptracer' ptracee request pid address data w = do {
     p \<leftarrow> tracee_at ptracer' w;
     t \<leftarrow> tracee_at ptracee w;
     let data_int = c_int (uint data);
     if request = of_int PTRACE_SYSCALL then do {
       w \<leftarrow> upd_PTRACEE ptracee (\<lambda>t. t\<lparr>ignore_syscalls := False\<rparr>) w;
       Some (Inr (data_int, 0), w)
     }
     else if request = of_int PTRACE_CONT then do {
       w \<leftarrow> upd_PTRACEE ptracee (\<lambda>t. t\<lparr>ignore_syscalls := True\<rparr>) w;
       Some (Inr (data_int, 0), w)
     }
     else if request = of_int PTRACE_SINGLESTEP then do {
       w \<leftarrow> upd ptracee (\<lambda>t. t\<lparr>t_restart_how := PTRACE_SINGLESTEP\<rparr>) w;
       Some (Inr (data_int, 0), w)
     }
     else if request = of_int PTRACE_SINGLEBLOCK then do {
       w \<leftarrow> upd ptracee (\<lambda>t. t\<lparr>t_restart_how := PTRACE_SINGLEBLOCK\<rparr>) w;
       Some (Inr (data_int, 0), w)
     }
     else if request = PTRACE_DETACH then do {
       w \<leftarrow> detach_from_ptracer ptracee w;
       Some (Inr (-1, 0), w)
     }
     else if request = PTRACE_KILL then
       (let (status, w) = call1 (sp_ptrace P (uint request) pid 0 0) w
        in Some (Inr (-1, status), w))
     else if request = PTRACE_SETOPTIONS then
       (if data AND O_TRACESECCOMP \<noteq> 0 then Some (Inl (- EINVAL), w)
        else do {
          w \<leftarrow> upd_PTRACEE ptracee (\<lambda>t. t\<lparr>ptrace_options := data\<rparr>) w;
          request_done w
        })
     else if request = PTRACE_GETEVENTMSG then
       (let (status, result, w) = call2 (sp_geteventmsg P pid) w
        in if status < 0 then request_errno w else poke_word_at K ptracer' data result w)
     else if request = PTRACE_PEEKUSER then
       (if is_32on64_mode p then None else ptrace_peek K P ptracer' request pid address data w)
     else if request = PTRACE_PEEKTEXT \<or> request = PTRACE_PEEKDATA then
       ptrace_peek K P ptracer' request pid address data w
     else if request = PTRACE_POKEUSER then
       (if is_32on64_mode p then None else ptrace_poke P request pid address data w)
     else if request = PTRACE_POKETEXT \<or> request = PTRACE_POKEDATA then
       ptrace_poke_data P p t request pid address data w
     else if request = PTRACE_GETSIGINFO then
       ptrace_get_struct K P ptracer' request pid data sizeof_siginfo Some w
     else if request = PTRACE_SETSIGINFO then
       ptrace_set_struct K P p request pid data sizeof_siginfo (\<lambda>bs. Some (Inr bs)) w
     else if request = PTRACE_GETREGS then
       ptrace_getregs K P ptracer' p pid data w
     else if request = PTRACE_SETREGS then
       ptrace_setregs K P p pid data w
     else if request = PTRACE_GETFPREGS then
       ptrace_getfpregs K P ptracer' p pid data w
     else if request = PTRACE_SETFPREGS then
       ptrace_setfpregs K P p pid data w
     else if request = PTRACE_GETREGSET then ptrace_getregset K P ptracer' p pid address data w
     else if request = PTRACE_SETREGSET then ptrace_setregset K P p pid address data w
     else if request = PTRACE_SET_SYSCALL then ptrace_poke P request pid address data w
     else Some (Inl (- ENOTSUP), w)
   }"

section \<open>Exit stage\<close>

definition restart_ptracee ::
    "'k Procs \<Rightarrow> 'k handle_event \<Rightarrow> addr \<Rightarrow> int \<Rightarrow> 'k world \<Rightarrow> 'k world option" where
  "restart_ptracee P handle_event ptracee forced_signal w = do {
     t \<leftarrow> tracee_at ptracee w;
     (signal, w) \<leftarrow>
       (if ev_pending (event_proot (t_as_ptracee t))
        then handle_event ptracee (ev_value (event_proot (t_as_ptracee t))) w
        else Some (ev_value (event_proot (t_as_ptracee t)), w));
     map_option snd
       (restart_tracee P ptracee (if forced_signal \<noteq> -1 then forced_signal else signal) w)
   }"

definition translate_ptrace_exit ::
    "'k Kernel \<Rightarrow> 'k Procs \<Rightarrow> 'k handle_event \<Rightarrow> addr \<Rightarrow> 'k world \<Rightarrow> (int \<times> 'k world) option" where
  "translate_ptrace_exit K P handle_event tracee w = do {
     p \<leftarrow> tracee_at tracee w;
     let request = peek_reg p ORIGINAL SYSARG_1;
     let pid = peek_reg p ORIGINAL SYSARG_2;
     let address = peek_reg p ORIGINAL SYSARG_3;
     let data = peek_reg p ORIGINAL SYSARG_4;
     let pid = (if is_32on64_mode p \<and> pid = 0xFFFFFFFF then - 1 else pid);
     let pid_t = c_int (uint pid);
     if request = PTRACE_TRACEME then ptrace_traceme P tracee w
     else if request = PTRACE_ATTACH then ptrace_attach P tracee pid_t w
     else do {
       found \<leftarrow> get_stopped_ptracee tracee pid_t False W_WALL w;
       case found of
         None \<Rightarrow> do {
           (_, w) \<leftarrow> get_tracee P (Some tracee) pid_t False w;
           Some (- ESRCH, w)
         }
       | Some ptracee \<Rightarrow> do {
           t \<leftarrow> tracee_at ptracee w;
           if ee_is_zombie (t_as_ptracee t) \<or> ptracer (t_as_ptracee t) \<noteq> Some tracee \<or> pid = - 1
           then Some (- ESRCH, w)
           else do {
             (r, w) \<leftarrow> ptrace_request K P tracee ptracee request pid_t address data w;
             case r of
               Inl status \<Rightarrow> Some (status, w)
             | Inr (forced_signal, status) \<Rightarrow> do {
                 w \<leftarrow> restart_ptracee P handle_event ptracee forced_signal w;
                 Some (status, w)
               }
           }
         }
     }
   }"

end
