(* ===== verification/Seccomp.thy ===== *)
theory Seccomp
  imports Sysnum
begin

text \<open>
  The seccomp filter that reports to the tracer the system calls it handles
  (src/library/src/main/jni/syscall/seccomp.c, seccomp.h; arrays of cmn/cmn_vlarray.c): the
  compiler from a list of filtered numbers to a BPF program, the merging of the lists, and
  the installation.  An array allocation of \<open>n\<close> elements succeeds if \<open>alloc n\<close>.  The machine
  that runs the program is the kernel's: the locale \<open>bpf_machine\<close> states what each
  instruction of the program does.
\<close>

section \<open>Data\<close>

record FilteredSysnum =
  fs_value :: Sysnum
  fs_flags :: u64

record SeccompArch =
  sa_value :: u32
  sa_abis :: "Abi list"

abbreviation FILTER_SYSEXIT :: u64 where "FILTER_SYSEXIT \<equiv> 1"
abbreviation AUDIT_ARCH_AARCH64 :: u32 where "AUDIT_ARCH_AARCH64 \<equiv> 0xC00000B7"
abbreviation AUDIT_ARCH_ARM :: u32 where "AUDIT_ARCH_ARM \<equiv> 0x40000028"
abbreviation SECCOMP_RET_KILL :: u32 where "SECCOMP_RET_KILL \<equiv> 0"
abbreviation SECCOMP_RET_TRACE :: u32 where "SECCOMP_RET_TRACE \<equiv> 0x7ff00000"
abbreviation SECCOMP_RET_ALLOW :: u32 where "SECCOMP_RET_ALLOW \<equiv> 0x7fff0000"

definition SECCOMP_ARCHS :: "SeccompArch list" where
  "SECCOMP_ARCHS = [\<lparr>sa_value = AUDIT_ARCH_AARCH64, sa_abis = [ABI_DEFAULT]\<rparr>,
                    \<lparr>sa_value = AUDIT_ARCH_ARM, sa_abis = [ABI_2]\<rparr>]"

text \<open>The instruction classes the program uses, and the macros that build them.\<close>

datatype bpf_code = LD_W_ABS | JMP_JEQ_K | JMP_JGT_K | JMP_JGE_K | JMP_JA | RET_K

record sock_filter =
  sf_code :: bpf_code
  sf_jt :: nat
  sf_jf :: nat
  sf_k :: u32

definition BPF_STMT :: "bpf_code \<Rightarrow> u32 \<Rightarrow> sock_filter" where
  "BPF_STMT code k = \<lparr>sf_code = code, sf_jt = 0, sf_jf = 0, sf_k = k\<rparr>"

definition BPF_JUMP :: "bpf_code \<Rightarrow> u32 \<Rightarrow> nat \<Rightarrow> nat \<Rightarrow> sock_filter" where
  "BPF_JUMP code k jt jf = \<lparr>sf_code = code, sf_jt = jt, sf_jf = jf, sf_k = k\<rparr>"

text \<open>\<open>struct seccomp_data\<close> and the offsets of its fields; the architecture is little endian.\<close>

record seccomp_data =
  sd_nr :: u32
  sd_arch :: u32
  sd_ip :: u64

abbreviation syscall_offset :: u32 where "syscall_offset \<equiv> 0"
abbreviation arch_offset :: u32 where "arch_offset \<equiv> 4"
abbreviation ip_offset :: u32 where "ip_offset \<equiv> 8"

text \<open>\<open>struct sock_fprog\<close>: \<open>len\<close> is an \<open>unsigned short\<close>.\<close>

record sock_fprog =
  fp_len :: nat
  fp_filter :: "sock_filter list"

text \<open>The static variables of the file.\<close>

record seccomp_statics =
  libc_start :: u64
  libc_end :: u64
  s_exclude_libc :: bool

section \<open>Compiler\<close>

definition set_len :: "sock_fprog \<Rightarrow> sock_fprog" where
  "set_len program = program\<lparr>fp_len := length (fp_filter program) mod 2 ^ 16\<rparr>"

definition new_program_filter :: "(nat \<Rightarrow> bool) \<Rightarrow> sock_fprog result" where
  "new_program_filter alloc =
     Some (if alloc 0 then Inr \<lparr>fp_len = 0, fp_filter = []\<rparr> else Inl (- ENOMEM))"

definition add_statements ::
    "(nat \<Rightarrow> bool) \<Rightarrow> sock_filter list \<Rightarrow> sock_fprog \<Rightarrow> sock_fprog result" where
  "add_statements alloc statements program =
     (if alloc (length (fp_filter program) + length statements)
      then Some (Inr (program\<lparr>fp_filter := fp_filter program @ statements\<rparr>))
      else Some (Inl (- ENOMEM)))"

definition LENGTH_TRACE_SYSCALL :: nat where "LENGTH_TRACE_SYSCALL = 2"
definition LENGTH_END_SECTION :: nat where "LENGTH_END_SECTION = 1"

definition trace_statements :: "u64 \<Rightarrow> u64 \<Rightarrow> sock_filter list" where
  "trace_statements syscall flag =
     [BPF_JUMP JMP_JEQ_K (ucast syscall) 0 1,
      BPF_STMT RET_K (SECCOMP_RET_TRACE + ucast flag)]"

definition add_trace_syscall ::
    "(nat \<Rightarrow> bool) \<Rightarrow> u64 \<Rightarrow> u64 \<Rightarrow> sock_fprog \<Rightarrow> sock_fprog result" where
  "add_trace_syscall alloc syscall flag program =
     (if syscall > 0xFFFFFFFF then Some (Inl (- ERANGE))
      else add_statements alloc (trace_statements syscall flag) program)"

definition section_length :: "nat \<Rightarrow> nat" where
  "section_length nb_traced_syscalls =
     LENGTH_END_SECTION + nb_traced_syscalls * LENGTH_TRACE_SYSCALL"

definition end_arch_section ::
    "(nat \<Rightarrow> bool) \<Rightarrow> nat \<Rightarrow> sock_fprog \<Rightarrow> sock_fprog result" where
  "end_arch_section alloc nb_traced_syscalls program =
     bind_ok (add_statements alloc [BPF_STMT RET_K SECCOMP_RET_ALLOW] program)
       (\<lambda>program.
          if int (length (fp_filter program)) - int (fp_len program)
               \<noteq> int (section_length nb_traced_syscalls)
          then Some (Inl (- ERANGE)) else Some (Inr program))"

definition start_statements :: "seccomp_statics \<Rightarrow> u32 \<Rightarrow> nat \<Rightarrow> sock_filter list" where
  "start_statements st arch nb_traced_syscalls =
     (if s_exclude_libc st then
        [BPF_STMT LD_W_ABS arch_offset,
         BPF_JUMP JMP_JEQ_K arch 1 0,
         BPF_STMT JMP_JA 4,
         BPF_STMT LD_W_ABS ip_offset,
         BPF_JUMP JMP_JGT_K (ucast (libc_end st)) 0 1,
         BPF_STMT JMP_JA 2,
         BPF_JUMP JMP_JGE_K (ucast (libc_start st)) 0 1,
         BPF_STMT JMP_JA (of_nat (section_length nb_traced_syscalls)),
         BPF_STMT LD_W_ABS syscall_offset]
      else
        [BPF_STMT LD_W_ABS arch_offset,
         BPF_JUMP JMP_JEQ_K arch 1 0,
         BPF_STMT JMP_JA (of_nat (section_length nb_traced_syscalls + 1)),
         BPF_STMT LD_W_ABS syscall_offset])"

definition start_arch_section ::
    "(nat \<Rightarrow> bool) \<Rightarrow> seccomp_statics \<Rightarrow> u32 \<Rightarrow> nat \<Rightarrow> sock_fprog \<Rightarrow> sock_fprog result" where
  "start_arch_section alloc st arch nb_traced_syscalls program =
     (if section_length nb_traced_syscalls > 0xFFFFFFFF - 1 then Some (Inl (- ERANGE))
      else bind_ok (add_statements alloc (start_statements st arch nb_traced_syscalls) program)
             (\<lambda>program. Some (Inr (set_len program))))"

definition finalize_program_filter :: "(nat \<Rightarrow> bool) \<Rightarrow> sock_fprog \<Rightarrow> sock_fprog result" where
  "finalize_program_filter alloc program =
     bind_ok (add_statements alloc [BPF_STMT RET_K SECCOMP_RET_KILL] program)
       (\<lambda>program. Some (Inr (set_len program)))"

text \<open>The two loops over the numbers of one ABI; a list ends before its \<open>PR_void\<close>.\<close>

fun count_traced :: "Abi \<Rightarrow> FilteredSysnum list \<Rightarrow> nat option" where
  "count_traced abi [] = Some 0"
| "count_traced abi (s # sysnums) =
     (if fs_value s = PR_void then Some 0
      else case detranslate_sysnum abi (fs_value s) of
        None \<Rightarrow> None
      | Some syscall \<Rightarrow>
          map_option (\<lambda>n. if syscall \<noteq> SYSCALL_AVOIDER then Suc n else n) (count_traced abi sysnums))"

fun add_traces ::
    "(nat \<Rightarrow> bool) \<Rightarrow> Abi \<Rightarrow> FilteredSysnum list \<Rightarrow> sock_fprog \<Rightarrow> sock_fprog result" where
  "add_traces alloc abi [] program = Some (Inr program)"
| "add_traces alloc abi (s # sysnums) program =
     (if fs_value s = PR_void then Some (Inr program)
      else case detranslate_sysnum abi (fs_value s) of
        None \<Rightarrow> None
      | Some syscall \<Rightarrow>
          if syscall = SYSCALL_AVOIDER then add_traces alloc abi sysnums program
          else bind_ok (add_trace_syscall alloc syscall (fs_flags s) program)
                 (add_traces alloc abi sysnums))"

fun count_abis :: "Abi list \<Rightarrow> FilteredSysnum list \<Rightarrow> nat option" where
  "count_abis [] sysnums = Some 0"
| "count_abis (abi # abis) sysnums =
     (case (count_traced abi sysnums, count_abis abis sysnums) of
        (Some m, Some n) \<Rightarrow> Some (m + n) | _ \<Rightarrow> None)"

fun add_abis ::
    "(nat \<Rightarrow> bool) \<Rightarrow> Abi list \<Rightarrow> FilteredSysnum list \<Rightarrow> sock_fprog \<Rightarrow> sock_fprog result" where
  "add_abis alloc [] sysnums program = Some (Inr program)"
| "add_abis alloc (abi # abis) sysnums program =
     bind_ok (add_traces alloc abi sysnums program) (add_abis alloc abis sysnums)"

fun add_archs ::
    "(nat \<Rightarrow> bool) \<Rightarrow> seccomp_statics \<Rightarrow> SeccompArch list \<Rightarrow> FilteredSysnum list \<Rightarrow>
     sock_fprog \<Rightarrow> sock_fprog result" where
  "add_archs alloc st [] sysnums program = Some (Inr program)"
| "add_archs alloc st (a # archs) sysnums program =
     (case count_abis (sa_abis a) sysnums of
        None \<Rightarrow> None
      | Some nb_traced_syscalls \<Rightarrow>
          bind_ok (start_arch_section alloc st (sa_value a) nb_traced_syscalls program)
            (\<lambda>program. bind_ok (add_abis alloc (sa_abis a) sysnums program)
               (\<lambda>program. bind_ok (end_arch_section alloc nb_traced_syscalls program)
                  (add_archs alloc st archs sysnums))))"

definition build_filter ::
    "(nat \<Rightarrow> bool) \<Rightarrow> seccomp_statics \<Rightarrow> FilteredSysnum list \<Rightarrow> sock_fprog result" where
  "build_filter alloc st sysnums =
     bind_ok (new_program_filter alloc)
       (\<lambda>program. bind_ok (add_archs alloc st SECCOMP_ARCHS sysnums program)
          (finalize_program_filter alloc))"

section \<open>Installation\<close>

text \<open>
  The two \<open>prctl\<close> requests are parameters, over the state \<open>'k\<close> of the kernel.
  \<open>free_program_filter\<close> only releases the array; it is called even when the array could not be
  allocated, and \<open>vl_array_free\<close> of \<open>NULL\<close> frees an address before it, which is undefined.
\<close>

record 'k prctl =
  set_no_new_privs :: "'k \<Rightarrow> int \<times> 'k"
  set_seccomp :: "sock_fprog \<Rightarrow> 'k \<Rightarrow> int \<times> 'k"

definition set_seccomp_filters ::
    "'k prctl \<Rightarrow> (nat \<Rightarrow> bool) \<Rightarrow> seccomp_statics \<Rightarrow> FilteredSysnum list \<Rightarrow> 'k \<Rightarrow> (int \<times> 'k) option" where
  "set_seccomp_filters P alloc st sysnums k =
     (if new_program_filter alloc = Some (Inl (- ENOMEM)) then None
      else case build_filter alloc st sysnums of
        None \<Rightarrow> None
      | Some (Inl status) \<Rightarrow> Some (status, k)
      | Some (Inr program) \<Rightarrow>
          (case set_no_new_privs P k of
             (status, k) \<Rightarrow>
               if status < 0 then Some (status, k)
               else case set_seccomp P program k of
                      (status, k) \<Rightarrow> if status < 0 then Some (status, k) else Some (0, k)))"

definition merge_one ::
    "(nat \<Rightarrow> bool) \<Rightarrow> FilteredSysnum \<Rightarrow> FilteredSysnum list \<Rightarrow> FilteredSysnum list result" where
  "merge_one alloc new sysnums =
     (let j = length (takeWhile (\<lambda>s. fs_value s \<noteq> fs_value new) sysnums)
      in if j = length sysnums
         then (if alloc (j + 2) then Some (Inr (sysnums @ [new])) else Some (Inl (- ENOMEM)))
         else Some (Inr (sysnums[j := (sysnums ! j)
                           \<lparr>fs_flags := fs_flags (sysnums ! j) OR fs_flags new\<rparr>])))"

fun merge_filtered_sysnums ::
    "(nat \<Rightarrow> bool) \<Rightarrow> FilteredSysnum list \<Rightarrow> FilteredSysnum list \<Rightarrow> FilteredSysnum list result" where
  "merge_filtered_sysnums alloc sysnums [] = Some (Inr sysnums)"
| "merge_filtered_sysnums alloc sysnums (new # new_sysnums) =
     (if fs_value new = PR_void then Some (Inr sysnums)
      else bind_ok (merge_one alloc new sysnums)
             (\<lambda>sysnums. merge_filtered_sysnums alloc sysnums new_sysnums))"

definition filtered :: "Sysnum \<Rightarrow> u64 \<Rightarrow> FilteredSysnum" where
  "filtered s flags = \<lparr>fs_value = s, fs_flags = flags\<rparr>"

definition internal_sysnums :: "FilteredSysnum list" where
  "internal_sysnums =
     [filtered PR_ptrace FILTER_SYSEXIT, filtered PR_wait4 FILTER_SYSEXIT,
      filtered PR_waitpid FILTER_SYSEXIT, filtered PR_execve FILTER_SYSEXIT,
      filtered PR_execveat FILTER_SYSEXIT, filtered PR_readlinkat FILTER_SYSEXIT]"

text \<open>
  The numbers of the application, then the internal ones it does not ask for itself;
  \<open>None\<close> is a store outside of the map of 512 booleans.
\<close>

definition add_internal_sysnums :: "FilteredSysnum list \<Rightarrow> FilteredSysnum list option" where
  "add_internal_sysnums add_filtered_sysnums =
     (let added = takeWhile (\<lambda>s. fs_value s \<noteq> PR_void) add_filtered_sysnums;
          sysnum_map = map fs_value added
      in if \<exists>v \<in> set sysnum_map. 512 \<le> v then None
         else Some (added @ filter (\<lambda>s. fs_value s \<notin> set sysnum_map) internal_sysnums))"

text \<open>
  \<open>find_libc_exec_maps\<close> reads \<open>/proc/self/maps\<close>; its result is an argument.  The array of the
  added numbers is used without a test whether it could be allocated.
\<close>

definition enable_syscall_filtering ::
    "'k prctl \<Rightarrow> (nat \<Rightarrow> bool) \<Rightarrow> seccomp_statics \<Rightarrow> (u64 \<times> u64) option \<Rightarrow>
     FilteredSysnum list \<Rightarrow> bool \<Rightarrow> 'k \<Rightarrow> (int \<times> seccomp_statics \<times> 'k) option" where
  "enable_syscall_filtering P alloc st libc_maps add_filtered_sysnums exclude_libc k =
     (let st = st\<lparr>s_exclude_libc := exclude_libc\<rparr>;
          st = (if exclude_libc
                then case libc_maps of
                       None \<Rightarrow> st
                     | Some (base, bound) \<Rightarrow> st\<lparr>libc_start := base, libc_end := bound\<rparr>
                else st)
      in case add_internal_sysnums add_filtered_sysnums of
           None \<Rightarrow> None
         | Some filtered_add_internal_sysnums \<Rightarrow>
             if \<not> alloc (length (takeWhile (\<lambda>s. fs_value s \<noteq> PR_void) add_filtered_sysnums) + 7) then None
             else if \<not> alloc 1 then Some (- ENOMEM, st, k)
             else case merge_filtered_sysnums alloc [] filtered_add_internal_sysnums of
                    None \<Rightarrow> None
                  | Some (Inl status) \<Rightarrow> Some (status, st, k)
                  | Some (Inr filtered_sysnums) \<Rightarrow>
                      map_option (\<lambda>(status, k). (status, st, k))
                        (set_seccomp_filters P alloc st filtered_sysnums k))"

section \<open>Pieces of a program\<close>

definition traces_code :: "(u64 \<times> u64) list \<Rightarrow> sock_filter list" where
  "traces_code ts = concat (map (\<lambda>(n, f). trace_statements n f) ts)"

definition section_code :: "u32 \<Rightarrow> (u64 \<times> u64) list \<Rightarrow> sock_filter list" where
  "section_code arch ts =
     [BPF_STMT LD_W_ABS arch_offset, BPF_JUMP JMP_JEQ_K arch 1 0,
      BPF_STMT JMP_JA (of_nat (section_length (length ts) + 1)), BPF_STMT LD_W_ABS syscall_offset]
     @ traces_code ts @ [BPF_STMT RET_K SECCOMP_RET_ALLOW]"

definition section_verdict :: "(u64 \<times> u64) list \<Rightarrow> u32 \<Rightarrow> u32" where
  "section_verdict ts nr = (case find (\<lambda>(n, f). ucast n = nr) ts of
     Some (n, f) \<Rightarrow> SECCOMP_RET_TRACE + ucast f | None \<Rightarrow> SECCOMP_RET_ALLOW)"

lemma length_traces_code: "length (traces_code ts) = 2 * length ts"
  by (induction ts) (auto simp: traces_code_def trace_statements_def)

section \<open>The machine\<close>

text \<open>What the kernel's machine does with each instruction, from the accumulator \<open>a\<close> at \<open>pc\<close>.\<close>

locale bpf_machine =
  fixes exec :: "sock_filter list \<Rightarrow> seccomp_data \<Rightarrow> nat \<Rightarrow> u32 \<Rightarrow> u32 option"
  assumes exec_ld: "pc < length prog \<Longrightarrow> sf_code (prog ! pc) = LD_W_ABS \<Longrightarrow>
      exec prog d pc a = exec prog d (Suc pc)
        (if sf_k (prog ! pc) = syscall_offset then sd_nr d
         else if sf_k (prog ! pc) = arch_offset then sd_arch d
         else if sf_k (prog ! pc) = ip_offset then ucast (sd_ip d)
         else ucast (drop_bit 32 (sd_ip d)))"
    and exec_jeq: "pc < length prog \<Longrightarrow> sf_code (prog ! pc) = JMP_JEQ_K \<Longrightarrow>
      exec prog d pc a = exec prog d
        (Suc pc + (if a = sf_k (prog ! pc) then sf_jt (prog ! pc) else sf_jf (prog ! pc))) a"
    and exec_jgt: "pc < length prog \<Longrightarrow> sf_code (prog ! pc) = JMP_JGT_K \<Longrightarrow>
      exec prog d pc a = exec prog d
        (Suc pc + (if a > sf_k (prog ! pc) then sf_jt (prog ! pc) else sf_jf (prog ! pc))) a"
    and exec_jge: "pc < length prog \<Longrightarrow> sf_code (prog ! pc) = JMP_JGE_K \<Longrightarrow>
      exec prog d pc a = exec prog d
        (Suc pc + (if a \<ge> sf_k (prog ! pc) then sf_jt (prog ! pc) else sf_jf (prog ! pc))) a"
    and exec_ja: "pc < length prog \<Longrightarrow> sf_code (prog ! pc) = JMP_JA \<Longrightarrow>
      exec prog d pc a = exec prog d (Suc pc + unat (sf_k (prog ! pc))) a"
    and exec_ret: "pc < length prog \<Longrightarrow> sf_code (prog ! pc) = RET_K \<Longrightarrow>
      exec prog d pc a = Some (sf_k (prog ! pc))"
begin

text \<open>Execution at the start of a piece of code placed after \<open>pre\<close>.\<close>

lemma at_ld: "exec (pre @ BPF_STMT LD_W_ABS k # post) d (length pre) a =
    exec (pre @ BPF_STMT LD_W_ABS k # post) d (Suc (length pre))
      (if k = syscall_offset then sd_nr d else if k = arch_offset then sd_arch d
       else if k = ip_offset then ucast (sd_ip d) else ucast (drop_bit 32 (sd_ip d)))"
  by (subst exec_ld) (simp_all add: BPF_STMT_def)

lemma at_jeq: "exec (pre @ BPF_JUMP JMP_JEQ_K k jt jf # post) d (length pre) a =
    exec (pre @ BPF_JUMP JMP_JEQ_K k jt jf # post) d (Suc (length pre) + (if a = k then jt else jf)) a"
  by (subst exec_jeq) (simp_all add: BPF_JUMP_def)

lemma at_ja: "exec (pre @ BPF_STMT JMP_JA k # post) d (length pre) a =
    exec (pre @ BPF_STMT JMP_JA k # post) d (Suc (length pre) + unat k) a"
  by (subst exec_ja) (simp_all add: BPF_STMT_def)

lemma at_ret: "exec (pre @ BPF_STMT RET_K k # post) d (length pre) a = Some k"
  by (subst exec_ret) (simp_all add: BPF_STMT_def)

lemma exec_traces:
  "exec (pre @ traces_code ts @ post) d (length pre) a =
    (case find (\<lambda>(n, f). ucast n = a) ts of
       Some (n, f) \<Rightarrow> Some (SECCOMP_RET_TRACE + ucast f)
     | None \<Rightarrow> exec (pre @ traces_code ts @ post) d (length pre + 2 * length ts) a)"
proof (induction ts arbitrary: pre)
  case Nil
  then show ?case by (simp add: traces_code_def)
next
  case (Cons t ts)
  obtain n f where t: "t = (n, f)" by (cases t)
  let ?rest = "traces_code ts @ post"
  have code: "traces_code ((n, f) # ts) @ post = BPF_JUMP JMP_JEQ_K (ucast n) 0 1 #
      BPF_STMT RET_K (SECCOMP_RET_TRACE + ucast f) # ?rest"
    by (simp add: traces_code_def trace_statements_def)
  let ?i = "BPF_JUMP JMP_JEQ_K (ucast n) 0 1" and ?r = "BPF_STMT RET_K (SECCOMP_RET_TRACE + ucast f)"
  show ?case
  proof (cases "ucast n = a")
    case True
    have "exec (pre @ ?i # ?r # ?rest) d (length pre) a = exec (pre @ ?i # ?r # ?rest) d (Suc (length pre)) a"
      using at_jeq [of pre "ucast n" 0 1 "?r # ?rest" d a] True by simp
    also have "\<dots> = Some (SECCOMP_RET_TRACE + ucast f)"
      using at_ret [of "pre @ [?i]" _ ?rest d a] by simp
    finally show ?thesis using True unfolding t code by simp
  next
    case False
    have "exec (pre @ ?i # ?r # ?rest) d (length pre) a = exec (pre @ ?i # ?r # ?rest) d (length pre + 2) a"
      using at_jeq [of pre "ucast n" 0 1 "?r # ?rest" d a] False by auto
    also have "\<dots> = (case find (\<lambda>(n, f). ucast n = a) ts of
       Some (n, f) \<Rightarrow> Some (SECCOMP_RET_TRACE + ucast f)
     | None \<Rightarrow> exec (pre @ ?i # ?r # ?rest) d (length pre + 2 + 2 * length ts) a)"
    proof -
      have l: "length (pre @ [?i, ?r]) = length pre + 2"
        and e: "pre @ ?i # ?r # ?rest = (pre @ [?i, ?r]) @ traces_code ts @ post" by simp_all
      show ?thesis unfolding e l [symmetric] by (rule Cons.IH)
    qed
    finally have F: "exec (pre @ ?i # ?r # ?rest) d (length pre) a =
      (case find (\<lambda>(n, f). ucast n = a) ts of
         Some (n, f) \<Rightarrow> Some (SECCOMP_RET_TRACE + ucast f)
       | None \<Rightarrow> exec (pre @ ?i # ?r # ?rest) d (length pre + 2 + 2 * length ts) a)" .
    have l: "length pre + 2 * length ((n, f) # ts) = length pre + 2 + 2 * length ts" by simp
    show ?thesis unfolding t code l find.simps prod.case using F False by (simp only: if_False)
  qed
qed

text \<open>A whole section: its verdict if the architecture matches, else what follows it.\<close>

lemma exec_section:
  assumes "section_length (length ts) + 1 < 2 ^ 32"
  shows "exec (pre @ section_code arch ts @ post) d (length pre) a =
    (if sd_arch d = arch then Some (section_verdict ts (sd_nr d))
     else exec (pre @ section_code arch ts @ post) d (length pre + length (section_code arch ts)) (sd_arch d))"
proof -
  let ?i0 = "BPF_STMT LD_W_ABS arch_offset" and ?i1 = "BPF_JUMP JMP_JEQ_K arch 1 0"
    and ?i2 = "BPF_STMT JMP_JA (of_nat (section_length (length ts) + 1))"
    and ?i3 = "BPF_STMT LD_W_ABS syscall_offset"
  let ?tail = "traces_code ts @ BPF_STMT RET_K SECCOMP_RET_ALLOW # post"
  let ?p = "pre @ section_code arch ts @ post"
  have p: "?p = pre @ ?i0 # ?i1 # ?i2 # ?i3 # ?tail" by (simp add: section_code_def)
  have n: "length (section_code arch ts) = 3 + (section_length (length ts) + 1)"
    by (simp add: section_code_def length_traces_code section_length_def LENGTH_END_SECTION_def
        LENGTH_TRACE_SYSCALL_def)
  have u: "unat (of_nat (section_length (length ts) + 1) :: u32) = section_length (length ts) + 1"
    using assms by (simp add: unat_of_nat del: of_nat_add of_nat_Suc)
  have s0: "exec ?p d (length pre) a = exec ?p d (length pre + 1) (sd_arch d)"
    unfolding p using at_ld [of pre arch_offset] by simp
  have s1: "exec ?p d (length pre + 1) (sd_arch d) =
      exec ?p d (length pre + (if sd_arch d = arch then 3 else 2)) (sd_arch d)"
    unfolding p using at_jeq [of "pre @ [?i0]" arch 1 0 "?i2 # ?i3 # ?tail" d "sd_arch d"]
    by (simp add: numeral_2_eq_2 numeral_3_eq_3)
  show ?thesis
  proof (cases "sd_arch d = arch")
    case True
    have s3: "exec ?p d (length pre + 3) (sd_arch d) = exec ?p d (length pre + 4) (sd_nr d)"
      unfolding p using at_ld [of "pre @ [?i0, ?i1, ?i2]" syscall_offset ?tail d "sd_arch d"]
      by (simp add: eval_nat_numeral)
    let ?pre4 = "pre @ [?i0, ?i1, ?i2, ?i3]"
    have p4: "?p = ?pre4 @ traces_code ts @ BPF_STMT RET_K SECCOMP_RET_ALLOW # post"
      and p5: "?p = (?pre4 @ traces_code ts) @ BPF_STMT RET_K SECCOMP_RET_ALLOW # post"
      unfolding p by simp_all
    have l: "length ?pre4 = length pre + 4" "length (?pre4 @ traces_code ts) = length pre + 4 + 2 * length ts"
      by (simp_all add: length_traces_code)
    have "exec ?p d (length pre + 4) (sd_nr d) =
        (case find (\<lambda>(n, f). ucast n = sd_nr d) ts of
           Some (n, f) \<Rightarrow> Some (SECCOMP_RET_TRACE + ucast f)
         | None \<Rightarrow> exec ?p d (length pre + 4 + 2 * length ts) (sd_nr d))"
      unfolding p4 l(1) [symmetric] by (rule exec_traces)
    moreover have "exec ?p d (length pre + 4 + 2 * length ts) (sd_nr d) = Some SECCOMP_RET_ALLOW"
      unfolding p5 l(2) [symmetric] by (rule at_ret)
    ultimately have "exec ?p d (length pre + 4) (sd_nr d) = Some (section_verdict ts (sd_nr d))"
      by (auto simp: section_verdict_def split: option.splits)
    then show ?thesis using True s0 s1 s3 by simp
  next
    case False
    have "exec ?p d (length pre + 2) (sd_arch d) =
        exec ?p d (length pre + 3 + (section_length (length ts) + 1)) (sd_arch d)"
      unfolding p using at_ja [of "pre @ [?i0, ?i1]" _ "?i3 # ?tail" d "sd_arch d"] u
      by (simp add: eval_nat_numeral)
    then show ?thesis using False s0 s1 n by (simp add: ac_simps)
  qed
qed

end

text \<open>
  An implementation of these instructions; every jump of a program goes forward.
\<close>

function bpf_exec :: "sock_filter list \<Rightarrow> seccomp_data \<Rightarrow> nat \<Rightarrow> u32 \<Rightarrow> u32 option" where
  "bpf_exec prog d pc a =
     (if pc < length prog then
        let i = prog ! pc in
        (case sf_code i of
           LD_W_ABS \<Rightarrow> bpf_exec prog d (Suc pc)
             (if sf_k i = syscall_offset then sd_nr d else if sf_k i = arch_offset then sd_arch d
              else if sf_k i = ip_offset then ucast (sd_ip d) else ucast (drop_bit 32 (sd_ip d)))
         | JMP_JEQ_K \<Rightarrow> bpf_exec prog d (Suc pc + (if a = sf_k i then sf_jt i else sf_jf i)) a
         | JMP_JGT_K \<Rightarrow> bpf_exec prog d (Suc pc + (if a > sf_k i then sf_jt i else sf_jf i)) a
         | JMP_JGE_K \<Rightarrow> bpf_exec prog d (Suc pc + (if a \<ge> sf_k i then sf_jt i else sf_jf i)) a
         | JMP_JA \<Rightarrow> bpf_exec prog d (Suc pc + unat (sf_k i)) a
         | RET_K \<Rightarrow> Some (sf_k i))
      else None)"
  by pat_completeness auto

termination
  by (relation "measure (\<lambda>(prog, d, pc, a). length prog - pc)") auto

declare bpf_exec.simps [simp del]

interpretation bpf: bpf_machine bpf_exec
  by unfold_locales (subst bpf_exec.simps, simp add: Let_def)+

section \<open>What the compiler emits\<close>

fun traced_calls :: "Abi \<Rightarrow> FilteredSysnum list \<Rightarrow> (u64 \<times> u64) list" where
  "traced_calls abi [] = []"
| "traced_calls abi (s # sysnums) =
     (if fs_value s = PR_void then []
      else case detranslate_sysnum abi (fs_value s) of
        None \<Rightarrow> []
      | Some n \<Rightarrow> (if n = SYSCALL_AVOIDER then [] else [(n, fs_flags s)]) @ traced_calls abi sysnums)"

lemma detranslate_total: "abi \<noteq> ABI_3 \<Longrightarrow> \<exists>n. detranslate_sysnum abi s = Some n"
  by (cases "s = PR_void") (auto simp: detranslate_sysnum_alt, auto simp: detranslate_sysnum_def)

lemma count_traced_length:
  "abi \<noteq> ABI_3 \<Longrightarrow> count_traced abi sysnums = Some (length (traced_calls abi sysnums))"
proof (induction sysnums)
  case (Cons s sysnums)
  then show ?case using detranslate_total [of abi "fs_value s"] by auto
qed simp

lemma add_statements_Inr:
  "add_statements alloc ss p = Some (Inr p') \<Longrightarrow> p' = p\<lparr>fp_filter := fp_filter p @ ss\<rparr>"
  by (auto simp: add_statements_def split: if_splits)

lemma add_traces_code:
  "abi \<noteq> ABI_3 \<Longrightarrow> add_traces alloc abi sysnums p = Some (Inr p') \<Longrightarrow>
   p' = p\<lparr>fp_filter := fp_filter p @ traces_code (traced_calls abi sysnums)\<rparr>"
proof (induction sysnums arbitrary: p)
  case Nil
  then show ?case by (simp add: traces_code_def)
next
  case (Cons s sysnums)
  obtain n where n: "detranslate_sysnum abi (fs_value s) = Some n"
    using detranslate_total [OF Cons.prems(1)] by blast
  show ?case
  proof (cases "fs_value s = PR_void \<or> n = SYSCALL_AVOIDER")
    case True
    then show ?thesis using Cons n by (auto simp: traces_code_def split: if_splits)
  next
    case False
    then obtain p1 where "add_trace_syscall alloc n (fs_flags s) p = Some (Inr p1)"
      and p1: "add_traces alloc abi sysnums p1 = Some (Inr p')"
      using Cons.prems(2) n by (auto simp: bind_ok_Inr)
    then have "p1 = p\<lparr>fp_filter := fp_filter p @ trace_statements n (fs_flags s)\<rparr>"
      by (auto simp: add_trace_syscall_def dest: add_statements_Inr split: if_splits)
    then show ?thesis
      using Cons.IH [OF Cons.prems(1) p1] n False by (simp add: traces_code_def)
  qed
qed

lemma one_abi:
  assumes "abi \<noteq> ABI_3"
    and "add_archs alloc st (\<lparr>sa_value = arch, sa_abis = [abi]\<rparr> # archs) sysnums p = Some (Inr p')"
  shows "\<exists>p1. add_archs alloc st archs sysnums p1 = Some (Inr p') \<and>
    fp_filter p1 = fp_filter p @ start_statements st arch (length (traced_calls abi sysnums)) @
      traces_code (traced_calls abi sysnums) @ [BPF_STMT RET_K SECCOMP_RET_ALLOW] \<and>
    section_length (length (traced_calls abi sysnums)) + 1 < 2 ^ 32"
proof -
  let ?n = "length (traced_calls abi sysnums)"
  have "count_abis [abi] sysnums = Some ?n" using count_traced_length [OF assms(1)] by simp
  then obtain a b c where a: "start_arch_section alloc st arch ?n p = Some (Inr a)"
    and b: "add_traces alloc abi sysnums a = Some (Inr b)"
    and c: "end_arch_section alloc ?n b = Some (Inr c)"
    and rest: "add_archs alloc st archs sysnums c = Some (Inr p')"
    using assms(2) by (auto simp: bind_ok_Inr)
  have len: "section_length ?n + 1 < 2 ^ 32"
    using a by (auto simp: start_arch_section_def split: if_splits)
  have "fp_filter a = fp_filter p @ start_statements st arch ?n"
    using a by (auto simp: start_arch_section_def bind_ok_Inr set_len_def dest!: add_statements_Inr
        split: if_splits)
  moreover have "fp_filter b = fp_filter a @ traces_code (traced_calls abi sysnums)"
    using add_traces_code [OF assms(1) b] by simp
  moreover have "fp_filter c = fp_filter b @ [BPF_STMT RET_K SECCOMP_RET_ALLOW]"
    using c by (auto simp: end_arch_section_def bind_ok_Inr dest!: add_statements_Inr split: if_splits)
  ultimately show ?thesis using rest len by auto
qed

lemma build_filter_code:
  assumes "build_filter alloc st sysnums = Some (Inr prog)"
  shows "fp_filter prog =
      start_statements st AUDIT_ARCH_AARCH64 (length (traced_calls ABI_DEFAULT sysnums)) @
      traces_code (traced_calls ABI_DEFAULT sysnums) @ [BPF_STMT RET_K SECCOMP_RET_ALLOW] @
      start_statements st AUDIT_ARCH_ARM (length (traced_calls ABI_2 sysnums)) @
      traces_code (traced_calls ABI_2 sysnums) @ [BPF_STMT RET_K SECCOMP_RET_ALLOW] @
      [BPF_STMT RET_K SECCOMP_RET_KILL]"
    and "section_length (length (traced_calls ABI_DEFAULT sysnums)) + 1 < 2 ^ 32"
    and "section_length (length (traced_calls ABI_2 sysnums)) + 1 < 2 ^ 32"
proof -
  obtain p0 p3 where p0: "new_program_filter alloc = Some (Inr p0)"
    and archs: "add_archs alloc st SECCOMP_ARCHS sysnums p0 = Some (Inr p3)"
    and fin: "finalize_program_filter alloc p3 = Some (Inr prog)"
    using assms by (auto simp: build_filter_def bind_ok_Inr)
  have "fp_filter p0 = []" using p0 by (auto simp: new_program_filter_def split: if_splits)
  moreover obtain p1 where p1: "add_archs alloc st [\<lparr>sa_value = AUDIT_ARCH_ARM, sa_abis = [ABI_2]\<rparr>] sysnums p1 =
      Some (Inr p3)"
    "fp_filter p1 = fp_filter p0 @ start_statements st AUDIT_ARCH_AARCH64 (length (traced_calls ABI_DEFAULT sysnums)) @
      traces_code (traced_calls ABI_DEFAULT sysnums) @ [BPF_STMT RET_K SECCOMP_RET_ALLOW]"
    "section_length (length (traced_calls ABI_DEFAULT sysnums)) + 1 < 2 ^ 32"
    using one_abi [OF _ archs [unfolded SECCOMP_ARCHS_def]] by auto
  moreover obtain p2 where "add_archs alloc st [] sysnums p2 = Some (Inr p3)"
    "fp_filter p2 = fp_filter p1 @ start_statements st AUDIT_ARCH_ARM (length (traced_calls ABI_2 sysnums)) @
      traces_code (traced_calls ABI_2 sysnums) @ [BPF_STMT RET_K SECCOMP_RET_ALLOW]"
    "section_length (length (traced_calls ABI_2 sysnums)) + 1 < 2 ^ 32"
    using one_abi [OF _ p1(1)] by auto
  moreover have "fp_filter prog = fp_filter p3 @ [BPF_STMT RET_K SECCOMP_RET_KILL]"
    using fin by (auto simp: finalize_program_filter_def bind_ok_Inr set_len_def dest!: add_statements_Inr)
  ultimately show "fp_filter prog =
      start_statements st AUDIT_ARCH_AARCH64 (length (traced_calls ABI_DEFAULT sysnums)) @
      traces_code (traced_calls ABI_DEFAULT sysnums) @ [BPF_STMT RET_K SECCOMP_RET_ALLOW] @
      start_statements st AUDIT_ARCH_ARM (length (traced_calls ABI_2 sysnums)) @
      traces_code (traced_calls ABI_2 sysnums) @ [BPF_STMT RET_K SECCOMP_RET_ALLOW] @
      [BPF_STMT RET_K SECCOMP_RET_KILL]"
    and "section_length (length (traced_calls ABI_DEFAULT sysnums)) + 1 < 2 ^ 32"
    and "section_length (length (traced_calls ABI_2 sysnums)) + 1 < 2 ^ 32"
    by simp_all
qed

section \<open>Specification of the filter\<close>

text \<open>What a tracer that handles \<open>sysnums\<close> wants of a system call.\<close>

definition arch_abi :: "u32 \<Rightarrow> Abi option" where
  "arch_abi arch = (if arch = AUDIT_ARCH_AARCH64 then Some ABI_DEFAULT
                    else if arch = AUDIT_ARCH_ARM then Some ABI_2 else None)"

definition sysnum_verdict :: "FilteredSysnum list \<Rightarrow> Sysnum option \<Rightarrow> u32" where
  "sysnum_verdict sysnums s =
     (case find (\<lambda>x. Some (fs_value x) = s) (takeWhile (\<lambda>x. fs_value x \<noteq> PR_void) sysnums) of
        Some x \<Rightarrow> SECCOMP_RET_TRACE + ucast (fs_flags x)
      | None \<Rightarrow> SECCOMP_RET_ALLOW)"

definition filter_verdict :: "FilteredSysnum list \<Rightarrow> seccomp_data \<Rightarrow> u32" where
  "filter_verdict sysnums d =
     (case arch_abi (sd_arch d) of
        None \<Rightarrow> SECCOMP_RET_KILL
      | Some abi \<Rightarrow> sysnum_verdict sysnums (translate_sysnum abi (ucast (sd_nr d))))"

lemma unat_ucast32: "unat (ucast (x :: u32) :: u64) = unat x"
proof -
  have "unat x < 2 ^ LENGTH(32)" by (rule unsigned_less)
  then have "unat x < 2 ^ 64" by simp
  then show ?thesis by (simp add: unsigned_ucast_eq take_bit_nat_eq_self_iff)
qed

lemma ucast_eq_small:
  assumes "unat (n :: u64) < 2 ^ 16"
  shows "(ucast n :: u32) = nr \<longleftrightarrow> n = ucast nr"
proof
  assume e: "(ucast n :: u32) = nr"
  have "unat (ucast n :: u32) = unat n"
    using assms by (simp add: unsigned_ucast_eq take_bit_nat_eq_self_iff)
  then have "unat n = unat (ucast nr :: u64)" using e by (simp add: unat_ucast32)
  then show "n = ucast nr" by (rule unsigned_word_eqI)
next
  assume n: "n = ucast nr"
  show "(ucast n :: u32) = nr"
    unfolding n by (rule bit_eqI) (auto simp: bit_ucast_iff dest: bit_imp_le_length)
qed

lemma ucast_not_avoider: "(ucast (nr :: u32) :: u64) \<noteq> SYSCALL_AVOIDER"
proof
  assume "(ucast nr :: u64) = SYSCALL_AVOIDER"
  then have "unat (ucast nr :: u64) = unat (- 1 :: u64)" by simp
  moreover have "unat nr < 2 ^ LENGTH(32)" by (rule unsigned_less)
  ultimately show False
    by (simp add: unat_ucast32 unsigned_minus_1_eq_mask mask_eq_exp_minus_1)
qed

lemma detranslate_eq_iff:
  assumes "abi \<noteq> ABI_3" "s \<noteq> PR_void"
  shows "detranslate_sysnum abi s = Some (ucast (nr :: u32)) \<longleftrightarrow> Some s = translate_sysnum abi (ucast nr)"
  using detranslate_translate_inv [OF assms(1) _ assms(2)]
    translate_detranslate_inv [OF assms(1) _ ucast_not_avoider]
  by metis

lemma section_verdict_traced:
  assumes "abi \<noteq> ABI_3"
  shows "section_verdict (traced_calls abi sysnums) nr =
    sysnum_verdict sysnums (translate_sysnum abi (ucast nr))"
  unfolding section_verdict_def sysnum_verdict_def
proof (induction sysnums)
  case (Cons s sysnums)
  show ?case
  proof (cases "fs_value s = PR_void")
    case False
    obtain n where n: "detranslate_sysnum abi (fs_value s) = Some n"
      using detranslate_total [OF assms] by blast
    have hit: "Some (fs_value s) = translate_sysnum abi (ucast nr) \<longleftrightarrow> n = ucast nr"
      using detranslate_eq_iff [OF assms False, of nr] n by simp
    show ?thesis
    proof (cases "n = SYSCALL_AVOIDER")
      case True
      then have "n \<noteq> ucast nr" using ucast_not_avoider by metis
      then show ?thesis using Cons False n True hit by simp
    next
      case ok: False
      have "unat n < 2 ^ 16" using detranslate_small [OF assms n ok] .
      then have "(ucast n :: u32) = nr \<longleftrightarrow> n = ucast nr" by (rule ucast_eq_small)
      then show ?thesis using Cons False n ok hit by simp
    qed
  qed simp
qed simp

lemma start_statements_plain:
  "\<not> s_exclude_libc st \<Longrightarrow>
   start_statements st arch (length ts) @ traces_code ts @ [BPF_STMT RET_K SECCOMP_RET_ALLOW] =
   section_code arch ts"
  by (simp add: start_statements_def section_code_def)

context bpf_machine
begin

lemma exec_filter:
  assumes "build_filter alloc st sysnums = Some (Inr prog)" "\<not> s_exclude_libc st"
  shows "exec (fp_filter prog) d 0 a = Some (filter_verdict sysnums d)"
proof -
  let ?t1 = "traced_calls ABI_DEFAULT sysnums" and ?t2 = "traced_calls ABI_2 sysnums"
  let ?s1 = "section_code AUDIT_ARCH_AARCH64 ?t1" and ?s2 = "section_code AUDIT_ARCH_ARM ?t2"
  let ?kill = "[BPF_STMT RET_K SECCOMP_RET_KILL]"
  have p: "fp_filter prog = ?s1 @ ?s2 @ ?kill"
    using build_filter_code(1) [OF assms(1)] start_statements_plain [OF assms(2)]
    by (metis append.assoc)
  note len = build_filter_code(2,3) [OF assms(1)]
  have e1: "exec (?s1 @ ?s2 @ ?kill) d 0 a =
      (if sd_arch d = AUDIT_ARCH_AARCH64 then Some (section_verdict ?t1 (sd_nr d))
       else exec (?s1 @ ?s2 @ ?kill) d (length ?s1) (sd_arch d))"
    using exec_section [OF len(1), of "[]" AUDIT_ARCH_AARCH64 "?s2 @ ?kill" d a] by simp
  have e2: "exec (?s1 @ ?s2 @ ?kill) d (length ?s1) (sd_arch d) =
      (if sd_arch d = AUDIT_ARCH_ARM then Some (section_verdict ?t2 (sd_nr d))
       else exec (?s1 @ ?s2 @ ?kill) d (length ?s1 + length ?s2) (sd_arch d))"
    by (rule exec_section [OF len(2)])
  have e3: "exec (?s1 @ ?s2 @ ?kill) d (length ?s1 + length ?s2) (sd_arch d) = Some SECCOMP_RET_KILL"
    using at_ret [of "?s1 @ ?s2" SECCOMP_RET_KILL "[]" d "sd_arch d"] by simp
  have "section_verdict ?t1 (sd_nr d) = sysnum_verdict sysnums (translate_sysnum ABI_DEFAULT (ucast (sd_nr d)))"
    "section_verdict ?t2 (sd_nr d) = sysnum_verdict sysnums (translate_sysnum ABI_2 (ucast (sd_nr d)))"
    by (simp_all add: section_verdict_traced)
  then show ?thesis unfolding p using e1 e2 e3 by (simp add: filter_verdict_def arch_abi_def)
qed

text \<open>With the exclusion of libc, the first section answers for every architecture.\<close>

lemma exec_exclude_other_arch:
  assumes "build_filter alloc st sysnums = Some (Inr prog)" "s_exclude_libc st"
    and "sd_arch d \<noteq> AUDIT_ARCH_AARCH64"
  shows "exec (fp_filter prog) d 0 a = Some SECCOMP_RET_ALLOW"
proof -
  let ?ts = "traced_calls ABI_DEFAULT sysnums"
  let ?n = "section_length (length ?ts)"
  let ?st = "start_statements st AUDIT_ARCH_AARCH64 (length ?ts)"
  obtain post where p: "fp_filter prog = ?st @ traces_code ?ts @ BPF_STMT RET_K SECCOMP_RET_ALLOW # post"
    using build_filter_code(1) [OF assms(1)] by simp
  let ?p = "fp_filter prog"
  have len: "length ?st = 9" "length ?p > 9 + length (traces_code ?ts)"
    using assms(2) p by (simp_all add: start_statements_def)
  then have ne: "?p \<noteq> []" by auto
  have nth: "?p ! i = ?st ! i" if "i < 9" for i
    using that len(1) p by (simp add: nth_append)
  note i = nth [of 0] nth [of 1] nth [of 2] nth [of 7]
  have n: "?n + 8 = 9 + length (traces_code ?ts)"
    by (simp add: section_length_def LENGTH_END_SECTION_def LENGTH_TRACE_SYSCALL_def length_traces_code)
  have u: "unat (of_nat ?n :: u32) = ?n"
    using build_filter_code(2) [OF assms(1)] by (simp add: unat_of_nat)
  have ret: "?p ! (9 + length (traces_code ?ts)) = BPF_STMT RET_K SECCOMP_RET_ALLOW"
    using len(1) p by (simp add: nth_append)
  have "exec ?p d 0 a = exec ?p d 1 (sd_arch d)"
    using i len(2) ne assms(2) by (subst exec_ld) (simp_all add: start_statements_def BPF_STMT_def)
  also have "\<dots> = exec ?p d 2 (sd_arch d)"
    using i len(2) assms(2,3)
    by (subst exec_jeq) (simp_all add: start_statements_def BPF_JUMP_def numeral_2_eq_2)
  also have "\<dots> = exec ?p d 7 (sd_arch d)"
    using i len(2) assms(2) by (subst exec_ja) (simp_all add: start_statements_def BPF_STMT_def)
  also have "\<dots> = exec ?p d (9 + length (traces_code ?ts)) (sd_arch d)"
    using i len(2) assms(2) u n by (subst exec_ja) (simp_all add: start_statements_def BPF_STMT_def)
  also have "\<dots> = Some SECCOMP_RET_ALLOW"
    using ret len(2) by (subst exec_ret) (simp_all add: BPF_STMT_def)
  finally show ?thesis .
qed

end

section \<open>Merging\<close>

definition flags_of :: "FilteredSysnum list \<Rightarrow> Sysnum \<Rightarrow> u64" where
  "flags_of sysnums v = foldr (\<lambda>s f. if fs_value s = v then fs_flags s OR f else f) sysnums 0"

lemma flags_of_simps [simp]:
  "flags_of [] v = 0"
  "flags_of (s # ss) v = (if fs_value s = v then fs_flags s OR flags_of ss v else flags_of ss v)"
  by (simp_all add: flags_of_def)

lemma flags_of_append: "flags_of (xs @ ys) v = flags_of xs v OR flags_of ys v"
  by (induction xs) (auto simp: or.assoc)

lemma flags_of_absent: "v \<notin> fs_value ` set ss \<Longrightarrow> flags_of ss v = 0"
  by (induction ss) auto

lemma merge_one_spec:
  assumes "merge_one alloc new ss = Some (Inr ss')" "distinct (map fs_value ss)"
  shows "distinct (map fs_value ss') \<and> fs_value ` set ss' = insert (fs_value new) (fs_value ` set ss) \<and>
    (\<forall>v. flags_of ss' v = flags_of ss v OR flags_of [new] v)"
proof -
  define j where "j = length (takeWhile (\<lambda>s. fs_value s \<noteq> fs_value new) ss)"
  show ?thesis
  proof (cases "j = length ss")
    case True
    then have "takeWhile (\<lambda>s. fs_value s \<noteq> fs_value new) ss = ss"
      unfolding j_def by (metis takeWhile_eq_take take_all order_refl)
    then have new: "fs_value new \<notin> fs_value ` set ss"
      by (metis (mono_tags, lifting) imageE set_takeWhileD)
    moreover have "ss' = ss @ [new]"
      using assms(1) True by (auto simp: merge_one_def j_def Let_def split: if_splits)
    ultimately show ?thesis using assms(2) by (auto simp: flags_of_append)
  next
    case False
    then have j: "j < length ss" unfolding j_def by (simp add: length_takeWhile_le le_neq_implies_less)
    have v: "fs_value (ss ! j) = fs_value new"
      using nth_length_takeWhile [of "\<lambda>s. fs_value s \<noteq> fs_value new" ss] j unfolding j_def by simp
    define x where "x = (ss ! j)\<lparr>fs_flags := fs_flags (ss ! j) OR fs_flags new\<rparr>"
    have ss': "ss' = ss[j := x]"
      using assms(1) False by (auto simp: merge_one_def j_def x_def Let_def)
    have ss: "ss = take j ss @ ss ! j # drop (Suc j) ss" using j by (simp add: id_take_nth_drop)
    have upd: "ss' = take j ss @ x # drop (Suc j) ss" using j ss' by (simp add: upd_conv_take_nth_drop)
    have x: "fs_value x = fs_value new" "fs_flags x = fs_flags (ss ! j) OR fs_flags new"
      using v by (simp_all add: x_def)
    have "map fs_value ss' = map fs_value ss"
      using ss' x(1) v by (simp add: map_update list_update_same_conv j)
    moreover from this have "fs_value ` set ss' = fs_value ` set ss" by (metis list.set_map)
    moreover have "fs_value new \<in> fs_value ` set ss" using v j by (metis image_eqI nth_mem)
    moreover have "flags_of ss' v = flags_of ss v OR flags_of [new] v" for v
    proof -
      have "flags_of ss v = flags_of (take j ss) v OR flags_of (ss ! j # drop (Suc j) ss) v"
        using ss flags_of_append by metis
      then show ?thesis unfolding upd flags_of_append using x v
        by (auto simp: ac_simps)
    qed
    ultimately show ?thesis using assms(2) by auto
  qed
qed

lemma merge_spec:
  assumes "merge_filtered_sysnums alloc ss new = Some (Inr ss')" "distinct (map fs_value ss)"
    "PR_void \<notin> fs_value ` set new"
  shows "distinct (map fs_value ss') \<and> fs_value ` set ss' = fs_value ` set ss \<union> fs_value ` set new \<and>
    (\<forall>v. flags_of ss' v = flags_of ss v OR flags_of new v)"
  using assms
proof (induction new arbitrary: ss)
  case (Cons n new)
  then obtain s1 where s1: "merge_one alloc n ss = Some (Inr s1)"
    "merge_filtered_sysnums alloc s1 new = Some (Inr ss')"
    by (auto simp: bind_ok_Inr split: if_splits)
  from merge_one_spec [OF s1(1) Cons.prems(2)] Cons.IH [OF s1(2)] Cons.prems(3)
  show ?case by (auto simp: or.assoc)
qed simp

lemma internal_distinct: "distinct (map fs_value internal_sysnums)"
  by (simp add: internal_sysnums_def filtered_def)

lemma internal_not_void: "PR_void \<notin> fs_value ` set internal_sysnums"
  by (simp add: internal_sysnums_def filtered_def)

lemma added_not_void:
  assumes "add_internal_sysnums user = Some added"
  shows "PR_void \<notin> fs_value ` set added"
proof
  let ?u = "takeWhile (\<lambda>s. fs_value s \<noteq> PR_void) user"
  assume "PR_void \<in> fs_value ` set added"
  then obtain s where s: "s \<in> set added" "fs_value s = PR_void" by force
  have "set added \<subseteq> set ?u \<union> set internal_sysnums"
    using assms by (auto simp: add_internal_sysnums_def Let_def split: if_splits)
  then consider "s \<in> set ?u" | "s \<in> set internal_sysnums" using s(1) by blast
  then show False
  proof cases
    case 1
    then show ?thesis using s(2) set_takeWhileD by fast
  next
    case 2
    then show ?thesis using s(2) internal_not_void by (metis imageI)
  qed
qed

lemma added_internal:
  "add_internal_sysnums user = Some added \<Longrightarrow> fs_value ` set internal_sysnums \<subseteq> fs_value ` set added"
proof
  let ?u = "takeWhile (\<lambda>s. fs_value s \<noteq> PR_void) user"
  assume "add_internal_sysnums user = Some added"
  then have a: "set added = set ?u \<union> {s \<in> set internal_sysnums. fs_value s \<notin> fs_value ` set ?u}"
    by (auto simp: add_internal_sysnums_def Let_def split: if_splits)
  fix v assume "v \<in> fs_value ` set internal_sysnums"
  then obtain s where s: "s \<in> set internal_sysnums" "v = fs_value s" by blast
  show "v \<in> fs_value ` set added"
    unfolding a using s by (cases "v \<in> fs_value ` set ?u") auto
qed

lemma find_False: "find (\<lambda>x. False) xs = None"
  by (induction xs) auto

lemma find_distinct:
  assumes "distinct (map fs_value ss)"
  shows "find (\<lambda>x. Some (fs_value x) = Some v) ss =
    (if v \<in> fs_value ` set ss then Some \<lparr>fs_value = v, fs_flags = flags_of ss v\<rparr> else None)"
  using assms
proof (induction ss)
  case (Cons s ss)
  then show ?case by (cases s) (auto simp: flags_of_absent)
qed simp

text \<open>What the application and the tracer ask for: the values, and their flags together.\<close>

definition requested :: "FilteredSysnum list \<Rightarrow> seccomp_data \<Rightarrow> u32" where
  "requested added d =
     (case arch_abi (sd_arch d) of
        None \<Rightarrow> SECCOMP_RET_KILL
      | Some abi \<Rightarrow>
          (case translate_sysnum abi (ucast (sd_nr d)) of
             None \<Rightarrow> SECCOMP_RET_ALLOW
           | Some v \<Rightarrow> if v \<in> fs_value ` set added then SECCOMP_RET_TRACE + ucast (flags_of added v)
                       else SECCOMP_RET_ALLOW))"

lemma merged_verdict:
  assumes "merge_filtered_sysnums alloc [] added = Some (Inr merged)" "PR_void \<notin> fs_value ` set added"
  shows "filter_verdict merged d = requested added d"
proof -
  have m: "distinct (map fs_value merged)" "fs_value ` set merged = fs_value ` set added"
    "\<forall>v. flags_of merged v = flags_of added v"
    using merge_spec [OF assms(1) _ assms(2)] by auto
  have "takeWhile (\<lambda>x. fs_value x \<noteq> PR_void) merged = merged"
    using m(2) assms(2) by (intro takeWhile_eq_all_conv [THEN iffD2]) (metis imageI)
  then have tw: "takeWhile (\<lambda>x. fs_value x \<noteq> PR_void) merged = merged" .
  have "sysnum_verdict merged s = (case s of None \<Rightarrow> SECCOMP_RET_ALLOW
      | Some v \<Rightarrow> if v \<in> fs_value ` set added then SECCOMP_RET_TRACE + ucast (flags_of added v)
                  else SECCOMP_RET_ALLOW)" for s
    unfolding sysnum_verdict_def tw using find_distinct [OF m(1)] m(2,3)
    by (cases s) (simp_all add: find_False)
  then show ?thesis by (simp add: filter_verdict_def requested_def split: option.splits)
qed

text \<open>
  What is meant to be reported, from the application's list alone: the numbers before its
  terminator, each with the union of the flags it is listed with, and the numbers the tracer
  needs, to be stopped at their exit, where the application does not list them.
\<close>

definition own_sysnums :: "FilteredSysnum list \<Rightarrow> FilteredSysnum list" where
  "own_sysnums user = takeWhile (\<lambda>s. fs_value s \<noteq> PR_void) user"

definition reported :: "FilteredSysnum list \<Rightarrow> Sysnum \<Rightarrow> u64 option" where
  "reported user v =
     (if v \<in> fs_value ` set (own_sysnums user) then Some (flags_of (own_sysnums user) v)
      else if v \<in> {PR_ptrace, PR_wait4, PR_waitpid, PR_execve, PR_execveat, PR_readlinkat}
      then Some FILTER_SYSEXIT else None)"

definition call_verdict :: "FilteredSysnum list \<Rightarrow> seccomp_data \<Rightarrow> u32" where
  "call_verdict user d =
     (case arch_abi (sd_arch d) of
        None \<Rightarrow> SECCOMP_RET_KILL
      | Some abi \<Rightarrow>
          (case Option.bind (translate_sysnum abi (ucast (sd_nr d))) (reported user) of
             None \<Rightarrow> SECCOMP_RET_ALLOW
           | Some flags \<Rightarrow> SECCOMP_RET_TRACE + ucast flags))"

lemma internal_values:
  "fs_value ` set internal_sysnums =
     {PR_ptrace, PR_wait4, PR_waitpid, PR_execve, PR_execveat, PR_readlinkat}"
  by (simp add: internal_sysnums_def filtered_def)

lemma flags_of_internal: "v \<in> fs_value ` set internal_sysnums \<Longrightarrow> flags_of internal_sysnums v = FILTER_SYSEXIT"
  by (auto simp: internal_sysnums_def filtered_def)

lemma flags_of_filter: "P v \<Longrightarrow> flags_of (filter (\<lambda>s. P (fs_value s)) ss) v = flags_of ss v"
  by (induction ss) auto

lemma requested_call_verdict:
  assumes "add_internal_sysnums user = Some added"
  shows "requested added d = call_verdict user d"
proof -
  have added: "added = own_sysnums user @
      filter (\<lambda>s. fs_value s \<notin> fs_value ` set (own_sysnums user)) internal_sysnums"
    using assms by (auto simp: add_internal_sysnums_def own_sysnums_def Let_def split: if_splits)
  let ?own = "own_sysnums user"
  let ?rest = "filter (\<lambda>s. fs_value s \<notin> fs_value ` set ?own) internal_sysnums"
  have "reported user v = (if v \<in> fs_value ` set added then Some (flags_of added v) else None)" for v
  proof (cases "v \<in> fs_value ` set ?own")
    case True
    have "fs_value s \<noteq> v" if "s \<in> set ?rest" for s
    proof
      assume "fs_value s = v"
      with that True show False by simp
    qed
    then have "flags_of ?rest v = 0" by (intro flags_of_absent) blast
    then show ?thesis using True by (simp add: added reported_def flags_of_append image_Un)
  next
    case False
    have "v \<in> fs_value ` set ?rest \<longleftrightarrow> v \<in> fs_value ` set internal_sysnums" using False by auto
    moreover have "flags_of ?rest v = flags_of internal_sysnums v" using False by (rule flags_of_filter)
    ultimately show ?thesis
      using False flags_of_internal [of v] flags_of_absent [OF False]
      unfolding added reported_def set_append image_Un flags_of_append internal_values by simp
  qed
  then show ?thesis
    by (simp add: requested_def call_verdict_def split: option.split Option.bind_split)
qed

text \<open>Every error is negative, and without errors of allocation there is none.\<close>

lemma merge_error: "merge_filtered_sysnums alloc ss new = Some (Inl e) \<Longrightarrow> e < 0"
proof (induction new arbitrary: ss)
  case (Cons n new)
  have "merge_one alloc n ss = Some (Inl e) \<Longrightarrow> e < 0"
    by (auto simp: merge_one_def Let_def split: if_splits)
  moreover have "merge_one alloc n ss \<noteq> None" by (auto simp: merge_one_def Let_def)
  ultimately show ?case using Cons
    by (auto simp: bind_ok_def split: if_splits option.splits sum.splits)
qed simp

lemma add_statements_error: "add_statements alloc ss p = Some (Inl e) \<Longrightarrow> e < 0"
  by (auto simp: add_statements_def split: if_splits)

lemma add_traces_error: "add_traces alloc abi ss p = Some (Inl e) \<Longrightarrow> e < 0"
proof (induction ss arbitrary: p)
  case (Cons s ss)
  have "add_trace_syscall alloc n f p = Some (Inl e) \<Longrightarrow> e < 0" for n f
    by (auto simp: add_trace_syscall_def dest: add_statements_error split: if_splits)
  then show ?case using Cons
    by (fastforce simp: bind_ok_def split: if_splits option.splits sum.splits)
qed simp

lemma add_abis_error: "add_abis alloc abis ss p = Some (Inl e) \<Longrightarrow> e < 0"
  by (induction abis arbitrary: p)
    (auto simp: bind_ok_def dest: add_traces_error split: option.splits sum.splits)

lemma add_archs_error: "add_archs alloc st archs ss p = Some (Inl e) \<Longrightarrow> e < 0"
proof (induction archs arbitrary: p)
  case (Cons a archs)
  have "start_arch_section alloc st x n q = Some (Inl e) \<Longrightarrow> e < 0" for x n q
    by (auto simp: start_arch_section_def bind_ok_def dest: add_statements_error
        split: if_splits option.splits sum.splits)
  moreover have "end_arch_section alloc n q = Some (Inl e) \<Longrightarrow> e < 0" for n q
    by (auto simp: end_arch_section_def bind_ok_def dest: add_statements_error
        split: if_splits option.splits sum.splits)
  ultimately show ?case using Cons
    by (auto simp: bind_ok_def dest: add_abis_error split: option.splits sum.splits)
qed simp

lemma build_error: "build_filter alloc st ss = Some (Inl e) \<Longrightarrow> e < 0"
  by (auto simp: build_filter_def new_program_filter_def finalize_program_filter_def bind_ok_def
      dest: add_archs_error add_statements_error split: if_splits option.splits sum.splits)

section \<open>Compilation succeeds\<close>

lemma add_statements_True: "add_statements (\<lambda>_. True) ss p = Some (Inr (p\<lparr>fp_filter := fp_filter p @ ss\<rparr>))"
  by (simp add: add_statements_def)

lemma add_traces_total:
  assumes "abi \<noteq> ABI_3"
  shows "\<exists>p'. add_traces (\<lambda>_. True) abi ss p = Some (Inr p')"
proof (induction ss arbitrary: p)
  case (Cons s ss)
  obtain n where n: "detranslate_sysnum abi (fs_value s) = Some n"
    using detranslate_total [OF assms] by blast
  show ?case
  proof (cases "fs_value s = PR_void \<or> n = SYSCALL_AVOIDER")
    case True
    then show ?thesis using Cons n by auto
  next
    case False
    then have "unat n < 2 ^ 16" using detranslate_small [OF assms n] by simp
    then have "\<not> n > 0xFFFFFFFF" by (simp add: word_less_nat_alt)
    then show ?thesis using Cons n False by (auto simp: add_trace_syscall_def add_statements_True)
  qed
qed simp

lemma traced_calls_length: "length (traced_calls abi ss) \<le> length ss"
  by (induction ss) (auto split: option.splits)

lemma one_abi_total:
  assumes "abi \<noteq> ABI_3" "length ss \<le> 10000" "length (fp_filter p) \<le> 30000"
  shows "\<exists>p1. length (fp_filter p1) \<le> length (fp_filter p) + 20010 \<and>
    add_archs (\<lambda>_. True) st (\<lparr>sa_value = arch, sa_abis = [abi]\<rparr> # archs) ss p =
    add_archs (\<lambda>_. True) st archs ss p1"
proof -
  let ?n = "length (traced_calls abi ss)"
  have n: "?n \<le> 10000" using traced_calls_length [of abi ss] assms(2) by simp
  let ?a = "set_len (p\<lparr>fp_filter := fp_filter p @ start_statements st arch ?n\<rparr>)"
  have a: "start_arch_section (\<lambda>_. True) st arch ?n p = Some (Inr ?a)"
    using n by (simp add: start_arch_section_def add_statements_True section_length_def
        LENGTH_END_SECTION_def LENGTH_TRACE_SYSCALL_def)
  have st: "length (start_statements st arch ?n) \<le> 9" by (simp add: start_statements_def)
  obtain b where b: "add_traces (\<lambda>_. True) abi ss ?a = Some (Inr b)"
    using add_traces_total [OF assms(1)] by blast
  have bc: "b = ?a\<lparr>fp_filter := fp_filter ?a @ traces_code (traced_calls abi ss)\<rparr>"
    by (rule add_traces_code [OF assms(1) b])
  have len: "fp_len b = length (fp_filter p) + length (start_statements st arch ?n)"
    using bc st assms(3) by (simp add: set_len_def)
  let ?c = "b\<lparr>fp_filter := fp_filter b @ [BPF_STMT RET_K SECCOMP_RET_ALLOW]\<rparr>"
  have fc: "length (fp_filter ?c) = length (fp_filter p) + length (start_statements st arch ?n) + 2 * ?n + 1"
    using bc by (simp add: set_len_def length_traces_code)
  have c: "end_arch_section (\<lambda>_. True) ?n b = Some (Inr ?c)"
    using len fc by (simp add: end_arch_section_def add_statements_True section_length_def
        LENGTH_END_SECTION_def LENGTH_TRACE_SYSCALL_def)
  have "length (fp_filter ?c) \<le> length (fp_filter p) + 20010" using fc st n by simp
  moreover have "count_abis [abi] ss = Some ?n" using count_traced_length [OF assms(1)] by simp
  then have "add_archs (\<lambda>_. True) st (\<lparr>sa_value = arch, sa_abis = [abi]\<rparr> # archs) ss p =
      add_archs (\<lambda>_. True) st archs ss ?c"
    using a b c by simp
  ultimately show ?thesis by blast
qed

lemma build_filter_total:
  assumes "length ss \<le> 10000"
  shows "\<exists>prog. build_filter (\<lambda>_. True) st ss = Some (Inr prog)"
proof -
  let ?p0 = "\<lparr>fp_len = 0, fp_filter = []\<rparr>"
  let ?arm = "[\<lparr>sa_value = AUDIT_ARCH_ARM, sa_abis = [ABI_2]\<rparr>]"
  obtain p1 where p1: "length (fp_filter p1) \<le> 20010"
    "add_archs (\<lambda>_. True) st SECCOMP_ARCHS ss ?p0 = add_archs (\<lambda>_. True) st ?arm ss p1"
    using one_abi_total [of ABI_DEFAULT ss ?p0 st AUDIT_ARCH_AARCH64 ?arm] assms
    by (auto simp: SECCOMP_ARCHS_def)
  obtain p2 where "add_archs (\<lambda>_. True) st ?arm ss p1 = add_archs (\<lambda>_. True) st [] ss p2"
    using one_abi_total [of ABI_2 ss p1 st AUDIT_ARCH_ARM "[]"] assms p1(1) by auto
  then have "add_archs (\<lambda>_. True) st SECCOMP_ARCHS ss ?p0 = Some (Inr p2)" using p1(2) by simp
  then show ?thesis
    by (simp add: build_filter_def new_program_filter_def finalize_program_filter_def add_statements_True)
qed

lemma merge_total: "\<exists>ss'. merge_filtered_sysnums (\<lambda>_. True) ss new = Some (Inr ss') \<and>
    length ss' \<le> length ss + length new"
proof (induction new arbitrary: ss)
  case (Cons n new)
  have "\<exists>s1. merge_one (\<lambda>_. True) n ss = Some (Inr s1) \<and> length s1 \<le> length ss + 1"
    by (auto simp: merge_one_def Let_def)
  then obtain s1 where s1: "merge_one (\<lambda>_. True) n ss = Some (Inr s1)" "length s1 \<le> length ss + 1"
    by blast
  then show ?case using Cons.IH [of s1] by auto
qed simp

section \<open>Properties\<close>

text \<open>C2: the filter is compiled correctly.  Without the exclusion of libc, the program built from
  a list of numbers gives every system call the verdict that was specified: a call of the arm64
  or arm ABI whose neutral value is in the list is reported to the tracer with its flags, any
  other call of these ABIs is allowed, and every other architecture is killed.\<close>

theorem filter_correct:
  assumes "bpf_machine exec" "build_filter alloc st sysnums = Some (Inr prog)" "\<not> s_exclude_libc st"
  shows "exec (fp_filter prog) d 0 a = Some (filter_verdict sysnums d)"
  using assms by (rule bpf_machine.exec_filter)

definition plain_statics :: seccomp_statics where
  "plain_statics = \<lparr>libc_start = - 1, libc_end = - 1, s_exclude_libc = False\<rparr>"

theorem filter_correct_witness:
  "\<exists>prog. build_filter (\<lambda>_. True) plain_statics [] = Some (Inr prog) \<and>
     bpf_exec (fp_filter prog) \<lparr>sd_nr = 57, sd_arch = 0, sd_ip = 0\<rparr> 0 0 = Some SECCOMP_RET_KILL"
proof -
  obtain prog where b: "build_filter (\<lambda>_. True) plain_statics [] = Some (Inr prog)"
    using build_filter_total [of "[]"] by auto
  have "bpf_exec (fp_filter prog) d 0 0 = Some (filter_verdict [] d)" for d
    by (rule filter_correct [OF bpf.bpf_machine_axioms b]) (simp add: plain_statics_def)
  with b show ?thesis by (auto simp: filter_verdict_def arch_abi_def)
qed

text \<open>C33: when libc is excluded, a call of any architecture but arm64 is allowed without being
  reported, whatever was asked for: the jump meant to skip the section of another architecture
  lands on the one that allows the calls made by libc.\<close>

theorem exclude_libc_hides_arm:
  assumes "bpf_machine exec" "build_filter alloc st sysnums = Some (Inr prog)" "s_exclude_libc st"
    and "sd_arch d \<noteq> AUDIT_ARCH_AARCH64"
  shows "exec (fp_filter prog) d 0 a = Some SECCOMP_RET_ALLOW"
  using assms by (rule bpf_machine.exec_exclude_other_arch)

theorem exclude_libc_hides_arm_witness:
  "\<exists>prog. build_filter (\<lambda>_. True) \<lparr>libc_start = - 1, libc_end = - 1, s_exclude_libc = True\<rparr> [] =
      Some (Inr prog) \<and>
     bpf_exec (fp_filter prog) \<lparr>sd_nr = 11, sd_arch = AUDIT_ARCH_ARM, sd_ip = 0\<rparr> 0 0 = Some SECCOMP_RET_ALLOW"
proof -
  obtain prog where b: "build_filter (\<lambda>_. True) \<lparr>libc_start = - 1, libc_end = - 1, s_exclude_libc = True\<rparr> [] =
      Some (Inr prog)" using build_filter_total [of "[]"] by auto
  have "bpf_exec (fp_filter prog) \<lparr>sd_nr = 11, sd_arch = AUDIT_ARCH_ARM, sd_ip = 0\<rparr> 0 0 = Some SECCOMP_RET_ALLOW"
    by (rule exclude_libc_hides_arm [OF bpf.bpf_machine_axioms b]) simp_all
  with b show ?thesis by blast
qed

text \<open>C12: where libc is not excluded, enabling the filtering installs a program that reports
  exactly the numbers the application lists and those the tracer itself needs (\<open>ptrace\<close>, \<open>wait4\<close>,
  \<open>waitpid\<close>, \<open>execve\<close>, \<open>execveat\<close>, \<open>readlinkat\<close>), in both ABIs: a number the application lists
  with the union of the flags it is listed with there, even if the tracer needs it too, and any
  other number the tracer needs with a stop at its exit.  Other calls of the two ABIs are
  allowed, and other architectures killed.\<close>

theorem enable_installs_requested:
  assumes "bpf_machine exec"
    and "enable_syscall_filtering P alloc st maps user False k = Some (0, st', k')"
  shows "\<exists>prog k1 s1 s2. set_no_new_privs P k = (s1, k1) \<and> set_seccomp P prog k1 = (s2, k') \<and>
    0 \<le> s1 \<and> 0 \<le> s2 \<and> (\<forall>d. exec (fp_filter prog) d 0 0 = Some (call_verdict user d))"
proof -
  obtain added where a: "add_internal_sysnums user = Some added"
    using assms(2) by (cases "add_internal_sysnums user") (simp_all add: enable_syscall_filtering_def Let_def)
  let ?st = "st\<lparr>s_exclude_libc := False\<rparr>"
  obtain merged where m: "merge_filtered_sysnums alloc [] added = Some (Inr merged)"
    and s: "set_seccomp_filters P alloc ?st merged k = Some (0, k')"
    using assms(2) a merge_error
    by (fastforce simp: enable_syscall_filtering_def Let_def split: option.splits if_splits sum.splits)
  obtain prog where b: "build_filter alloc ?st merged = Some (Inr prog)"
    using s build_error
    by (fastforce simp: set_seccomp_filters_def split: option.splits sum.splits if_splits)
  obtain s1 k1 where 1: "set_no_new_privs P k = (s1, k1)" by (metis prod.exhaust)
  obtain s2 k2 where 2: "set_seccomp P prog k1 = (s2, k2)" by (metis prod.exhaust)
  have "0 \<le> s1 \<and> 0 \<le> s2 \<and> k2 = k'"
    using s b 1 2 by (auto simp: set_seccomp_filters_def split: if_splits)
  moreover have "exec (fp_filter prog) d 0 0 = Some (call_verdict user d)" for d
    using bpf_machine.exec_filter [OF assms(1) b] merged_verdict [OF m added_not_void [OF a]]
      requested_call_verdict [OF a] by simp
  ultimately show ?thesis using 1 2 by blast
qed

text \<open>A kernel that keeps the last filter, and an application that wants \<open>close\<close> twice.\<close>

definition keeping_prctl :: "sock_fprog option prctl" where
  "keeping_prctl = \<lparr>set_no_new_privs = (\<lambda>k. (0, k)), set_seccomp = (\<lambda>p k. (0, Some p))\<rparr>"

definition close_twice :: "FilteredSysnum list" where
  "close_twice = [filtered PR_close 0, filtered PR_close FILTER_SYSEXIT, filtered PR_void 0]"

lemma enable_keeping:
  "\<exists>st' prog. enable_syscall_filtering keeping_prctl (\<lambda>_. True) plain_statics None close_twice False None =
     Some (0, st', Some prog)"
proof -
  let ?st = "plain_statics\<lparr>s_exclude_libc := False\<rparr>"
  obtain added where a: "add_internal_sysnums close_twice = Some added" "length added \<le> 8"
    by (simp add: add_internal_sysnums_def close_twice_def internal_sysnums_def filtered_def)
  obtain ss where ss: "merge_filtered_sysnums (\<lambda>_. True) [] added = Some (Inr ss)"
    "length ss \<le> length added"
    using merge_total [of "[]" added] by auto
  obtain prog where "build_filter (\<lambda>_. True) ?st ss = Some (Inr prog)"
    using build_filter_total [of ss] ss(2) a(2) by fastforce
  then have s: "set_seccomp_filters keeping_prctl (\<lambda>_. True) ?st ss None = Some (0, Some prog)"
    by (simp add: set_seccomp_filters_def keeping_prctl_def new_program_filter_def)
  show ?thesis
    unfolding enable_syscall_filtering_def Let_def a option.case ss(1) sum.case s if_False prod.case
    by simp
qed

theorem enable_installs_requested_witness:
  "\<exists>st' prog. enable_syscall_filtering keeping_prctl (\<lambda>_. True) plain_statics None close_twice False None =
      Some (0, st', Some prog) \<and>
    bpf_exec (fp_filter prog) \<lparr>sd_nr = 57, sd_arch = AUDIT_ARCH_AARCH64, sd_ip = 0\<rparr> 0 0 =
      Some (SECCOMP_RET_TRACE + 1)"
proof -
  obtain st' prog where e: "enable_syscall_filtering keeping_prctl (\<lambda>_. True) plain_statics None
      close_twice False None = Some (0, st', Some prog)"
    using enable_keeping by blast
  from enable_installs_requested [OF bpf.bpf_machine_axioms this]
  have v: "bpf_exec (fp_filter prog) d 0 0 = Some (call_verdict close_twice d)" for d
    by (auto simp: keeping_prctl_def)
  have t: "translate_sysnum ABI_DEFAULT 57 = Some PR_close"
  proof -
    have "map_of sysnums_arm64 57 = Some PR_close" by (simp add: sysnums_arm64_def)
    then show ?thesis by (simp add: translate_sysnum_alt table_abi_def arm64_length nth_table_of)
  qed
  have "call_verdict close_twice \<lparr>sd_nr = 57, sd_arch = AUDIT_ARCH_AARCH64, sd_ip = 0\<rparr> = SECCOMP_RET_TRACE + 1"
    by (simp add: call_verdict_def arch_abi_def t reported_def own_sysnums_def close_twice_def filtered_def)
  then show ?thesis using e v by metis
qed

end
