(* ===== verification/Event.thy ===== *)
theory Event
  imports Ptrace Seccomp
begin

text \<open>
  The event loop (src/library/src/main/jni/tracee/event.c): the two stages of a system call
  with the handlers of \<open>ptrace\<close> and \<open>wait\<close>, \<open>handle_tracee_event\<close>, one iteration of the loop,
  and the loop.  The handlers of \<open>execve\<close> and the callbacks of the application are the
  argument \<open>H\<close>; they see the kernel and the tracee they are called for.
\<close>

unbundle bit_operations_syntax

section \<open>System call stages of a tracee\<close>

text \<open>A handler that works on the tracer's state, as a handler of \<open>translate_syscall\<close>.\<close>

definition through ::
    "addr \<Rightarrow> ('k world \<Rightarrow> ('a \<times> 'k world) option) \<Rightarrow> Tracee \<Rightarrow> 'k world \<Rightarrow>
     ('a \<times> Tracee \<times> 'k world) option" where
  "through tracee f t w = do {
     (r, w) \<leftarrow> f (put_tracee tracee t w);
     t \<leftarrow> tracee_at tracee w;
     Some (r, t, w)
   }"

definition lift_callback ::
    "(Syscall_data \<Rightarrow> Tracee \<Rightarrow> 'k OS \<Rightarrow> u64 \<times> Tracee \<times> 'k OS) \<Rightarrow>
     Syscall_data \<Rightarrow> Tracee \<Rightarrow> 'k world \<Rightarrow> u64 \<times> Tracee \<times> 'k world" where
  "lift_callback f d t w = (case f d t (base_os w) of (user, t, os) \<Rightarrow> (user, t, with_os w os))"

definition world_handlers ::
    "'k Kernel \<Rightarrow> 'k Procs \<Rightarrow> 'k Handlers \<Rightarrow> 'k handle_event \<Rightarrow> addr \<Rightarrow> 'k world \<Rightarrow>
     'k World Handlers" where
  "world_handlers K P H handle_event tracee w0 =
    \<lparr>h_parent_pid = (\<lambda>parent. case tracee_at parent w0 of Some p \<Rightarrow> t_pid p | None \<Rightarrow> 0),
     global_on_sysenter = map_option lift_callback (global_on_sysenter H),
     global_on_sysexit = map_option lift_callback (global_on_sysexit H),
     h_execve_enter = (\<lambda>t w. map_option (\<lambda>(status, t, os). (status, t, with_os w os))
                               (h_execve_enter H t (base_os w))),
     h_ptrace_enter = through tracee (translate_ptrace_enter tracee),
     h_wait_enter = through tracee (translate_wait_enter tracee),
     h_execve_exit = (\<lambda>t w. map_option (\<lambda>(t, os). (t, with_os w os))
                              (h_execve_exit H t (base_os w))),
     h_ptrace_exit = through tracee (translate_ptrace_exit K P handle_event tracee),
     h_wait_exit = (\<lambda>t w. map_option (\<lambda>((status, set_result), t, w). (status, set_result, t, w))
       (through tracee (\<lambda>w. map_option (\<lambda>(status, set_result, w). ((status, set_result), w))
          (translate_wait_exit K P handle_event tracee w)) t w))\<rparr>"

text \<open>The callbacks read the pid of the parent.\<close>

definition parent_alive :: "'k Handlers \<Rightarrow> Tracee \<Rightarrow> 'k world \<Rightarrow> bool" where
  "parent_alive H t w \<longleftrightarrow>
     global_on_sysenter H = None \<and> global_on_sysexit H = None \<or>
     (case t_parent t of None \<Rightarrow> True | Some parent \<Rightarrow> tracee_at parent w \<noteq> None)"

definition translate_syscall_at ::
    "'k Kernel \<Rightarrow> 'k Procs \<Rightarrow> 'k Handlers \<Rightarrow> 'k handle_event \<Rightarrow> addr \<Rightarrow> 'k world \<Rightarrow>
     'k world option" where
  "translate_syscall_at K P H handle_event tracee w = do {
     t \<leftarrow> tracee_at tracee w;
     if \<not> parent_alive H t w then None
     else do {
       (t, w) \<leftarrow> translate_syscall (lift_kernel K)
                  (world_handlers K P H handle_event tracee w) t w;
       Some (put_tracee tracee t w)
     }
   }"

section \<open>Events of a tracee\<close>

text \<open>How the tracee is restarted by default.\<close>

definition default_restart :: "Tracee \<Rightarrow> Tracee" where
  "default_restart t =
     (if t_restart_how t \<noteq> 0 then t
      else if t_seccomp t = ENABLED \<and> \<not> t_sysexit_pending t
      then t\<lparr>t_restart_how := PTRACE_CONT\<rparr> else t\<lparr>t_restart_how := PTRACE_SYSCALL\<rparr>)"

definition default_ptrace_options :: u64 where
  "default_ptrace_options = O_TRACESYSGOOD OR O_TRACEFORK OR O_TRACEVFORK OR O_TRACEVFORKDONE OR
     O_TRACEEXEC OR O_TRACECLONE OR O_TRACEEXIT"

text \<open>\<open>None\<close> when both attempts are refused: the tracer exits.\<close>

definition set_options :: "'k Procs \<Rightarrow> addr \<Rightarrow> 'k world \<Rightarrow> 'k world option" where
  "set_options P tracee w = do {
     t \<leftarrow> tracee_at tracee w;
     let setoptions = sp_ptrace P (uint PTRACE_SETOPTIONS) (t_pid t) 0;
     let (status, w) = call1 (setoptions (default_ptrace_options OR O_TRACESECCOMP))
                         (set_errno 0 w);
     if status < 0 then do {
       w \<leftarrow> upd tracee (\<lambda>t. t\<lparr>t_seccomp_enabled := False\<rparr>) w;
       let (status, w) = call1 (setoptions default_ptrace_options) w;
       if status < 0 then None else Some w
     }
     else upd tracee (\<lambda>t. t\<lparr>t_seccomp_enabled := True\<rparr>) w
   }"

definition detect_seccomp :: "Tracee \<Rightarrow> Tracee" where
  "detect_seccomp t =
     (if \<not> t_seccomp_detected t \<and> t_seccomp_enabled t
      then t\<lparr>t_seccomp := ENABLED, t_seccomp_detected := True\<rparr> else t)"

text \<open>A stop of \<open>PTRACE_SYSCALL\<close>, or of seccomp with \<open>FILTER_SYSEXIT\<close>.\<close>

definition prepare_stage :: "Tracee \<Rightarrow> Tracee" where
  "prepare_stage t =
     (if t_seccomp t \<noteq> ENABLED then t
      else if IS_IN_SYSENTER t
      then t\<lparr>t_restart_how := PTRACE_SYSCALL, t_sysexit_pending := True\<rparr>
      else t\<lparr>t_restart_how := PTRACE_CONT, t_sysexit_pending := False\<rparr>)"

definition finish_disabling :: "Tracee \<Rightarrow> Tracee" where
  "finish_disabling t =
     (if t_seccomp t = DISABLING then t\<lparr>t_restart_how := PTRACE_SYSCALL, t_seccomp := DISABLED\<rparr>
      else t)"

definition syscall_stop ::
    "'k Kernel \<Rightarrow> 'k Procs \<Rightarrow> 'k Handlers \<Rightarrow> 'k handle_event \<Rightarrow> addr \<Rightarrow> 'k world \<Rightarrow>
     'k world option" where
  "syscall_stop K P H handle_event tracee w = do {
     t \<leftarrow> tracee_at tracee w;
     if t_seccomp t = DISABLING
     then upd tracee (\<lambda>t. t\<lparr>t_seccomp := DISABLED,
                            t_status := (if IS_IN_SYSENTER t then 1 else t_status t)\<rparr>) w
     else do {
       w \<leftarrow> upd tracee prepare_stage w;
       w \<leftarrow> translate_syscall_at K P H handle_event tracee w;
       upd tracee finish_disabling w
     }
   }"

definition seccomp_stop ::
    "'k Kernel \<Rightarrow> 'k Procs \<Rightarrow> 'k Handlers \<Rightarrow> 'k handle_event \<Rightarrow> addr \<Rightarrow> 'k world \<Rightarrow>
     'k world option" where
  "seccomp_stop K P H handle_event tracee w = do {
     w \<leftarrow> upd tracee detect_seccomp w;
     t \<leftarrow> tracee_at tracee w;
     if t_seccomp t \<noteq> ENABLED then Some w
     else do {
       let (status, flags, w) = call2 (sp_geteventmsg P (t_pid t)) w;
       if status < 0 then Some w
       else if flags AND FILTER_SYSEXIT = 0 then do {
         w \<leftarrow> upd tracee (\<lambda>t. t\<lparr>t_restart_how := PTRACE_CONT\<rparr>) w;
         w \<leftarrow> translate_syscall_at K P H handle_event tracee w;
         upd tracee (\<lambda>t. if t_seccomp t = DISABLING then t\<lparr>t_restart_how := PTRACE_SYSCALL\<rparr>
                         else t) w
       }
       else syscall_stop K P H handle_event tracee w
     }
   }"

definition first_sigtrap ::
    "'k Kernel \<Rightarrow> 'k Procs \<Rightarrow> 'k Handlers \<Rightarrow> 'k handle_event \<Rightarrow> addr \<Rightarrow> 'k world \<Rightarrow>
     'k world option" where
  "first_sigtrap K P H handle_event tracee w = do {
     w \<leftarrow> upd tracee (\<lambda>t. t\<lparr>t_deliver_sigtrap := True\<rparr>) w;
     w \<leftarrow> set_options P tracee w;
     w \<leftarrow> upd tracee detect_seccomp w;
     syscall_stop K P H handle_event tracee w
   }"

definition handle_stop ::
    "'k Kernel \<Rightarrow> 'k Procs \<Rightarrow> 'k Handlers \<Rightarrow> 'k handle_event \<Rightarrow> addr \<Rightarrow> int \<Rightarrow> 'k world \<Rightarrow>
     (int \<times> 'k world) option" where
  "handle_stop K P H handle_event tracee signal w = do {
     t \<leftarrow> tracee_at tracee w;
     if signal = SIGTRAP then
       (if \<not> t_is_root t \<or> t_deliver_sigtrap t then Some (signal, w)
        else map_option (Pair 0) (first_sigtrap K P H handle_event tracee w))
     else if signal = EVENT_SECCOMP2 \<or> signal = EVENT_SECCOMP
     then map_option (Pair 0) (seccomp_stop K P H handle_event tracee w)
     else if signal = SYSCALL_TRAP
     then map_option (Pair 0) (syscall_stop K P H handle_event tracee w)
     else if signal = EVENT_VFORK then do {
       (_, w) \<leftarrow> new_child K P handle_event tracee CLONE_VFORK w;
       Some (0, w)
     }
     else if signal = EVENT_FORK \<or> signal = EVENT_CLONE then do {
       (_, w) \<leftarrow> new_child K P handle_event tracee 0 w;
       Some (0, w)
     }
     else if signal = EVENT_VFORK_DONE \<or> signal = EVENT_EXEC \<or> signal = EVENT_EXIT
     then Some (0, w)
     else if signal = SIGSTOP then
       (if t_sigstop t = SIGSTOP_IGNORED
        then map_option (Pair 0) (upd tracee (\<lambda>t. t\<lparr>t_sigstop := SIGSTOP_ALLOWED\<rparr>) w)
        else Some (signal, w))
     else Some (signal, w)
   }"

definition handle_event_with ::
    "'k Kernel \<Rightarrow> 'k Procs \<Rightarrow> 'k Handlers \<Rightarrow> 'k handle_event \<Rightarrow> addr \<Rightarrow> int \<Rightarrow> 'k world \<Rightarrow>
     (int \<times> 'k world) option" where
  "handle_event_with K P H handle_event tracee tracee_status w = do {
     w \<leftarrow> upd tracee default_restart w;
     (signal, w) \<leftarrow>
       (if WIFEXITED tracee_status
        then map_option (Pair 0) (terminate_tracee P tracee
               (modify (\<lambda>k. k\<lparr>w_last_exit_status := WEXITSTATUS tracee_status\<rparr>) w))
        else if WIFSIGNALED tracee_status then map_option (Pair 0) (terminate_tracee P tracee w)
        else if WIFSTOPPED tracee_status
        then handle_stop K P H handle_event tracee (stop_event tracee_status) w
        else Some (0, w));
     w \<leftarrow> upd_PTRACEE tracee (\<lambda>p. p\<lparr>event_proot := (event_proot p)\<lparr>ev_pending := False\<rparr>\<rparr>) w;
     Some (signal, w)
   }"

text \<open>
  The emulation of \<open>ptrace\<close> handles the pending event of another tracee inside the handling
  of an event.  The first argument bounds the depth of this nesting.
\<close>

primrec handle_tracee_event ::
    "nat \<Rightarrow> 'k Kernel \<Rightarrow> 'k Procs \<Rightarrow> 'k Handlers \<Rightarrow> 'k handle_event" where
  "handle_tracee_event 0 K P H = (\<lambda>_ _ _. None)"
| "handle_tracee_event (Suc depth) K P H =
     handle_event_with K P H (handle_tracee_event depth K P H)"

section \<open>Signals of the tracer\<close>

datatype signal_handler = Kill_all_tracees2 | Print_talloc_hierarchy | Sig_ign

text \<open>What \<open>event_loop\<close> installs for a signal; \<open>None\<close> keeps the default action.\<close>

definition signal_action :: "int \<Rightarrow> signal_handler option" where
  "signal_action signum =
     (if signum \<in> {3, 4, 6, 8, 11} then Some Kill_all_tracees2
      else if signum \<in> {10, 12} then Some Print_talloc_hierarchy
      else if signum \<in> {17, 18, 19, 20, 21, 22} then None
      else Some Sig_ign)"

text \<open>The status \<open>kill_all_tracees2\<close> exits with, if it does; it kills no tracee.\<close>

definition kill_all_tracees2 :: "int \<Rightarrow> int option" where
  "kill_all_tracees2 signum = (if signum \<noteq> 3 then Some 1 else None)"

section \<open>Event loop\<close>

abbreviation (input) EXIT_FAILURE :: int where "EXIT_FAILURE \<equiv> 1"

definition is_helper :: "pid \<Rightarrow> int \<Rightarrow> 'k world \<Rightarrow> bool option" where
  "is_helper pid tracee_status w =
     (if w_snew_attach_pid (os_kern w) \<noteq> -1 \<and> WIFEXITED tracee_status \<and>
         WEXITSTATUS tracee_status = 255
      then map_option (\<lambda>tracee. tracee = None) (find_pid w pid (tracees w))
      else Some False)"

text \<open>The exit of the helper process asks for a new process to be traced.\<close>

definition attach_new_pid :: "'k Procs \<Rightarrow> 'k world \<Rightarrow> 'k world option" where
  "attach_new_pid P w = do {
     let pid = w_snew_attach_pid (os_kern w);
     let (status, w) = call1 (sp_ptrace P (uint PTRACE_ATTACH) pid 0 0) w;
     if status < 0 then Some w
     else do {
       let w = modify (\<lambda>k. k\<lparr>w_waitting_for_tracee := False\<rparr>) w;
       (new_tracee, w) \<leftarrow> get_tracee P None 0 True w;
       case new_tracee of
         None \<Rightarrow> Some w
       | Some tracee \<Rightarrow> do {
           w \<leftarrow> upd tracee (\<lambda>t. t\<lparr>t_verbose := 6, t_pid := pid, t_is_root := True,
                                  t_deliver_sigtrap := False\<rparr>) w;
           let w = call0 (sp_cond_signal P) w;
           Some (modify (\<lambda>k. k\<lparr>w_snew_attach_pid := -1\<rparr>) w)
         }
     }
   }"

definition dispatch_event ::
    "'k Kernel \<Rightarrow> 'k Procs \<Rightarrow> 'k handle_event \<Rightarrow> pid \<Rightarrow> int \<Rightarrow> 'k world \<Rightarrow> 'k world option" where
  "dispatch_event K P handle_event pid tracee_status w = do {
     (tracee, w) \<leftarrow> get_tracee P None pid True w;
     tracee \<leftarrow> tracee;
     w \<leftarrow> upd tracee (\<lambda>t. t\<lparr>t_running := False\<rparr>) w;
     t \<leftarrow> tracee_at tracee w;
     (keep_stopped, w) \<leftarrow>
       (if ptracer (t_as_ptracee t) \<noteq> None
        then handle_ptracee_event K P handle_event tracee tracee_status w
        else Some (False, w));
     if keep_stopped then Some w
     else do {
       (signal, w) \<leftarrow> handle_event tracee tracee_status w;
       map_option snd (restart_tracee P tracee signal w)
     }
   }"

text \<open>One iteration, and the value the loop returns when it ends there.\<close>

definition event_iteration ::
    "'k Kernel \<Rightarrow> 'k Procs \<Rightarrow> 'k handle_event \<Rightarrow> 'k world \<Rightarrow> (int option \<times> 'k world) option" where
  "event_iteration K P handle_event w = do {
     w \<leftarrow> free_terminated_tracees K P handle_event w;
     let (pid, tracee_status, w) = call2 (sp_waitpid P) w;
     if pid < 0 then
       Some (if os_errno w \<noteq> ECHILD then Some EXIT_FAILURE
             else if \<not> w_waitting_for_tracee (os_kern w)
             then Some (w_last_exit_status (os_kern w)) else None, w)
     else do {
       helper \<leftarrow> is_helper pid tracee_status w;
       w \<leftarrow> (if helper then attach_new_pid P w
             else dispatch_event K P handle_event pid tracee_status w);
       Some (None, w)
     }
   }"

partial_function (option) event_loop ::
    "nat \<Rightarrow> 'k Kernel \<Rightarrow> 'k Procs \<Rightarrow> 'k Handlers \<Rightarrow> 'k world \<Rightarrow> (int \<times> 'k world) option" where
  "event_loop depth K P H w = do {
     (ended, w) \<leftarrow> event_iteration K P (handle_tracee_event depth K P H) w;
     case ended of Some status \<Rightarrow> Some (status, w) | None \<Rightarrow> event_loop depth K P H w
   }"

end
