(* ===== verification/Invariant.thy ===== *)
theory Invariant
  imports Event
begin

text \<open>
  The invariant of the tracer's state and its preservation: the list of tracees has no
  duplicates, every pointer to a tracee that the program follows leads to a live object, the
  zombies of a ptracer are the objects attached to it, and an event that waits for a ptracer
  is one whose handling needs no other tracee.  Every operation of the theories \<open>Tracees\<close>,
  \<open>Wait\<close>, \<open>Ptrace\<close> and \<open>Event\<close> keeps it.
\<close>

unbundle bit_operations_syntax

section \<open>Postconditions\<close>

text \<open>\<open>post Q m\<close>: if the program \<open>m\<close> is defined, \<open>Q\<close> holds of its result.\<close>

definition post :: "('a \<Rightarrow> bool) \<Rightarrow> 'a option \<Rightarrow> bool" where
  "post Q m \<longleftrightarrow> (\<forall>x. m = Some x \<longrightarrow> Q x)"

lemma post_simps [simp]:
  "post Q None" "post Q (Some x) \<longleftrightarrow> Q x"
  "post Q (m \<bind> f) \<longleftrightarrow> post (\<lambda>x. post Q (f x)) m"
  "post Q (map_option g m) \<longleftrightarrow> post (\<lambda>x. Q (g x)) m"
  by (cases m; simp add: post_def)+

lemma post_mono: "post Q m \<Longrightarrow> (\<And>x. m = Some x \<Longrightarrow> Q x \<Longrightarrow> Q' x) \<Longrightarrow> post Q' m"
  by (simp add: post_def)

lemma postI: "(\<And>x. m = Some x \<Longrightarrow> Q x) \<Longrightarrow> post Q m"
  by (simp add: post_def)

lemma postD: "post Q m \<Longrightarrow> m = Some x \<Longrightarrow> Q x"
  by (simp add: post_def)

section \<open>Loads and stores\<close>

lemma os_kern_modify [simp]: "os_kern (modify f w) = f (os_kern w)"
  by (simp add: modify_def)

lemma os_errno_modify [simp]: "os_errno (modify f w) = os_errno w"
  by (simp add: modify_def)

lemma tracee_at_put [simp]: "tracee_at b (put_tracee a t w) = (if b = a then Some t else tracee_at b w)"
  by (simp add: tracee_at_def put_tracee_def)

lemma tracees_put [simp]: "tracees (put_tracee a t w) = tracees w"
  by (simp add: tracees_def put_tracee_def)

lemma base_os_put [simp]: "base_os (put_tracee a t w) = base_os w"
  by (simp add: base_os_def put_tracee_def)

lemma upd_Some: "upd a f w = Some w' \<longleftrightarrow> (\<exists>t. tracee_at a w = Some t \<and> w' = put_tracee a (f t) w)"
  by (auto simp: upd_def bind_eq_Some_conv)

lemma upd_at [simp]: "tracee_at a w = Some t \<Longrightarrow> upd a f w = Some (put_tracee a (f t) w)"
  by (simp add: upd_def)

lemma upd_PTRACER_at [simp]:
  "tracee_at a w = Some t \<Longrightarrow>
   upd_PTRACER a f w = Some (put_tracee a (t\<lparr>t_as_ptracer := f (t_as_ptracer t)\<rparr>) w)"
  by (simp add: upd_PTRACER_def)

lemma upd_PTRACEE_at [simp]:
  "tracee_at a w = Some t \<Longrightarrow>
   upd_PTRACEE a f w = Some (put_tracee a (t\<lparr>t_as_ptracee := f (t_as_ptracee t)\<rparr>) w)"
  by (simp add: upd_PTRACEE_def)

lemma with_os_simps [simp]:
  "tracee_at a (with_os w os) = tracee_at a w" "tracees (with_os w os) = tracees w"
  "base_os (with_os w os) = os" "w_break (os_kern (with_os w os)) = w_break (os_kern w)"
  "os_errno (with_os w os) = os_errno os"
  "w_last_exit_status (os_kern (with_os w os)) = w_last_exit_status (os_kern w)"
  "w_snew_attach_pid (os_kern (with_os w os)) = w_snew_attach_pid (os_kern w)"
  "w_waitting_for_tracee (os_kern (with_os w os)) = w_waitting_for_tracee (os_kern w)"
  "with_os (with_os w os') os = with_os w os"
  by (simp_all add: with_os_def tracee_at_def tracees_def base_os_def)

section \<open>Shape\<close>

text \<open>
  The pointers of a tracee, and what the pointers of all tracees look like.  Most operations
  leave the shape alone.
\<close>

definition skel :: "Tracee \<Rightarrow> addr option \<times> addr option \<times> addr list \<times> bool \<times> bool" where
  "skel t = (t_parent t, ptracer (t_as_ptracee t), zombies (t_as_ptracer t), t_is_zombie t,
             ee_is_zombie (t_as_ptracee t))"

definition shape :: "'k world \<Rightarrow> addr list \<times> addr \<times>
    (addr \<Rightarrow> (addr option \<times> addr option \<times> addr list \<times> bool \<times> bool) option)" where
  "shape w = (tracees w, w_break (os_kern w), \<lambda>a. map_option skel (tracee_at a w))"

definition listed_ok :: "'k world \<Rightarrow> addr \<Rightarrow> Tracee \<Rightarrow> bool" where
  "listed_ok w a t \<longleftrightarrow> \<not> t_is_zombie t \<and> \<not> ee_is_zombie (t_as_ptracee t) \<and>
     (\<forall>p. t_parent t = Some p \<longrightarrow> p \<in> set (tracees w)) \<and>
     (\<forall>p. ptracer (t_as_ptracee t) = Some p \<longrightarrow> p \<in> set (tracees w)) \<and>
     distinct (zombies (t_as_ptracer t)) \<and>
     (\<forall>z \<in> set (zombies (t_as_ptracer t)). \<exists>zt. tracee_at z w = Some zt \<and> t_is_zombie zt \<and>
        ee_is_zombie (t_as_ptracee zt) \<and> ptracer (t_as_ptracee zt) = Some a)"

definition world_ok :: "'k world \<Rightarrow> bool" where
  "world_ok w \<longleftrightarrow> distinct (tracees w) \<and>
     (\<forall>a t. tracee_at a w = Some t \<longrightarrow> a < w_break (os_kern w)) \<and>
     (\<forall>a \<in> set (tracees w). \<exists>t. tracee_at a w = Some t \<and> listed_ok w a t)"

lemma skel_eqD:
  "skel t = skel t' \<Longrightarrow> t_parent t = t_parent t' \<and> ptracer (t_as_ptracee t) = ptracer (t_as_ptracee t') \<and>
   zombies (t_as_ptracer t) = zombies (t_as_ptracer t') \<and> t_is_zombie t = t_is_zombie t' \<and>
   ee_is_zombie (t_as_ptracee t) = ee_is_zombie (t_as_ptracee t')"
  by (simp add: skel_def)

lemma shape_at:
  assumes "shape w' = shape w" "tracee_at a w = Some t"
  obtains t' where "tracee_at a w' = Some t'" "skel t' = skel t"
proof -
  have "map_option skel (tracee_at a w') = map_option skel (tracee_at a w)"
    using assms(1) by (simp add: shape_def fun_eq_iff)
  then show ?thesis using assms(2) that by (cases "tracee_at a w'") auto
qed

lemma shape_tracees: "shape w' = shape w \<Longrightarrow> tracees w' = tracees w"
  by (simp add: shape_def)

lemma listed_ok_shape:
  assumes "shape w' = shape w" "skel t' = skel t" "listed_ok w a t"
  shows "listed_ok w' a t'"
  unfolding listed_ok_def
proof (intro conjI ballI)
  fix z assume "z \<in> set (zombies (t_as_ptracer t'))"
  then obtain zt where "tracee_at z w = Some zt" "t_is_zombie zt" "ee_is_zombie (t_as_ptracee zt)"
    "ptracer (t_as_ptracee zt) = Some a"
    using assms(2,3) skel_eqD [OF assms(2)] by (auto simp: listed_ok_def)
  then show "\<exists>zt. tracee_at z w' = Some zt \<and> t_is_zombie zt \<and> ee_is_zombie (t_as_ptracee zt) \<and>
      ptracer (t_as_ptracee zt) = Some a"
    using shape_at [OF assms(1)] skel_eqD by metis
qed (use assms skel_eqD [OF assms(2)] shape_tracees [OF assms(1)] in \<open>auto simp: listed_ok_def\<close>)

lemma world_ok_shape:
  assumes "shape w' = shape w" "world_ok w"
  shows "world_ok w'"
  unfolding world_ok_def
proof (intro conjI allI impI ballI)
  fix a t assume "tracee_at a w' = Some t"
  then show "a < w_break (os_kern w')"
    using assms shape_at [OF assms(1) [symmetric]] by (metis shape_def prod.inject world_ok_def)
next
  fix a assume "a \<in> set (tracees w')"
  then obtain t where "tracee_at a w = Some t" "listed_ok w a t"
    using assms shape_tracees [OF assms(1)] by (auto simp: world_ok_def)
  then show "\<exists>t. tracee_at a w' = Some t \<and> listed_ok w' a t"
    using shape_at [OF assms(1)] listed_ok_shape [OF assms(1)] by metis
qed (use assms shape_tracees [OF assms(1)] in \<open>auto simp: world_ok_def\<close>)

lemma shape_put: "tracee_at a w = Some t \<Longrightarrow> skel t' = skel t \<Longrightarrow> shape (put_tracee a t' w) = shape w"
  by (auto simp: shape_def fun_eq_iff) (simp add: put_tracee_def)

lemma shape_with_os [simp]: "shape (with_os w os) = shape w"
  by (simp add: shape_def)

text \<open>
  An event of a ptracee waits for its ptracer with \<open>event4.proot.pending\<close>.  Such an event is
  quiet: its handling creates no tracee and does not reach the exit stage of a system call.
\<close>

definition quiet :: "Tracee \<Rightarrow> int \<Rightarrow> bool" where
  "quiet t event \<longleftrightarrow> WIFSTOPPED event \<and>
     stop_event event \<notin> {EVENT_VFORK, EVENT_FORK, EVENT_CLONE, EVENT_SECCOMP, EVENT_SECCOMP2} \<and>
     (stop_event event = SYSCALL_TRAP \<longrightarrow> IS_IN_SYSENTER t) \<and>
     (stop_event event = SIGTRAP \<longrightarrow> \<not> t_is_root t \<or> t_deliver_sigtrap t \<or> IS_IN_SYSENTER t)"

definition pend_ok :: "Tracee \<Rightarrow> bool" where
  "pend_ok t \<longleftrightarrow> (ev_pending (event_proot (t_as_ptracee t)) \<longrightarrow>
     quiet t (ev_value (event_proot (t_as_ptracee t))))"

definition pend_view :: "Tracee \<Rightarrow> Event4 \<times> int \<times> bool \<times> bool" where
  "pend_view t = (event_proot (t_as_ptracee t), t_status t, t_is_root t, t_deliver_sigtrap t)"

lemma pend_ok_view: "pend_view t' = pend_view t \<Longrightarrow> pend_ok t \<Longrightarrow> pend_ok t'"
  by (simp add: pend_view_def pend_ok_def quiet_def IS_IN_SYSENTER_def)

text \<open>
  The invariant, with addresses \<open>S\<close> that stay in the list, and with the addresses \<open>X\<close> of the
  tracees whose event is being handled.
\<close>

definition ok :: "addr set \<Rightarrow> addr set \<Rightarrow> 'k world \<Rightarrow> bool" where
  "ok S X w \<longleftrightarrow> world_ok w \<and> S \<subseteq> set (tracees w) \<and>
     (\<forall>a \<in> set (tracees w) - X. \<forall>t. tracee_at a w = Some t \<longrightarrow> pend_ok t)"

lemma okD: "ok S X w \<Longrightarrow> a \<in> S \<Longrightarrow> a \<in> set (tracees w)"
  by (auto simp: ok_def)

lemma ok_mono: "ok S X w \<Longrightarrow> X \<subseteq> X' \<Longrightarrow> ok S X' w"
  by (auto simp: ok_def)

lemma ok_with_os [simp]: "ok S X (with_os w os) = ok S X w"
proof -
  have "world_ok (with_os w os) = world_ok w"
    using world_ok_shape shape_with_os by metis
  then show ?thesis by (simp add: ok_def)
qed

lemma world_listed: "world_ok w \<Longrightarrow> a \<in> set (tracees w) \<Longrightarrow>
  \<exists>t. tracee_at a w = Some t \<and> listed_ok w a t"
  by (simp add: world_ok_def)

lemma ok_listed: "ok S X w \<Longrightarrow> a \<in> set (tracees w) \<Longrightarrow>
  \<exists>t. tracee_at a w = Some t \<and> listed_ok w a t"
  by (simp add: world_ok_def ok_def)

section \<open>The kernel of the tracer\<close>

lemma set_errno_with_os: "set_errno e (with_os w os) = with_os w (set_errno e os)"
  by (simp add: set_errno_def with_os_def)

interpretation lifted: kernel_frame "lift_kernel K" "\<lambda>w. \<exists>os. w = with_os w0 os"
  by unfold_locales (auto simp: lift_kernel_def call1_def call2_def set_errno_with_os split_beta)

lemma with_os_base [simp]: "with_os w (base_os w) = w"
  by (simp add: with_os_def base_os_def)

lemma lifted_start: "\<exists>os. w = with_os w os"
  by (rule exI [of _ "base_os w"]) simp

lemma push_regs_lifted:
  assumes "push_regs (lift_kernel K) t w = (status, t', w')"
  shows "core t' = core t \<and> (\<exists>os. w' = with_os w os)"
  using lifted.push_regs [OF lifted_start, of K t w] core_push_regs [of "lift_kernel K" t w] assms
  by simp

lemma fetch_regs_lifted:
  assumes "fetch_regs (lift_kernel K) t w = (status, t', w')"
  shows "core t' = core t \<and> (\<exists>os. w' = with_os w os)"
  using lifted.fetch_regs [OF lifted_start, of K t w] core_fetch_regs [of "lift_kernel K" t w] assms
  by simp


section \<open>Rules for the invariant\<close>

lemma post_tracee_at: "(\<And>t. tracee_at a w = Some t \<Longrightarrow> Q t) \<Longrightarrow> post Q (tracee_at a w)"
  by (simp add: post_def)

lemma break_put [simp]: "w_break (os_kern (put_tracee a t w)) = w_break (os_kern w)"
  by (simp add: put_tracee_def)

lemma world_ok_put:
  assumes w: "world_ok w" "tracee_at a w = Some t"
    and listed: "a \<in> set (tracees w) \<Longrightarrow> listed_ok w a t'"
    and zombie: "t_is_zombie t \<Longrightarrow> t_is_zombie t' \<and> ee_is_zombie (t_as_ptracee t') =
      ee_is_zombie (t_as_ptracee t) \<and> ptracer (t_as_ptracee t') = ptracer (t_as_ptracee t)"
  shows "world_ok (put_tracee a t' w)"
proof -
  have "listed_ok (put_tracee a t' w) b u" if "listed_ok w b u" for b u
    using that w(2) zombie by (auto simp: listed_ok_def)
  then show ?thesis using w listed by (auto simp: world_ok_def)
qed

lemma ok_put:
  assumes "ok S X w" "tracee_at a w = Some t" "skel t' = skel t"
    "a \<notin> X \<Longrightarrow> pend_ok t \<Longrightarrow> pend_ok t'"
  shows "ok S X (put_tracee a t' w)"
  using assms world_ok_shape [OF shape_put [OF assms(2,3)]] by (auto simp: ok_def)

lemma ok_put_listed:
  assumes "ok S X w" "tracee_at a w = Some t" "a \<in> set (tracees w)" "listed_ok w a t'"
    "a \<notin> X \<Longrightarrow> pend_ok t \<Longrightarrow> pend_ok t'"
  shows "ok S X (put_tracee a t' w)"
proof -
  have "\<not> t_is_zombie t" using assms(1-3) ok_listed by (fastforce simp: listed_ok_def)
  then show ?thesis using assms world_ok_put [of w a t t'] by (auto simp: ok_def)
qed

lemma post_upd:
  assumes "ok S X w" "\<And>t. tracee_at a w = Some t \<Longrightarrow> skel (f t) = skel t \<and>
      (a \<notin> X \<longrightarrow> pend_view (f t) = pend_view t)" "\<And>w'. ok S X w' \<Longrightarrow> Q w'"
  shows "post Q (upd a f w)"
proof -
  have "ok S X (put_tracee a (f t) w)" if "tracee_at a w = Some t" for t
    using assms(2) [OF that] pend_ok_view [of "f t" t] by (intro ok_put [OF assms(1) that]) auto
  then show ?thesis unfolding post_def upd_Some using assms(3) by blast
qed

lemma post_upd_PTRACER:
  assumes "ok S X w" "\<And>p. zombies (f p) = zombies p" "\<And>w'. ok S X w' \<Longrightarrow> Q w'"
  shows "post Q (upd_PTRACER a f w)"
  unfolding upd_PTRACER_def
  by (rule post_upd) (use assms in \<open>auto simp: skel_def pend_view_def\<close>)

lemma post_upd_PTRACEE:
  assumes "ok S X w"
    "\<And>p. ptracer (f p) = ptracer p \<and> ee_is_zombie (f p) = ee_is_zombie p \<and>
      (a \<notin> X \<longrightarrow> event_proot (f p) = event_proot p)"
    "\<And>w'. ok S X w' \<Longrightarrow> Q w'"
  shows "post Q (upd_PTRACEE a f w)"
  unfolding upd_PTRACEE_def
  by (rule post_upd) (use assms in \<open>auto simp: skel_def pend_view_def\<close>)

lemma skel_core: "core t' = core t \<Longrightarrow> skel t' = skel t"
proof -
  assume "core t' = core t"
  moreover have "skel (core x) = skel x" for x by (simp add: skel_def core_def)
  ultimately show ?thesis by metis
qed

lemma pend_core: "core t' = core t \<Longrightarrow> t_status t' = t_status t \<Longrightarrow> pend_view t' = pend_view t"
proof -
  assume c: "core t' = core t" and "t_status t' = t_status t"
  moreover have "pend_view x = (case pend_view (core x) of (e, _, r) \<Rightarrow> (e, t_status x, r))" for x
    by (simp add: pend_view_def core_def)
  ultimately show ?thesis by metis
qed

lemma ok_put_core:
  assumes "ok S X w" "tracee_at a w = Some t" "core t' = core t" "t_status t' = t_status t"
  shows "ok S X (put_tracee a t' w)"
  by (rule ok_put [OF assms(1,2) skel_core [OF assms(3)] pend_ok_view [OF pend_core [OF assms(3,4)]]])

lemma post_push_regs_at:
  assumes "ok S X w" "\<And>st w'. ok S X w' \<Longrightarrow> Q (st, w')"
  shows "post Q (push_regs_at K a w)"
proof -
  have "ok S X (put_tracee a t' w')"
    if a: "tracee_at a w = Some t" and p: "push_regs (lift_kernel K) t w = (st, t', w')" for t st t' w'
  proof -
    obtain os where c: "core t' = core t" "w' = with_os w os" using push_regs_lifted [OF p] by blast
    moreover have "t_status t' = t_status t" using push_regs_frame [OF p] by simp
    moreover have "ok S X w'" "tracee_at a w' = Some t" using assms(1) a c(2) by simp_all
    ultimately show ?thesis by (intro ok_put_core)
  qed
  then show ?thesis using assms(2) by (auto simp: push_regs_at_def intro!: post_tracee_at split: prod.splits)
qed

lemma post_fetch_regs_at:
  assumes "ok S X w" "\<And>st w'. ok S X w' \<Longrightarrow> Q (st, w')"
  shows "post Q (fetch_regs_at K a w)"
proof -
  have "ok S X (put_tracee a t' w')"
    if a: "tracee_at a w = Some t" and p: "fetch_regs (lift_kernel K) t w = (st, t', w')" for t st t' w'
  proof -
    obtain os where c: "core t' = core t" "w' = with_os w os" using fetch_regs_lifted [OF p] by blast
    moreover have "t_status t' = t_status t" using p
      by (auto simp: fetch_regs_def frame_simps split: prod.splits if_splits)
    moreover have "ok S X w'" "tracee_at a w' = Some t" using assms(1) a c(2) by simp_all
    ultimately show ?thesis by (intro ok_put_core)
  qed
  then show ?thesis using assms(2) by (auto simp: fetch_regs_at_def intro!: post_tracee_at split: prod.splits)
qed

lemma post_restart_tracee:
  assumes "ok S X w" "\<And>r w'. ok S X w' \<Longrightarrow> Q (r, w')"
  shows "post Q (restart_tracee P a signal w)"
  using assms
  by (auto simp: restart_tracee_def call1_def skel_def pend_view_def
      intro!: post_tracee_at post_upd [where S = S and X = X] split: prod.splits)

lemma post_kill_all:
  assumes "ok S X w" "\<And>w'. ok S X w' \<Longrightarrow> Q w'"
  shows "post Q (kill_all_tracees P w)"
proof -
  let ?f = "\<lambda>tracee m. do { w \<leftarrow> m; t \<leftarrow> tracee_at tracee w; Some (snd (call1 (sp_kill P (t_pid t) SIGKILL) w)) }"
  have f: "post (ok S X) m \<Longrightarrow> post (ok S X) (fold ?f ts m)" for ts m
  proof (induction ts arbitrary: m)
    case (Cons a ts)
    have "post (ok S X) (?f a m)"
      using Cons.prems by (auto elim!: post_mono intro!: post_tracee_at simp: call1_def split_beta)
    then show ?case by (simp only: fold_Cons comp_apply) (rule Cons.IH)
  qed simp
  have "post (ok S X) (kill_all_tracees P w)"
    unfolding kill_all_tracees_def by (rule f) (use assms(1) in simp)
  then show ?thesis by (rule post_mono) (rule assms(2))
qed

lemma post_terminate_tracee:
  assumes "ok S X w" "\<And>w'. ok S X w' \<Longrightarrow> Q w'"
  shows "post Q (terminate_tracee P a w)"
  using assms by (auto simp: terminate_tracee_def skel_def pend_view_def
      intro!: post_tracee_at post_upd [where S = S and X = X] post_kill_all [where S = S and X = X])

section \<open>Links between tracees\<close>

lemma post_upd_PTRACEE_listed:
  assumes "ok S X w" "a \<in> S"
    "\<And>p q. ptracer (f p) = Some q \<Longrightarrow> ptracer p \<noteq> Some q \<Longrightarrow> q \<in> S"
    "\<And>p. ee_is_zombie (f p) \<Longrightarrow> ee_is_zombie p"
    "\<And>p. \<not> ev_pending (event_proot (f p)) \<or> event_proot (f p) = event_proot p"
    "\<And>w'. ok S X w' \<Longrightarrow> Q w'"
  shows "post Q (upd_PTRACEE a f w)"
proof -
  have "ok S X (put_tracee a (t\<lparr>t_as_ptracee := f (t_as_ptracee t)\<rparr>) w)"
    if t: "tracee_at a w = Some t" for t
  proof (rule ok_put_listed [OF assms(1) t])
    show a: "a \<in> set (tracees w)" using assms(1,2) by (rule okD)
    then have "listed_ok w a t" using t ok_listed [OF assms(1) a] by simp
    moreover have "q \<in> set (tracees w)" if "ptracer (f (t_as_ptracee t)) = Some q" for q
      using that calculation assms(3) okD [OF assms(1), of q]
      by (cases "ptracer (t_as_ptracee t) = Some q") (auto simp: listed_ok_def)
    ultimately show "listed_ok w a (t\<lparr>t_as_ptracee := f (t_as_ptracee t)\<rparr>)"
      using assms(4) by (auto simp: listed_ok_def)
    assume "pend_ok t"
    then show "pend_ok (t\<lparr>t_as_ptracee := f (t_as_ptracee t)\<rparr>)"
      using assms(5) [of "t_as_ptracee t"] by (auto simp: pend_ok_def quiet_def IS_IN_SYSENTER_def)
  qed
  then show ?thesis using assms(6) unfolding upd_PTRACEE_def post_def upd_Some by blast
qed

lemma post_attach:
  assumes "ok S X w" "a \<in> S" "p \<in> S" "\<And>w'. ok S X w' \<Longrightarrow> Q w'"
  shows "post Q (attach_to_ptracer a p w)"
  using assms
  by (auto simp: attach_to_ptracer_def calloc_tracee_def
      intro!: post_upd_PTRACEE_listed [where S = S and X = X] post_upd_PTRACER [where S = S and X = X])

lemma post_option: "(\<And>x. m = Some x \<Longrightarrow> Q x) \<Longrightarrow> post Q m"
  by (simp add: post_def)

lemma post_detach:
  assumes "ok S X w" "a \<in> S" "\<And>w'. ok S X w' \<Longrightarrow> Q w'"
  shows "post Q (detach_from_ptracer a w)"
  using assms
  by (auto simp: detach_from_ptracer_def intro!: post_tracee_at post_option [of "ptracer x" for x]
      post_upd_PTRACEE_listed [where S = S and X = X] post_upd_PTRACER [where S = S and X = X])

section \<open>New tracees\<close>

lemma new_dummy_eq:
  assumes "new_dummy_tracee P w = (Some a, w')"
  shows "a = w_break (os_kern w) \<and> (\<exists>os. w' = modify (\<lambda>k. k\<lparr>w_objects := (w_objects k)(w_break k \<mapsto> calloc_tracee),
      w_break := w_break k + 1\<rparr>) (with_os w os))"
  using assms by (auto simp: new_dummy_tracee_def call1_def split: if_splits prod.splits)

lemma new_dummy_Some:
  assumes "new_dummy_tracee P w = (Some a, w')"
  shows "a = w_break (os_kern w)" and "tracees w' = tracees w"
    and "w_break (os_kern w') = a + 1"
    and "\<And>b. tracee_at b w' = (if b = a then Some calloc_tracee else tracee_at b w)"
proof -
  obtain os where w': "w' = modify (\<lambda>k. k\<lparr>w_objects := (w_objects k)(w_break k \<mapsto> calloc_tracee),
      w_break := w_break k + 1\<rparr>) (with_os w os)" and a: "a = w_break (os_kern w)"
    using new_dummy_eq [OF assms] by blast
  show "a = w_break (os_kern w)" by (rule a)
  show "tracees w' = tracees w" by (simp add: w' tracees_def with_os_def)
  show "w_break (os_kern w') = a + 1" by (simp add: w' a)
  show "tracee_at b w' = (if b = a then Some calloc_tracee else tracee_at b w)" for b
    by (simp add: w' a tracee_at_def with_os_def)
qed

lemma new_dummy_None: "new_dummy_tracee P w = (None, w') \<Longrightarrow> \<exists>os. w' = with_os w os"
  by (cases "sp_calloc P (base_os w)") (auto simp: new_dummy_tracee_def call1_def split: if_splits)

lemma world_ok_alloc:
  assumes "world_ok w" "new_dummy_tracee P w = (Some a, w')"
  shows "world_ok w'" "a \<notin> set (tracees w')"
    "\<And>b t. b \<in> set (tracees w') \<Longrightarrow> tracee_at b w' = Some t \<Longrightarrow> a \<notin> set (zombies (t_as_ptracer t))"
proof -
  note d = new_dummy_Some [OF assms(2)]
  have fresh: "tracee_at a w = None" using assms(1) d(1) by (cases "tracee_at a w") (auto simp: world_ok_def)
  then have "listed_ok w' b t" if "listed_ok w b t" for b t
    using that d by (force simp: listed_ok_def)
  then show "world_ok w'" using assms(1) d fresh
    by (auto simp: world_ok_def less_Suc_eq)
  show n: "a \<notin> set (tracees w')" using assms(1) d fresh by (auto simp: world_ok_def)
  show "a \<notin> set (zombies (t_as_ptracer t))" if "b \<in> set (tracees w')" "tracee_at b w' = Some t" for b t
  proof
    assume "a \<in> set (zombies (t_as_ptracer t))"
    moreover have "listed_ok w b t"
      using that n d world_listed [OF assms(1), of b] by (auto split: if_splits)
    ultimately show False using fresh by (auto simp: listed_ok_def)
  qed
qed

lemma ok_alloc:
  assumes "ok S X w" "new_dummy_tracee P w = (Some a, w')"
  shows "ok S X w'"
proof -
  have w: "world_ok w" using assms(1) by (simp add: ok_def)
  show ?thesis using assms(1) new_dummy_Some [OF assms(2)] world_ok_alloc(1) [OF w assms(2)]
    by (auto simp: ok_def pend_ok_def calloc_tracee_def split: if_splits)
qed


lemma post_new_tracee:
  assumes "ok S X w" "\<And>w'. ok S X w' \<Longrightarrow> Q (None, w')"
    "\<And>a w'. ok (insert a S) X w' \<Longrightarrow> Q (Some a, w')"
  shows "post Q (new_tracee P pid w)"
proof (cases "new_dummy_tracee P w")
  case (Pair r w1)
  show ?thesis
  proof (cases r)
    case None
    then show ?thesis using Pair assms(1,2) new_dummy_None [of P w w1] by (auto simp: new_tracee_def)
  next
    case (Some a)
    then have d: "new_dummy_tracee P w = (Some a, w1)" using Pair by simp
    have w: "world_ok w" using assms(1) by (simp add: ok_def)
    note new = world_ok_alloc [OF w d]
    have at: "tracee_at a w1 = Some calloc_tracee" using new_dummy_Some(4) [OF d, of a] by simp
    obtain t where t: "new_vpid a pid w1 = Some (modify (\<lambda>k. k\<lparr>w_next_vpid := (w_next_vpid k + 1) mod 2 ^ 64\<rparr>)
        (put_tracee a t w1))" and skel: "skel t = skel calloc_tracee" and pend: "pend_ok t"
      using at by (auto simp: new_vpid_def skel_def pend_ok_def calloc_tracee_def)
    let ?w = "modify (\<lambda>k. k\<lparr>w_tracees := a # w_tracees k\<rparr>)
        (modify (\<lambda>k. k\<lparr>w_next_vpid := (w_next_vpid k + 1) mod 2 ^ 64\<rparr>) (put_tracee a t w1))"
    have ts: "tracees ?w = a # tracees w1" by (simp add: tracees_def put_tracee_def)
    have obj: "tracee_at b ?w = (if b = a then Some t else tracee_at b w1)" for b
      by (simp add: tracee_at_def put_tracee_def)
    have brk: "w_break (os_kern ?w) = w_break (os_kern w1)" by (simp add: put_tracee_def)
    have old: "listed_ok ?w b u" if "b \<in> set (tracees w1)" "tracee_at b w1 = Some u" for b u
    proof -
      have "listed_ok w1 b u" using that world_listed [OF new(1)] by fastforce
      moreover have "z \<noteq> a" if "z \<in> set (zombies (t_as_ptracer u))" for z
        using new(3) [OF \<open>b \<in> set (tracees w1)\<close> \<open>tracee_at b w1 = Some u\<close>] that by blast
      ultimately show ?thesis using ts obj by (auto simp: listed_ok_def)
    qed
    have own: "listed_ok ?w a t" using skel by (simp add: listed_ok_def skel_def calloc_tracee_def)
    have "world_ok ?w"
      unfolding world_ok_def
    proof (intro conjI allI impI ballI)
      fix b u assume "tracee_at b ?w = Some u"
      then show "b < w_break (os_kern ?w)"
        using new(1) at brk obj by (auto simp: world_ok_def split: if_splits)
    next
      fix b assume "b \<in> set (tracees ?w)"
      then show "\<exists>u. tracee_at b ?w = Some u \<and> listed_ok ?w b u"
        using ts obj own old world_listed [OF new(1), of b] by (cases "b = a") auto
    qed (use ts new(1,2) in \<open>auto simp: world_ok_def\<close>)
    then have "ok (insert a S) X ?w"
      using ok_alloc [OF assms(1) d] ts obj pend by (auto simp: ok_def)
    then show ?thesis using assms(3) d t by (simp add: new_tracee_def)
  qed
qed

lemma find_pid_in: "find_pid w pid ts = Some (Some a) \<Longrightarrow> a \<in> set ts"
  by (induction ts) (auto simp: bind_eq_Some_conv split: if_splits)

lemma ok_insert: "ok S X w \<Longrightarrow> a \<in> set (tracees w) \<Longrightarrow> ok (insert a S) X w"
  by (simp add: ok_def)

lemma post_get_tracee:
  assumes "ok S X w" "\<And>c. current = Some c \<Longrightarrow> c \<in> S" "\<And>w'. ok S X w' \<Longrightarrow> Q (None, w')"
    "\<And>a w'. ok (insert a S) X w' \<Longrightarrow> Q (Some a, w')"
  shows "post Q (get_tracee P current pid create w)"
  unfolding get_tracee_def post_simps
proof (rule post_option)
  fix is_current
  show "post Q (if is_current then Some (current, w)
      else find_pid w pid (tracees w) \<bind> (\<lambda>found. case found of
        None \<Rightarrow> if create then new_tracee P pid w else Some (None, w)
      | Some tracee \<Rightarrow> Some (Some tracee, w)))"
  proof (cases is_current)
    case True
    then show ?thesis
      using assms(1,3,4) assms(2) [THEN okD [OF assms(1)]] ok_insert [OF assms(1)] by (cases current) auto
  next
    case False
    have "post Q (case found of None \<Rightarrow> if create then new_tracee P pid w else Some (None, w)
        | Some tracee \<Rightarrow> Some (Some tracee, w))" if "find_pid w pid (tracees w) = Some found" for found
    proof (cases found)
      case None
      then show ?thesis using post_new_tracee [OF assms(1,3,4)] assms(3) [OF assms(1)] by simp
    next
      case (Some a)
      then have "a \<in> set (tracees w)" using that find_pid_in by blast
      then have "Q (Some a, w)" using ok_insert [OF assms(1)] assms(4) by blast
      then show ?thesis using Some by simp
    qed
    then show ?thesis using False by (simp add: post_option)
  qed
qed


section \<open>Zombies\<close>

lemma remove_zombie_at [simp]:
  "tracee_at b (remove_zombie z w) = map_option (\<lambda>t. t\<lparr>t_as_ptracer :=
     (t_as_ptracer t)\<lparr>zombies := remove1 z (zombies (t_as_ptracer t))\<rparr>\<rparr>) (tracee_at b w)"
  "tracees (remove_zombie z w) = tracees w"
  "w_break (os_kern (remove_zombie z w)) = w_break (os_kern w)"
  by (simp_all add: remove_zombie_def tracee_at_def tracees_def)

definition freed :: "addr \<Rightarrow> 'k world \<Rightarrow> 'k world" where
  "freed a w = modify (\<lambda>k. k\<lparr>w_objects := (w_objects k)(a := None)\<rparr>) w"

lemma freed_at [simp]:
  "tracee_at b (freed a w) = (if b = a then None else tracee_at b w)"
  "tracees (freed a w) = tracees w" "w_break (os_kern (freed a w)) = w_break (os_kern w)"
  by (simp_all add: freed_def tracee_at_def tracees_def)

lemma free_tracee_eq: "tracee_at a w = Some t \<Longrightarrow> free_tracee a w = Some (freed a w)"
  by (simp add: free_tracee_def freed_def)

lemma ok_reaped:
  assumes "ok S X w" "z \<notin> set (tracees w)"
  shows "ok S X (freed z (remove_zombie z w))"
proof -
  let ?w = "freed z (remove_zombie z w)"
  let ?f = "\<lambda>t. t\<lparr>t_as_ptracer := (t_as_ptracer t)\<lparr>zombies := remove1 z (zombies (t_as_ptracer t))\<rparr>\<rparr>"
  have w: "world_ok w" using assms(1) by (simp add: ok_def)
  have at: "tracee_at b ?w = (if b = z then None else map_option ?f (tracee_at b w))" for b
    by simp
  have ts: "tracees ?w = tracees w" by simp
  have l: "listed_ok ?w b (?f t)" if "listed_ok w b t" for b t
    using that by (auto simp: listed_ok_def set_remove1_eq)
  have "world_ok ?w"
    unfolding world_ok_def
  proof (intro conjI allI impI ballI)
    fix b u assume "tracee_at b ?w = Some u"
    then show "b < w_break (os_kern ?w)"
      using w by (auto simp: world_ok_def split: if_splits)
  next
    fix b assume "b \<in> set (tracees ?w)"
    then obtain t where "tracee_at b w = Some t" "listed_ok w b t" "b \<noteq> z"
      using world_listed [OF w, of b] assms(2) ts by auto
    then show "\<exists>u. tracee_at b ?w = Some u \<and> listed_ok ?w b u" using at l by auto
  qed (use w ts in \<open>simp add: world_ok_def\<close>)
  moreover have "pend_ok (?f t) = pend_ok t" for t
    by (simp add: pend_ok_def quiet_def IS_IN_SYSENTER_def)
  ultimately show ?thesis using assms at ts by (auto simp: ok_def)
qed

text \<open>Detaching a zombie breaks the link to its ptracer until the zombie is reaped.\<close>

lemma post_reap:
  assumes ok: "ok S X w" and p: "p \<in> S" "tracee_at p w = Some tp" "z \<in> set (zombies (t_as_ptracer tp))"
    and Q: "\<And>w'. ok S X w' \<Longrightarrow> Q w'"
  shows "post (\<lambda>w. post (\<lambda>w. post Q (free_tracee z w)) (before_tracee_free K P h z w))
    (detach_from_ptracer z w)"
proof -
  have pl: "p \<in> set (tracees w)" using ok p(1) by (rule okD)
  then have lp: "listed_ok w p tp" using ok_listed [OF ok pl] p(2) by simp
  then obtain zt where zt: "tracee_at z w = Some zt" "t_is_zombie zt" "ptracer (t_as_ptracee zt) = Some p"
    using p(3) by (auto simp: listed_ok_def)
  have zn: "z \<notin> set (tracees w)" using ok_listed [OF ok, of z] zt by (auto simp: listed_ok_def)
  then have zp: "z \<noteq> p" using pl by auto
  let ?z = "zt\<lparr>t_as_ptracee := (t_as_ptracee zt)\<lparr>ptracer := None\<rparr>\<rparr>"
  let ?p = "tp\<lparr>t_as_ptracer := (t_as_ptracer tp)\<lparr>nb_ptracees := nb_ptracees (t_as_ptracer tp) - 1\<rparr>\<rparr>"
  have "detach_from_ptracer z w = (if 0 < nb_ptracees (t_as_ptracer tp)
      then Some (put_tracee p ?p (put_tracee z ?z w)) else None)"
    using zt p(2) zp by (simp add: detach_from_ptracer_def)
  moreover have "ok S X (freed z (remove_zombie z (put_tracee p ?p w)))"
    using ok p(2) zn by (intro ok_reaped ok_put [where t = tp]) (auto simp: skel_def pend_ok_def quiet_def IS_IN_SYSENTER_def)
  moreover have "freed z (remove_zombie z (put_tracee p ?p (put_tracee z ?z w))) =
      freed z (remove_zombie z (put_tracee p ?p w))"
    using zp by (auto simp: freed_def remove_zombie_def put_tracee_def modify_def fun_eq_iff)
  ultimately show ?thesis
    using Q zt zp by (auto simp: before_tracee_free_def free_tracee_eq)
qed

lemma find_zombie_in: "find_zombie w pid options zs = Some (Some z) \<Longrightarrow> z \<in> set zs"
  by (induction zs) (auto simp: bind_eq_Some_conv split: if_splits)

lemma find_ptracee_in:
  "find_ptracee w p pid os pe options ts = Some (Some a) \<Longrightarrow>
   a \<in> set ts \<and> (\<exists>t. tracee_at a w = Some t \<and> ptracer (t_as_ptracee t) = Some p)"
  by (induction ts) (auto simp: bind_eq_Some_conv Let_def split: if_splits)

text \<open>What \<open>get_ptracee\<close> finds: a zombie of the ptracer, or one of its ptracees.\<close>

definition is_ptracee :: "addr \<Rightarrow> addr \<Rightarrow> 'k world \<Rightarrow> bool" where
  "is_ptracee p a w \<longleftrightarrow>
     (\<exists>tp. tracee_at p w = Some tp \<and> a \<in> set (zombies (t_as_ptracer tp))) \<or>
     (a \<in> set (tracees w) \<and> (\<exists>t. tracee_at a w = Some t \<and> ptracer (t_as_ptracee t) = Some p))"

lemma get_ptracee_is: "get_ptracee p pid os pe options w = Some (Some a) \<Longrightarrow> is_ptracee p a w"
  by (auto simp: get_ptracee_def is_ptracee_def bind_eq_Some_conv dest: find_zombie_in find_ptracee_in
      split: option.splits)


section \<open>Wait\<close>

lemma core_restart_original [frame_simps]:
  "core (snd (restart_original_syscall t)) = core t"
  "t_status (snd (restart_original_syscall t)) = t_status t"
  by (simp_all add: restart_original_syscall_def Let_def frame_simps reg_simps)

lemma ok_ptracee_cases:
  assumes "ok S X w" "p \<in> S" "is_ptracee p a w"
  obtains
    (zombie) tp t where "tracee_at p w = Some tp" "a \<in> set (zombies (t_as_ptracer tp))"
      "tracee_at a w = Some t" "ee_is_zombie (t_as_ptracee t)" "a \<noteq> p"
  | (listed) t where "a \<in> set (tracees w)" "tracee_at a w = Some t"
      "\<not> ee_is_zombie (t_as_ptracee t)"
proof (cases "a \<in> set (tracees w)")
  case True
  then show ?thesis using ok_listed [OF assms(1) True] listed by (auto simp: listed_ok_def)
next
  case False
  then obtain tp where tp: "tracee_at p w = Some tp" "a \<in> set (zombies (t_as_ptracer tp))"
    using assms(3) by (auto simp: is_ptracee_def)
  have pl: "p \<in> set (tracees w)" using assms(1,2) by (rule okD)
  then have "listed_ok w p tp" using ok_listed [OF assms(1) pl] tp by simp
  moreover have "a \<noteq> p" using False pl by auto
  ultimately show ?thesis using zombie tp by (auto simp: listed_ok_def)
qed

lemma poke_type_lifted: "\<exists>os. poke_type (lift_kernel K) t a v w = with_os w os"
  by (rule lifted.poke_type [OF lifted_start])

lemma poke_int32_lifted: "poke_int32 K p address v w = Some w' \<Longrightarrow> \<exists>os. w' = with_os w os"
  using poke_type_lifted [where w = w] by (fastforce simp: poke_int32_def bind_eq_Some_conv)

lemma post_update_wait_status:
  assumes ok: "ok S X w" and p: "p \<in> S" and a: "is_ptracee p a w"
    and Q: "\<And>st w'. ok S X w' \<Longrightarrow> Q (st, w')"
  shows "post Q (update_wait_status K P h p a w)"
proof -
  obtain tp where tp: "tracee_at p w = Some tp" using ok_listed [OF ok okD [OF ok p]] by blast
  let ?p = "snd (restart_original_syscall tp)"
  have ok1: "ok S X (put_tracee p ?p w)"
    by (rule ok_put_core [OF ok tp]) (simp_all add: frame_simps)
  have zs: "zombies (t_as_ptracer ?p) = zombies (t_as_ptracer tp)"
    using skel_core [OF core_restart_original(1) [of tp]] by (simp add: skel_def)
  have ok2: "ok S X (put_tracee a (t\<lparr>t_as_ptracee := (t_as_ptracee t)\<lparr>event_ptracer := e\<rparr>\<rparr>) (with_os w os))"
    if "tracee_at a w = Some t" for t e os
    using ok that by (intro ok_put [where t = t]) (auto simp: skel_def pend_ok_def quiet_def IS_IN_SYSENTER_def)
  show ?thesis
    using ok p a
  proof (cases rule: ok_ptracee_cases)
    case (zombie tp' t)
    then have z: "a \<in> set (zombies (t_as_ptracer tp))" using tp by simp
    have r1: "post (\<lambda>w. post (\<lambda>w. post (\<lambda>w. Q (0, w)) (free_tracee a w)) (before_tracee_free K P h a w))
        (detach_from_ptracer a (put_tracee p ?p w))"
      by (rule post_reap [OF ok1 p, where tp = ?p]) (use z zs Q in auto)
    have r2: "post (\<lambda>w. post (\<lambda>w. post (\<lambda>w. Q (st, w)) (free_tracee a w)) (before_tracee_free K P h a w))
        (detach_from_ptracer a (put_tracee a (t\<lparr>t_as_ptracee := (t_as_ptracee t)\<lparr>event_ptracer := e\<rparr>\<rparr>)
           (with_os w os)))" for st e os
      by (rule post_reap [OF ok2 p, where tp = tp]) (use zombie z Q tp in auto)
    show ?thesis
      using zombie tp r1 r2 [where os = "base_os w"] r2 Q ok
      by (auto simp: update_wait_status_def Let_def dest!: poke_int32_lifted
          intro!: post_option [of "poke_int32 x1 x2 x3 x4 x5" for x1 x2 x3 x4 x5])
  next
    case (listed t)
    have ok1': "ok (insert a S) X (put_tracee p ?p w)" using ok1 listed(1) by (simp add: ok_def)
    have r1: "post (\<lambda>w. Q (0, w)) (detach_from_ptracer a (put_tracee p ?p w))"
      by (rule post_detach [OF ok1']) (use Q in \<open>auto simp: ok_def\<close>)
    show ?thesis
      using listed tp r1 ok2 [OF listed(2)] ok2 [OF listed(2), where os = "base_os w"] Q ok
      by (auto simp: update_wait_status_def Let_def dest!: poke_int32_lifted
          intro!: post_option [of "poke_int32 x1 x2 x3 x4 x5" for x1 x2 x3 x4 x5])
  qed
qed

lemma set_sysnum_status: "set_sysnum t s = Some t' \<Longrightarrow> t_status t' = t_status t"
  by (auto simp: set_sysnum_def reg_simps)

lemma ok_set_sysnum:
  "ok S X w \<Longrightarrow> tracee_at a w = Some t \<Longrightarrow> set_sysnum t s = Some t' \<Longrightarrow> ok S X (put_tracee a t' w)"
  by (rule ok_put_core [OF _ _ core_set_sysnum set_sysnum_status])

lemma post_translate_wait_enter:
  assumes ok: "ok S X w" and Q: "\<And>st w'. ok S X w' \<Longrightarrow> Q (st, w')"
  shows "post Q (translate_wait_enter p w)"
  using assms
  by (auto simp: translate_wait_enter_def Let_def
      intro!: post_upd_PTRACER [where S = S and X = X] post_tracee_at post_option [of "get_ptracee x1 x2 x3 x4 x5 x6" for x1 x2 x3 x4 x5 x6]
        post_option [of "set_sysnum x1 x2" for x1 x2] ok_set_sysnum split: option.split simp del: upd_PTRACER_at)

lemma post_translate_ptrace_enter:
  assumes ok: "ok S X w" and Q: "\<And>st w'. ok S X w' \<Longrightarrow> Q (st, w')"
  shows "post Q (translate_ptrace_enter p w)"
  using assms
  by (auto simp: translate_ptrace_enter_def
      intro!: post_tracee_at post_option [of "set_sysnum x1 x2" for x1 x2] ok_set_sysnum)

text \<open>What the operations ask of the handling of an event.\<close>

definition nopend :: "addr \<Rightarrow> 'k world \<Rightarrow> bool" where
  "nopend a w \<longleftrightarrow> (\<forall>t. tracee_at a w = Some t \<longrightarrow> \<not> ev_pending (event_proot (t_as_ptracee t)))"

definition keeps_ok :: "'k handle_event \<Rightarrow> bool" where
  "keeps_ok h \<longleftrightarrow> (\<forall>S X a event w. ok S X w \<longrightarrow> a \<in> S \<longrightarrow>
     post (\<lambda>(signal, w'). ok S X w' \<and> nopend a w') (h a event w))"

lemma post_handle:
  assumes "keeps_ok h" "ok S X w" "a \<in> S" "\<And>st w'. ok S X w' \<Longrightarrow> nopend a w' \<Longrightarrow> Q (st, w')"
  shows "post Q (h a event w)"
proof -
  have "post (\<lambda>(signal, w'). ok S X w' \<and> nopend a w') (h a event w)"
    using assms(1-3) by (simp add: keeps_ok_def)
  then show ?thesis by (rule post_mono) (use assms(4) in auto)
qed

lemma ok_nopend: "ok S X w \<Longrightarrow> nopend a w \<Longrightarrow> ok S (X - {a}) w"
  by (auto simp: ok_def nopend_def pend_ok_def)

lemma ok_pend: "ok S X w \<Longrightarrow> tracee_at a w = Some t \<Longrightarrow> pend_ok t \<Longrightarrow> ok S (X - {a}) w"
  by (auto simp: ok_def)

lemma ok_weaken: "ok S X w \<Longrightarrow> S' \<subseteq> S \<Longrightarrow> X \<subseteq> X' \<Longrightarrow> ok S' X' w"
  by (auto simp: ok_def)

lemma post_if: "(c \<Longrightarrow> post Q m) \<Longrightarrow> (\<not> c \<Longrightarrow> post Q m') \<Longrightarrow> post Q (if c then m else m')"
  by simp

lemma post_case_option:
  "(m = None \<Longrightarrow> post Q f) \<Longrightarrow> (\<And>x. m = Some x \<Longrightarrow> post Q (g x)) \<Longrightarrow>
   post Q (case m of None \<Rightarrow> f | Some x \<Rightarrow> g x)"
  by (cases m) auto

lemma post_translate_wait_exit:
  assumes ok: "ok S X w" and p: "p \<in> S" and Q: "\<And>st r w'. ok S X w' \<Longrightarrow> Q (st, r, w')"
  shows "post Q (translate_wait_exit K P h p w)"
  unfolding translate_wait_exit_def Let_def get_stopped_ptracee_def post_simps
  apply (rule post_tracee_at, rule post_if, simp)
  apply (simp only: post_simps)
  apply (rule post_upd_PTRACER [OF ok])
   apply simp
  apply (rule post_option)
  apply (rule post_case_option)
   apply (rule post_if, simp add: Q)
   apply (rule post_if)
    apply (simp only: post_simps, rule post_option, simp add: Q)
   apply (simp only: post_simps, rule post_upd_PTRACER, assumption, simp, simp add: Q)
  apply (simp only: post_simps, rule post_update_wait_status)
     apply assumption
    apply (rule p)
  apply (simp add: get_ptracee_is)
  apply (simp add: Q)
  done

lemma skel_poke: "skel (poke_reg t r v) = skel t"
  by (rule skel_core) (simp add: frame_simps)

lemma pend_poke: "pend_view (poke_reg t r v) = pend_view t"
  by (rule pend_core) (simp_all add: frame_simps reg_simps)

text \<open>
  The handling of the event may detach the ptracee; \<open>update_wait_status\<close> then fails an
  assertion or finds another ptracer, so the invariant needs the ptracee to be listed only.
\<close>

lemma post_update_wait_status_listed:
  assumes ok: "ok S X w" and p: "p \<in> S" and a: "a \<in> S"
    and Q: "\<And>st w'. ok S X w' \<Longrightarrow> Q (st, w')"
  shows "post Q (update_wait_status K P h p a w)"
proof -
  obtain tp where tp: "tracee_at p w = Some tp" using ok_listed [OF ok okD [OF ok p]] by blast
  obtain t where t: "tracee_at a w = Some t" "listed_ok w a t" using ok_listed [OF ok okD [OF ok a]] by blast
  have nz: "\<not> ee_is_zombie (t_as_ptracee t)" using t by (simp add: listed_ok_def)
  let ?p = "snd (restart_original_syscall tp)"
  have ok1: "ok S X (put_tracee p ?p w)"
    by (rule ok_put_core [OF ok tp]) (simp_all add: frame_simps)
  have ok2: "ok S X (put_tracee a (t\<lparr>t_as_ptracee := (t_as_ptracee t)\<lparr>event_ptracer := e\<rparr>\<rparr>) (with_os w os))"
    for e os
    using ok t by (intro ok_put [where t = t]) (auto simp: skel_def pend_ok_def quiet_def IS_IN_SYSENTER_def)
  have r1: "post (\<lambda>w. Q (0, w)) (detach_from_ptracer a (put_tracee p ?p w))"
    by (rule post_detach [OF ok1 a]) (use Q in auto)
  show ?thesis
    using t nz tp r1 ok2 ok2 [where os = "base_os w"] Q ok
    by (auto simp: update_wait_status_def Let_def dest!: poke_int32_lifted
        intro!: post_option [of "poke_int32 x1 x2 x3 x4 x5" for x1 x2 x3 x4 x5])
qed

lemma ok_call1: "ok S X w \<Longrightarrow> ok S X (snd (call1 f w))"
  by (simp add: call1_def split_beta)

lemma post_notify_ptracer:
  assumes ok: "ok S X w" and p: "p \<in> S" and a: "a \<in> S"
    and Q: "\<And>kept w'. ok S X w' \<Longrightarrow> (kept \<longrightarrow> keep) \<Longrightarrow> Q (kept, w')"
  shows "post Q (notify_ptracer K P h p a keep w)"
  unfolding notify_ptracer_def Let_def post_simps
  apply (rule post_tracee_at, rule post_tracee_at, rule post_if)
   apply (simp only: post_simps split_beta)
   apply (rule post_update_wait_status_listed [OF ok_call1 [OF ok] p a])
   apply (rule post_if)
    apply (simp only: post_simps fst_conv snd_conv)
    apply (rule post_upd, assumption, simp add: skel_poke pend_poke)
    apply (rule post_push_regs_at, assumption, simp only: fst_conv snd_conv)
    apply (rule post_upd_PTRACER, assumption, simp)
    apply (rule post_restart_tracee, assumption, simp add: Q)
   apply (simp only: post_simps fst_conv snd_conv)
   apply (rule post_push_regs_at, assumption, simp only: fst_conv snd_conv)
   apply (rule post_upd_PTRACER, assumption, simp)
   apply (rule post_restart_tracee, assumption, simp add: Q)
  apply (simp add: Q ok_call1 [OF ok])
  done

lemma status_cases: "WIFEXITED status \<or> WIFSIGNALED status \<or> WIFSTOPPED status"
proof -
  have "(mask 7 :: int) = 0x7f" by (simp add: mask_eq_exp_minus_1)
  then have "x AND 0x7f = take_bit 7 x" for x :: int by (simp only: take_bit_eq_mask)
  then have m: "x AND 0x7f = x mod 128" for x :: int by (simp only: take_bit_eq_mod) simp
  have b: "0 \<le> status mod 128" "status mod 128 < 128" by simp_all
  have "(status + 1) mod 128 = (status mod 128 + 1) mod 128" by (simp add: mod_add_left_eq)
  also have "\<dots> = (if status mod 128 = 127 then 0 else status mod 128 + 1)" using b by auto
  finally have "(status + 1) mod 128 = (if status mod 128 = 127 then 0 else status mod 128 + 1)" .
  then show ?thesis using b unfolding WIFEXITED_def WIFSIGNALED_def WIFSTOPPED_def m
    by (cases "status mod 128 = 127") auto
qed

text \<open>
  The first bare SIGTRAP of a root comes before any stage of a system call of it.
\<close>

definition plausible :: "Tracee \<Rightarrow> int \<Rightarrow> bool" where
  "plausible t event \<longleftrightarrow> (WIFSTOPPED event \<longrightarrow> stop_event event = SIGTRAP \<longrightarrow>
     \<not> t_is_root t \<or> t_deliver_sigtrap t \<or> IS_IN_SYSENTER t)"

lemma kept_stopped_quiet:
  assumes "ptracee_case t event = Some c" "pc_keep_stopped c" "\<not> pc_handled_by_proot_first c"
    and "plausible t event"
  shows "quiet t event"
  using assms status_cases [of event]
  by (auto simp: ptracee_case_def Let_def filter_event_def quiet_def plausible_def IS_IN_SYSEXIT_def
      split: if_splits)


lemma put_put [simp]: "put_tracee a t (put_tracee a t' w) = put_tracee a t w"
  by (simp add: put_tracee_def modify_def)

lemma ok_ptracee_attached:
  assumes "ok S X w" "a \<in> S" "ptracer (t_as_ptracee t) = Some p" "tracee_at a w = Some t"
  shows "p \<in> set (tracees w)"
  using assms ok_listed [OF assms(1) okD [OF assms(1,2)]] by (auto simp: listed_ok_def)

lemma is_ptracee_listed:
  "a \<in> set (tracees w) \<Longrightarrow> tracee_at a w = Some t \<Longrightarrow> ptracer (t_as_ptracee t) = Some p \<Longrightarrow> is_ptracee p a w"
  by (auto simp: is_ptracee_def)

lemma is_ptracee_with_os [simp]: "is_ptracee p a (with_os w os) = is_ptracee p a w"
  by (simp add: is_ptracee_def)



lemma post_set_value:
  assumes "ok S X w" "a \<in> X" "nopend a w" "\<And>w'. ok S (X - {a}) w' \<Longrightarrow> Q w'"
  shows "post Q (upd_PTRACEE a (\<lambda>p. p\<lparr>event_proot := (event_proot p)\<lparr>ev_value := v\<rparr>\<rparr>) w)"
proof -
  let ?f = "\<lambda>t. t\<lparr>t_as_ptracee := (t_as_ptracee t)\<lparr>event_proot := (event_proot (t_as_ptracee t))\<lparr>ev_value := v\<rparr>\<rparr>\<rparr>"
  have "ok S X (put_tracee a (?f t) w)" "nopend a (put_tracee a (?f t) w)" if "tracee_at a w = Some t" for t
    using assms(1-3) that by (auto simp: skel_def nopend_def intro!: ok_put [where t = t])
  then have "ok S (X - {a}) (put_tracee a (?f t) w)" if "tracee_at a w = Some t" for t
    using that ok_nopend by blast
  then show ?thesis using assms(4) unfolding upd_PTRACEE_def post_def upd_Some by blast
qed

lemma post_handle_ptracee_event:
  fixes w :: "'k world"
  assumes h: "keeps_ok h" and ok: "ok S X w" and a: "a \<in> S" "a \<in> X"
    and plaus: "\<And>t. tracee_at a w = Some t \<Longrightarrow> plausible t event"
    and Q: "\<And>keep w'. ok S X w' \<Longrightarrow> (keep \<longrightarrow> ok S (X - {a}) w') \<Longrightarrow> Q (keep, w')"
  shows "post Q (handle_ptracee_event K P h a event w)"
proof -
  obtain t where t: "tracee_at a w = Some t" using ok_listed [OF ok okD [OF ok a(1)]] by blast
  show ?thesis
  proof (cases "ptracer (t_as_ptracee t)")
    case None
    then show ?thesis using t by (simp add: handle_ptracee_event_def)
  next
    case (Some p)
    let ?S = "insert p S"
    have okp: "ok ?S X w" using ok ok_ptracee_attached [OF ok a(1) Some t] by (simp add: ok_insert)
    let ?t1 = "t\<lparr>t_as_ptracee := (t_as_ptracee t)\<lparr>event_proot := \<lparr>ev_value = event, ev_pending = True\<rparr>\<rparr>\<rparr>"
    have ok1: "ok ?S X (put_tracee a ?t1 w)" by (rule ok_put [OF okp t]) (use a in \<open>simp_all add: skel_def\<close>)
    show ?thesis
    proof (cases "ptracee_case t event")
      case None
      then show ?thesis using t Some Q [of _ False] ok_weaken [OF ok1, of S X]
        by (auto simp: handle_ptracee_event_def)
    next
      case c: (Some c)
      let ?t2 = "?t1\<lparr>t_as_ptracee := (t_as_ptracee ?t1)\<lparr>tracing_started := pc_tracing_started c\<rparr>\<rparr>"
      have ok2: "ok ?S X (put_tracee a ?t2 w)" by (rule ok_put [OF okp t]) (use a in \<open>simp_all add: skel_def\<close>)
      have notify: "post Q (upd_PTRACEE a (\<lambda>p. p\<lparr>event_ptracer := \<lparr>ev_value = pc_event c, ev_pending = True\<rparr>\<rparr>) w' \<bind>
          notify_ptracer K P h p a (pc_keep_stopped c))"
        if "ok ?S Y w'" "Y = X - {a} \<or> Y = X \<and> \<not> pc_keep_stopped c" for w' Y
      proof -
        have "ok S X w'' \<and> (kept \<longrightarrow> ok S (X - {a}) w'')"
          if "ok ?S Y w''" "kept \<longrightarrow> pc_keep_stopped c" for kept w''
          using that \<open>Y = X - {a} \<or> Y = X \<and> \<not> pc_keep_stopped c\<close> ok_weaken [OF that(1), of S X]
            ok_weaken [OF that(1), of S "X - {a}"] by auto
        then show ?thesis using that(1) a Q
          by (auto intro!: post_upd_PTRACEE [where S = ?S and X = Y] post_notify_ptracer [where S = ?S and X = Y]
              simp del: upd_PTRACEE_at)
      qed
      have handled: "post Q (do { w \<leftarrow> do { (signal, w) \<leftarrow> h a event (put_tracee a ?t2 w);
            w \<leftarrow> upd_PTRACEE a (\<lambda>p. p\<lparr>event_proot := (event_proot p)\<lparr>ev_value := signal\<rparr>\<rparr>) w;
            if signal = 0 then Some w else None };
          w \<leftarrow> upd_PTRACEE a (\<lambda>p. p\<lparr>event_ptracer := \<lparr>ev_value = pc_event c, ev_pending = True\<rparr>\<rparr>) w;
          notify_ptracer K P h p a (pc_keep_stopped c) w })"
        unfolding post_simps
      proof (rule post_handle [OF h ok2])
        fix signal and w' :: "'k world" assume w': "ok ?S X w'" "nopend a w'"
        let ?rest = "\<lambda>w :: 'k world. post (\<lambda>w. post Q (notify_ptracer K P h p a (pc_keep_stopped c) w))
            (upd_PTRACEE a (\<lambda>p. p\<lparr>event_ptracer := \<lparr>ev_value = pc_event c, ev_pending = True\<rparr>\<rparr>) w)"
        have "post (\<lambda>w. post ?rest (if signal = 0 then Some w else None))
            (upd_PTRACEE a (\<lambda>p. p\<lparr>event_proot := (event_proot p)\<lparr>ev_value := signal\<rparr>\<rparr>) w')"
        proof (rule post_set_value [OF w'(1) a(2) w'(2)])
          fix w'' :: "'k world" assume "ok ?S (X - {a}) w''"
          then show "post ?rest (if signal = 0 then Some w'' else None)" using notify by simp
        qed
        then show "post ?rest (case (signal, w') of (signal, w) \<Rightarrow>
            upd_PTRACEE a (\<lambda>p. p\<lparr>event_proot := (event_proot p)\<lparr>ev_value := signal\<rparr>\<rparr>) w \<bind>
            (\<lambda>w. if signal = 0 then Some w else None))" by simp
      qed (use a in simp)
      have quiet: "post Q (do {
          w \<leftarrow> upd_PTRACEE a (\<lambda>p. p\<lparr>event_ptracer := \<lparr>ev_value = pc_event c, ev_pending = True\<rparr>\<rparr>) (put_tracee a ?t2 w);
          notify_ptracer K P h p a (pc_keep_stopped c) w })" if "\<not> pc_handled_by_proot_first c"
      proof (cases "pc_keep_stopped c")
        case True
        then have "quiet t event" using c that plaus [OF t] kept_stopped_quiet by blast
        then have "pend_ok ?t2" by (simp add: pend_ok_def quiet_def IS_IN_SYSENTER_def)
        then have "ok ?S (X - {a}) (put_tracee a ?t2 w)" by (intro ok_pend [OF ok2, where t = ?t2]) simp_all
        then show ?thesis by (rule notify) simp
      next
        case False
        then show ?thesis using ok2 notify by blast
      qed
      have stopped: "Q (False, put_tracee a ?t2 w)" using Q [of _ False] ok_weaken [OF ok2, of S X] by auto
      show ?thesis
      proof (cases "pc_tracing_started c")
        case False
        then show ?thesis using t Some c stopped by (simp add: handle_ptracee_event_def)
      next
        case started: True
        show ?thesis
        proof (cases "pc_handled_by_proot_first c")
          case True
          then show ?thesis using t Some c started handled by (simp add: handle_ptracee_event_def)
        next
          case False
          then show ?thesis using t Some c started quiet by (simp add: handle_ptracee_event_def)
        qed
      qed
    qed
  qed
qed


section \<open>Children\<close>

lemma post_release_sigstop:
  assumes h: "keeps_ok h" and ok: "ok S X w" and a: "a \<in> S" and Q: "\<And>w'. ok S X w' \<Longrightarrow> Q w'"
  shows "post Q (release_sigstop K P h a w)"
proof -
  have sg: "plausible t (W_STOPCODE SIGSTOP)" for t
    by (simp add: plausible_def W_STOPCODE_def stop_event_def)
  have clear: "post Q' (upd_PTRACEE a (\<lambda>c. c\<lparr>event_proot := \<lparr>ev_value = 0, ev_pending = False\<rparr>\<rparr>) w')"
    if "ok S (insert a X) w'" "\<And>w''. ok S X w'' \<Longrightarrow> Q' w''" for Q' w'
  proof -
    let ?f = "\<lambda>t. t\<lparr>t_as_ptracee := (t_as_ptracee t)\<lparr>event_proot := \<lparr>ev_value = 0, ev_pending = False\<rparr>\<rparr>\<rparr>"
    have "ok S X (put_tracee a (?f t) w')" if t: "tracee_at a w' = Some t" for t
    proof -
      have "ok S (insert a X) (put_tracee a (?f t) w')"
        using \<open>ok S (insert a X) w'\<close> t by (intro ok_put [where t = t]) (simp_all add: skel_def)
      moreover have "nopend a (put_tracee a (?f t) w')" by (simp add: nopend_def)
      ultimately have "ok S (insert a X - {a}) (put_tracee a (?f t) w')" by (rule ok_nopend)
      then show ?thesis by (rule ok_weaken) auto
    qed
    then show ?thesis using that(2) unfolding upd_PTRACEE_def post_def upd_Some by blast
  qed
  have restart: "post Q (if keep then Some w' else map_option snd (restart_tracee P a 0 w'))"
    if "ok S X w'" for keep w'
    using that Q by (auto intro!: post_restart_tracee [where S = S and X = X])
  show ?thesis
    unfolding release_sigstop_def post_simps
    apply (rule post_tracee_at, rule post_if, simp add: Q [OF ok])
    apply (simp only: post_simps)
    apply (rule post_upd [OF ok], simp add: skel_def pend_view_def)
    apply (rule post_if, simp only: post_simps prod.case, erule restart)
    apply (rule post_if, simp)
    apply (simp only: post_simps)
    apply (rule post_handle_ptracee_event [OF h, where S = S and X = "insert a X"])
        apply (erule ok_weaken, blast, blast)
       apply (rule a, simp, rule sg)
    apply (simp only: prod.case post_simps)
    apply (erule clear)
    apply (erule restart)
    done
qed


lemma post_attach_child:
  assumes ok: "ok S X w" and c: "c \<in> S" and p: "\<And>q. ptracer (t_as_ptracee p) = Some q \<Longrightarrow> q \<in> S"
    and Q: "\<And>w'. ok S X w' \<Longrightarrow> Q w'"
  shows "post Q (attach_child p c flags w)"
proof (cases "ptracer (t_as_ptracee p)")
  case None
  then show ?thesis using ok Q by (simp add: attach_child_def)
next
  case (Some q)
  then show ?thesis using ok Q c p [OF Some]
    by (auto simp: attach_child_def simp del: upd_PTRACEE_at
        intro!: post_attach [where S = S and X = X] post_upd_PTRACEE [where S = S and X = X])
qed

lemma ok_inherit:
  assumes "ok S X w" "c \<in> S" "parent \<in> S" "\<And>q. t_parent p = Some q \<Longrightarrow> q \<in> S" "tracee_at c w = Some t"
  shows "ok S X (put_tracee c (inherit p parent flags t) w)"
proof (rule ok_put_listed [OF assms(1,5)])
  show c: "c \<in> set (tracees w)" using assms(1,2) by (rule okD)
  have "listed_ok w c t" using ok_listed [OF assms(1) c] assms(5) by simp
  then show "listed_ok w c (inherit p parent flags t)"
    using assms(3,4) okD [OF assms(1)] by (auto simp: listed_ok_def inherit_def)
qed (simp add: inherit_def pend_ok_def quiet_def IS_IN_SYSENTER_def)

lemma post_new_child:
  fixes w :: "'k world"
  assumes h: "keeps_ok h" and ok: "ok S X w" and a: "a \<in> S" and Q: "\<And>st w'. ok S X w' \<Longrightarrow> Q (st, w')"
  shows "post Q (new_child K P h a flags w)"
proof -
  have child: "post Q (do {
      c \<leftarrow> tracee_at child w;
      if t_glue c \<noteq> None \<or> t_parent c \<noteq> None \<or> ptracer (t_as_ptracee c) \<noteq> None then None
      else do {
        w \<leftarrow> upd child (inherit p a flags) w;
        w \<leftarrow> attach_child p child flags w;
        w \<leftarrow> upd child (inherit_paths p) w;
        w \<leftarrow> release_sigstop K P h child w;
        Some (0, w)
      }
    })" if ok1: "ok S1 X w" and S1: "S \<subseteq> S1" "child \<in> S1" "\<And>q. t_parent p = Some q \<Longrightarrow> q \<in> S1"
      "\<And>q. ptracer (t_as_ptracee p) = Some q \<Longrightarrow> q \<in> S1" for p child flags w S1
  proof -
    have Q1: "Q (st, w')" if "ok S1 X w'" for st w'
      using ok_weaken [OF that S1(1)] Q by blast
    show ?thesis
      unfolding post_simps
      apply (rule post_tracee_at, rule post_if, simp)
      apply (simp only: post_simps)
      apply (simp only: upd_at post_simps)
      apply (rule post_attach_child [OF ok_inherit [OF ok1 S1(2) _ S1(3)] S1(2) S1(4)])
          apply (rule subsetD [OF S1(1) a], assumption, assumption, assumption)
      apply (rule post_upd, assumption, simp add: skel_def pend_view_def inherit_paths_def)
      apply (rule post_release_sigstop [OF h], assumption, rule S1(2))
      apply (erule Q1)
      done
  qed
  show ?thesis
    unfolding new_child_def post_simps split_beta Let_def
  proof (rule post_fetch_regs_at [OF ok], simp only: fst_conv snd_conv, rule post_tracee_at,
      rule post_option)
    fix st and w1 :: "'k world" and p is_clone
    assume ok1: "ok S X w1" and p: "tracee_at a w1 = Some p"
    let ?m = "call2 (sp_geteventmsg P (t_pid p)) w1"
    have ok2: "ok S X (snd (snd ?m))" using ok1 by (simp add: call2_def split_beta)
    let ?S = "S \<union> set_option (t_parent p) \<union> set_option (ptracer (t_as_ptracee p))"
    have "listed_ok w1 a p" using ok_listed [OF ok1 okD [OF ok1 a]] p by auto
    then have "ok ?S X w1" using ok1 by (auto simp: listed_ok_def ok_def)
    then have ok3: "ok ?S X (snd (snd ?m))" by (simp add: call2_def split_beta)
    show "post Q (if fst ?m < 0 \<or> fst (snd ?m) = 0 then Some (fst ?m, snd (snd ?m))
        else get_tracee P (Some a) (c_int (uint (fst (snd ?m)))) True (snd (snd ?m)) \<bind> (\<lambda>p'.
          case fst p' of None \<Rightarrow> Some (- ENOMEM, snd p')
          | Some child \<Rightarrow> tracee_at child (snd p') \<bind> (\<lambda>c.
              if t_glue c \<noteq> None \<or> t_parent c \<noteq> None \<or> ptracer (t_as_ptracee c) \<noteq> None then None
              else upd child (inherit p a (if is_clone then peek_reg p CURRENT SYSARG_1 else flags)) (snd p') \<bind> (\<lambda>w.
                attach_child p child (if is_clone then peek_reg p CURRENT SYSARG_1 else flags) w \<bind> (\<lambda>w.
                upd child (inherit_paths p) w \<bind> (\<lambda>w. release_sigstop K P h child w \<bind> (\<lambda>w. Some (0, w))))))))"
    proof (rule post_if)
      show "post Q (Some (fst ?m, snd (snd ?m)))" using ok2 Q by simp
    qed (simp only: post_simps, rule post_get_tracee [OF ok3],
        use a in simp, use Q ok_weaken [where S' = S and X' = X] in force,
        simp only: fst_conv snd_conv option.case, rule child, assumption, auto)
  qed
qed


section \<open>Ptrace\<close>

lemma ok_lifted: "\<exists>os. w' = with_os w os \<Longrightarrow> ok S X w \<Longrightarrow> ok S X w'"
  by auto

lemmas ok_memory =
  ok_lifted [OF lifted.write_data [OF lifted_start]] ok_lifted [OF lifted.writev_data [OF lifted_start]]
  ok_lifted [OF lifted.read_data [OF lifted_start]] ok_lifted [OF lifted.peek_word [OF lifted_start]]
  ok_lifted [OF lifted.poke_word [OF lifted_start]]

lemma ok_calls:
  "ok S X w \<Longrightarrow> ok S X (snd (call1 f w))" "ok S X w \<Longrightarrow> ok S X (snd (snd (call2 g w)))"
  "ok S X w \<Longrightarrow> ok S X (call0 h w)" "ok S X w \<Longrightarrow> ok S X (set_errno e w)"
proof -
  assume "ok S X w"
  moreover have "set_errno e w = with_os w (set_errno e (base_os w))"
    by (simp add: set_errno_with_os [symmetric])
  ultimately show "ok S X (set_errno e w)" by simp
qed (simp_all add: call0_def call1_def call2_def split_beta)

definition keeps :: "addr set \<Rightarrow> addr set \<Rightarrow> ('a \<times> 'k world) option \<Rightarrow> bool" where
  "keeps S X = post (\<lambda>(r, w). ok S X w)"

lemma post_keeps: "keeps S X m \<Longrightarrow> (\<And>r w'. ok S X w' \<Longrightarrow> Q (r, w')) \<Longrightarrow> post Q m"
  unfolding keeps_def by (erule post_mono) auto

lemma keeps_simps [simp]:
  "keeps S X None" "keeps S X (Some (r, w)) = ok S X w"
  "keeps S X (if c then m else m') \<longleftrightarrow> (c \<longrightarrow> keeps S X m) \<and> (\<not> c \<longrightarrow> keeps S X m')"
  by (simp_all add: keeps_def)

lemma keeps_tracee_at: "(\<And>t. tracee_at a w = Some t \<Longrightarrow> keeps S X (f t)) \<Longrightarrow> keeps S X (tracee_at a w \<bind> f)"
  unfolding keeps_def post_simps by (rule post_tracee_at)

lemma keeps_bind:
  "keeps S X m \<Longrightarrow> (\<And>r w'. ok S X w' \<Longrightarrow> keeps S X (f (r, w'))) \<Longrightarrow> keeps S X (m \<bind> f)"
  unfolding keeps_def post_simps by (erule post_mono) auto

lemma keeps_requests:
  assumes "ok S X w"
  shows "keeps S X (request_done w)" "keeps S X (request_errno w)"
    "keeps S X (poke_word_at K p a v w)" "keeps S X (write_data_at K p a bs w)"
  using assms
  by (auto simp: request_done_def request_errno_def poke_word_at_def write_data_at_def Let_def split_beta
      intro!: keeps_tracee_at ok_memory)

lemma keeps_requests2:
  assumes "ok S X w"
  shows "keeps S X (ptrace_peek K P p request pid address data w)"
    "keeps S X (ptrace_poke P request pid address data w)"
    "keeps S X (ptrace_poke_data P tp t request pid address data w)"
    "keeps S X (ptrace_get_struct K P p request pid data sz convert1 w)"
    "keeps S X (ptrace_set_struct K P tp request pid data sz convert2 w)"
    "keeps S X (ptrace_setregset K P tp pid address data w)"
    "keeps S X (ptrace_getregset K P p tp pid address data w)"
proof -
  show "keeps S X (ptrace_peek K P p request pid address data w)"
    "keeps S X (ptrace_poke P request pid address data w)"
    using assms by (auto simp: ptrace_peek_def ptrace_poke_def Let_def split_beta
        intro!: keeps_requests ok_calls)
  then show "keeps S X (ptrace_poke_data P tp t request pid address data w)"
    using assms by (auto simp: ptrace_poke_data_def ptrace_poke_def Let_def split_beta
        intro!: keeps_requests ok_calls)
  show "keeps S X (ptrace_get_struct K P p request pid data sz convert1 w)"
    using assms by (cases "convert1 (fst (snd (call2 (sp_ptrace_get P (uint request) pid 0 sz) w)))")
      (auto simp: ptrace_get_struct_def Let_def split_beta intro!: keeps_requests ok_calls)
  show "keeps S X (ptrace_set_struct K P tp request pid data sz convert2 w)"
    using assms by (cases "convert2 (fst (snd (read_data (lift_kernel K) tp data sz w)))")
      (auto simp: ptrace_set_struct_def Let_def split_beta intro!: keeps_requests ok_calls ok_memory
        split: sum.split)
  have iov: "ok S X (snd (ptrace_iovec K tp data w))"
    using assms by (auto simp: ptrace_iovec_def Let_def split_beta intro!: ok_memory)
  show "keeps S X (ptrace_setregset K P tp pid address data w)"
    using iov by (auto simp: ptrace_setregset_def Let_def split_beta intro!: keeps_requests ok_calls ok_memory
        split: sum.split)
  show "keeps S X (ptrace_getregset K P p tp pid address data w)"
    using iov by (auto simp: ptrace_getregset_def Let_def split_beta
        intro!: keeps_requests ok_calls ok_memory keeps_bind split: sum.split)
qed

lemma keeps_upd_PTRACEE:
  assumes "ok S X w"
    "\<And>p. ptracer (f p) = ptracer p \<and> ee_is_zombie (f p) = ee_is_zombie p \<and> event_proot (f p) = event_proot p"
    "\<And>w'. ok S X w' \<Longrightarrow> keeps S X (g w')"
  shows "keeps S X (upd_PTRACEE a f w \<bind> g)"
  unfolding keeps_def post_simps
  by (rule post_upd_PTRACEE [OF assms(1)]) (use assms(2,3) in \<open>auto simp: keeps_def\<close>)

lemma keeps_upd:
  assumes "ok S X w" "\<And>t. skel (f t) = skel t \<and> pend_view (f t) = pend_view t"
    "\<And>w'. ok S X w' \<Longrightarrow> keeps S X (g w')"
  shows "keeps S X (upd a f w \<bind> g)"
  unfolding keeps_def post_simps
  by (rule post_upd [OF assms(1)]) (use assms(2,3) in \<open>auto simp: keeps_def\<close>)

lemma keeps_detach:
  assumes "ok S X w" "a \<in> S" "\<And>w'. ok S X w' \<Longrightarrow> keeps S X (g w')"
  shows "keeps S X (detach_from_ptracer a w \<bind> g)"
  unfolding keeps_def post_simps
  by (rule post_detach [OF assms(1,2)]) (use assms(3) in \<open>auto simp: keeps_def\<close>)

lemma keeps_ptrace_request:
  assumes "ok S X w" "a \<in> S"
  shows "keeps S X (ptrace_request K P p a request pid address data w)"
  unfolding ptrace_request_def Let_def ptrace_getregs_def ptrace_setregs_def ptrace_getfpregs_def
    ptrace_setfpregs_def
  by (intro keeps_tracee_at)
    (auto simp: skel_def pend_view_def split_beta assms simp del: upd_PTRACEE_at upd_at
      intro!: keeps_requests keeps_requests2 keeps_upd keeps_upd_PTRACEE keeps_detach ok_calls assms)

lemma post_restart_ptracee:
  assumes h: "keeps_ok h" and ok: "ok S X w" and a: "a \<in> S" and Q: "\<And>w'. ok S X w' \<Longrightarrow> Q w'"
  shows "post Q (restart_ptracee P h a forced w)"
  unfolding restart_ptracee_def post_simps
  apply (rule post_tracee_at, rule post_if)
   apply (rule post_handle [OF h ok a])
   apply (simp only: prod.case post_simps)
   apply (rule post_restart_tracee, assumption, simp add: Q)
  apply (simp only: prod.case post_simps)
  apply (rule post_restart_tracee [OF ok], simp add: Q)
  done

lemma post_ptrace_traceme:
  assumes ok: "ok S X w" and a: "a \<in> S" and Q: "\<And>st w'. ok S X w' \<Longrightarrow> Q (st, w')"
  shows "post Q (ptrace_traceme P a w)"
proof -
  obtain t where t: "tracee_at a w = Some t" "listed_ok w a t"
    using ok_listed [OF ok okD [OF ok a]] by blast
  show ?thesis
  proof (cases "t_parent t")
    case None
    then show ?thesis using t Q [OF ok] by (simp add: ptrace_traceme_def)
  next
    case (Some p)
    let ?S = "insert p S"
    have okp: "ok ?S X w" using t Some ok by (auto simp: listed_ok_def ok_insert)
    have Q': "Q (st, w')" if "ok ?S X w'" for st w' using that Q ok_weaken [of ?S X w' S X] by auto
    have last: "post Q (do { w \<leftarrow> upd a (\<lambda>t. if t_seccomp t = ENABLED then t\<lparr>t_seccomp := DISABLING\<rparr> else t) w';
        Some (0, w) })" if "ok ?S X w'" for w'
      unfolding post_simps by (rule post_upd [OF that]) (auto simp: skel_def pend_view_def Q')
    have "post Q (do {
        w \<leftarrow> attach_to_ptracer a p w;
        p' \<leftarrow> tracee_at p w;
        w \<leftarrow> (if as_waits_in (t_as_ptracer p') \<noteq> WAITS_IN_KERNEL then Some w
              else do {
                let (status, w) = call1 (sp_kill P (t_pid p') SIGSTOP) w;
                if status < 0 then Some w
                else do {
                  w \<leftarrow> upd p (\<lambda>p. p\<lparr>t_sigstop := SIGSTOP_IGNORED\<rparr>) w;
                  upd_PTRACER p (\<lambda>p. p\<lparr>as_waits_in := WAITS_IN_PROOT\<rparr>) w
                }
              });
        w \<leftarrow> upd a (\<lambda>t. if t_seccomp t = ENABLED then t\<lparr>t_seccomp := DISABLING\<rparr> else t) w;
        Some (0, w) })"
      unfolding post_simps split_beta Let_def
      apply (rule post_attach [OF okp], simp add: a, simp)
      apply (rule post_tracee_at, rule post_if)
       apply (simp only: post_simps)
       apply (erule last [unfolded post_simps])
      apply (rule post_if)
       apply (simp only: post_simps)
       apply (drule ok_calls(1), erule last [unfolded post_simps])
      apply (simp only: post_simps)
      apply (rule post_upd, erule ok_calls(1), simp add: skel_def pend_view_def)
      apply (rule post_upd_PTRACER, assumption, simp)
      apply (erule last [unfolded post_simps])
      done
    then show ?thesis using t Some Q [OF ok] by (simp add: ptrace_traceme_def)
  qed
qed

lemma post_ptrace_attach:
  assumes ok: "ok S X w" and a: "a \<in> S" and Q: "\<And>st w'. ok S X w' \<Longrightarrow> Q (st, w')"
  shows "post Q (ptrace_attach P a pid w)"
  unfolding ptrace_attach_def post_simps split_beta
  apply (rule post_get_tracee [OF ok])
    apply (use a in simp)
   apply (simp add: Q)
  apply (simp only: fst_conv snd_conv option.case post_simps)
  apply (rule post_tracee_at, rule post_if)
   apply (use Q ok_weaken [where S' = S and X' = X] in force)
  apply (simp only: post_simps)
  apply (rule post_attach, assumption, simp, simp add: a)
  apply (rule Q, rule ok_calls(1))
  apply (erule ok_weaken, blast, blast)
  done

lemma post_case_sum:
  "(\<And>x. r = Inl x \<Longrightarrow> post Q (f x)) \<Longrightarrow> (\<And>y. r = Inr y \<Longrightarrow> post Q (g y)) \<Longrightarrow>
   post Q (case r of Inl x \<Rightarrow> f x | Inr y \<Rightarrow> g y)"
  by (cases r) auto

lemma found_listed:
  assumes "ok S X w" "a \<in> S" "get_ptracee a pid os pe opts w = Some (Some ptracee)"
    "tracee_at ptracee w = Some tp" "\<not> (ee_is_zombie (t_as_ptracee tp) \<or> c)"
  shows "ok (insert ptracee S) X w"
proof -
  have "is_ptracee a ptracee w" using assms(3) get_ptracee_is by blast
  with assms(1,2) have "ptracee \<in> set (tracees w)"
    by (cases rule: ok_ptracee_cases) (use assms(4,5) in auto)
  then show ?thesis using assms(1) by (simp add: ok_insert)
qed

lemma post_translate_ptrace_exit:
  assumes h: "keeps_ok h" and ok: "ok S X w" and a: "a \<in> S" and Q: "\<And>st w'. ok S X w' \<Longrightarrow> Q (st, w')"
  shows "post Q (translate_ptrace_exit K P h a w)"
  unfolding translate_ptrace_exit_def Let_def post_simps split_beta get_stopped_ptracee_def
  apply (rule post_tracee_at, rule post_if, rule post_ptrace_traceme [OF ok a], rule Q, assumption)
  apply (rule post_if, rule post_ptrace_attach [OF ok a], rule Q, assumption)
  apply (simp only: post_simps)
  apply (rule post_option, rule post_case_option)
   apply (simp only: post_simps)
   apply (rule post_get_tracee [OF ok])
     apply (use a in simp)
    apply (simp add: Q)
   apply (use Q ok_weaken [where S' = S and X' = X] in force)
  apply (simp only: post_simps)
  apply (rule post_tracee_at, rule post_if, simp add: Q [OF ok])
  apply (simp only: post_simps)
  apply (rule post_keeps [OF keeps_ptrace_request [OF found_listed [OF ok a]]], assumption, assumption,
      assumption, simp)
  apply (simp only: fst_conv snd_conv)
  apply (rule post_case_sum)
   apply (simp only: post_simps)
   apply (rule Q, erule ok_weaken, blast, blast)
  apply (simp only: split_beta post_simps)
  apply (rule post_restart_ptracee [OF h], assumption, simp)
  apply (rule Q, erule ok_weaken, blast, blast)
  done

end
