(* ===== verification/Steps.thy ===== *)
theory Steps
  imports Invariant
begin

text \<open>
  The invariant of theory \<open>Invariant\<close> over the event loop: the stages of a system call, the
  handling of an event to any depth, the end of a tracee, and the worlds the loop reaches.
\<close>

unbundle bit_operations_syntax

section \<open>Stages of a tracee\<close>

text \<open>
  What is asked of the callbacks of the application and of the handlers of \<open>execve\<close>: they do
  not touch the links between tracees.
\<close>

definition application_keeps_links :: "'k Handlers \<Rightarrow> bool" where
  "application_keeps_links H \<longleftrightarrow>
     (\<forall>f d t os user t' os'. global_on_sysenter H = Some f \<longrightarrow> f d t os = (user, t', os') \<longrightarrow>
        skel t' = skel t) \<and>
     (\<forall>f d t os user t' os'. global_on_sysexit H = Some f \<longrightarrow> f d t os = (user, t', os') \<longrightarrow>
        skel t' = skel t) \<and>
     (\<forall>t os st t' os'. h_execve_enter H t os = Some (st, t', os') \<longrightarrow> skel t' = skel t) \<and>
     (\<forall>t os t' os'. h_execve_exit H t os = Some (t', os') \<longrightarrow> skel t' = skel t)"

lemma application_keepsD:
  assumes "application_keeps_links H"
  shows "global_on_sysenter H = Some f \<Longrightarrow> f d t os = (user, t', os') \<Longrightarrow> skel t' = skel t"
    and "global_on_sysexit H = Some f \<Longrightarrow> f d t os = (user, t', os') \<Longrightarrow> skel t' = skel t"
    and "h_execve_enter H t os = Some (st, t', os') \<Longrightarrow> skel t' = skel t"
    and "h_execve_exit H t os = Some (t', os') \<Longrightarrow> skel t' = skel t"
  using assms unfolding application_keeps_links_def by metis+

lemma put_with_os: "put_tracee a t (with_os w os) = with_os (put_tracee a t w) os"
  by (simp add: put_tracee_def modify_def with_os_def)

lemma through_keeps:
  assumes "post (\<lambda>(r, w). I w) (f (put_tracee a t w))" "through a f t w = Some (r, t', w')"
    and put: "\<And>w t t'. I w \<Longrightarrow> tracee_at a w = Some t \<Longrightarrow> skel t' = skel t \<Longrightarrow> I (put_tracee a t' w)"
  shows "I (put_tracee a t' w') \<and> tracee_at a w' \<noteq> None"
proof -
  have f: "f (put_tracee a t w) = Some (r, w')" and t': "tracee_at a w' = Some t'"
    using assms(2) by (auto simp: through_def bind_eq_Some_conv)
  have "I w'" using assms(1) f by (simp add: post_def)
  then show ?thesis using put [OF _ t'] t' by simp
qed

lemma world_enter_frame:
  fixes I :: "'k world \<Rightarrow> bool"
  assumes H: "application_keeps_links H"
    and os: "\<And>w os. I w \<Longrightarrow> I (with_os w os)"
    and put: "\<And>w t t'. I w \<Longrightarrow> tracee_at a w = Some t \<Longrightarrow> skel t' = skel t \<Longrightarrow> I (put_tracee a t' w)"
    and ptrace: "\<And>w. I w \<Longrightarrow> post (\<lambda>(r, w). I w) (translate_ptrace_enter a w)"
    and wait: "\<And>w. I w \<Longrightarrow> post (\<lambda>(r, w). I w) (translate_wait_enter a w)"
  shows "enter_frame (lift_kernel K) (world_handlers K P H h a w0)
    (\<lambda>t w. I (put_tracee a t w) \<and> tracee_at a w \<noteq> None)"
    (is "enter_frame ?K ?H ?J")
proof -
  have os': "?J t w \<Longrightarrow> ?J t (with_os w os)" for t w os using os by (simp add: put_with_os)
  have sk: "?J t w \<Longrightarrow> skel t' = skel t \<Longrightarrow> ?J t' w" for t t' w
    using put [of "put_tracee a t w" t t'] by simp
  have app: "?J t w \<Longrightarrow> skel t' = skel t \<Longrightarrow> ?J t' (with_os w os)" for t t' w os
    using os' sk by blast
  have thr: "?J t' w'" if "?J t w" "through a f t w = Some (r, t', w')"
      "\<And>w. I w \<Longrightarrow> post (\<lambda>(r, w). I w) (f w)"
    for f :: "'k world \<Rightarrow> ('b \<times> 'k world) option" and t w r t' w'
    by (rule through_keeps [where I = I, OF _ that(2) put]) (use that(1,3) in blast)+
  have lifted: "\<exists>os. w' = with_os w os \<Longrightarrow> ?J t w \<Longrightarrow> ?J t w'" for t w w' using os' by blast
  show ?thesis
  proof (rule enter_frame.intro)
    show "kernel_frame ?K (?J t)" for t
      by (rule kernel_frame.intro) (erule lifted [rotated], rule lifted.calls [OF lifted_start])+
  next
    fix t t' and w :: "'k world" assume "core t' = core t" "?J t w"
    then show "?J t' w" using sk skel_core by blast
  next
    fix f d t w user t' w'
    assume "global_on_sysenter ?H = Some f" and J: "?J t w" and "f d t w = (user, t', w')"
    then obtain g where g: "global_on_sysenter H = Some g" "lift_callback g d t w = (user, t', w')"
      by (auto simp: world_handlers_def)
    then obtain os where "g d t (base_os w) = (user, t', os)" "w' = with_os w os"
      by (auto simp: lift_callback_def split: prod.splits)
    then show "?J t' w'" using app [OF J] application_keepsD(1) [OF H g(1)] by blast
  next
    fix t w st t' w' assume J: "?J t w" and "h_execve_enter ?H t w = Some (st, t', w')"
    then obtain os where "h_execve_enter H t (base_os w) = Some (st, t', os)" "w' = with_os w os"
      by (auto simp: world_handlers_def)
    then show "?J t' w'" using app [OF J] application_keepsD(3) [OF H] by blast
  next
    fix t w st t' w' assume J: "?J t w" and e: "h_ptrace_enter ?H t w = Some (st, t', w')"
    show "?J t' w'" by (rule thr [OF J _ ptrace]) (use e in \<open>simp_all add: world_handlers_def\<close>)
  next
    fix t w st t' w' assume J: "?J t w" and e: "h_wait_enter ?H t w = Some (st, t', w')"
    show "?J t' w'" by (rule thr [OF J _ wait]) (use e in \<open>simp_all add: world_handlers_def\<close>)
  qed
qed

lemma post_snd: "post Q m \<Longrightarrow> (\<And>r w. Q (r, w) \<Longrightarrow> I w) \<Longrightarrow> post (\<lambda>(r, w). I w) m"
  by (erule post_mono) auto

lemma world_stage_frame:
  fixes w0 :: "'k world"
  assumes H: "application_keeps_links H" and h: "keeps_ok h" and a: "a \<in> S" "a \<in> X"
  shows "stage_frame (lift_kernel K) (world_handlers K P H h a w0)
    (\<lambda>t w. ok S X (put_tracee a t w) \<and> tracee_at a w \<noteq> None)"
    (is "stage_frame ?K ?H ?J")
proof -
  have put: "ok S X w \<Longrightarrow> tracee_at a w = Some t \<Longrightarrow> skel t' = skel t \<Longrightarrow> ok S X (put_tracee a t' w)"
    for t t' and w :: "'k world" by (rule ok_put) (use a in simp_all)
  have sk: "?J t w \<Longrightarrow> skel t' = skel t \<Longrightarrow> ?J t' (with_os w os)" for t t' w os
    using put [of "put_tracee a t w" t t'] by (simp add: put_with_os)
  have enter: "post (\<lambda>(r, w). ok S X w) (translate_ptrace_enter a w)"
    "post (\<lambda>(r, w). ok S X w) (translate_wait_enter a w)" if "ok S X w" for w :: "'k world"
    by (rule post_translate_ptrace_enter [OF that], simp) (rule post_translate_wait_enter [OF that], simp)
  show ?thesis
  proof (intro stage_frame.intro stage_frame_axioms.intro)
    show "enter_frame ?K ?H ?J"
      by (rule world_enter_frame [OF H]) (simp_all add: put enter)
  next
    fix f d t w user t' w'
    assume "global_on_sysexit ?H = Some f" and J: "?J t w" and "f d t w = (user, t', w')"
    then obtain g where g: "global_on_sysexit H = Some g" "lift_callback g d t w = (user, t', w')"
      by (auto simp: world_handlers_def)
    then obtain os where "g d t (base_os w) = (user, t', os)" "w' = with_os w os"
      by (auto simp: lift_callback_def split: prod.splits)
    then show "?J t' w'" using sk [OF J] application_keepsD(2) [OF H g(1)] by blast
  next
    fix t w t' w' assume J: "?J t w" and "h_execve_exit ?H t w = Some (t', w')"
    then obtain os where "h_execve_exit H t (base_os w) = Some (t', os)" "w' = with_os w os"
      by (auto simp: world_handlers_def)
    then show "?J t' w'" using sk [OF J] application_keepsD(4) [OF H] by blast
  next
    fix t w st t' w' assume J: "?J t w" and e: "h_ptrace_exit ?H t w = Some (st, t', w')"
    have e': "through a (translate_ptrace_exit K P h a) t w = Some (st, t', w')"
      using e by (simp add: world_handlers_def)
    have "post (\<lambda>(r, w). ok S X w) (translate_ptrace_exit K P h a (put_tracee a t w))"
      by (rule post_translate_ptrace_exit [OF h _ a(1)]) (use J in auto)
    then show "?J t' w'" by (rule through_keeps [where I = "ok S X", OF _ e' put])
  next
    fix t w st r t' w' assume J: "?J t w" and e: "h_wait_exit ?H t w = Some (st, r, t', w')"
    have e': "through a (\<lambda>w. map_option (\<lambda>(status, set_result, w). ((status, set_result), w))
        (translate_wait_exit K P h a w)) t w = Some ((st, r), t', w')"
      using e by (auto simp: world_handlers_def)
    have "post (\<lambda>(r, w). ok S X w) (map_option (\<lambda>(status, set_result, w). ((status, set_result), w))
        (translate_wait_exit K P h a (put_tracee a t w)))"
      unfolding post_simps by (rule post_translate_wait_exit [OF _ a(1)]) (use J in auto)
    then show "?J t' w'" by (rule through_keeps [where I = "ok S X", OF _ e' put])
  qed
qed

lemma post_translate_syscall_at:
  assumes H: "application_keeps_links H" and h: "keeps_ok h" and ok: "ok S X w" and a: "a \<in> S" "a \<in> X"
    and Q: "\<And>w'. ok S X w' \<Longrightarrow> Q w'"
  shows "post Q (translate_syscall_at K P H h a w)"
proof -
  have "Q (put_tracee a t' w')" if t: "tracee_at a w = Some t"
    and s: "translate_syscall (lift_kernel K) (world_handlers K P H h a w) t w = Some (t', w')" for t t' w'
  proof -
    have "ok S X (put_tracee a t w) \<and> tracee_at a w \<noteq> None"
      using t ok by (auto intro: ok_put [where t = t])
    from stage_frame.both_stages [OF world_stage_frame [OF H h a] this s] show ?thesis using Q by blast
  qed
  then show ?thesis
    unfolding translate_syscall_at_def post_simps
    by (intro post_tracee_at post_if) (auto simp: post_def bind_eq_Some_conv)
qed

lemma post_set_options:
  assumes ok: "ok S X w" and Q: "\<And>w'. ok S X w' \<Longrightarrow> Q w'"
  shows "post Q (set_options P a w)"
  unfolding set_options_def Let_def post_simps split_beta
  apply (rule post_tracee_at, rule post_if)
   apply (simp only: post_simps)
   apply (rule post_upd)
     apply (rule ok_calls(1), rule ok_calls(4), rule ok)
    apply (simp add: skel_def pend_view_def)
   apply (rule post_if, simp)
   apply (simp only: post_simps)
   apply (rule Q, rule ok_calls(1), assumption)
  apply (rule post_upd)
    apply (rule ok_calls(1), rule ok_calls(4), rule ok)
   apply (simp add: skel_def pend_view_def)
  apply (rule Q, assumption)
  done

lemma skel_stage [simp]:
  "skel (prepare_stage t) = skel t" "skel (finish_disabling t) = skel t"
  "skel (detect_seccomp t) = skel t" "skel (default_restart t) = skel t"
  by (simp_all add: prepare_stage_def finish_disabling_def detect_seccomp_def default_restart_def skel_def)

lemma post_syscall_stop:
  assumes H: "application_keeps_links H" and h: "keeps_ok h" and ok: "ok S X w" and a: "a \<in> S" "a \<in> X"
    and Q: "\<And>w'. ok S X w' \<Longrightarrow> Q w'"
  shows "post Q (syscall_stop K P H h a w)"
  unfolding syscall_stop_def post_simps
  apply (rule post_tracee_at, rule post_if)
   apply (rule post_upd [OF ok], simp add: skel_def a, erule Q)
  apply (simp only: post_simps)
  apply (rule post_upd [OF ok], simp add: a)
  apply (rule post_translate_syscall_at [OF H h _ a], assumption)
  apply (rule post_upd, assumption, simp add: a, erule Q)
  done

lemma post_seccomp_stop:
  assumes H: "application_keeps_links H" and h: "keeps_ok h" and ok: "ok S X w" and a: "a \<in> S" "a \<in> X"
    and Q: "\<And>w'. ok S X w' \<Longrightarrow> Q w'"
  shows "post Q (seccomp_stop K P H h a w)"
  unfolding seccomp_stop_def Let_def post_simps split_beta
  apply (rule post_upd [OF ok], simp add: a)
  apply (rule post_tracee_at, rule post_if, simp add: Q)
  apply (rule post_if, simp only: post_simps, rule Q, erule ok_calls(2))
  apply (rule post_if)
   apply (simp only: post_simps)
   apply (rule post_upd, erule ok_calls(2), simp add: a skel_def)
   apply (rule post_translate_syscall_at [OF H h _ a], assumption)
   apply (rule post_upd, assumption, simp add: a skel_def, erule Q)
  apply (rule post_syscall_stop [OF H h _ a], erule ok_calls(2), erule Q)
  done

lemma post_first_sigtrap:
  assumes H: "application_keeps_links H" and h: "keeps_ok h" and ok: "ok S X w" and a: "a \<in> S" "a \<in> X"
    and Q: "\<And>w'. ok S X w' \<Longrightarrow> Q w'"
  shows "post Q (first_sigtrap K P H h a w)"
  unfolding first_sigtrap_def post_simps
  apply (rule post_upd [OF ok], simp add: a skel_def)
  apply (rule post_set_options, assumption)
  apply (rule post_upd, assumption, simp add: a)
  apply (rule post_syscall_stop [OF H h _ a], assumption, erule Q)
  done

lemma post_handle_stop:
  assumes H: "application_keeps_links H" and h: "keeps_ok h" and ok: "ok S X w" and a: "a \<in> S" "a \<in> X"
    and Q: "\<And>s w'. ok S X w' \<Longrightarrow> Q (s, w')"
  shows "post Q (handle_stop K P H h a signal w)"
  unfolding handle_stop_def post_simps
  apply (rule post_tracee_at, rule post_if)
   apply (rule post_if, simp add: Q ok)
   apply (simp only: post_simps, rule post_first_sigtrap [OF H h ok a], erule Q)
  apply (rule post_if, simp only: post_simps, rule post_seccomp_stop [OF H h ok a], erule Q)
  apply (rule post_if, simp only: post_simps, rule post_syscall_stop [OF H h ok a], erule Q)
  apply (rule post_if, simp only: post_simps, rule post_new_child [OF h ok a(1)], simp add: Q)
  apply (rule post_if, simp only: post_simps, rule post_new_child [OF h ok a(1)], simp add: Q)
  apply (rule post_if, simp add: Q ok)
  apply (rule post_if, rule post_if, simp only: post_simps, rule post_upd [OF ok], simp add: a skel_def, erule Q)
   apply (simp_all add: Q ok)
  done

lemma ok_modify_exit:
  "ok S X w \<Longrightarrow> ok S X (modify (\<lambda>k. k\<lparr>w_last_exit_status := v\<rparr>) w)"
proof -
  have "shape (modify (\<lambda>k. k\<lparr>w_last_exit_status := v\<rparr>) w) = shape w"
    by (simp add: shape_def tracees_def tracee_at_def)
  then show "ok S X w \<Longrightarrow> ?thesis" using world_ok_shape
    by (auto simp: ok_def tracees_def tracee_at_def)
qed

lemma post_handle_event_with:
  assumes H: "application_keeps_links H" and h: "keeps_ok h" and ok: "ok S X w" and a: "a \<in> S"
  shows "post (\<lambda>(s, w'). ok S X w' \<and> nopend a w') (handle_event_with K P H h a event w)"
proof -
  let ?X = "insert a X"
  have ok': "ok S ?X w" using ok by (rule ok_weaken) auto
  have clear: "post (\<lambda>(s, w'). ok S X w' \<and> nopend a w') (do {
      w \<leftarrow> upd_PTRACEE a (\<lambda>p. p\<lparr>event_proot := (event_proot p)\<lparr>ev_pending := False\<rparr>\<rparr>) w;
      Some (signal, w) })" if w: "ok S ?X w" for signal :: int and w :: "'a world"
  proof -
    let ?f = "\<lambda>t. t\<lparr>t_as_ptracee := (t_as_ptracee t)\<lparr>event_proot := (event_proot (t_as_ptracee t))\<lparr>ev_pending := False\<rparr>\<rparr>\<rparr>"
    have "ok S X (put_tracee a (?f t) w) \<and> nopend a (put_tracee a (?f t) w)" if t: "tracee_at a w = Some t" for t
    proof -
      have o: "ok S ?X (put_tracee a (?f t) w)" using w t by (intro ok_put [where t = t]) (simp_all add: skel_def)
      moreover have n: "nopend a (put_tracee a (?f t) w)" by (simp add: nopend_def)
      ultimately have "ok S (?X - {a}) (put_tracee a (?f t) w)" by (rule ok_nopend)
      then show ?thesis using n ok_weaken by blast
    qed
    then show ?thesis unfolding upd_PTRACEE_def post_simps by (auto simp: post_def upd_Some)
  qed
  show ?thesis
    unfolding handle_event_with_def post_simps
    apply (rule post_upd [OF ok'], simp)
    apply (rule post_if, simp only: post_simps, rule post_terminate_tracee, erule ok_modify_exit,
        simp only: prod.case, erule clear)
    apply (rule post_if, simp only: post_simps, rule post_terminate_tracee, assumption,
        simp only: prod.case, erule clear)
    apply (rule post_if, rule post_handle_stop [OF H h _ a], assumption, simp,
        simp only: prod.case, erule clear)
    apply (simp only: post_simps(2) prod.case, erule clear)
    done
qed

lemma keeps_ok_handle:
  assumes "application_keeps_links H"
  shows "keeps_ok (handle_tracee_event depth K P H)"
proof (induction depth)
  case (Suc depth)
  then show ?case using post_handle_event_with [OF assms Suc] by (simp add: keeps_ok_def)
qed (simp add: keeps_ok_def)

section \<open>Quiet events\<close>

text \<open>Two worlds that differ in the tracee \<open>a\<close> only, and there not in its pointers.\<close>

definition only :: "addr \<Rightarrow> 'k world \<Rightarrow> 'k world \<Rightarrow> bool" where
  "only a w w' \<longleftrightarrow> shape w' = shape w \<and> (\<forall>b. b \<noteq> a \<longrightarrow> tracee_at b w' = tracee_at b w)"

lemma only_refl: "only a w w"
  by (simp add: only_def)

lemma only_with_os [simp]: "only a w0 (with_os w os) = only a w0 w"
  by (simp add: only_def)

lemma only_put:
  "only a w0 w \<Longrightarrow> tracee_at a w = Some t \<Longrightarrow> skel t' = skel t \<Longrightarrow> only a w0 (put_tracee a t' w)"
  using shape_put [of a w t t'] by (simp add: only_def)

lemma only_trans: "only a w0 w \<Longrightarrow> only a w w' \<Longrightarrow> only a w0 w'"
  by (simp add: only_def)

lemma only_call1: "only a w0 w \<Longrightarrow> only a w0 (snd (call1 f w))"
  by (simp add: call1_def split_beta)

lemma only_upd:
  assumes "only a w0 w" "\<And>t. tracee_at a w = Some t \<Longrightarrow> skel (f t) = skel t" "\<And>w'. only a w0 w' \<Longrightarrow> Q w'"
  shows "post Q (upd a f w)"
  using assms only_put [OF assms(1)] by (auto simp: post_def upd_Some)

lemma only_upd_PTRACER:
  assumes "only a w0 w" "\<And>p. zombies (f p) = zombies p" "\<And>w'. only a w0 w' \<Longrightarrow> Q w'"
  shows "post Q (upd_PTRACER a f w)"
  unfolding upd_PTRACER_def by (rule only_upd [OF assms(1)]) (use assms(2,3) in \<open>simp_all add: skel_def\<close>)

lemma only_upd_PTRACEE:
  assumes "only a w0 w" "\<And>p. ptracer (f p) = ptracer p \<and> ee_is_zombie (f p) = ee_is_zombie p"
    "\<And>w'. only a w0 w' \<Longrightarrow> Q w'"
  shows "post Q (upd_PTRACEE a f w)"
  unfolding upd_PTRACEE_def by (rule only_upd [OF assms(1)]) (use assms(2,3) in \<open>simp_all add: skel_def\<close>)

lemma only_push_regs_at:
  assumes "only a w0 w" "\<And>st w'. only a w0 w' \<Longrightarrow> Q (st, w')"
  shows "post Q (push_regs_at K a w)"
proof -
  have "only a w0 (put_tracee a t' w')"
    if t: "tracee_at a w = Some t" and p: "push_regs (lift_kernel K) t w = (st, t', w')" for t st t' w'
  proof -
    obtain os where c: "core t' = core t" "w' = with_os w os" using push_regs_lifted [OF p] by blast
    then show ?thesis using assms(1) t skel_core [OF c(1)] by (intro only_put [where t = t]) auto
  qed
  then show ?thesis using assms(2) by (auto simp: push_regs_at_def intro!: post_tracee_at split: prod.splits)
qed

lemma only_restart_tracee:
  assumes "only a w0 w" "\<And>r w'. only a w0 w' \<Longrightarrow> Q (r, w')"
  shows "post Q (restart_tracee P a signal w)"
  unfolding restart_tracee_def Let_def post_simps split_beta
  apply (rule post_tracee_at, rule post_if, simp add: assms)
  apply (rule post_if, simp only: post_simps, rule assms(2), rule only_call1 [OF assms(1)])
  apply (simp only: post_simps)
  apply (rule only_upd, rule only_call1 [OF assms(1)])
   apply (simp add: skel_def)
  apply (erule assms(2))
  done


lemma only_set_sysnum:
  assumes "only a w0 w" "tracee_at a w = Some t" "set_sysnum t s = Some t'"
  shows "only a w0 (put_tracee a t' w)"
  using assms skel_core [OF core_set_sysnum] by (intro only_put [where t = t]) auto

lemma only_enters:
  assumes w: "only a w0 w"
  shows "post (\<lambda>(r, w). only a w0 w) (translate_ptrace_enter a w)"
    "post (\<lambda>(r, w). only a w0 w) (translate_wait_enter a w)"
proof -
  show "post (\<lambda>(r, w). only a w0 w) (translate_ptrace_enter a w)"
    unfolding translate_ptrace_enter_def post_simps
    by (rule post_tracee_at, rule post_option) (simp add: only_set_sysnum [OF w])
  show "post (\<lambda>(r, w). only a w0 w) (translate_wait_enter a w)"
    using w
    by (auto simp: translate_wait_enter_def Let_def simp del: upd_PTRACER_at
        intro!: only_upd_PTRACER [where ?w0.0 = w0] post_tracee_at post_option [of "get_ptracee x1 x2 x3 x4 x5 x6" for x1 x2 x3 x4 x5 x6]
          post_option [of "set_sysnum x1 x2" for x1 x2] only_set_sysnum split: option.split)
qed

definition entering :: "addr \<Rightarrow> 'k world \<Rightarrow> bool" where
  "entering a w \<longleftrightarrow> (\<forall>t. tracee_at a w = Some t \<longrightarrow> IS_IN_SYSENTER t)"

lemma only_translate_syscall_at:
  fixes w0 :: "'k world"
  assumes H: "application_keeps_links H" and w: "only a w0 w" "entering a w" and Q: "\<And>w'. only a w0 w' \<Longrightarrow> Q w'"
  shows "post Q (translate_syscall_at K P H h a w)"
proof -
  have "only a w0 (put_tracee a t' w')" if t: "tracee_at a w = Some t"
    and s: "translate_syscall (lift_kernel K) (world_handlers K P H h a w) t w = Some (t', w')" for t t' w'
  proof -
    have J: "only a w0 (put_tracee a t w) \<and> tracee_at a w \<noteq> None"
      using t w(1) by (auto intro: only_put [where t = t])
    have "enter_frame (lift_kernel K) (world_handlers K P H h a w)
        (\<lambda>t w. only a w0 (put_tracee a t w) \<and> tracee_at a w \<noteq> None)"
      by (rule world_enter_frame [OF H]) (simp_all add: only_put only_enters)
    from enter_frame.first_stage [OF this J s] show ?thesis using t w(2) by (simp add: entering_def)
  qed
  then show ?thesis using Q unfolding translate_syscall_at_def
    by (auto simp: post_def bind_eq_Some_conv split: if_splits prod.splits)
qed

lemma entering_upd:
  assumes "only a w0 w" "entering a w" "\<And>t. skel (f t) = skel t \<and> t_status (f t) = t_status t"
    "\<And>w'. only a w0 w' \<Longrightarrow> entering a w' \<Longrightarrow> Q w'"
  shows "post Q (upd a f w)"
proof -
  have "only a w0 (put_tracee a (f t) w)" "entering a (put_tracee a (f t) w)" if "tracee_at a w = Some t" for t
    using assms(1-3) that by (auto intro: only_put simp: entering_def IS_IN_SYSENTER_def)
  then show ?thesis using assms(4) by (auto simp: post_def upd_Some)
qed

lemma only_syscall_stop:
  assumes H: "application_keeps_links H" and w: "only a w0 w" "entering a w" and Q: "\<And>w'. only a w0 w' \<Longrightarrow> Q w'"
  shows "post Q (syscall_stop K P H h a w)"
  unfolding syscall_stop_def post_simps
  apply (rule post_tracee_at, rule post_if)
   apply (rule only_upd [OF w(1)], simp add: skel_def, erule Q)
  apply (simp only: post_simps)
  apply (rule entering_upd [OF w], simp add: prepare_stage_def skel_def)
  apply (rule only_translate_syscall_at [OF H], assumption, assumption)
  apply (rule only_upd, assumption, simp, erule Q)
  done

lemma entering_call1: "entering a w \<Longrightarrow> entering a (snd (call1 f w))"
  by (simp add: entering_def call1_def split_beta)

lemma entering_set_errno: "only a w0 w \<Longrightarrow> only a w0 (set_errno e w)" "entering a w \<Longrightarrow> entering a (set_errno e w)"
proof -
  have "set_errno e w = with_os w (set_errno e (base_os w))" by (simp add: set_errno_with_os [symmetric])
  then show "only a w0 w \<Longrightarrow> only a w0 (set_errno e w)" "entering a w \<Longrightarrow> entering a (set_errno e w)"
    by (simp_all add: entering_def)
qed

lemma entering_set_options:
  assumes w: "only a w0 w" "entering a w" and Q: "\<And>w'. only a w0 w' \<Longrightarrow> entering a w' \<Longrightarrow> Q w'"
  shows "post Q (set_options P a w)"
  unfolding set_options_def Let_def post_simps split_beta
  apply (rule post_tracee_at, rule post_if)
   apply (simp only: post_simps)
   apply (rule entering_upd [where ?w0.0 = w0])
      apply (intro only_call1 entering_set_errno w)
     apply (intro entering_call1 entering_set_errno w)
    apply (simp add: skel_def)
   apply (rule post_if, simp)
   apply (simp only: post_simps)
   apply (rule Q; rule only_call1 entering_call1; assumption)
  apply (rule entering_upd [where ?w0.0 = w0])
     apply (intro only_call1 entering_set_errno w)
    apply (intro entering_call1 entering_set_errno w)
   apply (simp add: skel_def)
  apply (rule Q; assumption)
  done

lemma only_first_sigtrap:
  assumes H: "application_keeps_links H" and w: "only a w0 w" "entering a w" and Q: "\<And>w'. only a w0 w' \<Longrightarrow> Q w'"
  shows "post Q (first_sigtrap K P H h a w)"
  unfolding first_sigtrap_def post_simps
  apply (rule entering_upd [OF w], simp add: skel_def)
  apply (rule entering_set_options, assumption, assumption)
  apply (rule entering_upd, assumption, assumption, simp add: detect_seccomp_def skel_def)
  apply (rule only_syscall_stop [OF H], assumption, assumption, erule Q)
  done

lemma and_127: "x AND 127 = x mod 128" for x :: int
proof -
  have "(mask 7 :: int) = 127" by (simp add: mask_eq_exp_minus_1)
  then have "x AND 127 = take_bit 7 x" by (simp only: take_bit_eq_mask)
  then show ?thesis by (simp only: take_bit_eq_mod) simp
qed

lemma stopped_exclusive: "WIFSTOPPED status \<Longrightarrow> \<not> WIFEXITED status \<and> \<not> WIFSIGNALED status"
proof -
  assume "WIFSTOPPED status"
  then have "status mod 128 = 127" by (simp add: WIFSTOPPED_def and_127)
  moreover then have "(status + 1) mod 128 = 0" by presburger
  ultimately show ?thesis by (simp add: WIFEXITED_def WIFSIGNALED_def and_127)
qed

text \<open>A quiet event changes nothing but the tracee it is for, whatever handles other events.\<close>

lemma only_handle_event_with:
  assumes H: "application_keeps_links H" and t: "tracee_at a w = Some t" "quiet t event"
    and Q: "\<And>s w'. only a w w' \<Longrightarrow> Q (s, w')"
  shows "post Q (handle_event_with K P H h a event w)"
proof -
  have stopped: "\<not> WIFEXITED event" "\<not> WIFSIGNALED event" "WIFSTOPPED event"
    using t(2) stopped_exclusive by (auto simp: quiet_def)
  let ?t = "default_restart t" and ?w = "put_tracee a (default_restart t) w"
  have w1: "only a w ?w" using t(1) only_put [OF only_refl t(1)] by simp
  have e1: "entering a ?w" if "IS_IN_SYSENTER t"
    using that by (simp add: entering_def default_restart_def IS_IN_SYSENTER_def)
  have fields: "t_is_root ?t = t_is_root t" "t_deliver_sigtrap ?t = t_deliver_sigtrap t" "t_sigstop ?t = t_sigstop t"
    by (simp_all add: default_restart_def)
  have "post (\<lambda>(s, w'). only a w w') (handle_stop K P H h a (stop_event event) ?w)"
    unfolding handle_stop_def post_simps
    apply (rule post_tracee_at, rule post_if)
     apply (rule post_if, simp add: w1)
     apply (simp only: post_simps, rule only_first_sigtrap [OF H w1 e1])
      apply (use t(2) fields in \<open>auto simp: quiet_def\<close>)[1]
     apply simp
    apply (rule post_if, use t(2) in \<open>simp add: quiet_def\<close>)
    apply (rule post_if)
     apply (simp only: post_simps, rule only_syscall_stop [OF H w1 e1])
      apply (use t(2) in \<open>simp add: quiet_def\<close>)
     apply simp
    apply (rule post_if, use t(2) in \<open>simp add: quiet_def\<close>)
    apply (rule post_if, use t(2) in \<open>simp add: quiet_def\<close>)
    apply (rule post_if, simp add: w1)
    apply (rule post_if, rule post_if)
       apply (simp only: post_simps, rule only_upd [OF w1], simp add: skel_def, simp)
      apply (simp_all add: w1)
    done
  then show ?thesis
    unfolding handle_event_with_def post_simps upd_at [OF t(1)] using stopped
    by simp (erule post_mono, clarsimp, rule only_upd_PTRACEE, assumption, simp, simp add: Q)
qed

section \<open>The end of a tracee\<close>

text \<open>
  While the relatives of a removed tracee \<open>d\<close> are released, the invariant holds of the world
  that still lists \<open>d\<close>; the relatives outside of \<open>R\<close> do not point to it anymore.
\<close>

definition relist :: "addr \<Rightarrow> 'k world \<Rightarrow> 'k world" where
  "relist d w = modify (\<lambda>k. k\<lparr>w_tracees := d # w_tracees k\<rparr>) w"

lemma relist_simps [simp]:
  "tracee_at b (relist d w) = tracee_at b w" "tracees (relist d w) = d # tracees w"
  "w_break (os_kern (relist d w)) = w_break (os_kern w)"
  by (simp_all add: relist_def tracee_at_def tracees_def)

definition leaving :: "addr \<Rightarrow> addr set \<Rightarrow> 'k world \<Rightarrow> bool" where
  "leaving d R w \<longleftrightarrow> ok {} {} (relist d w) \<and>
     (\<forall>a \<in> set (tracees w) - R. \<forall>t. tracee_at a w = Some t \<longrightarrow>
        t_parent t \<noteq> Some d \<and> ptracer (t_as_ptracee t) \<noteq> Some d)"

definition quiet_only :: "'k handle_event \<Rightarrow> bool" where
  "quiet_only h \<longleftrightarrow> (\<forall>a t event w. tracee_at a w = Some t \<longrightarrow> quiet t event \<longrightarrow>
     post (\<lambda>(s, w'). only a w w') (h a event w))"

lemma quiet_only_handle:
  assumes "application_keeps_links H"
  shows "quiet_only (handle_tracee_event depth K P H)"
  by (cases depth) (auto simp: quiet_only_def intro: only_handle_event_with [OF assms])

lemma ok_only:
  assumes "ok S X w" "only a w w'" "nopend a w'"
  shows "ok S X w'"
proof -
  have "world_ok w'" using assms(1,2) world_ok_shape by (auto simp: ok_def only_def)
  moreover have "tracees w' = tracees w" using assms(2) shape_tracees by (auto simp: only_def)
  moreover have "pend_ok t" if "tracee_at b w' = Some t" "b \<in> set (tracees w) - X" for b t
    using assms that by (cases "b = a") (auto simp: ok_def only_def nopend_def pend_ok_def)
  ultimately show ?thesis using assms(1) by (auto simp: ok_def)
qed

lemma shape_relist: "shape w' = shape w \<Longrightarrow> shape (relist d w') = shape (relist d w)"
  by (simp add: shape_def)

lemma leaving_only:
  assumes "leaving d R w" "only a w w'" "nopend a w'"
  shows "leaving d R w'"
proof -
  have "only a (relist d w) (relist d w')"
    using assms(2) shape_relist [of w' w d] unfolding only_def by simp
  moreover have "nopend a (relist d w')" using assms(3) by (simp add: nopend_def)
  ultimately have ok': "ok {} {} (relist d w')"
    using assms(1) ok_only unfolding leaving_def by blast
  have sh: "shape w' = shape w" using assms(2) by (simp add: only_def)
  have "t_parent t \<noteq> Some d \<and> ptracer (t_as_ptracee t) \<noteq> Some d"
    if b: "b \<in> set (tracees w) - R" and t: "tracee_at b w' = Some t" for b t
  proof -
    obtain t0 where "tracee_at b w = Some t0" "skel t0 = skel t" using shape_at [OF sh [symmetric] t] .
    then show ?thesis using assms(1) b skel_eqD [of t0 t] by (auto simp: leaving_def)
  qed
  then show ?thesis using ok' shape_tracees [OF sh] by (simp add: leaving_def)
qed

lemma world_ok_perm:
  assumes "world_ok w" "distinct (tracees w')" "set (tracees w') = set (tracees w)"
    "\<And>b. tracee_at b w' = tracee_at b w" "w_break (os_kern w') = w_break (os_kern w)"
  shows "world_ok w'"
  using assms by (simp add: world_ok_def listed_ok_def)

lemma leaving_start:
  assumes "ok S {} w" "d \<in> set (tracees w)"
  defines "w' \<equiv> modify (\<lambda>k. k\<lparr>w_tracees := remove1 d (w_tracees k)\<rparr>) w"
  shows "leaving d (set (tracees w')) w'" "tracees w' = remove1 d (tracees w)"
    "tracee_at b w' = tracee_at b w"
proof -
  show ts: "tracees w' = remove1 d (tracees w)" by (simp add: w'_def tracees_def)
  have at: "tracee_at b w' = tracee_at b w" for b by (simp add: w'_def tracee_at_def)
  then show "tracee_at b w' = tracee_at b w" .
  have "distinct (tracees w)" using assms(1) by (simp add: ok_def world_ok_def)
  then have perm: "distinct (d # tracees w')" "set (d # tracees w') = set (tracees w)"
    using assms(2) ts by (auto simp: set_remove1_eq)
  have "world_ok (relist d w')"
    by (rule world_ok_perm [of w]) (use assms(1) perm at in \<open>auto simp: ok_def w'_def\<close>)
  then have "ok {} {} (relist d w')" using assms(1) at perm(2) by (auto simp: ok_def)
  then show "leaving d (set (tracees w')) w'" by (simp add: leaving_def)
qed

lemma leaving_end:
  assumes "leaving d {} w"
  shows "ok {} {} w"
proof -
  have w: "world_ok (relist d w)" using assms by (simp add: leaving_def ok_def)
  have "listed_ok w b t" if "b \<in> set (tracees w)" "tracee_at b w = Some t" "listed_ok (relist d w) b t" for b t
    using assms that by (auto simp: leaving_def listed_ok_def)
  then have "world_ok w" using w by (fastforce simp: world_ok_def)
  then show ?thesis using assms by (auto simp: leaving_def ok_def)
qed

lemma relist_put: "relist d (put_tracee a t w) = put_tracee a t (relist d w)"
  by (simp add: relist_def put_tracee_def modify_def)

lemma leaving_cut:
  assumes l: "leaving d R w" and a: "a \<in> set (tracees w)" "tracee_at a w = Some t"
    and t': "t_parent t' = None \<or> t_parent t' = t_parent t"
      "ptracer (t_as_ptracee t') = None \<or> ptracer (t_as_ptracee t') = ptracer (t_as_ptracee t)"
      "t_parent t' \<noteq> Some d" "ptracer (t_as_ptracee t') \<noteq> Some d"
    and same: "zombies (t_as_ptracer t') = zombies (t_as_ptracer t)" "t_is_zombie t' = t_is_zombie t"
      "ee_is_zombie (t_as_ptracee t') = ee_is_zombie (t_as_ptracee t)" "pend_view t' = pend_view t"
  shows "leaving d (R - {a}) (put_tracee a t' w)"
proof -
  have w: "ok {} {} (relist d w)" using l by (simp add: leaving_def)
  have "listed_ok (relist d w) a t" using ok_listed [OF w, of a] a by auto
  then have "listed_ok (relist d w) a t'"
    using t'(1,2) same unfolding listed_ok_def by (elim disjE) simp_all
  then have "ok {} {} (relist d (put_tracee a t' w))"
    unfolding relist_put using a same(4) pend_ok_view by (intro ok_put_listed [OF w, where t = t]) auto
  then show ?thesis using l a t' by (auto simp: leaving_def)
qed


lemma put_same [simp]: "tracee_at a w = Some t \<Longrightarrow> put_tracee a t w = w"
  by (cases w) (simp add: put_tracee_def modify_def tracee_at_def fun_upd_idem)

lemma only_clear:
  assumes "only a w0 w" "tracee_at a w0 = Some t0" "ptracer (t_as_ptracee t0) = None"
    "\<not> ee_is_zombie (t_as_ptracee t0)" "\<And>w'. only a w0 w' \<Longrightarrow> nopend a w' \<Longrightarrow> Q w'"
  shows "post Q (upd_PTRACEE a (\<lambda>_. t_as_ptracee calloc_tracee) w)"
proof -
  let ?f = "\<lambda>t. t\<lparr>t_as_ptracee := t_as_ptracee calloc_tracee\<rparr>"
  have "only a w0 (put_tracee a (?f t) w)" "nopend a (put_tracee a (?f t) w)" if t: "tracee_at a w = Some t" for t
  proof -
    have "shape w = shape w0" using assms(1) by (simp add: only_def)
    then obtain u where "tracee_at a w = Some u" "skel u = skel t0" using shape_at [of w w0 a t0] assms(2) by blast
    then have "skel (?f t) = skel t" using t assms(3,4) by (simp add: skel_def calloc_tracee_def)
    then show "only a w0 (put_tracee a (?f t) w)" by (rule only_put [OF assms(1) t])
  qed (simp add: nopend_def calloc_tracee_def)
  then show ?thesis using assms(5) by (auto simp: upd_PTRACEE_def post_def upd_Some)
qed

lemma post_release_relative:
  fixes w :: "'k world"
  assumes h: "quiet_only h" and l: "leaving d R w" and a: "a \<in> set (tracees w)" "a \<noteq> d"
    and Q: "\<And>w'. leaving d (R - {a}) w' \<Longrightarrow> tracees w' = tracees w \<Longrightarrow>
      tracee_at d w' = tracee_at d w \<Longrightarrow> Q w'"
  shows "post Q (release_relative P h d a w)"
proof -
  have ok: "ok {} {} (relist d w)" using l by (simp add: leaving_def)
  obtain r where r: "tracee_at a w = Some r" "listed_ok (relist d w) a r" using ok_listed [OF ok, of a] a by auto
  have pend: "pend_ok r" using ok a r by (auto simp: ok_def)
  let ?r1 = "if t_parent r = Some d then r\<lparr>t_parent := None\<rparr> else r"
  let ?r2 = "?r1\<lparr>t_as_ptracee := (t_as_ptracee r)\<lparr>ptracer := None\<rparr>\<rparr>"
  let ?w2 = "put_tracee a ?r2 w"
  have step: "release_relative P h d a w =
      (if ptracer (t_as_ptracee r) = Some d then do {
         w' \<leftarrow> (if ev_pending (event_proot (t_as_ptracee r)) then do {
                 (event, w) \<leftarrow> h a (ev_value (event_proot (t_as_ptracee r))) ?w2;
                 map_option snd (restart_tracee P a event w)
               }
               else if ev_pending (event_ptracer (t_as_ptracee r))
               then map_option snd (restart_tracee P a (ev_value (event_proot (t_as_ptracee r))) ?w2)
               else Some ?w2);
         upd_PTRACEE a (\<lambda>_. t_as_ptracee calloc_tracee) w'
       }
       else Some (put_tracee a ?r1 w))"
    using r by (simp add: release_relative_def Let_def put_same)
  show ?thesis
  proof (cases "ptracer (t_as_ptracee r) = Some d")
    case False
    have "leaving d (R - {a}) (put_tracee a ?r1 w)"
      by (rule leaving_cut [OF l a(1) r(1)]) (use False in \<open>auto simp: pend_view_def\<close>)
    then show ?thesis using step False Q a(2) by simp
  next
    case True
    have l2: "leaving d (R - {a}) ?w2"
      by (rule leaving_cut [OF l a(1) r(1)]) (auto simp: pend_view_def)
    have at2: "tracee_at a ?w2 = Some ?r2" by simp
    have clear: "post Q (upd_PTRACEE a (\<lambda>_. t_as_ptracee calloc_tracee) w')" if "only a ?w2 w'" for w'
    proof (rule only_clear [OF that at2])
      fix w'' :: "'k world" assume o: "only a ?w2 w''" "nopend a w''"
      have "shape w'' = shape ?w2" using o(1) by (simp add: only_def)
      then show "Q w''" using leaving_only [OF l2 o] shape_tracees [of w'' ?w2] o(1) a(2) Q by (auto simp: only_def)
    qed (use r in \<open>simp_all add: listed_ok_def\<close>)
    have restart: "post (\<lambda>w'. post Q (upd_PTRACEE a (\<lambda>_. t_as_ptracee calloc_tracee) w'))
        (map_option snd (restart_tracee P a e w'))" if "only a ?w2 w'" for e w'
      unfolding post_simps by (rule only_restart_tracee [OF that]) (simp add: clear)
    have quiet: "quiet ?r2 (ev_value (event_proot (t_as_ptracee r)))" if "ev_pending (event_proot (t_as_ptracee r))"
      using pend that by (auto simp: pend_ok_def quiet_def IS_IN_SYSENTER_def)
    have handle: "post (\<lambda>(s, w'). only a ?w2 w') (h a (ev_value (event_proot (t_as_ptracee r))) ?w2)"
      if "ev_pending (event_proot (t_as_ptracee r))"
      using h at2 quiet [OF that] unfolding quiet_only_def by blast
    show ?thesis
      unfolding step if_P [OF True] post_simps
      apply (rule post_if)
       apply (simp only: post_simps(3), rule post_mono, erule handle)
       apply (clarsimp simp only: prod.case, erule restart)
      apply (rule post_if, rule restart, rule only_refl)
      apply (simp only: post_simps(2), rule clear, rule only_refl)
      done
  qed
qed


lemma leaving_mono: "leaving d R w \<Longrightarrow> R \<subseteq> R' \<Longrightarrow> leaving d R' w"
  by (auto simp: leaving_def)

lemma post_release_relatives:
  fixes w :: "'k world"
  assumes h: "quiet_only h"
  shows "leaving d (set rs) w \<Longrightarrow> set rs \<subseteq> set (tracees w) \<Longrightarrow> d \<notin> set rs \<Longrightarrow>
    post (\<lambda>w'. leaving d {} w' \<and> tracees w' = tracees w \<and> tracee_at d w' = tracee_at d w)
      (release_relatives P h d rs w)"
proof (induction rs arbitrary: w)
  case (Cons a rs)
  have a: "a \<in> set (tracees w)" "a \<noteq> d" using Cons.prems by auto
  show ?case
    unfolding release_relatives.simps post_simps
  proof (rule post_release_relative [OF h Cons.prems(1) a])
    fix w' :: "'k world"
    assume w': "leaving d (set (a # rs) - {a}) w'" "tracees w' = tracees w" "tracee_at d w' = tracee_at d w"
    have "leaving d (set rs) w'" by (rule leaving_mono [OF w'(1)]) auto
    then show "post (\<lambda>w'. leaving d {} w' \<and> tracees w' = tracees w \<and> tracee_at d w' = tracee_at d w)
        (release_relatives P h d rs w')"
      using Cons.IH [of w'] Cons.prems w'(2,3) by simp
  qed
qed simp

text \<open>A tracee that has left the list and is about to be freed.\<close>

definition dead :: "addr \<Rightarrow> addr list \<Rightarrow> 'k world \<Rightarrow> bool" where
  "dead d ts w \<longleftrightarrow> ok {} {} w \<and> tracees w = ts \<and> d \<notin> set ts \<and>
     (\<exists>t. tracee_at d w = Some t \<and> \<not> t_is_zombie t)"

lemma ok_put_unlisted:
  assumes "ok S X w" "tracee_at a w = Some t" "a \<notin> set (tracees w)" "\<not> t_is_zombie t"
  shows "ok S X (put_tracee a t' w)"
  using assms world_ok_put [of w a t t'] by (auto simp: ok_def)

lemma put_twist: "a \<noteq> b \<Longrightarrow> put_tracee a t (put_tracee b u w) = put_tracee b u (put_tracee a t w)"
  by (simp add: put_tracee_def modify_def fun_upd_twist)

definition zombie_of :: "Tracee \<Rightarrow> addr \<Rightarrow> int \<Rightarrow> Tracee" where
  "zombie_of t ptracer' event = calloc_tracee\<lparr>t_is_zombie := True, t_parent := t_parent t,
     t_clone := t_clone t, t_pid := t_pid t,
     t_as_ptracee := (t_as_ptracee calloc_tracee)\<lparr>ptracer := Some ptracer',
       event_ptracer := \<lparr>ev_value = event, ev_pending = True\<rparr>, ee_is_zombie := True\<rparr>\<rparr>"

lemma zombify_eq:
  assumes d: "new_dummy_tracee P w = (Some z, w1)" and at: "tracee_at d w1 = Some td" "tracee_at p w1 = Some tp"
    and p: "ptracer (t_as_ptracee td) = Some p" "p \<noteq> d" and z: "z \<noteq> d" "z \<noteq> p"
      "tracee_at z w1 = Some calloc_tracee"
  shows "zombify P d p event w = (if 0 < nb_ptracees (t_as_ptracer tp)
     then Some (Some z, put_tracee d (td\<lparr>t_as_ptracee := (t_as_ptracee td)\<lparr>ptracer := None\<rparr>\<rparr>)
       (put_tracee p (tp\<lparr>t_as_ptracer := (t_as_ptracer tp)\<lparr>zombies := z # zombies (t_as_ptracer tp)\<rparr>\<rparr>)
         (put_tracee z (zombie_of td p event) w1)))
     else None)"
  using assms
  by (simp add: zombify_def detach_from_ptracer_def attach_to_ptracer_def zombie_of_def)
    (auto simp: put_tracee_def modify_def fun_eq_iff)

lemma zombify_self_eq:
  assumes d: "new_dummy_tracee P w = (Some z, w1)" and at: "tracee_at d w1 = Some td"
    and p: "ptracer (t_as_ptracee td) = Some d" and z: "z \<noteq> d" "tracee_at z w1 = Some calloc_tracee"
  shows "zombify P d d event w = (if 0 < nb_ptracees (t_as_ptracer td)
     then Some (Some z, put_tracee d (td\<lparr>t_as_ptracee := (t_as_ptracee td)\<lparr>ptracer := None\<rparr>,
         t_as_ptracer := (t_as_ptracer td)\<lparr>zombies := z # zombies (t_as_ptracer td)\<rparr>\<rparr>)
         (put_tracee z (zombie_of td d event) w1))
     else None)"
  using assms
  by (simp add: zombify_def detach_from_ptracer_def attach_to_ptracer_def zombie_of_def)
    (auto simp: put_tracee_def modify_def fun_eq_iff)

lemma fresh_object:
  assumes "world_ok w" "new_dummy_tracee P w = (Some z, w1)"
  shows "tracee_at z w = None" "tracee_at z w1 = Some calloc_tracee" "b \<noteq> z \<Longrightarrow> tracee_at b w1 = tracee_at b w"
proof -
  note n = new_dummy_Some [OF assms(2)]
  show "tracee_at z w = None" using assms(1) n(1) by (cases "tracee_at z w") (auto simp: world_ok_def)
  show "tracee_at z w1 = Some calloc_tracee" "b \<noteq> z \<Longrightarrow> tracee_at b w1 = tracee_at b w" using n(4) by auto
qed

lemma post_zombify:
  fixes w :: "'k world"
  assumes w: "dead d ts w" and td: "tracee_at d w = Some td" "ptracer (t_as_ptracee td) = Some p"
    and p: "p \<in> set ts \<or> p = d"
  shows "post (\<lambda>(z, w'). dead d ts w' \<and> (z = None \<longrightarrow> shape w' = shape w)) (zombify P d p event w)"
proof (cases "new_dummy_tracee P w")
  case (Pair r w1)
  show ?thesis
  proof (cases r)
    case None
    then obtain os where "w1 = with_os w os" using Pair new_dummy_None by blast
    then show ?thesis using None Pair w by (simp add: zombify_def dead_def)
  next
    case (Some z)
    then have dum: "new_dummy_tracee P w = (Some z, w1)" using Pair by simp
    have ok: "ok {} {} w" "tracees w = ts" "d \<notin> set ts" "\<not> t_is_zombie td"
      using w td by (auto simp: dead_def)
    have wok: "world_ok w" using ok(1) by (simp add: ok_def)
    note fresh = fresh_object [OF wok dum] and alloc = world_ok_alloc [OF wok dum]
    have ts: "tracees w1 = ts" using new_dummy_Some(2) [OF dum] ok(2) by simp
    have zd: "z \<noteq> d" using fresh(1) td(1) by auto
    have d1: "tracee_at d w1 = Some td" using fresh(3) zd td(1) by simp
    let ?w2 = "put_tracee z (zombie_of td p event) w1"
    have ok2: "ok {} {} ?w2" using ok_alloc [OF ok(1) dum] fresh(2) alloc(2)
      by (intro ok_put_unlisted) (auto simp: calloc_tracee_def)
    show ?thesis
    proof (cases "p = d")
      case True
      show ?thesis
        using td(2) ok2 d1 zd ts ok ok_put_unlisted [OF ok2]
        unfolding True by (simp add: zombify_self_eq [OF dum d1 _ zd fresh(2)] dead_def)
    next
      case False
      then have p': "p \<in> set ts" using p by blast
      have zp: "z \<noteq> p" using alloc(2) p' ts by auto
      obtain tp where tp: "tracee_at p w1 = Some tp" "listed_ok w1 p tp"
        using world_listed [OF alloc(1)] p' ts by blast
      let ?p = "tp\<lparr>t_as_ptracer := (t_as_ptracer tp)\<lparr>zombies := z # zombies (t_as_ptracer tp)\<rparr>\<rparr>"
      have zn: "z \<notin> set (zombies (t_as_ptracer tp))" using alloc(3) [of p tp] p' ts tp(1) by simp
      have "listed_ok ?w2 p ?p"
        unfolding listed_ok_def
      proof (intro conjI ballI)
        fix b assume "b \<in> set (zombies (t_as_ptracer ?p))"
        then show "\<exists>zt. tracee_at b ?w2 = Some zt \<and> t_is_zombie zt \<and> ee_is_zombie (t_as_ptracee zt) \<and>
            ptracer (t_as_ptracee zt) = Some p"
          using tp(2) by (cases "b = z") (auto simp: zombie_of_def listed_ok_def)
      qed (use tp zn ts in \<open>auto simp: listed_ok_def\<close>)
      then have ok3: "ok {} {} (put_tracee p ?p ?w2)"
        using tp(1) zp p' ts by (intro ok_put_listed [OF ok2, where t = tp])
          (auto simp: pend_ok_def quiet_def IS_IN_SYSENTER_def)
      show ?thesis
        using zombify_eq [OF dum d1 tp(1) td(2) False zd zp fresh(2)] ok_put_unlisted [OF ok3, of d td]
          False zd d1 ts ok by (simp add: dead_def)
    qed
  qed
qed

lemma dead_shape:
  assumes "dead d ts w" "shape w' = shape w" "ok {} {} w'"
  shows "dead d ts w'"
proof -
  obtain t where t: "tracee_at d w = Some t" "\<not> t_is_zombie t" using assms(1) by (auto simp: dead_def)
  obtain t' where "tracee_at d w' = Some t'" "skel t' = skel t" using shape_at [OF assms(2) t(1)] .
  then show ?thesis using t assms skel_eqD [of t' t] shape_tracees [OF assms(2)] by (auto simp: dead_def)
qed

lemma post_conj: "post Q m \<Longrightarrow> post R m \<Longrightarrow> post (\<lambda>x. Q x \<and> R x) m"
  by (simp add: post_def)

lemma post_wake_without_ptracees:
  fixes w :: "'k world"
  assumes w: "dead d ts w" and Q: "\<And>w'. dead d ts w' \<Longrightarrow> Q w'"
  shows "post Q (wake_without_ptracees K P p w)"
proof -
  have ok: "ok {} {} w" using w by (simp add: dead_def)
  have "post (ok {} {}) (wake_without_ptracees K P p w)"
    unfolding wake_without_ptracees_def post_simps
    apply (rule post_tracee_at, rule post_if)
     apply (simp only: post_simps)
     apply (rule post_upd [OF ok], simp add: skel_poke pend_poke)
     apply (rule post_push_regs_at, assumption, simp only: prod.case post_simps)
     apply (rule post_upd_PTRACER, assumption, simp)
     apply (rule post_restart_tracee, assumption, simp)
    apply (simp add: ok)
    done
  moreover have "post (only p w) (wake_without_ptracees K P p w)"
    unfolding wake_without_ptracees_def post_simps
    apply (rule post_tracee_at, rule post_if)
     apply (simp only: post_simps)
     apply (rule only_upd [OF only_refl], simp add: skel_poke)
     apply (rule only_push_regs_at, assumption, simp only: prod.case post_simps)
     apply (rule only_upd_PTRACER, assumption, simp)
     apply (rule only_restart_tracee, assumption, simp)
    apply (simp add: only_refl)
    done
  ultimately have "post (\<lambda>w'. ok {} {} w' \<and> only p w w') (wake_without_ptracees K P p w)" by (rule post_conj)
  then show ?thesis by (rule post_mono) (auto simp: only_def intro!: Q dead_shape [OF w])
qed

lemma dead_upd_PTRACER:
  assumes w: "dead d ts w" "\<And>p. zombies (f p) = zombies p" and Q: "\<And>w'. dead d ts w' \<Longrightarrow> Q w'"
  shows "post Q (upd_PTRACER a f w)"
proof -
  have "post (ok {} {}) (upd_PTRACER a f w)"
    by (rule post_upd_PTRACER) (use w in \<open>auto simp: dead_def\<close>)
  moreover have "post (only a w) (upd_PTRACER a f w)"
    by (rule only_upd_PTRACER [OF only_refl]) (use w in auto)
  ultimately show ?thesis
    using dead_shape [OF w(1)] Q unfolding post_def only_def by blast
qed

lemma post_detach_dead:
  assumes w: "dead d ts w" and td: "tracee_at d w = Some td" "ptracer (t_as_ptracee td) = Some p"
    and Q: "\<And>w'. dead d ts w' \<Longrightarrow> Q w'"
  shows "post Q (detach_from_ptracer d w)"
proof -
  let ?d = "td\<lparr>t_as_ptracee := (t_as_ptracee td)\<lparr>ptracer := None\<rparr>\<rparr>"
  have ok: "ok {} {} w" "tracees w = ts" "d \<notin> set ts" "\<not> t_is_zombie td" using w td by (auto simp: dead_def)
  have "dead d ts (put_tracee d ?d w)"
    using ok td(1) ok_put_unlisted [OF ok(1) td(1)] by (simp add: dead_def)
  then show ?thesis
    unfolding detach_from_ptracer_def post_simps
    by (intro post_tracee_at) (use td in \<open>auto simp del: upd_PTRACER_at
      intro!: post_tracee_at post_if dead_upd_PTRACER Q\<close>)
qed

text \<open>
  Removing a tracee: it leaves the list, its relatives do not point to it anymore, and its
  ptracer has a zombie of it or is not linked to it anymore.
\<close>

lemma post_remove_tracee:
  fixes w :: "'k world"
  assumes h: "quiet_only h" and ok: "ok S {} w" and d: "d \<in> set (tracees w)"
    and Q: "\<And>w'. dead d (remove1 d (tracees w)) w' \<Longrightarrow> Q w'"
  shows "post Q (remove_tracee K P h d w)"
proof -
  let ?w = "modify (\<lambda>k. k\<lparr>w_tracees := remove1 d (w_tracees k)\<rparr>) w"
  note start = leaving_start [OF ok d]
  let ?ts = "remove1 d (tracees w)"
  have dist: "distinct (tracees w)" using ok by (simp add: ok_def world_ok_def)
  then have dn: "d \<notin> set ?ts" by simp
  obtain td where td: "tracee_at d w = Some td" "listed_ok w d td" using ok_listed [OF ok d] by blast
  have rel: "post (\<lambda>w'. leaving d {} w' \<and> tracees w' = ?ts \<and> tracee_at d w' = Some td)
      (release_relatives P h d (tracees ?w) ?w)"
    using post_release_relatives [OF h start(1)] start(2) dn by (auto simp: start(3) td(1) elim: post_mono)
  have pt: "p \<in> set ?ts \<or> p = d" if "ptracer (t_as_ptracee td) = Some p" for p
    using td(2) that by (auto simp: listed_ok_def)
  have "post Q (do {
      t \<leftarrow> tracee_at d w';
      case ptracer (t_as_ptracee t) of
        None \<Rightarrow> Some w'
      | Some ptracer' \<Rightarrow> do {
          (zombie, w) \<leftarrow> (if ev_pending (event_ptracer (t_as_ptracee t)) \<and>
              (WIFEXITED (ev_value (event_ptracer (t_as_ptracee t))) \<or> WIFSIGNALED (ev_value (event_ptracer (t_as_ptracee t))))
            then zombify P d ptracer' (ev_value (event_ptracer (t_as_ptracee t))) w' else Some (None, w'));
          if zombie \<noteq> None then Some w
          else do { w \<leftarrow> detach_from_ptracer d w; wake_without_ptracees K P ptracer' w }
        }
    })" if w': "leaving d {} w'" "tracees w' = ?ts" "tracee_at d w' = Some td" for w'
  proof -
    have dead: "dead d ?ts w'" using leaving_end [OF w'(1)] w'(2,3) dn td(2) by (simp add: dead_def listed_ok_def)
    show ?thesis
    proof (cases "ptracer (t_as_ptracee td)")
      case None
      then show ?thesis using w'(3) dead Q by simp
    next
      case (Some p)
      have detach: "post (\<lambda>w. post Q (wake_without_ptracees K P p w)) (detach_from_ptracer d w'')"
        if dd: "dead d ?ts w''" and sh: "shape w'' = shape w'" for w''
      proof -
        obtain t'' where "tracee_at d w'' = Some t''" "skel t'' = skel td" using shape_at [OF sh w'(3)] .
        then show ?thesis using skel_eqD [of t'' td] Some
          by (intro post_detach_dead [OF dd, of t'' p] post_wake_without_ptracees) (auto intro: Q)
      qed
      have "post (\<lambda>(zombie, w''). dead d ?ts w'' \<and> (zombie = None \<longrightarrow> shape w'' = shape w'))
          (if b then zombify P d p e w' else Some (None, w'))" for b e
        using post_zombify [OF dead w'(3) Some pt [OF Some]] dead by simp
      then show ?thesis
        unfolding w'(3) post_simps bind.bind_lunit Some option.case
        by (rule post_mono) (use detach Q in auto)
    qed
  qed
  then show ?thesis
    unfolding remove_tracee_def Let_def
    by (simp only: post_simps) (rule post_mono [OF rel], simp)
qed


lemma ok_freed:
  assumes "dead d ts w" "free_tracee d w = Some w'"
  shows "ok {} {} w' \<and> tracees w' = ts"
proof -
  obtain t where t: "ok {} {} w" "tracees w = ts" "d \<notin> set ts" "tracee_at d w = Some t" "\<not> t_is_zombie t"
    using assms(1) by (auto simp: dead_def)
  have w': "w' = freed d w" using assms(2) t(4) by (simp add: free_tracee_eq)
  have w: "world_ok w" using t(1) by (simp add: ok_def)
  have l: "listed_ok (freed d w) b u" if "listed_ok w b u" for b u
    using that t(4,5) by (auto simp: listed_ok_def)
  have "world_ok (freed d w)"
    unfolding world_ok_def
  proof (intro conjI allI impI ballI)
    fix b u assume "tracee_at b (freed d w) = Some u"
    then show "b < w_break (os_kern (freed d w))" using w by (auto simp: world_ok_def split: if_splits)
  next
    fix b assume b: "b \<in> set (tracees (freed d w))"
    then obtain u where "tracee_at b w = Some u" "listed_ok w b u" using world_listed [OF w] by auto
    then show "\<exists>u. tracee_at b (freed d w) = Some u \<and> listed_ok (freed d w) b u"
      using l b t(2,3) by auto
  qed (use w in \<open>simp add: world_ok_def\<close>)
  then show ?thesis using t(1,2) w' by (auto simp: ok_def)
qed

lemma post_free_terminated:
  fixes w :: "'k world"
  assumes h: "quiet_only h"
  shows "ok {} {} w \<Longrightarrow> set ts \<subseteq> set (tracees w) \<Longrightarrow> distinct ts \<Longrightarrow>
    post (ok {} {}) (free_terminated K P h ts w)"
proof (induction ts arbitrary: w)
  case (Cons a ts)
  have dist: "distinct (tracees w)" using Cons.prems(1) by (simp add: ok_def world_ok_def)
  have a: "a \<in> set (tracees w)" using Cons.prems(2) by simp
  obtain t0 where t0: "tracee_at a w = Some t0" "listed_ok w a t0" using ok_listed [OF Cons.prems(1) a] by blast
  have freed: "post (\<lambda>w'. post (ok {} {}) (free_terminated K P h ts w'))
      (before_tracee_free K P h a w \<bind> free_tracee a)"
  proof -
    have "before_tracee_free K P h a w = remove_tracee K P h a w"
      using t0 by (simp add: before_tracee_free_def listed_ok_def)
    moreover have "post (\<lambda>w'. post (\<lambda>w'. post (ok {} {}) (free_terminated K P h ts w')) (free_tracee a w'))
        (remove_tracee K P h a w)"
    proof (rule post_remove_tracee [OF h Cons.prems(1) a], rule post_option)
      fix w' w'' :: "'k world" assume "dead a (remove1 a (tracees w)) w'" "free_tracee a w' = Some w''"
      then have w'': "ok {} {} w''" "tracees w'' = remove1 a (tracees w)" using ok_freed by blast+
      then have "set ts \<subseteq> set (tracees w'')" using Cons.prems dist by (auto simp: set_remove1_eq)
      then show "post (ok {} {}) (free_terminated K P h ts w'')" using Cons.IH [OF w''(1)] Cons.prems by simp
    qed
    ultimately show ?thesis by (simp only: post_simps)
  qed
  have rest: "post (ok {} {}) (free_terminated K P h ts w)" using Cons by simp
  show ?case
  proof (cases "t_terminated t0")
    case True
    then show ?thesis using freed t0(1) by simp
  next
    case False
    then show ?thesis using rest t0(1) by simp
  qed
qed simp

lemma post_free_terminated_tracees:
  assumes "quiet_only h" "ok {} {} w"
  shows "post (ok {} {}) (free_terminated_tracees K P h w)"
  unfolding free_terminated_tracees_def
  by (rule post_free_terminated [OF assms]) (use assms(2) in \<open>simp_all add: ok_def world_ok_def\<close>)

section \<open>The loop\<close>

text \<open>
  What the kernel reports: no process has the pid 0, and a process without
  \<open>PTRACE_O_TRACESYSGOOD\<close> reports its first system call as a bare \<open>SIGTRAP\<close>, so no stage of a
  system call comes before it.
\<close>

definition plausible_report :: "pid \<Rightarrow> int \<Rightarrow> 'k world \<Rightarrow> bool" where
  "plausible_report pid event w \<longleftrightarrow>
     (\<forall>a \<in> set (tracees w). \<forall>t. tracee_at a w = Some t \<longrightarrow>
        t_pid t \<noteq> 0 \<and> (t_pid t = pid \<longrightarrow> plausible t event))"

lemma new_tracee_plain:
  assumes "new_tracee P pid w = Some (Some a, w')" "tracee_at a w' = Some t"
  shows "\<not> t_is_root t"
proof -
  obtain w1 where d: "new_dummy_tracee P w = (Some a, w1)"
    using assms(1) by (auto simp: new_tracee_def bind_eq_Some_conv split: prod.splits option.splits)
  have "tracee_at a w1 = Some calloc_tracee" using new_dummy_Some(4) [OF d, of a] by simp
  then show ?thesis using assms d
    by (auto simp: new_tracee_def new_vpid_def tracee_at_def put_tracee_def calloc_tracee_def)
qed

lemma new_tracee_nopend:
  assumes "new_tracee P pid w = Some (Some a, w')"
  shows "nopend a w'"
proof -
  obtain w1 where d: "new_dummy_tracee P w = (Some a, w1)"
    using assms(1) by (auto simp: new_tracee_def bind_eq_Some_conv split: prod.splits option.splits)
  have "tracee_at a w1 = Some calloc_tracee" using new_dummy_Some(4) [OF d, of a] by simp
  then show ?thesis using assms d
    by (auto simp: new_tracee_def new_vpid_def nopend_def tracee_at_def put_tracee_def calloc_tracee_def)
qed

lemma find_pid_pid: "find_pid w pid ts = Some (Some a) \<Longrightarrow> \<exists>t. tracee_at a w = Some t \<and> t_pid t = pid"
  by (induction ts) (auto simp: bind_eq_Some_conv split: if_splits)

lemma get_tracee_plausible:
  assumes "get_tracee P None pid True w = Some (Some a, w')" "plausible_report pid event w"
    "tracee_at a w' = Some t"
  shows "plausible t event"
proof (cases "find_pid w pid (tracees w)")
  case None
  then show ?thesis using assms(1) by (simp add: get_tracee_def)
next
  case (Some found)
  then show ?thesis
  proof (cases found)
    case None
    then have "new_tracee P pid w = Some (Some a, w')" using Some assms(1) by (simp add: get_tracee_def)
    from new_tracee_plain [OF this assms(3)] show ?thesis by (simp add: plausible_def)
  next
    case (Some b)
    then have "find_pid w pid (tracees w) = Some (Some a)" "w' = w"
      using \<open>find_pid w pid (tracees w) = Some found\<close> assms(1) by (auto simp: get_tracee_def)
    then show ?thesis using find_pid_in find_pid_pid assms(2,3) unfolding plausible_report_def by fastforce
  qed
qed

lemma post_dispatch_event:
  fixes w :: "'k world"
  assumes h: "keeps_ok h" and ok: "ok {} {} w" and p: "plausible_report pid event w"
  shows "post (ok {} {}) (dispatch_event K P h pid event w)"
proof -
  have get: "post (\<lambda>(tracee, w'). \<forall>a. tracee = Some a \<longrightarrow> ok {a} {} w' \<and>
      (\<forall>t. tracee_at a w' = Some t \<longrightarrow> plausible t event)) (get_tracee P None pid True w)"
  proof -
    have "post (\<lambda>(tracee, w'). \<forall>a. tracee = Some a \<longrightarrow> ok {a} {} w') (get_tracee P None pid True w)"
      by (rule post_get_tracee [OF ok]) auto
    then show ?thesis using get_tracee_plausible [OF _ p] by (auto simp: post_def)
  qed
  let ?tail = "\<lambda>a (keep, w). if keep then Some w
      else do { (signal, w) \<leftarrow> h a event w; map_option snd (restart_tracee P a signal w) }"
  have handle: "post (ok {} {}) (do { (signal, w) \<leftarrow> h a event w3; map_option snd (restart_tracee P a signal w) })"
    if "ok {a} {a} w3" for a w3
    unfolding post_simps
  proof (rule post_handle [OF h that], simp, simp only: prod.case post_simps)
    fix st and w' :: "'k world" assume "ok {a} {a} w'" "nopend a w'"
    then have "ok {a} ({a} - {a}) w'" by (rule ok_nopend)
    then have "ok {} {} w'" by (rule ok_weaken) auto
    then show "post (\<lambda>x. ok {} {} (snd x)) (restart_tracee P a st w')"
      by (rule post_restart_tracee) simp
  qed
  have cont: "post (ok {} {}) (?tail a (keep, w3))"
    if w3: "ok {a} {a} w3" "keep \<longrightarrow> ok {a} ({a} - {a}) w3" for a keep w3
  proof (cases keep)
    case True
    then have "ok {} {} w3" using w3(2) ok_weaken [of "{a}" "{}" w3 "{}" "{}"] by simp
    then show ?thesis using True by simp
  next
    case False
    then show ?thesis using handle [OF w3(1)] by simp
  qed
  have rest: "post (ok {} {}) (do {
      w \<leftarrow> upd a (\<lambda>t. t\<lparr>t_running := False\<rparr>) w1;
      t \<leftarrow> tracee_at a w;
      r \<leftarrow> (if ptracer (t_as_ptracee t) \<noteq> None then handle_ptracee_event K P h a event w
            else Some (False, w));
      ?tail a r })"
    if w1: "ok {a} {} w1" "\<forall>t. tracee_at a w1 = Some t \<longrightarrow> plausible t event" for a w1
    unfolding post_simps
  proof (rule post_option)
    fix w2 assume u: "upd a (\<lambda>t. t\<lparr>t_running := False\<rparr>) w1 = Some w2"
    have ok2: "ok {a} {a} w2" "ok {a} {} w2"
      by (rule postD [OF post_upd [OF w1(1)] u]; simp add: skel_def pend_view_def ok_weaken)+
    have plaus: "plausible t' event" if "tracee_at a w2 = Some t'" for t'
      using u w1(2) that by (auto simp: upd_Some plausible_def IS_IN_SYSENTER_def)
    show "post (\<lambda>t. post (\<lambda>r. post (ok {} {}) (?tail a r))
        (if ptracer (t_as_ptracee t) \<noteq> None then handle_ptracee_event K P h a event w2 else Some (False, w2)))
        (tracee_at a w2)"
      apply (rule post_tracee_at, rule post_if)
       apply (rule post_handle_ptracee_event [OF h ok2(1)])
          apply (simp, simp, erule plaus)
       apply (rule cont, assumption, assumption)
      apply (simp only: post_simps, rule cont, rule ok2, simp)
      done
  qed
  show ?thesis
    unfolding dispatch_event_def post_simps(3)
  proof (rule post_mono [OF get])
    fix x :: "addr option \<times> 'k world"
    obtain tracee w1 where x: "x = (tracee, w1)" by (cases x)
    assume g: "case x of (tracee, w') \<Rightarrow> \<forall>a. tracee = Some a \<longrightarrow> ok {a} {} w' \<and>
      (\<forall>t. tracee_at a w' = Some t \<longrightarrow> plausible t event)"
    show "post (ok {} {}) (case x of (tracee, w) \<Rightarrow> do {
        tracee \<leftarrow> tracee;
        w \<leftarrow> upd tracee (\<lambda>t. t\<lparr>t_running := False\<rparr>) w;
        t \<leftarrow> tracee_at tracee w;
        r \<leftarrow> (if ptracer (t_as_ptracee t) \<noteq> None then handle_ptracee_event K P h tracee event w
              else Some (False, w));
        ?tail tracee r })"
    proof (cases tracee)
      case (Some a)
      show ?thesis unfolding x prod.case Some bind.bind_lunit by (rule rest) (use g x Some in simp_all)
    qed (simp add: x)
  qed
qed


lemma ok_globals:
  assumes "w_objects (os_kern w') = w_objects (os_kern w)" "w_tracees (os_kern w') = w_tracees (os_kern w)"
    "w_break (os_kern w') = w_break (os_kern w)" "ok S X w"
  shows "ok S X w'"
proof -
  have sh: "shape w' = shape w" using assms(1-3) by (simp add: shape_def tracees_def tracee_at_def)
  have "world_ok w'" using world_ok_shape [OF sh] assms(4) by (simp add: ok_def)
  then show ?thesis using assms by (simp add: ok_def tracees_def tracee_at_def)
qed

lemma post_attach_new_pid:
  fixes w :: "'k world"
  assumes ok: "ok {} {} w" and pids: "\<And>a t. a \<in> set (tracees w) \<Longrightarrow> tracee_at a w = Some t \<Longrightarrow> t_pid t \<noteq> 0"
  shows "post (ok {} {}) (attach_new_pid P w)"
proof -
  have mod: "ok S {} (modify (\<lambda>k. k\<lparr>w_waitting_for_tracee := b\<rparr>) w')"
    "ok S {} (modify (\<lambda>k. k\<lparr>w_snew_attach_pid := p\<rparr>) w')" if "ok S {} w'" for S b p and w' :: "'k world"
    by (rule ok_globals [OF _ _ _ that]; simp)+
  let ?f = "\<lambda>t. t\<lparr>t_verbose := 6, t_pid := w_snew_attach_pid (os_kern w), t_is_root := True,
      t_deliver_sigtrap := False\<rparr>"
  let ?w = "modify (\<lambda>k. k\<lparr>w_waitting_for_tracee := False\<rparr>)
      (snd (call1 (sp_ptrace P (uint PTRACE_ATTACH) (w_snew_attach_pid (os_kern w)) 0 0) w))"
  have w1: "ok {} {} ?w" by (rule mod(1), rule ok_calls(1), rule ok)
  have new: "post (\<lambda>(r, w'). case r of None \<Rightarrow> ok {} {} w'
      | Some a \<Rightarrow> ok {a} {} w' \<and> nopend a w') (get_tracee P None 0 True ?w)"
  proof -
    have "find_pid ?w 0 (tracees ?w) \<noteq> Some (Some a)" for a
      using find_pid_in find_pid_pid pids by (fastforce simp: call1_def split_beta tracees_def tracee_at_def with_os_def)
    moreover have "post (\<lambda>(r, w'). case r of None \<Rightarrow> ok {} {} w' | Some a \<Rightarrow> ok {a} {} w' \<and> nopend a w')
        (new_tracee P 0 ?w)"
    proof -
      have "post (\<lambda>(r, w'). case r of None \<Rightarrow> ok {} {} w' | Some a \<Rightarrow> ok {a} {} w') (new_tracee P 0 ?w)"
        by (rule post_new_tracee [OF w1]) simp_all
      then show ?thesis using new_tracee_nopend by (fastforce simp: post_def split: option.splits)
    qed
    ultimately show ?thesis
      by (auto simp: get_tracee_def intro!: post_option [of "find_pid x y z" for x y z] split: option.split)
  qed
  have finish: "post (ok {} {}) (do {
      w \<leftarrow> upd a ?f w';
      Some (modify (\<lambda>k. k\<lparr>w_snew_attach_pid := -1\<rparr>) (call0 (sp_cond_signal P) w)) })"
    if "ok {a} {} w'" "nopend a w'" for a w'
  proof -
    have "ok {} {} (modify (\<lambda>k. k\<lparr>w_snew_attach_pid := -1\<rparr>) (call0 (sp_cond_signal P) (put_tracee a (?f t) w')))"
      if t: "tracee_at a w' = Some t" for t
      by (intro mod(2) ok_calls(3) ok_put [where t = t] t ok_weaken [OF \<open>ok {a} {} w'\<close>])
        (use \<open>nopend a w'\<close> t in \<open>auto simp: skel_def nopend_def pend_ok_def\<close>)
    then show ?thesis by (auto simp: upd_def simp del: upd_at intro!: post_tracee_at)
  qed
  show ?thesis
    unfolding attach_new_pid_def Let_def split_beta post_simps(3)
    apply (rule post_if, simp only: post_simps, rule ok_calls(1), rule ok)
    apply (simp only: post_simps(3))
    apply (rule post_mono [OF new])
    subgoal for x
      apply (cases x)
      subgoal for r w'
        apply (cases r)
         apply (simp only: prod.case option.case fst_conv snd_conv post_simps(2))
        apply (simp only: prod.case option.case fst_conv snd_conv)
        apply (erule conjE, erule (1) finish)
        done
      done
    done
qed

lemma post_event_iteration:
  fixes w :: "'k world"
  assumes h: "keeps_ok h" "quiet_only h" and ok: "ok {} {} w"
    and p: "\<And>w1 pid event w2. free_terminated_tracees K P h w = Some w1 \<Longrightarrow>
      call2 (sp_waitpid P) w1 = (pid, event, w2) \<Longrightarrow> 0 \<le> pid \<Longrightarrow> plausible_report pid event w2"
  shows "post (\<lambda>(r, w'). ok {} {} w') (event_iteration K P h w)"
proof -
  have "post (\<lambda>(r, w'). ok {} {} w') (do {
      helper \<leftarrow> is_helper pid event w2;
      w \<leftarrow> (if helper then attach_new_pid P w2 else dispatch_event K P h pid event w2);
      Some (None, w) })"
    if "ok {} {} w2" "plausible_report pid event w2" for pid event w2
    unfolding post_simps
    using post_attach_new_pid [OF that(1)] post_dispatch_event [OF h(1) that]
      that(2) by (auto intro!: post_option [of "is_helper x y z" for x y z] simp: plausible_report_def)
  note dispatch = this
  show ?thesis
    unfolding event_iteration_def post_simps(3)
  proof (rule postI)
    fix w1 assume f: "free_terminated_tracees K P h w = Some w1"
    obtain pid event w2 where c: "call2 (sp_waitpid P) w1 = (pid, event, w2)" by (metis prod_cases3)
    have "ok {} {} w1" using postD [OF post_free_terminated_tracees [OF h(2) ok] f] .
    then have "ok {} {} w2" using ok_calls(2) [of "{}" "{}" w1 "sp_waitpid P"] c by simp
    then have "post (\<lambda>(r, w'). ok {} {} w') (if pid < 0 then Some (r, w2) else do {
          helper \<leftarrow> is_helper pid event w2;
          w \<leftarrow> (if helper then attach_new_pid P w2 else dispatch_event K P h pid event w2);
          Some (None, w)
        })" for r :: "int option"
      by (intro post_if dispatch p [OF f c]) simp_all
    then show "post (\<lambda>(r, w'). ok {} {} w') (let (pid, event, w) = call2 (sp_waitpid P) w1 in
        if pid < 0 then Some (if os_errno w \<noteq> ECHILD then Some EXIT_FAILURE
             else if \<not> w_waitting_for_tracee (os_kern w)
             then Some (w_last_exit_status (os_kern w)) else None, w)
        else do {
          helper \<leftarrow> is_helper pid event w;
          w \<leftarrow> (if helper then attach_new_pid P w else dispatch_event K P h pid event w);
          Some (None, w)
        })"
      unfolding c Let_def prod.case .
  qed
qed

section \<open>Reachable worlds\<close>

text \<open>
  The worlds between two iterations of the loop: the first has no tracee and no object; in
  between, another thread may ask for a new process to be traced (\<open>library.c\<close>).
\<close>

definition boot :: "'k OS \<Rightarrow> 'k world" where
  "boot os = \<lparr>os_errno = os_errno os,
     os_kern = \<lparr>w_objects = (\<lambda>_. None), w_break = 1, w_tracees = [], w_next_vpid = 1,
                w_last_exit_status = -1, w_snew_attach_pid = -1, w_waitting_for_tracee = True,
                w_kern = os_kern os\<rparr>\<rparr>"

definition ask_attach :: "pid \<Rightarrow> 'k world \<Rightarrow> 'k world" where
  "ask_attach pid = modify (\<lambda>k. k\<lparr>w_snew_attach_pid := pid\<rparr>)"

inductive reachable :: "nat \<Rightarrow> 'k Kernel \<Rightarrow> 'k Procs \<Rightarrow> 'k Handlers \<Rightarrow> 'k world \<Rightarrow> bool"
  for depth K P H where
  reachable_boot: "reachable depth K P H (boot os)"
| reachable_ask: "reachable depth K P H w \<Longrightarrow> reachable depth K P H (ask_attach pid w)"
| reachable_iteration: "reachable depth K P H w \<Longrightarrow>
    (\<And>w1 pid event w2. free_terminated_tracees K P (handle_tracee_event depth K P H) w = Some w1 \<Longrightarrow>
      call2 (sp_waitpid P) w1 = (pid, event, w2) \<Longrightarrow> 0 \<le> pid \<Longrightarrow> plausible_report pid event w2) \<Longrightarrow>
    event_iteration K P (handle_tracee_event depth K P H) w = Some (r, w') \<Longrightarrow>
    reachable depth K P H w'"

lemma reachable_ok:
  assumes H: "application_keeps_links H" and w: "reachable depth K P H w"
  shows "ok {} {} w"
  using w
proof induction
  case (reachable_boot os)
  show ?case by (simp add: ok_def world_ok_def boot_def tracees_def tracee_at_def)
next
  case (reachable_ask w pid)
  show ?case by (rule ok_globals [OF _ _ _ reachable_ask.IH]) (simp_all add: ask_attach_def)
next
  case (reachable_iteration w r w')
  from postD [OF post_event_iteration [OF keeps_ok_handle [OF H] quiet_only_handle [OF H]
    reachable_iteration.IH reachable_iteration(2)] reachable_iteration.hyps(3)]
  show ?case by simp
qed

text \<open>
  For any application, the stages keep the object of the tracee alive: its handlers return to
  the tracee they were called for.
\<close>

interpretation stages: stage_frame "lift_kernel K" "world_handlers K P H h a w0"
  "\<lambda>t w. tracee_at a w \<noteq> None"
proof (intro stage_frame.intro enter_frame.intro stage_frame_axioms.intro)
  fix t
  have lifted: "\<exists>os. w' = with_os w os \<Longrightarrow> tracee_at a w \<noteq> None \<Longrightarrow> tracee_at a w' \<noteq> None"
    for w w' :: "'a world" by auto
  show "kernel_frame (lift_kernel K) (\<lambda>w. tracee_at a w \<noteq> None)"
    by (rule kernel_frame.intro) (erule lifted [rotated], rule lifted.calls [OF lifted_start])+
qed (auto simp: world_handlers_def lift_callback_def through_def bind_eq_Some_conv split: prod.splits)

end
