(* ===== verification/Script.thy ===== *)
theory Script
  imports Event
begin

text \<open>
  A kernel in which every call succeeds, on which the witnesses evaluate the program: it
  reports the events of a script and records what it was asked to do, the latest request first.
\<close>

unbundle bit_operations_syntax

record Script =
  sc_reports :: "(int \<times> int) list"
  sc_message :: u64
  sc_requests :: "(int \<times> pid \<times> u64) list"
  sc_killed :: "(pid \<times> int) list"
  sc_stores :: "(pid \<times> u64 \<times> byte list) list"
  sc_regs :: "pid \<Rightarrow> bank"

definition script_boot :: "(int \<times> int) list \<Rightarrow> Script OS" where
  "script_boot reports = \<lparr>os_errno = 0, os_kern = \<lparr>sc_reports = reports, sc_message = 0, sc_requests = [],
     sc_killed = [], sc_stores = [], sc_regs = (\<lambda>_ _. 0)\<rparr>\<rparr>"

definition script_store :: "pid \<Rightarrow> u64 \<Rightarrow> byte list \<Rightarrow> Script OS \<Rightarrow> Script OS" where
  "script_store p a bs os = os\<lparr>os_kern := os_kern os\<lparr>sc_stores := (p, a, bs) # sc_stores (os_kern os)\<rparr>\<rparr>"

definition script_kernel :: "Script Kernel" where
  "script_kernel =
    \<lparr>sys_process_vm_readv = (\<lambda>p n a os. (int n, replicate n 0, os)),
     sys_process_vm_writev = (\<lambda>p iov a os. (int (length (concat iov)), script_store p a (concat iov) os)),
     sys_ptrace_peekdata = (\<lambda>p a os. (0, os)),
     sys_ptrace_pokedata = (\<lambda>p a w os. (0, script_store p a (le_bytes w) os)),
     sys_ptrace_getregset = (\<lambda>p os. (0, sc_regs (os_kern os) p, os)),
     sys_ptrace_setregset = (\<lambda>p b os.
       (0, os\<lparr>os_kern := os_kern os\<lparr>sc_regs := (sc_regs (os_kern os))(p := b)\<rparr>\<rparr>)),
     sys_ptrace_set_syscall = (\<lambda>p w os. (0, os)),
     sys_mmap_zeros = (\<lambda>n os. (True, os)),
     sys_munmap = (\<lambda>n os. os)\<rparr>"

definition script_procs :: "Script Procs" where
  "script_procs =
    \<lparr>sp_calloc = (\<lambda>os. (True, os)),
     sp_calloc_bytes = (\<lambda>n os. (True, os)),
     sp_kill = (\<lambda>p s os. (0, os\<lparr>os_kern := os_kern os\<lparr>sc_killed := (p, s) # sc_killed (os_kern os)\<rparr>\<rparr>)),
     sp_ptrace = (\<lambda>r p a d os.
       (0, os\<lparr>os_kern := os_kern os\<lparr>sc_requests := (r, p, d) # sc_requests (os_kern os)\<rparr>\<rparr>)),
     sp_ptrace_peek = (\<lambda>r p a os. (0, os)),
     sp_ptrace_get = (\<lambda>r p a n os. (0, replicate n 0, os)),
     sp_ptrace_set = (\<lambda>r p a bs os. (0, os)),
     sp_getregset = (\<lambda>p a n os. (0, replicate n 0, os)),
     sp_setregset = (\<lambda>p a bs os. (0, os)),
     sp_geteventmsg = (\<lambda>p os. (0, sc_message (os_kern os), os)),
     sp_waitpid = (\<lambda>os. case sc_reports (os_kern os) of
        [] \<Rightarrow> (-1, 0, set_errno ECHILD os)
      | (p, e) # rs \<Rightarrow> (p, e, os\<lparr>os_kern := os_kern os\<lparr>sc_reports := rs\<rparr>\<rparr>)),
     sp_cond_signal = (\<lambda>os. os)\<rparr>"

text \<open>Calls that succeed and do nothing, over any kernel state.\<close>

definition idle_procs :: "'k Procs" where
  "idle_procs =
    \<lparr>sp_calloc = (\<lambda>os. (True, os)),
     sp_calloc_bytes = (\<lambda>n os. (True, os)),
     sp_kill = (\<lambda>p s os. (0, os)),
     sp_ptrace = (\<lambda>r p a d os. (0, os)),
     sp_ptrace_peek = (\<lambda>r p a os. (0, os)),
     sp_ptrace_get = (\<lambda>r p a n os. (0, replicate n 0, os)),
     sp_ptrace_set = (\<lambda>r p a bs os. (0, os)),
     sp_getregset = (\<lambda>p a n os. (0, replicate n 0, os)),
     sp_setregset = (\<lambda>p a bs os. (0, os)),
     sp_geteventmsg = (\<lambda>p os. (0, 0, os)),
     sp_waitpid = (\<lambda>os. (-1, 0, set_errno ECHILD os)),
     sp_cond_signal = (\<lambda>os. os)\<rparr>"

lemmas script_simps = script_kernel_def script_procs_def script_boot_def script_store_def
  call0_def call1_def call2_def base_os_def with_os_def modify_def tracees_def tracee_at_def
  put_tracee_def upd_def upd_PTRACER_def upd_PTRACEE_def set_errno_def calloc_tracee_def

end
