(* ===== verification/Lifecycle.thy ===== *)
theory Lifecycle
  imports Steps Script
begin

text \<open>
  What the life cycle of the tracees guarantees as a whole, over every sequence of events: the
  invariant of the reachable states, the ptracee the emulation of wait and ptrace selects, and
  the waking of a ptracer that waits for an event.
\<close>

unbundle bit_operations_syntax

section \<open>The invariant\<close>

text \<open>
  Whatever the kernel reports, and whenever another process is asked to be traced, the
  tracer's state is well formed between two iterations of the event loop: the list of tracees
  has no duplicates and holds live objects, no parent or ptracer link of a listed tracee
  dangles, and the zombies of a ptracer are live objects attached to it.  The application's
  callbacks must not touch these links.
\<close>

theorem reachable_world_ok:
  assumes "application_keeps_links H" "reachable depth K P H w"
  shows "world_ok w"
  using reachable_ok [OF assms] by (simp add: ok_def)

definition script_iterate :: "Script world \<Rightarrow> (int option \<times> Script world) option" where
  "script_iterate = event_iteration script_kernel script_procs
     (handle_tracee_event 1 script_kernel script_procs no_handlers)"

definition script_events :: "(int \<times> int) list" where
  "script_events = [(5, 0xff00), (7, W_STOPCODE SIGSTOP)]"

definition attached_world :: "Script world" where
  "attached_world = (case script_iterate (ask_attach 7 (boot (script_boot script_events))) of
     Some (r, w) \<Rightarrow> w | None \<Rightarrow> boot (script_boot []))"

lemmas iteration_simps = event_iteration_def free_terminated_tracees_def boot_def ask_attach_def
  is_helper_def attach_new_pid_def WIFEXITED_def WIFSIGNALED_def WIFSTOPPED_def WEXITSTATUS_def
  W_STOPCODE_def stop_event_def get_tracee_def new_tracee_def new_dummy_tracee_def new_vpid_def Let_def
  dispatch_event_def handle_event_with_def default_restart_def handle_stop_def restart_tracee_def

lemma attached_world_eq: "script_iterate (ask_attach 7 (boot (script_boot script_events))) = Some (None, attached_world)"
  by (simp add: attached_world_def script_iterate_def script_events_def iteration_simps script_simps)

lemma attached_world_next:
  "\<exists>w. script_iterate attached_world = Some (None, w) \<and> tracees w = [1] \<and>
     sc_requests (w_kern (os_kern w)) = [(PTRACE_SYSCALL, 7, 0), (uint PTRACE_ATTACH, 7, 0)]"
  unfolding attached_world_def
  by (simp add: script_iterate_def script_events_def iteration_simps script_simps)

lemma no_handlers_keep: "application_keeps_links no_handlers"
  by (simp add: application_keeps_links_def no_handlers_def)


lemma attached_world_reachable: "reachable 1 script_kernel script_procs no_handlers attached_world"
  by (rule reachable_iteration [where w = "ask_attach 7 (boot (script_boot script_events))" and r = None,
        OF reachable_ask [OF reachable_boot]])
    (use attached_world_eq in \<open>auto simp: script_iterate_def script_events_def plausible_report_def
      free_terminated_tracees_def boot_def ask_attach_def script_simps\<close>)

theorem reachable_world_ok_witness:
  "\<exists>w. script_iterate attached_world = Some (None, w) \<and> tracees w = [1] \<and>
     world_ok attached_world \<and> world_ok w"
proof -
  obtain w where w: "script_iterate attached_world = Some (None, w)" "tracees w = [1]"
    using attached_world_next by blast
  have "reachable 1 script_kernel script_procs no_handlers w"
    by (rule reachable_iteration [OF attached_world_reachable])
      (use w(1) in \<open>auto simp: script_iterate_def plausible_report_def plausible_def free_terminated_tracees_def
        attached_world_def script_events_def iteration_simps script_simps\<close>)
  then show ?thesis
    using w reachable_world_ok [OF no_handlers_keep attached_world_reachable]
      reachable_world_ok [OF no_handlers_keep, of 1 script_kernel script_procs w] by blast
qed

section \<open>Lookup of a ptracee\<close>

text \<open>
  The ptracee \<open>get_ptracee\<close> is documented to return: the first zombie with the given pid and
  kind, or else the first such ptracee that satisfies the condition of the call.
\<close>

definition wanted :: "pid \<Rightarrow> u64 \<Rightarrow> Tracee \<Rightarrow> bool" where
  "wanted pid options t \<longleftrightarrow> (pid = -1 \<or> pid = t_pid t) \<and> EXPECTED_WAIT_CLONE options t"

definition waitable :: "bool \<Rightarrow> bool \<Rightarrow> Tracee \<Rightarrow> bool" where
  "waitable only_stopped only_with_pevent t \<longleftrightarrow>
     (only_stopped \<longrightarrow> \<not> t_running t \<and> (only_with_pevent \<longrightarrow> ev_pending (event_ptracer (t_as_ptracee t))))"

definition first_at :: "(Tracee \<Rightarrow> bool) \<Rightarrow> 'k world \<Rightarrow> addr list \<Rightarrow> addr option" where
  "first_at Q w = find (\<lambda>a. case tracee_at a w of None \<Rightarrow> False | Some t \<Rightarrow> Q t)"

text \<open>A process has one tracee, and a positive pid.\<close>

definition pids_ok :: "'k world \<Rightarrow> bool" where
  "pids_ok w \<longleftrightarrow> (\<forall>a \<in> set (tracees w). \<forall>t. tracee_at a w = Some t \<longrightarrow> t_pid t \<noteq> -1 \<and>
     (\<forall>b \<in> set (tracees w). \<forall>u. tracee_at b w = Some u \<longrightarrow> t_pid t = t_pid u \<longrightarrow> a = b))"

lemma find_zombie_first:
  "\<forall>z \<in> set zs. tracee_at z w \<noteq> None \<Longrightarrow> find_zombie w pid options zs = Some (first_at (wanted pid options) w zs)"
  by (induction zs) (auto simp: first_at_def wanted_def)

lemma find_ptracee_none:
  "\<forall>a \<in> set ts. \<exists>t. tracee_at a w = Some t \<and> (pid = -1 \<or> t_pid t \<noteq> pid) \<Longrightarrow> pid \<noteq> -1 \<Longrightarrow>
   find (\<lambda>a. case tracee_at a w of None \<Rightarrow> False | Some t \<Rightarrow>
     ptracer (t_as_ptracee t) = Some p \<and> wanted pid options t \<and> waitable os pe t) ts = None"
  by (induction ts) (auto simp: wanted_def)

lemma find_ptracee_first:
  assumes "\<forall>a \<in> set ts. tracee_at a w \<noteq> None" "distinct ts"
    "\<forall>a \<in> set ts. \<forall>b \<in> set ts. \<forall>t u. tracee_at a w = Some t \<longrightarrow> tracee_at b w = Some u \<longrightarrow> t_pid t = t_pid u \<longrightarrow> a = b"
    "pid = -1 \<longrightarrow> (\<forall>a \<in> set ts. \<forall>t. tracee_at a w = Some t \<longrightarrow> t_pid t \<noteq> -1)"
  shows "find_ptracee w p pid os pe options ts =
    Some (first_at (\<lambda>t. ptracer (t_as_ptracee t) = Some p \<and> wanted pid options t \<and> waitable os pe t) w ts)"
  using assms
proof (induction ts)
  case (Cons a ts)
  then obtain t where t: "tracee_at a w = Some t" by auto
  have IH: "find_ptracee w p pid os pe options ts =
      Some (first_at (\<lambda>t. ptracer (t_as_ptracee t) = Some p \<and> wanted pid options t \<and> waitable os pe t) w ts)"
    using Cons by simp
  have last: "first_at (\<lambda>t. ptracer (t_as_ptracee t) = Some p \<and> wanted pid options t \<and> waitable os pe t) w ts = None"
    if "pid = t_pid t"
    unfolding first_at_def
  proof (rule find_ptracee_none)
    show "pid \<noteq> -1" using that Cons.prems(4) t by auto
    show "\<forall>b \<in> set ts. \<exists>u. tracee_at b w = Some u \<and> (pid = -1 \<or> t_pid u \<noteq> pid)"
      using Cons.prems(1-3) t that by (metis distinct.simps(2) list.set_intros(1,2) not_None_eq)
  qed
  show ?case
    using t IH last by (auto simp: first_at_def wanted_def waitable_def Let_def)
qed (simp add: first_at_def)


lemma get_ptracee_spec:
  assumes w: "world_ok w" "pids_ok w" and p: "p \<in> set (tracees w)"
  shows "\<exists>tp. tracee_at p w = Some tp \<and>
    get_ptracee p pid only_stopped only_with_pevent options w =
      Some (case first_at (wanted pid options) w (zombies (t_as_ptracer tp)) of
        Some z \<Rightarrow> Some z
      | None \<Rightarrow> first_at (\<lambda>t. ptracer (t_as_ptracee t) = Some p \<and> wanted pid options t \<and>
          waitable only_stopped only_with_pevent t) w (tracees w))"
proof -
  obtain tp where tp: "tracee_at p w = Some tp" "listed_ok w p tp" using world_listed [OF w(1) p] by blast
  have "find_zombie w pid options (zombies (t_as_ptracer tp)) =
      Some (first_at (wanted pid options) w (zombies (t_as_ptracer tp)))"
    by (rule find_zombie_first) (use tp(2) in \<open>auto simp: listed_ok_def\<close>)
  moreover have "find_ptracee w p pid only_stopped only_with_pevent options (tracees w) =
      Some (first_at (\<lambda>t. ptracer (t_as_ptracee t) = Some p \<and> wanted pid options t \<and>
          waitable only_stopped only_with_pevent t) w (tracees w))"
  proof (rule find_ptracee_first)
    show "\<forall>a \<in> set (tracees w). tracee_at a w \<noteq> None" using world_listed [OF w(1)] by fastforce
    show "distinct (tracees w)" using w(1) by (simp add: world_ok_def)
  qed (use w(2) in \<open>auto simp: pids_ok_def\<close>)
  ultimately show ?thesis using tp(1) by (auto simp: get_ptracee_def split: option.split)
qed

text \<open>
  C38: In a well formed world whose tracees have distinct pids, \<open>get_ptracee\<close> follows no dangling
  pointer and returns what its comment says: the first zombie of the ptracer with the given pid
  (any for \<open>-1\<close>) and kind of clone, else the first such ptracee that is stopped (and has a
  pending event) as far as the caller asks for it, else \<open>NULL\<close>.
\<close>

theorem get_ptracee_first:
  assumes w: "world_ok w" "pids_ok w" and p: "p \<in> set (tracees w)"
  shows "\<exists>tp. tracee_at p w = Some tp \<and>
    get_ptracee p pid only_stopped only_with_pevent options w =
      Some (case first_at (wanted pid options) w (zombies (t_as_ptracer tp)) of
        Some z \<Rightarrow> Some z
      | None \<Rightarrow> first_at (\<lambda>t. ptracer (t_as_ptracee t) = Some p \<and> wanted pid options t \<and>
          waitable only_stopped only_with_pevent t) w (tracees w))"
  by (rule get_ptracee_spec [OF assms])

text \<open>
  A world for the witnesses: the ptracer 1 (pid 10) has the stopped ptracee 2 (pid 20) with a
  pending event, a child of tracee 4, and the zombie 3 (pid 30).
\<close>

definition family :: "'k \<Rightarrow> int \<Rightarrow> 'k world" where
  "family k event = \<lparr>os_errno = 0, os_kern = \<lparr>w_objects =
     [1 \<mapsto> calloc_tracee\<lparr>t_pid := 10, t_as_ptracer := \<lparr>nb_ptracees = 2, zombies = [3], wait_pid = 0,
            wait_options = 0, as_waits_in = DOESNT_WAIT\<rparr>\<rparr>,
      2 \<mapsto> calloc_tracee\<lparr>t_pid := 20, t_parent := Some 4, t_as_ptracee := (t_as_ptracee calloc_tracee)
            \<lparr>ptracer := Some 1, event_ptracer := \<lparr>ev_value = event, ev_pending = True\<rparr>\<rparr>\<rparr>,
      3 \<mapsto> calloc_tracee\<lparr>t_pid := 30, t_is_zombie := True, t_as_ptracee := (t_as_ptracee calloc_tracee)
            \<lparr>ptracer := Some 1, event_ptracer := \<lparr>ev_value = 0, ev_pending = True\<rparr>,
             ee_is_zombie := True\<rparr>\<rparr>,
      4 \<mapsto> calloc_tracee\<lparr>t_pid := 40\<rparr>],
     w_break = 5, w_tracees = [2, 1, 4], w_next_vpid = 5, w_last_exit_status = -1,
     w_snew_attach_pid = -1, w_waitting_for_tracee = False, w_kern = k\<rparr>\<rparr>"

lemma family_ok: "world_ok (family k event)" "pids_ok (family k event)"
  by (auto simp: world_ok_def listed_ok_def pids_ok_def family_def tracees_def tracee_at_def calloc_tracee_def
      split: if_splits)

lemma get_ptracee_first_witness:
  "get_ptracee 1 20 True True W_WALL (family () 0) = Some (Some 2) \<and>
   get_ptracee 1 (-1) True True W_WALL (family () 0) = Some (Some 3)"
  using get_ptracee_first [OF family_ok, of 1 "()" 0 20 True True W_WALL]
    get_ptracee_first [OF family_ok, of 1 "()" 0 "-1" True True W_WALL]
  by (simp add: family_def tracees_def tracee_at_def calloc_tracee_def first_at_def wanted_def waitable_def
      EXPECTED_WAIT_CLONE_def)

section \<open>Refused requests\<close>

lemma expected_wall: "EXPECTED_WAIT_CLONE W_WALL t"
  by (simp add: EXPECTED_WAIT_CLONE_def)

definition ptrace_pid :: "Tracee \<Rightarrow> pid" where
  "ptrace_pid p = (let pid = peek_reg p ORIGINAL SYSARG_2
     in c_int (uint (if is_32on64_mode p \<and> pid = 0xFFFFFFFF then - 1 else pid)))"

lemma first_at_SomeD: "first_at Q w as = Some a \<Longrightarrow> a \<in> set as \<and> (\<exists>t. tracee_at a w = Some t \<and> Q t)"
  by (auto simp: first_at_def find_Some_iff split: option.splits)

lemma get_tracee_no_create:
  "world_ok w \<Longrightarrow> a \<in> set (tracees w) \<Longrightarrow> \<exists>r. get_tracee P (Some a) pid False w = Some (r, w)"
proof -
  assume w: "world_ok w" and a: "a \<in> set (tracees w)"
  have f: "\<exists>r. find_pid w pid ts = Some r" if "set ts \<subseteq> set (tracees w)" for ts
    using that
  proof (induction ts)
    case (Cons b ts)
    obtain t where "tracee_at b w = Some t" using world_listed [OF w, of b] Cons.prems by auto
    then show ?case using Cons by auto
  qed simp
  obtain t where "tracee_at a w = Some t" using world_listed [OF w a] by blast
  then show ?thesis using f [of "tracees w"] by (auto simp: get_tracee_def split: option.split)
qed

text \<open>A request to a process that is not a stopped ptracee of the caller.\<close>

lemma stopped_request_refused:
  assumes w: "world_ok w" "pids_ok w" and a: "a \<in> set (tracees w)" "tracee_at a w = Some p"
    and request: "peek_reg p ORIGINAL SYSARG_1 \<noteq> PTRACE_TRACEME" "peek_reg p ORIGINAL SYSARG_1 \<noteq> PTRACE_ATTACH"
    and none: "\<forall>b \<in> set (tracees w). \<forall>t. tracee_at b w = Some t \<longrightarrow> t_pid t = ptrace_pid p \<longrightarrow>
      ptracer (t_as_ptracee t) \<noteq> Some a \<or> t_running t"
    and pid: "ptrace_pid p \<noteq> -1"
  shows "translate_ptrace_exit K P h a w = Some (- ESRCH, w)"
proof -
  let ?Z = "first_at (wanted (ptrace_pid p) W_WALL) w (zombies (t_as_ptracer p))"
  let ?T = "first_at (\<lambda>t. ptracer (t_as_ptracee t) = Some a \<and> wanted (ptrace_pid p) W_WALL t \<and>
      waitable True False t) w (tracees w)"
  have "?T = None"
  proof (rule ccontr)
    assume "?T \<noteq> None"
    then obtain b t where "b \<in> set (tracees w)" "tracee_at b w = Some t" "ptracer (t_as_ptracee t) = Some a"
      "wanted (ptrace_pid p) W_WALL t" "waitable True False t" by (auto dest: first_at_SomeD)
    then show False using none pid by (auto simp: wanted_def waitable_def)
  qed
  then have found: "get_stopped_ptracee a (ptrace_pid p) False W_WALL w = Some ?Z"
    using get_ptracee_spec [OF w a(1), of "ptrace_pid p" True False W_WALL] a(2)
    by (auto simp: get_stopped_ptracee_def split: option.split)
  obtain r where r: "get_tracee P (Some a) (ptrace_pid p) False w = Some (r, w)"
    using get_tracee_no_create [OF w(1) a(1)] by blast
  have zombie: "\<exists>t. tracee_at z w = Some t \<and> ee_is_zombie (t_as_ptracee t)" if "?Z = Some z" for z
    using first_at_SomeD [OF that] world_listed [OF w(1) a(1)] a(2) by (auto simp: listed_ok_def)
  show ?thesis
    using a(2) request found [unfolded ptrace_pid_def] r [unfolded ptrace_pid_def] zombie [unfolded ptrace_pid_def]
    by (cases "first_at (wanted (ptrace_pid p) W_WALL) w (zombies (t_as_ptracer p))")
      (auto simp: translate_ptrace_exit_def Let_def ptrace_pid_def)
qed

text \<open>A process is found by its pid, if it is traced.\<close>

lemma find_pid_spec:
  assumes "set ts \<subseteq> set (tracees w)" "world_ok w" "pids_ok w" "b \<in> set (tracees w)" "tracee_at b w = Some t"
  shows "find_pid w (t_pid t) ts = Some (if b \<in> set ts then Some b else None)"
  using assms(1)
proof (induction ts)
  case (Cons c ts)
  obtain u where u: "tracee_at c w = Some u" using world_listed [OF assms(2), of c] Cons.prems by auto
  have "t_pid u = t_pid t \<longleftrightarrow> c = b"
    using assms(3-5) u Cons.prems unfolding pids_ok_def
    by (metis list.set_intros(1) option.inject subsetD)
  then show ?case using Cons u by auto
qed simp

lemma find_pid_unknown:
  assumes "set ts \<subseteq> set (tracees w)" "world_ok w" "\<forall>b \<in> set (tracees w). \<forall>t. tracee_at b w = Some t \<longrightarrow> t_pid t \<noteq> pid"
  shows "find_pid w pid ts = Some None"
  using assms(1)
proof (induction ts)
  case (Cons c ts)
  obtain u where u: "tracee_at c w = Some u" using world_listed [OF assms(2), of c] Cons.prems by auto
  then show ?case using Cons assms(3) by auto
qed simp

lemma get_tracee_known:
  assumes "world_ok w" "pids_ok w" "a \<in> set (tracees w)" "b \<in> set (tracees w)" "tracee_at b w = Some t"
  shows "get_tracee P (Some a) (t_pid t) False w = Some (Some b, w)"
proof -
  obtain p where p: "tracee_at a w = Some p" using world_listed [OF assms(1,3)] by blast
  have "t_pid p = t_pid t \<Longrightarrow> a = b" using assms(2-5) p by (auto simp: pids_ok_def)
  then show ?thesis using p find_pid_spec [OF order_refl assms(1,2,4,5)] assms(4) by (auto simp: get_tracee_def)
qed

lemma get_tracee_unknown:
  assumes "world_ok w" "a \<in> set (tracees w)" "\<forall>b \<in> set (tracees w). \<forall>t. tracee_at b w = Some t \<longrightarrow> t_pid t \<noteq> pid"
  shows "get_tracee P (Some a) pid False w = Some (None, w)"
proof -
  obtain p where p: "tracee_at a w = Some p" using world_listed [OF assms(1,2)] by blast
  then show ?thesis using find_pid_unknown [OF order_refl assms(1,3)] assms(2,3) by (auto simp: get_tracee_def)
qed

text \<open>
  C39: what the emulation of \<open>ptrace\<close> refuses, without changing anything.  \<open>PTRACE_TRACEME\<close> of a
  tracee that is traced, or that is its own parent: \<open>-EPERM\<close>.  \<open>PTRACE_ATTACH\<close> to a process that
  is not a tracee: \<open>-ESRCH\<close>; to one that is traced, or to the caller itself: \<open>-EPERM\<close>.  Any
  other request to a process that is not a stopped ptracee of the caller, be it unknown, running,
  traced by another process, or a zombie: \<open>-ESRCH\<close> (for any pid but \<open>-1\<close>).
\<close>

theorem ptrace_refused:
  assumes w: "world_ok w" "pids_ok w" and a: "a \<in> set (tracees w)" "tracee_at a w = Some p"
  shows "(peek_reg p ORIGINAL SYSARG_1 = PTRACE_TRACEME \<and>
      (ptracer (t_as_ptracee p) \<noteq> None \<or> t_parent p = Some a) \<longrightarrow>
      translate_ptrace_exit K P h a w = Some (- EPERM, w)) \<and>
    (peek_reg p ORIGINAL SYSARG_1 = PTRACE_ATTACH \<and>
      (\<forall>b \<in> set (tracees w). \<forall>t. tracee_at b w = Some t \<longrightarrow> t_pid t \<noteq> ptrace_pid p) \<longrightarrow>
      translate_ptrace_exit K P h a w = Some (- ESRCH, w)) \<and>
    (\<forall>b \<in> set (tracees w). \<forall>t. peek_reg p ORIGINAL SYSARG_1 = PTRACE_ATTACH \<and> tracee_at b w = Some t \<and>
      t_pid t = ptrace_pid p \<and> (b = a \<or> ptracer (t_as_ptracee t) \<noteq> None) \<longrightarrow>
      translate_ptrace_exit K P h a w = Some (- EPERM, w)) \<and>
    (peek_reg p ORIGINAL SYSARG_1 \<notin> {PTRACE_TRACEME, PTRACE_ATTACH} \<and> ptrace_pid p \<noteq> -1 \<and>
      (\<forall>b \<in> set (tracees w). \<forall>t. tracee_at b w = Some t \<longrightarrow> t_pid t = ptrace_pid p \<longrightarrow>
        ptracer (t_as_ptracee t) \<noteq> Some a \<or> t_running t) \<longrightarrow>
      translate_ptrace_exit K P h a w = Some (- ESRCH, w))"
proof (intro conjI ballI allI impI)
  assume "peek_reg p ORIGINAL SYSARG_1 = PTRACE_TRACEME \<and> (ptracer (t_as_ptracee p) \<noteq> None \<or> t_parent p = Some a)"
  then show "translate_ptrace_exit K P h a w = Some (- EPERM, w)"
    using a(2) by (simp add: translate_ptrace_exit_def ptrace_traceme_def Let_def)
next
  assume "peek_reg p ORIGINAL SYSARG_1 = PTRACE_ATTACH \<and>
      (\<forall>b \<in> set (tracees w). \<forall>t. tracee_at b w = Some t \<longrightarrow> t_pid t \<noteq> ptrace_pid p)"
  then show "translate_ptrace_exit K P h a w = Some (- ESRCH, w)"
    using a(2) get_tracee_unknown [OF w(1) a(1), of "ptrace_pid p" P]
    by (simp add: translate_ptrace_exit_def ptrace_attach_def ptrace_pid_def Let_def)
next
  fix b t
  assume "b \<in> set (tracees w)" and "peek_reg p ORIGINAL SYSARG_1 = PTRACE_ATTACH \<and> tracee_at b w = Some t \<and>
      t_pid t = ptrace_pid p \<and> (b = a \<or> ptracer (t_as_ptracee t) \<noteq> None)"
  then show "translate_ptrace_exit K P h a w = Some (- EPERM, w)"
    using a(2) get_tracee_known [OF w a(1), of b t P]
    by (auto simp: translate_ptrace_exit_def ptrace_attach_def ptrace_pid_def Let_def)
next
  assume "peek_reg p ORIGINAL SYSARG_1 \<notin> {PTRACE_TRACEME, PTRACE_ATTACH} \<and> ptrace_pid p \<noteq> -1 \<and>
      (\<forall>b \<in> set (tracees w). \<forall>t. tracee_at b w = Some t \<longrightarrow> t_pid t = ptrace_pid p \<longrightarrow>
        ptracer (t_as_ptracee t) \<noteq> Some a \<or> t_running t)"
  then show "translate_ptrace_exit K P h a w = Some (- ESRCH, w)"
    using stopped_request_refused [OF w a] by blast
qed

definition calling :: "u64 \<Rightarrow> u64 \<Rightarrow> Tracee \<Rightarrow> Tracee" where
  "calling arg1 arg2 t = save_current_regs (poke_reg (poke_reg t SYSARG_1 arg1) SYSARG_2 arg2) ORIGINAL"

definition family_calling :: "'k \<Rightarrow> u64 \<Rightarrow> u64 \<Rightarrow> 'k world" where
  "family_calling k arg1 arg2 = (case tracee_at 1 (family k 0) of
     Some p \<Rightarrow> put_tracee 1 (calling arg1 arg2 p) (family k 0) | None \<Rightarrow> family k 0)"

lemma calling_peek [simp]:
  "peek_reg (calling x y t) ORIGINAL SYSARG_1 = norm_word t x"
  "peek_reg (calling x y t) ORIGINAL SYSARG_2 = norm_word t y"
  by (simp_all add: calling_def reg_simps peek_poke reg_cell_eq_iff)


lemma family_calling_eq:
  "family_calling k x y = put_tracee 1 (calling x y (the (tracee_at 1 (family k 0)))) (family k 0)"
  by (simp add: family_calling_def family_def tracee_at_def)

lemma skel_calling: "skel (calling x y t) = skel t"
  by (rule skel_core) (simp add: calling_def frame_simps)

lemma calling_frame [simp]:
  "t_pid (calling x y t) = t_pid t" "t_running (calling x y t) = t_running t"
  "t_as_ptracee (calling x y t) = t_as_ptracee t" "t_is_aarch32 (calling x y t) = t_is_aarch32 t"
  by (simp_all add: calling_def reg_simps save_current_regs_def poke_reg_def set_REG_def set_REG_32_def put_bank_def)

lemma family_calling_ok: "world_ok (family_calling k x y)" "pids_ok (family_calling k x y)"
proof -
  have at: "tracee_at 1 (family k 0) = Some (the (tracee_at 1 (family k 0)))"
    by (simp add: family_def tracee_at_def)
  show "world_ok (family_calling k x y)"
    unfolding family_calling_eq by (rule world_ok_shape [OF shape_put [OF at skel_calling] family_ok(1)])
  show "pids_ok (family_calling k x y)"
    using family_ok(2) [of k 0] at by (auto simp: pids_ok_def family_calling_eq)
qed

lemma ptrace_refused_witness:
  "translate_ptrace_exit ram_kernel idle_procs (\<lambda>_ _ _. None) 1 (family_calling (os_kern ram_boot) PTRACE_KILL 40) =
     Some (- ESRCH, family_calling (os_kern ram_boot) PTRACE_KILL 40) \<and>
   translate_ptrace_exit ram_kernel idle_procs (\<lambda>_ _ _. None) 1 (family_calling (os_kern ram_boot) PTRACE_ATTACH 20) =
     Some (- EPERM, family_calling (os_kern ram_boot) PTRACE_ATTACH 20)"
proof
  have at: "tracee_at 1 (family_calling k x y) = Some (calling x y (the (tracee_at 1 (family k 0))))"
    "1 \<in> set (tracees (family_calling k x y))" "2 \<in> set (tracees (family_calling k x y))"
    "tracee_at 2 (family_calling k x y) = tracee_at 2 (family k 0)" for k :: Ram and x y
    by (simp_all add: family_calling_eq family_def tracees_def tracee_at_def put_tracee_def modify_def)
  show "translate_ptrace_exit ram_kernel idle_procs (\<lambda>_ _ _. None) 1 (family_calling (os_kern ram_boot) PTRACE_KILL 40) =
     Some (- ESRCH, family_calling (os_kern ram_boot) PTRACE_KILL 40)"
    by (rule ptrace_refused [OF family_calling_ok at(2,1), THEN conjunct2, THEN conjunct2, THEN conjunct2, THEN mp])
      (auto simp: family_calling_eq family_def tracees_def tracee_at_def put_tracee_def modify_def calloc_tracee_def
        norm_word_def ptrace_pid_def is_32on64_mode_def c_int_def)
  show "translate_ptrace_exit ram_kernel idle_procs (\<lambda>_ _ _. None) 1 (family_calling (os_kern ram_boot) PTRACE_ATTACH 20) =
     Some (- EPERM, family_calling (os_kern ram_boot) PTRACE_ATTACH 20)"
    by (rule ptrace_refused [OF family_calling_ok at(2,1), THEN conjunct2, THEN conjunct2, THEN conjunct1,
        THEN bspec [OF _ at(3)],
        THEN spec [where x = "the (tracee_at 2 (family (os_kern ram_boot) 0))"], THEN mp])
      (simp add: at(4), simp add: family_def tracee_at_def calloc_tracee_def
        norm_word_def ptrace_pid_def is_32on64_mode_def c_int_def)
qed

section \<open>Memory of the tracer's kernel\<close>

lemma lift_memory: "kernel_memory K V \<Longrightarrow> kernel_memory (lift_kernel K) (lift_view V)"
proof -
  assume K: "kernel_memory K V"
  have r: "kernel_readv K V" and w: "kernel_writev K V" and e: "kernel_peekdata K V" and poke: "kernel_pokedata K V"
    and v: "view_ok V" using K by (simp_all add: kernel_memory_def)
  have base: "os_errno (base_os w) = os_errno w" "os_kern (base_os w) = w_kern (os_kern w)"
    "w_kern (os_kern (with_os w os)) = os_kern os" for w :: "'a world" and os
    by (simp_all add: base_os_def with_os_def)
  have same: "os_kern (with_os w os) = os_kern w" if "os_kern os = w_kern (os_kern w)" for w :: "'a world" and os
    using that by (simp add: with_os_def)
  have wr: "wrote (lift_view V) p a bs k k' = wrote V p a bs (w_kern k) (w_kern k')" for p a bs k k'
    by (simp add: wrote_def lift_view_def)
  have mapped: "v_mapped (lift_view V) k p = v_mapped V (w_kern k) p" for k p
    by (simp add: fun_eq_iff v_mapped_def lift_view_def)
  have "kernel_readv (lift_kernel K) (lift_view V)"
    unfolding kernel_readv_def
  proof (intro allI impI)
    fix p n a os st bs os'
    assume n: "n < 2 ^ 63" and "sys_process_vm_readv (lift_kernel K) p n a os = (st, bs, os')"
    then obtain os1 where "sys_process_vm_readv K p n a (base_os os) = (st, bs, os1)" "os' = with_os os os1"
      by (auto simp: lift_kernel_def call2_def split: prod.splits)
    with r n show "os_kern os' = os_kern os \<and> (if within (v_readable (lift_view V) (os_kern os) p) a n
        then st = int n \<and> bs = bytes_at (v_mem (lift_view V) (os_kern os) p) a n \<and> os_errno os' = os_errno os
        else st = -1 \<and> os_errno os' \<noteq> 0)"
      unfolding kernel_readv_def by (fastforce simp: lift_view_def base same)
  qed
  moreover have "kernel_writev (lift_kernel K) (lift_view V)"
    unfolding kernel_writev_def
  proof (intro allI impI)
    fix p iov a os st os'
    assume n: "length (concat iov) < 2 ^ 63" and "sys_process_vm_writev (lift_kernel K) p iov a os = (st, os')"
    then obtain os1 where "sys_process_vm_writev K p iov a (base_os os) = (st, os1)" "os' = with_os os os1"
      by (auto simp: lift_kernel_def call1_def split: prod.splits)
    with w n show "if within (v_writable (lift_view V) (os_kern os) p) a (length (concat iov))
        then st = int (length (concat iov)) \<and> os_errno os' = os_errno os \<and>
             wrote (lift_view V) p a (concat iov) (os_kern os) (os_kern os')
        else st = -1 \<and> os_errno os' \<noteq> 0 \<and> os_kern os' = os_kern os"
      unfolding kernel_writev_def by (fastforce simp: lift_view_def base same wrote_def)
  qed
  moreover have "kernel_peekdata (lift_kernel K) (lift_view V)"
    unfolding kernel_peekdata_def
  proof (intro allI impI)
    fix p a os v os'
    assume "sys_ptrace_peekdata (lift_kernel K) p a os = (v, os')"
    then obtain os1 where os1: "sys_ptrace_peekdata K p a (base_os os) = (v, os1)" "os' = with_os os os1"
      by (auto simp: lift_kernel_def call1_def split: prod.splits)
    show "if within (v_mapped (lift_view V) (os_kern os) p) a 8
        then v = of_le (bytes_at (v_mem (lift_view V) (os_kern os) p) a 8) \<and> os' = os
        else v = - 1 \<and> os_errno os' \<in> {EIO, EFAULT} \<and> os_kern os' = os_kern os"
      using e [unfolded kernel_peekdata_def, rule_format, OF os1(1)] os1(2)
      unfolding mapped by (auto simp: lift_view_def base same split: if_splits)
  qed
  moreover have "kernel_pokedata (lift_kernel K) (lift_view V)"
    unfolding kernel_pokedata_def
  proof (intro allI impI)
    fix p a v os st os'
    assume "sys_ptrace_pokedata (lift_kernel K) p a v os = (st, os')"
    then obtain os1 where os1: "sys_ptrace_pokedata K p a v (base_os os) = (st, os1)" "os' = with_os os os1"
      by (auto simp: lift_kernel_def call1_def split: prod.splits)
    show "if within (v_mapped (lift_view V) (os_kern os) p) a 8
        then st = 0 \<and> os_errno os' = os_errno os \<and>
             wrote (lift_view V) p a (le_bytes v) (os_kern os) (os_kern os')
        else st = -1 \<and> os_errno os' \<in> {EIO, EFAULT} \<and> os_kern os' = os_kern os"
      using poke [unfolded kernel_pokedata_def, rule_format, OF os1(1)]
      unfolding mapped wr os1(2) base
      by (cases "within (v_mapped V (w_kern (os_kern os)) p) a 8")
        (simp_all only: if_True if_False base same with_os_simps simp_thms)
  qed
  moreover have "view_ok (lift_view V)"
  proof -
    have rw: "v_readable (lift_view V) k = v_readable V (w_kern k)"
      "v_writable (lift_view V) k = v_writable V (w_kern k)" for k by (simp_all add: lift_view_def)
    show ?thesis using v unfolding view_ok_def mapped rw by iprover
  qed
  ultimately show ?thesis by (simp add: kernel_memory_def)
qed


section \<open>Waking a waiting ptracer\<close>

definition hidden :: "Tracee \<Rightarrow> bool" where
  "hidden t \<longleftrightarrow> ptracer (t_as_ptracee t) = t_parent t \<and>
     (WIFEXITED (ev_value (event_ptracer (t_as_ptracee t))) \<or> WIFSIGNALED (ev_value (event_ptracer (t_as_ptracee t))))"

definition event_passed :: "Tracee \<Rightarrow> Tracee" where
  "event_passed t = t\<lparr>t_as_ptracee := (t_as_ptracee t)
     \<lparr>event_ptracer := (event_ptracer (t_as_ptracee t))\<lparr>ev_pending := False\<rparr>\<rparr>\<rparr>"

definition status_bytes :: "Tracee \<Rightarrow> byte list" where
  "status_bytes t = take 4 (le_bytes (of_int (ev_value (event_ptracer (t_as_ptracee t))) :: u64))"

lemma base_os_simps [simp]: "os_errno (base_os w) = os_errno w" "os_kern (base_os w) = w_kern (os_kern w)"
  by (simp_all add: base_os_def)

lemma wrote_lift [simp]: "wrote (lift_view V) p a bs k k' = wrote V p a bs (w_kern k) (w_kern k')"
  by (simp add: wrote_def lift_view_def)

lemma poke_int32_writable:
  assumes K: "kernel_memory K V" and p: "tracee_at p w = Some tp"
    and wr: "within (v_writable V (w_kern (os_kern w)) (t_pid tp)) address 4"
  shows "\<exists>os. poke_int32 K p address v w = Some (with_os w os) \<and> os_errno os = 0 \<and>
    wrote V (t_pid tp) address (take 4 (le_bytes (of_int v :: u64))) (w_kern (os_kern w)) (os_kern os)"
proof -
  let ?bs = "take 4 (le_bytes (of_int v :: u64))"
  have len: "length ?bs = 4" by simp
  have "write_ok (lift_view V) (os_kern w) (t_pid tp) address (length ?bs)"
    unfolding len using wr by (simp add: write_ok_def lift_view_def)
  then obtain e k' where wd: "write_data (lift_kernel K) tp address ?bs w = (0, \<lparr>os_errno = e, os_kern = k'\<rparr>)"
    "wrote (lift_view V) (t_pid tp) address ?bs (os_kern w) k'"
    using write_data_spec [OF lift_memory [OF K], of ?bs tp address w] len by auto
  have pt: "poke_type (lift_kernel K) tp address ?bs w = \<lparr>os_errno = 0, os_kern = k'\<rparr>"
    using wd(1) by (simp add: poke_type_def set_errno_eq)
  obtain os where os: "poke_type (lift_kernel K) tp address ?bs w = with_os w os"
    using poke_type_lifted [of K tp address ?bs w] by blast
  have "os_errno os = 0" "w_kern k' = os_kern os" using os pt by (auto simp: with_os_def)
  then show ?thesis using p os wd(2) by (auto simp: poke_int32_def)
qed

lemma update_wait_status_plain:
  assumes K: "kernel_memory K V" and p: "tracee_at p w = Some tp" and a: "tracee_at a w = Some t"
    and plain: "\<not> hidden t" "\<not> ee_is_zombie (t_as_ptracee t)"
    and address: "address = peek_reg tp ORIGINAL SYSARG_2"
    and wr: "address \<noteq> 0 \<longrightarrow> within (v_writable V (w_kern (os_kern w)) (t_pid tp)) address 4"
  shows "\<exists>os. update_wait_status K P h p a w = Some (t_pid t, put_tracee a (event_passed t) (with_os w os)) \<and>
    (if address = 0 then os_kern os = w_kern (os_kern w)
     else wrote V (t_pid tp) address (status_bytes t) (w_kern (os_kern w)) (os_kern os))"
proof (cases "address = 0")
  case True
  then show ?thesis using p a plain address
    by (intro exI [of _ "base_os w"]) (auto simp: update_wait_status_def hidden_def Let_def event_passed_def)
next
  case False
  from poke_int32_writable [OF K p, of address "ev_value (event_ptracer (t_as_ptracee t))"] wr False
  show ?thesis using p a plain address
    by (auto simp: update_wait_status_def hidden_def Let_def event_passed_def status_bytes_def)
qed

lemma peek_push_regs:
  assumes "push_regs K t os = (st, t', os')"
    and "r \<in> {SYSARG_NUM, SYSARG_2, SYSARG_3, SYSARG_4, SYSARG_5, SYSARG_6, STACK_POINTER} \<Longrightarrow>
      peek_reg t CURRENT r = peek_reg t ORIGINAL r"
  shows "peek_reg t' CURRENT r = peek_reg t CURRENT r"
  using assms by (auto simp: push_regs_def Let_def peek_reg_fold_RESTORE split: if_splits prod.splits)

text \<open>The end of \<open>notify_ptracer\<close>: the registers are pushed, and the ptracer runs again.\<close>

definition resume_ptracer :: "'k Kernel \<Rightarrow> 'k Procs \<Rightarrow> addr \<Rightarrow> 'k world \<Rightarrow> (bool \<times> 'k world) option" where
  "resume_ptracer K P p w = do {
     (_, w) \<leftarrow> push_regs_at K p w;
     w \<leftarrow> upd_PTRACER p (\<lambda>e. e\<lparr>wait_pid := 0\<rparr>) w;
     restart_tracee P p 0 w
   }"

definition resumed :: "Tracee \<Rightarrow> bool \<Rightarrow> Tracee \<Rightarrow> bool" where
  "resumed tp restarted tp' \<longleftrightarrow> t_as_ptracer tp' = (t_as_ptracer tp)\<lparr>wait_pid := 0\<rparr> \<and> t_pid tp' = t_pid tp \<and>
     (\<forall>r. (r \<in> {SYSARG_NUM, SYSARG_2, SYSARG_3, SYSARG_4, SYSARG_5, SYSARG_6, STACK_POINTER} \<longrightarrow>
         peek_reg tp CURRENT r = peek_reg tp ORIGINAL r) \<longrightarrow>
       peek_reg tp' CURRENT r = peek_reg tp CURRENT r) \<and>
     (restarted \<longrightarrow> t_running tp' \<and> t_restart_how tp' = 0)"

text \<open>The kernel restarts the process whenever it is asked to.\<close>

definition restarts :: "'k Procs \<Rightarrow> pid \<Rightarrow> bool" where
  "restarts P pid \<longleftrightarrow> (\<forall>how signal os. 0 \<le> fst (sp_ptrace P how pid 0 signal os))"

lemma resume_ptracer_spec:
  assumes p: "tracee_at p w = Some tp"
  shows "\<exists>restarted tp' w'. resume_ptracer K P p w = Some (restarted, w') \<and> tracee_at p w' = Some tp' \<and>
    (\<forall>b. b \<noteq> p \<longrightarrow> tracee_at b w' = tracee_at b w) \<and> resumed tp restarted tp' \<and>
    (restarts P (t_pid tp) \<longrightarrow> restarted)"
proof -
  obtain st p4 w4 where push: "push_regs (lift_kernel K) tp w = (st, p4, w4)" by (metis prod_cases3)
  obtain os4 where c4: "core p4 = core tp" "w4 = with_os w os4" using push_regs_lifted [OF push] by blast
  have "t_pid (core x) = t_pid x" "t_as_ptracer (core x) = t_as_ptracer x" for x by (simp_all add: core_def)
  then have f4: "t_pid p4 = t_pid tp" "t_as_ptracer p4 = t_as_ptracer tp" using c4(1) by metis+
  let ?p5 = "p4\<lparr>t_as_ptracer := (t_as_ptracer p4)\<lparr>wait_pid := 0\<rparr>\<rparr>"
  let ?w5 = "put_tracee p ?p5 (put_tracee p p4 w4)"
  obtain rst w6 where r: "call1 (sp_ptrace P (t_restart_how p4) (t_pid tp) 0 0) ?w5 = (rst, w6)" by (metis prod.exhaust)
  then have w6: "tracee_at b w6 = tracee_at b ?w5" for b by (auto simp: call1_def split: prod.splits)
  have ok: "0 \<le> rst" if "restarts P (t_pid tp)"
    using r that [unfolded restarts_def, rule_format, of "t_restart_how p4" 0 "base_os ?w5"]
    by (auto simp: call1_def split: prod.splits)
  have n: "resume_ptracer K P p w = restart_tracee P p 0 ?w5"
    using p push by (simp add: resume_ptracer_def push_regs_at_def split_beta)
  have same: "peek_reg (x\<lparr>t_as_ptracer := y\<rparr>) v r = peek_reg x v r"
    "peek_reg (x\<lparr>t_restart_how := how, t_running := b\<rparr>) v r = peek_reg x v r" for x y v r how b
    by (simp_all add: peek_reg_alt reg_cell_def is_32on64_mode_def norm_word_def)
  have at6: "tracee_at p w6 = Some ?p5" "b \<noteq> p \<Longrightarrow> tracee_at b w6 = tracee_at b w" for b
    using w6 c4(2) by simp_all
  have pk: "(r \<in> {SYSARG_NUM, SYSARG_2, SYSARG_3, SYSARG_4, SYSARG_5, SYSARG_6, STACK_POINTER} \<longrightarrow>
      peek_reg tp CURRENT r = peek_reg tp ORIGINAL r) \<longrightarrow> peek_reg p4 CURRENT r = peek_reg tp CURRENT r" for r
    using peek_push_regs [OF push, of r] by blast
  have res: "resumed tp False ?p5" "resumed tp True (?p5\<lparr>t_restart_how := 0, t_running := True\<rparr>)"
    unfolding resumed_def using f4 pk by (simp_all add: same)
  show ?thesis
  proof (cases "rst < 0")
    case True
    have "restart_tracee P p 0 ?w5 = Some (False, w6)"
      using r True f4 by (simp add: restart_tracee_def)
    then show ?thesis
      using n at6 res(1) ok True by (intro exI [of _ False] exI [of _ ?p5] exI [of _ w6]) auto
  next
    case False
    let ?p7 = "?p5\<lparr>t_restart_how := 0, t_running := True\<rparr>"
    have "restart_tracee P p 0 ?w5 = Some (True, put_tracee p ?p7 w6)"
      using r False f4 w6 [of p] by (simp add: restart_tracee_def)
    then show ?thesis
      using n at6(2) res(2) by (intro exI [of _ True] exI [of _ ?p7] exI [of _ "put_tracee p ?p7 w6"]) simp
  qed
qed

definition waits_for :: "Tracee \<Rightarrow> Tracee \<Rightarrow> bool" where
  "waits_for tp t \<longleftrightarrow> (wait_pid (t_as_ptracer tp) = -1 \<or> wait_pid (t_as_ptracer tp) = t_pid t) \<and>
     EXPECTED_WAIT_CLONE (wait_options (t_as_ptracer tp)) t"

text \<open>\<open>notify_ptracer\<close> up to the call of \<open>update_wait_status\<close>, and behind it.\<close>

definition after_sigchld :: "'k Procs \<Rightarrow> Tracee \<Rightarrow> 'k world \<Rightarrow> 'k world" where
  "after_sigchld P tp w = snd (call1 (sp_kill P (t_pid tp) SIGCHLD) w)"

lemma after_sigchld_at [simp]: "tracee_at b (after_sigchld P tp w) = tracee_at b w"
  by (simp add: after_sigchld_def call1_def split_beta)

lemma notify_ptracer_eq:
  assumes "tracee_at p w = Some tp" "tracee_at a w = Some t"
  shows "notify_ptracer K P h p a keep w =
    (if waits_for tp t then do {
       (status, w) \<leftarrow> update_wait_status K P h p a (after_sigchld P tp w);
       w \<leftarrow> (if status \<noteq> 0 then upd p (\<lambda>p. poke_reg p SYSARG_RESULT (of_int status)) w else Some w);
       (restarted, w) \<leftarrow> resume_ptracer K P p w;
       Some (restarted \<and> keep, w)
     } else Some (keep, after_sigchld P tp w))"
  using assms after_sigchld_at [of a P tp w]
  unfolding notify_ptracer_def resume_ptracer_def after_sigchld_def waits_for_def
  by (auto simp: Let_def split_beta intro!: Option.bind_cong)

text \<open>The outcomes of a notification.\<close>

lemma notify_not_waiting:
  assumes "tracee_at p w = Some tp" "tracee_at a w = Some t" "\<not> waits_for tp t"
  shows "\<exists>w'. notify_ptracer K P h p a keep w = Some (keep, w') \<and> (\<forall>b. tracee_at b w' = tracee_at b w)"
  using assms by (intro exI [of _ "after_sigchld P tp w"]) (simp add: notify_ptracer_eq)

lemma notify_woken:
  assumes K: "kernel_memory K V" and p: "tracee_at p w = Some tp" and a: "tracee_at a w = Some t" "a \<noteq> p"
    and plain: "\<not> hidden t" "\<not> ee_is_zombie (t_as_ptracee t)" "t_pid t \<noteq> 0" and waits: "waits_for tp t"
    and writable: "peek_reg tp ORIGINAL SYSARG_2 \<noteq> 0 \<longrightarrow>
      (\<forall>k. within (v_writable V k (t_pid tp)) (peek_reg tp ORIGINAL SYSARG_2) 4)"
  shows "\<exists>restarted tp' w'. notify_ptracer K P h p a keep w = Some (restarted \<and> keep, w') \<and>
    tracee_at p w' = Some tp' \<and> tracee_at a w' = Some (event_passed t) \<and>
    resumed (poke_reg tp SYSARG_RESULT (of_int (t_pid t))) restarted tp' \<and>
    (restarts P (t_pid tp) \<longrightarrow> restarted)"
proof -
  let ?w1 = "after_sigchld P tp w" and ?p3 = "poke_reg tp SYSARG_RESULT (of_int (t_pid t))"
  have at1: "tracee_at p ?w1 = Some tp" "tracee_at a ?w1 = Some t" using p a by simp_all
  obtain os where u: "update_wait_status K P h p a ?w1 =
      Some (t_pid t, put_tracee a (event_passed t) (with_os ?w1 os))"
    using update_wait_status_plain [OF K at1 plain(1,2) refl] writable by blast
  let ?w2 = "put_tracee a (event_passed t) (with_os ?w1 os)"
  have p2: "tracee_at p ?w2 = Some tp" using p a(2) by simp
  have n: "notify_ptracer K P h p a keep w =
      resume_ptracer K P p (put_tracee p ?p3 ?w2) \<bind> (\<lambda>(restarted, w). Some (restarted \<and> keep, w))"
    using notify_ptracer_eq [OF p a(1)] waits u plain(3) p2 by (simp add: upd_def)
  obtain restarted tp' w' where r: "resume_ptracer K P p (put_tracee p ?p3 ?w2) = Some (restarted, w')"
    "tracee_at p w' = Some tp'" "\<forall>b. b \<noteq> p \<longrightarrow> tracee_at b w' = tracee_at b (put_tracee p ?p3 ?w2)"
    "resumed ?p3 restarted tp'" "restarts P (t_pid ?p3) \<longrightarrow> restarted"
    using resume_ptracer_spec [of p "put_tracee p ?p3 ?w2" ?p3 K P] by auto
  then show ?thesis using n a(2) by (auto simp: frame_simps reg_simps)
qed

lemma notify_hidden:
  assumes p: "tracee_at p w = Some tp" and a: "tracee_at a w = Some t" "a \<noteq> p"
    and own: "hidden t" "\<not> ee_is_zombie (t_as_ptracee t)" "ptracer (t_as_ptracee t) = Some p"
    and nb: "0 < nb_ptracees (t_as_ptracer tp)" and waits: "waits_for tp t"
  shows "\<exists>restarted tp' w'. notify_ptracer K P h p a keep w = Some (restarted \<and> keep, w') \<and>
    tracee_at p w' = Some tp' \<and>
    tracee_at a w' = Some (t\<lparr>t_as_ptracee := (t_as_ptracee t)\<lparr>ptracer := None\<rparr>\<rparr>) \<and>
    resumed (snd (restart_original_syscall tp)\<lparr>t_as_ptracer := (t_as_ptracer tp)
      \<lparr>nb_ptracees := nb_ptracees (t_as_ptracer tp) - 1\<rparr>\<rparr>) restarted tp' \<and>
    (restarts P (t_pid tp) \<longrightarrow> restarted)"
proof -
  let ?w1 = "after_sigchld P tp w" and ?r = "snd (restart_original_syscall tp)"
  have "core ?r = core tp" by (simp add: restart_original_syscall_def Let_def frame_simps)
  moreover have "t_pid (core x) = t_pid x" "t_as_ptracer (core x) = t_as_ptracer x" for x by (simp_all add: core_def)
  ultimately have f: "t_pid ?r = t_pid tp" "t_as_ptracer ?r = t_as_ptracer tp" by metis+
  let ?p3 = "?r\<lparr>t_as_ptracer := (t_as_ptracer tp)\<lparr>nb_ptracees := nb_ptracees (t_as_ptracer tp) - 1\<rparr>\<rparr>"
  let ?t = "t\<lparr>t_as_ptracee := (t_as_ptracee t)\<lparr>ptracer := None\<rparr>\<rparr>"
  let ?w2 = "put_tracee p ?p3 (put_tracee a ?t (put_tracee p ?r ?w1))"
  have par: "t_parent t = Some p" using own(1,3) by (simp add: hidden_def)
  have ex: "WIFEXITED (ev_value (event_ptracer (t_as_ptracee t))) \<or> WIFSIGNALED (ev_value (event_ptracer (t_as_ptracee t)))"
    using own(1) by (simp add: hidden_def)
  have u: "update_wait_status K P h p a ?w1 = Some (0, ?w2)"
    using p a own(2,3) par ex nb f
    by (simp add: update_wait_status_def hidden_def Let_def upd_def detach_from_ptracer_def upd_PTRACEE_def upd_PTRACER_def)
  have n: "notify_ptracer K P h p a keep w =
      resume_ptracer K P p ?w2 \<bind> (\<lambda>(restarted, w). Some (restarted \<and> keep, w))"
    using notify_ptracer_eq [OF p a(1)] waits u by simp
  obtain restarted tp' w' where r: "resume_ptracer K P p ?w2 = Some (restarted, w')"
    "tracee_at p w' = Some tp'" "\<forall>b. b \<noteq> p \<longrightarrow> tracee_at b w' = tracee_at b ?w2"
    "resumed ?p3 restarted tp'" "restarts P (t_pid ?p3) \<longrightarrow> restarted"
    using resume_ptracer_spec [of p ?w2 ?p3 K P] by auto
  then show ?thesis using n a(2) f by auto
qed

text \<open>
  The tracer passes the event to the ptracer, which sees it as \<open>c\<close>, in the world \<open>wh\<close>: it has
  noted the event, handled it first where the \<open>switch\<close> says so, and made it pending.
\<close>

definition handed_over ::
    "'k handle_event \<Rightarrow> addr \<Rightarrow> int \<Rightarrow> 'k world \<Rightarrow> Ptracee_case \<Rightarrow> 'k world \<Rightarrow> bool" where
  "handed_over h a event w c wh \<longleftrightarrow>
     (\<exists>t w0 w1 w2. tracee_at a w = Some t \<and> ptracee_case t event = Some c \<and> pc_tracing_started c \<and>
        upd_PTRACEE a (\<lambda>e. e\<lparr>event_proot := \<lparr>ev_value = event, ev_pending = True\<rparr>\<rparr>) w = Some w0 \<and>
        upd_PTRACEE a (\<lambda>e. e\<lparr>tracing_started := True\<rparr>) w0 = Some w1 \<and>
        (if pc_handled_by_proot_first c
         then \<exists>w1'. h a event w1 = Some (0, w1') \<and>
           upd_PTRACEE a (\<lambda>e. e\<lparr>event_proot := (event_proot e)\<lparr>ev_value := 0\<rparr>\<rparr>) w1' = Some w2
         else w2 = w1) \<and>
        upd_PTRACEE a (\<lambda>e. e\<lparr>event_ptracer := \<lparr>ev_value = pc_event c, ev_pending = True\<rparr>\<rparr>) w2 = Some wh)"

lemma handle_handed_over:
  assumes "handed_over h a event w c wh" "tracee_at a w = Some t" "ptracer (t_as_ptracee t) = Some p"
  shows "handle_ptracee_event K P h a event w = notify_ptracer K P h p a (pc_keep_stopped c) wh"
proof -
  obtain t' w0 w1 w2 where t': "tracee_at a w = Some t'" and h: "ptracee_case t' event = Some c" "pc_tracing_started c"
      "upd_PTRACEE a (\<lambda>e. e\<lparr>event_proot := \<lparr>ev_value = event, ev_pending = True\<rparr>\<rparr>) w = Some w0"
      "upd_PTRACEE a (\<lambda>e. e\<lparr>tracing_started := True\<rparr>) w0 = Some w1"
      "if pc_handled_by_proot_first c
       then \<exists>w1'. h a event w1 = Some (0, w1') \<and>
         upd_PTRACEE a (\<lambda>e. e\<lparr>event_proot := (event_proot e)\<lparr>ev_value := 0\<rparr>\<rparr>) w1' = Some w2
       else w2 = w1"
      "upd_PTRACEE a (\<lambda>e. e\<lparr>event_ptracer := \<lparr>ev_value = pc_event c, ev_pending = True\<rparr>\<rparr>) w2 = Some wh"
    using assms(1) unfolding handed_over_def by blast
  have same: "t' = t" using t' assms(2) by simp
  show ?thesis
  proof (cases "pc_handled_by_proot_first c")
    case True
    then obtain w1' where "h a event w1 = Some (0, w1')"
      "upd_PTRACEE a (\<lambda>e. e\<lparr>event_proot := (event_proot e)\<lparr>ev_value := 0\<rparr>\<rparr>) w1' = Some w2"
      using h(5) by auto
    then show ?thesis using assms(2,3) h(1-4,6) same True by (simp add: handle_ptracee_event_def)
  next
    case False
    then show ?thesis using assms(2,3) h same False by (simp add: handle_ptracee_event_def)
  qed
qed

lemma handle_filtered:
  assumes "tracee_at a w = Some t" "ptracer (t_as_ptracee t) = Some p"
    and "case ptracee_case t event of None \<Rightarrow> True | Some c \<Rightarrow> \<not> pc_tracing_started c"
  shows "\<exists>w'. handle_ptracee_event K P h a event w = Some (False, w') \<and>
    (\<forall>b. b \<noteq> a \<longrightarrow> tracee_at b w' = tracee_at b w)"
  using assms by (auto simp: handle_ptracee_event_def upd_PTRACEE_def upd_def split: option.splits)

lemma resumed_result:
  "resumed (poke_reg tp SYSARG_RESULT v) restarted tp' \<Longrightarrow>
   peek_reg tp' CURRENT SYSARG_RESULT = norm_word tp v \<and> wait_pid (t_as_ptracer tp') = 0 \<and>
   (restarted \<longrightarrow> t_running tp' \<and> t_restart_how tp' = 0)"
  by (simp add: resumed_def peek_poke)

abbreviation call_regs :: "Reg list" where
  "call_regs \<equiv> [SYSARG_NUM, SYSARG_1, SYSARG_2, SYSARG_3, SYSARG_4, SYSARG_5, SYSARG_6]"

text \<open>The original call is issued again at its trap.\<close>

definition reissues :: "Tracee \<Rightarrow> Tracee \<Rightarrow> bool" where
  "reissues tp tp' \<longleftrightarrow> map (peek_reg tp' CURRENT) call_regs = map (peek_reg tp ORIGINAL) call_regs \<and>
     peek_reg tp' CURRENT INSTR_POINTER = norm_word tp (peek_reg tp CURRENT INSTR_POINTER - SYSTRAP_SIZE)"

lemma resumed_original:
  assumes "resumed (snd (restart_original_syscall tp)\<lparr>t_as_ptracer := e\<rparr>) restarted tp'"
  shows "reissues tp tp' \<and> t_as_ptracer tp' = e\<lparr>wait_pid := 0\<rparr> \<and>
    (restarted \<longrightarrow> t_running tp' \<and> t_restart_how tp' = 0)"
proof -
  have same: "peek_reg (x\<lparr>t_as_ptracer := y\<rparr>) v r = peek_reg x v r" for x y v r
    by (simp add: peek_reg_alt reg_cell_def is_32on64_mode_def norm_word_def)
  have "peek_reg (snd (restart_original_syscall tp)) ORIGINAL r = peek_reg tp ORIGINAL r" for r
    by (simp add: restart_original_syscall_def Let_def reg_simps peek_poke)
  then show ?thesis
    using assms restart_original [of tp] by (simp add: resumed_def reissues_def same)
qed

text \<open>The ptracer does not sleep in the emulation anymore, and runs again if the kernel lets it.\<close>

definition runs_again :: "'k Procs \<Rightarrow> Tracee \<Rightarrow> bool \<Rightarrow> Tracee \<Rightarrow> bool" where
  "runs_again P tp restarted tp' \<longleftrightarrow> wait_pid (t_as_ptracer tp') = 0 \<and>
     (restarted \<longrightarrow> t_running tp' \<and> t_restart_how tp' = 0) \<and> (restarts P (t_pid tp) \<longrightarrow> restarted)"

lemma handle_woken:
  assumes K: "kernel_memory K V" and a: "tracee_at a w = Some t0" "ptracer (t_as_ptracee t0) = Some p"
    and ho: "handed_over h a event w c wh" and at: "tracee_at p wh = Some tp" "tracee_at a wh = Some t" "a \<noteq> p"
    and plain: "\<not> hidden t" "\<not> ee_is_zombie (t_as_ptracee t)" "t_pid t \<noteq> 0" and waits: "waits_for tp t"
    and writable: "peek_reg tp ORIGINAL SYSARG_2 \<noteq> 0 \<longrightarrow>
      (\<forall>k. within (v_writable V k (t_pid tp)) (peek_reg tp ORIGINAL SYSARG_2) 4)"
  shows "\<exists>restarted tp' w'. handle_ptracee_event K P h a event w = Some (restarted \<and> pc_keep_stopped c, w') \<and>
    tracee_at p w' = Some tp' \<and> tracee_at a w' = Some (event_passed t) \<and>
    peek_reg tp' CURRENT SYSARG_RESULT = norm_word tp (of_int (t_pid t)) \<and> runs_again P tp restarted tp'"
proof -
  obtain restarted tp' w' where n: "notify_ptracer K P h p a (pc_keep_stopped c) wh = Some (restarted \<and> pc_keep_stopped c, w')"
    "tracee_at p w' = Some tp'" "tracee_at a w' = Some (event_passed t)"
    "resumed (poke_reg tp SYSARG_RESULT (of_int (t_pid t))) restarted tp'" "restarts P (t_pid tp) \<longrightarrow> restarted"
    using notify_woken [OF K at plain waits writable, of P h "pc_keep_stopped c"] by blast
  then show ?thesis
    using handle_handed_over [OF ho a, of K P] resumed_result [OF n(4)] unfolding runs_again_def by metis
qed

lemma handle_hidden:
  assumes a: "tracee_at a w = Some t0" "ptracer (t_as_ptracee t0) = Some p"
    and ho: "handed_over h a event w c wh" and at: "tracee_at p wh = Some tp" "tracee_at a wh = Some t" "a \<noteq> p"
    and own: "hidden t" "\<not> ee_is_zombie (t_as_ptracee t)" "ptracer (t_as_ptracee t) = Some p"
    and nb: "0 < nb_ptracees (t_as_ptracer tp)" and waits: "waits_for tp t"
  shows "\<exists>restarted tp' w'. handle_ptracee_event K P h a event w = Some (restarted \<and> pc_keep_stopped c, w') \<and>
    tracee_at p w' = Some tp' \<and> reissues tp tp' \<and>
    tracee_at a w' = Some (t\<lparr>t_as_ptracee := (t_as_ptracee t)\<lparr>ptracer := None\<rparr>\<rparr>) \<and>
    nb_ptracees (t_as_ptracer tp') = nb_ptracees (t_as_ptracer tp) - 1 \<and> runs_again P tp restarted tp'"
proof -
  obtain restarted tp' w' where n: "notify_ptracer K P h p a (pc_keep_stopped c) wh = Some (restarted \<and> pc_keep_stopped c, w')"
    "tracee_at p w' = Some tp'" "tracee_at a w' = Some (t\<lparr>t_as_ptracee := (t_as_ptracee t)\<lparr>ptracer := None\<rparr>\<rparr>)"
    "resumed (snd (restart_original_syscall tp)\<lparr>t_as_ptracer := (t_as_ptracer tp)
      \<lparr>nb_ptracees := nb_ptracees (t_as_ptracer tp) - 1\<rparr>\<rparr>) restarted tp'" "restarts P (t_pid tp) \<longrightarrow> restarted"
    using notify_hidden [OF at own nb waits, of K P h "pc_keep_stopped c"] by blast
  have "wait_pid (t_as_ptracer tp') = 0" "nb_ptracees (t_as_ptracer tp') = nb_ptracees (t_as_ptracer tp) - 1"
    "reissues tp tp'" "restarted \<longrightarrow> t_running tp' \<and> t_restart_how tp' = 0"
    using resumed_original [OF n(4)] by simp_all
  then show ?thesis
    using n(1-3,5) handle_handed_over [OF ho a, of K P] unfolding runs_again_def by metis
qed

lemma handle_not_waiting:
  assumes a: "tracee_at a w = Some t0" "ptracer (t_as_ptracee t0) = Some p"
    and ho: "handed_over h a event w c wh" and at: "tracee_at p wh = Some tp" "tracee_at a wh = Some t"
    and "\<not> waits_for tp t"
  shows "\<exists>w'. handle_ptracee_event K P h a event w = Some (pc_keep_stopped c, w') \<and>
    (\<forall>b. tracee_at b w' = tracee_at b wh)"
  using notify_not_waiting [OF at assms(6)] handle_handed_over [OF ho a] by metis

text \<open>
  C10: what the event of a ptracee does to its ptracer.  An event that is filtered, or that comes
  before the tracing started, leaves the ptracer alone, and the tracer handles it.  Another one is
  made pending; when the ptracer does not sleep in a \<open>wait\<close> for this ptracee, nothing else happens
  to it.  When it does, and its status word can be stored, the result of its \<open>wait\<close> is the pid of
  the ptracee, whose event is not pending anymore; unless the event is the end of its own child,
  which the kernel reports too: then the ptracee is detached, and the ptracer issues its \<open>wait\<close>
  again.  In both cases it does not sleep in the emulation anymore and runs again unless the kernel
  refuses the restart; then the ptracee does not stay stopped for it.  (The ptracee is another
  process than its ptracer, has a pid, and is no zombie; where the tracer handles the event first,
  \<open>wh\<close> is the world it leaves, with no signal left.)
\<close>

theorem waiting_ptracer_woken:
  assumes K: "kernel_memory K V" and a: "tracee_at a w = Some t0" "ptracer (t_as_ptracee t0) = Some p"
  shows "((case ptracee_case t0 event of None \<Rightarrow> True | Some c \<Rightarrow> \<not> pc_tracing_started c) \<longrightarrow>
      (\<exists>w'. handle_ptracee_event K P h a event w = Some (False, w') \<and>
        (\<forall>b. b \<noteq> a \<longrightarrow> tracee_at b w' = tracee_at b w))) \<and>
    (\<forall>c wh tp t. handed_over h a event w c wh \<and> tracee_at p wh = Some tp \<and> tracee_at a wh = Some t \<and> a \<noteq> p \<and>
       ptracer (t_as_ptracee t) = Some p \<and> \<not> ee_is_zombie (t_as_ptracee t) \<and> t_pid t \<noteq> 0 \<longrightarrow>
      (\<not> waits_for tp t \<longrightarrow>
        (\<exists>w'. handle_ptracee_event K P h a event w = Some (pc_keep_stopped c, w') \<and>
          (\<forall>b. tracee_at b w' = tracee_at b wh))) \<and>
      (waits_for tp t \<and> \<not> hidden t \<and>
       (peek_reg tp ORIGINAL SYSARG_2 \<noteq> 0 \<longrightarrow>
          (\<forall>k. within (v_writable V k (t_pid tp)) (peek_reg tp ORIGINAL SYSARG_2) 4)) \<longrightarrow>
        (\<exists>restarted tp' w'. handle_ptracee_event K P h a event w = Some (restarted \<and> pc_keep_stopped c, w') \<and>
          tracee_at p w' = Some tp' \<and> tracee_at a w' = Some (event_passed t) \<and>
          peek_reg tp' CURRENT SYSARG_RESULT = norm_word tp (of_int (t_pid t)) \<and> runs_again P tp restarted tp')) \<and>
      (waits_for tp t \<and> hidden t \<and> 0 < nb_ptracees (t_as_ptracer tp) \<longrightarrow>
        (\<exists>restarted tp' w'. handle_ptracee_event K P h a event w = Some (restarted \<and> pc_keep_stopped c, w') \<and>
          tracee_at p w' = Some tp' \<and> reissues tp tp' \<and>
          tracee_at a w' = Some (t\<lparr>t_as_ptracee := (t_as_ptracee t)\<lparr>ptracer := None\<rparr>\<rparr>) \<and>
          nb_ptracees (t_as_ptracer tp') = nb_ptracees (t_as_ptracer tp) - 1 \<and> runs_again P tp restarted tp')))"
  by (rule conjI, rule impI, rule handle_filtered [OF a], assumption)
    (intro allI conjI impI; elim conjE;
      (rule handle_not_waiting [OF a] | rule handle_woken [OF K a] | rule handle_hidden [OF a]); assumption)

definition waiting_family :: "Ram world" where
  "waiting_family = put_tracee 1 (calloc_tracee\<lparr>t_pid := 10, t_as_ptracer := \<lparr>nb_ptracees = 2, zombies = [3],
     wait_pid = -1, wait_options = W_WALL, as_waits_in = DOESNT_WAIT\<rparr>\<rparr>) (family (os_kern ram_boot) 0x137f)"

lemma waiting_ptracer_woken_witness:
  "\<exists>w' tp'. handle_ptracee_event ram_kernel idle_procs (\<lambda>_ _ _. None) 2 (W_STOPCODE SIGSTOP) waiting_family = Some (True, w') \<and>
     tracee_at 1 w' = Some tp' \<and> t_running tp' \<and> peek_reg tp' CURRENT SYSARG_RESULT = 20"
proof -
  let ?tp = "calloc_tracee\<lparr>t_pid := 10, t_as_ptracer := \<lparr>nb_ptracees = 2, zombies = [3],
     wait_pid = -1, wait_options = W_WALL, as_waits_in = DOESNT_WAIT\<rparr>\<rparr>"
  let ?t = "calloc_tracee\<lparr>t_pid := 20, t_parent := Some 4, t_as_ptracee := (t_as_ptracee calloc_tracee)
     \<lparr>ptracer := Some 1, event_ptracer := \<lparr>ev_value = 0x137f, ev_pending = True\<rparr>\<rparr>\<rparr>"
  let ?e = "\<lparr>ev_value = W_STOPCODE SIGSTOP, ev_pending = True\<rparr>"
  let ?u = "?t\<lparr>t_as_ptracee := (t_as_ptracee ?t)\<lparr>event_proot := ?e, tracing_started := True, event_ptracer := ?e\<rparr>\<rparr>"
  let ?c = "\<lparr>pc_event = W_STOPCODE SIGSTOP, pc_handled_by_proot_first = False, pc_tracing_started = True,
      pc_keep_stopped = True\<rparr>"
  have at: "tracee_at 1 waiting_family = Some ?tp" "tracee_at 2 waiting_family = Some ?t"
    by (simp_all add: waiting_family_def) (simp add: family_def tracee_at_def)
  have c: "ptracee_case t (W_STOPCODE SIGSTOP) = Some ?c" for t
    by (simp add: ptracee_case_def WIFSTOPPED_def W_STOPCODE_def stop_event_def Let_def)
  obtain wh where wh: "handed_over (\<lambda>_ _ _. None) 2 (W_STOPCODE SIGSTOP) waiting_family ?c wh"
      "tracee_at 2 wh = Some ?u" "tracee_at 1 wh = Some ?tp"
    using at(1) unfolding handed_over_def by (simp add: at(2) c upd_PTRACEE_def upd_def)
  have args: "\<not> hidden ?u" "\<not> ee_is_zombie (t_as_ptracee ?u)" "t_pid ?u = 20" "waits_for ?tp ?u"
    "ptracer (t_as_ptracee ?u) = Some 1" "ptracer (t_as_ptracee ?t) = Some 1"
    "peek_reg ?tp ORIGINAL SYSARG_2 = 0" "norm_word ?tp 20 = 20"
    by (simp_all add: hidden_def waits_for_def EXPECTED_WAIT_CLONE_def)
      (simp_all add: calloc_tracee_def peek_reg_alt load64_def norm_word_def)
  have idle: "restarts (idle_procs :: Ram Procs) pid" for pid by (simp add: restarts_def idle_procs_def)
  note woken = waiting_ptracer_woken [OF ram_kernel_memory at(2) args(6), where P = idle_procs and h = "\<lambda>_ _ _. None"
      and event = "W_STOPCODE SIGSTOP", THEN conjunct2, THEN spec [where x = ?c], THEN spec [where x = wh],
      THEN spec [where x = ?tp], THEN spec [where x = ?u], THEN mp, THEN conjunct2, THEN conjunct1, THEN mp]
  have num: "norm_word ?tp (of_int (t_pid ?u)) = 20" using args(8) by simp
  have "\<exists>restarted tp' w'. handle_ptracee_event ram_kernel idle_procs (\<lambda>_ _ _. None) 2 (W_STOPCODE SIGSTOP)
      waiting_family = Some (restarted \<and> pc_keep_stopped ?c, w') \<and> tracee_at 1 w' = Some tp' \<and>
      tracee_at 2 w' = Some (event_passed ?u) \<and>
      peek_reg tp' CURRENT SYSARG_RESULT = norm_word ?tp (of_int (t_pid ?u)) \<and> runs_again (idle_procs :: Ram Procs) ?tp restarted tp'"
    by (rule woken) (use wh args in simp_all)
  then show ?thesis
    unfolding num using idle unfolding runs_again_def by auto
qed

end
