(* ===== verification/Tracer.thy ===== *)
theory Tracer
  imports Program Lifecycle
begin

text \<open>
  The composition of the tracer: the event loop of theory \<open>Event\<close> with the handlers of \<open>execve\<close>
  of theory \<open>Execve\<close>, and callbacks that use the operations of the library.
\<close>

unbundle bit_operations_syntax

section \<open>The program's own handlers\<close>

text \<open>The files and the memory an execve meets, and the signal it sends, depend on the state of the system.\<close>

definition with_execve ::
    "bool \<Rightarrow> 'k Kernel \<Rightarrow> ('k OS \<Rightarrow> Elf_sys) \<Rightarrow> (pid \<Rightarrow> 'k OS \<Rightarrow> 'k OS) \<Rightarrow> 'k Handlers \<Rightarrow> 'k Handlers" where
  "with_execve USE_LOADER_EXE K X kill_SIGTRAP H =
     H\<lparr>h_execve_enter := \<lambda>tracee os. translate_execve_enter USE_LOADER_EXE K (X os) tracee os,
       h_execve_exit := \<lambda>tracee os. translate_execve_exit USE_LOADER_EXE K (X os) kill_SIGTRAP tracee os\<rparr>"

lemma skel_fields:
  "skel (t\<lparr>t_new_exe := a\<rparr>) = skel t" "skel (t\<lparr>t_load_info := b\<rparr>) = skel t"
  "skel (t\<lparr>t_is_aarch32 := c\<rparr>) = skel t" "skel (set_ignore_loader_syscalls d t) = skel t"
  "skel (t\<lparr>t_regs_were_changed := e\<rparr>) = skel t" "skel (save_current_regs t v) = skel t"
  by (simp_all add: skel_def set_ignore_loader_syscalls_def save_current_regs_def put_bank_def)

lemma skel_set_sysnum: "set_sysnum t s = Some t' \<Longrightarrow> skel t' = skel t"
  by (rule skel_core) (rule core_set_sysnum)

lemma skel_alloc_mem: "alloc_mem t n = Some (a, t') \<Longrightarrow> skel t' = skel t"
  by (auto simp: alloc_mem_def Let_def skel_poke split: if_split_asm)

lemma skel_set_sysarg_data: "set_sysarg_data K t bs r os = Some (st, t', os') \<Longrightarrow> skel t' = skel t"
  by (auto simp: set_sysarg_data_def skel_poke dest!: skel_alloc_mem split: option.split_asm if_split_asm prod.split_asm)

lemmas skel_simps = skel_fields skel_poke

lemma post_True: "post (\<lambda>x. True) m"
  by (simp add: post_def)

lemma post_sum_case:
  "post Q (case r of Inl x \<Rightarrow> f x | Inr y \<Rightarrow> g y) \<longleftrightarrow> (\<forall>x. r = Inl x \<longrightarrow> post Q (f x)) \<and> (\<forall>y. r = Inr y \<longrightarrow> post Q (g y))"
  by (cases r) auto

lemma post_use_loader: "post (\<lambda>(st, t', os'). skel t' = skel t) (use_loader_enter K t os)"
  by (auto simp: post_def use_loader_enter_def set_sysarg_path_def skel_simps bind_eq_Some_conv
      dest!: skel_set_sysarg_data split: if_split_asm)

lemma post_execve_enter:
  "post (\<lambda>(st, t', os'). skel t' = skel t) (translate_execve_enter U K X t os)"
proof (cases "IS_NOTIFICATION_PTRACED_LOAD_DONE t")
  case True
  then show ?thesis by (auto simp: translate_execve_enter_def post_def skel_simps dest!: skel_set_sysnum)
next
  case False
  have l: "post (\<lambda>(st, t', os'). skel t' = skel t) (use_loader_enter K (t\<lparr>t_new_exe := a, t_load_info := b\<rparr>) os)" for a b os
    using post_use_loader [of "t\<lparr>t_new_exe := a, t_load_info := b\<rparr>" K os] by (simp add: skel_simps)
  show ?thesis using False l
    by (auto simp: translate_execve_enter_def Let_def split_beta post_sum_case skel_simps intro!: postI)
qed

lemma skel_send_script: "skel (fst (snd (send_script K t a bs os))) = skel t"
  by (simp add: send_script_def Let_def split_beta skel_simps)

lemma post_transfer: "post (\<lambda>(st, t', os'). skel t' = skel t) (transfer_load_script K X t os)"
  by (simp add: transfer_load_script_def Let_def split_beta skel_send_script post_True)
lemma post_execve_exit: "post (\<lambda>(t', os'). skel t' = skel t) (translate_execve_exit U K X kill t os)"
proof (cases "IS_NOTIFICATION_PTRACED_LOAD_DONE t")
  case True
  then show ?thesis
    by (auto simp: translate_execve_exit_def post_def skel_simps bind_eq_Some_conv Let_def dest!: skel_set_sysnum)
next
  case False
  have l: "post (\<lambda>(st, t', os'). skel t' = skel t) (transfer_load_script K X (t\<lparr>t_is_aarch32 := b\<rparr>) os)" for b
    using post_transfer [of "t\<lparr>t_is_aarch32 := b\<rparr>" K X os] by (simp add: skel_simps)
  show ?thesis using False l
    by (auto simp: translate_execve_exit_def Let_def split_beta skel_simps intro!: postI dest!: postD [OF l])
qed

text \<open>
  What a callback may do to its tracee: the operations the library offers that change a tracee.
\<close>

inductive by_library :: "'k Kernel \<Rightarrow> Tracee \<Rightarrow> Tracee \<Rightarrow> bool" for K t where
  start: "by_library K t t"
| poke: "by_library K t t' \<Longrightarrow> by_library K t (syscall_poke_reg t' r v)"
| data: "by_library K t t' \<Longrightarrow> syscall_set_sysarg_data K t' bs r os = Some (st, t'', os') \<Longrightarrow> by_library K t t''"
| str: "by_library K t t' \<Longrightarrow> syscall_set_sysarg_str K t' bs r os = Some (st, t'', os') \<Longrightarrow> by_library K t t''"

definition callback_by_library ::
    "'k Kernel \<Rightarrow> (Syscall_data \<Rightarrow> Tracee \<Rightarrow> 'k OS \<Rightarrow> u64 \<times> Tracee \<times> 'k OS) option \<Rightarrow> bool" where
  "callback_by_library K f \<longleftrightarrow>
     (case f of None \<Rightarrow> True | Some f \<Rightarrow> \<forall>d t os. by_library K t (fst (snd (f d t os))))"

lemma skel_by_library: "by_library K t t' \<Longrightarrow> skel t' = skel t"
proof (induction rule: by_library.induct)
  case (poke t' r v)
  then show ?case by (simp add: syscall_poke_reg_def skel_poke)
next
  case (data t' bs r os st t'' os')
  then show ?case using skel_set_sysarg_data by (metis syscall_set_sysarg_data_def)
next
  case (str t' bs r os st t'' os')
  then show ?case using skel_set_sysarg_data by (metis syscall_set_sysarg_str_def)
qed simp

lemma execve_keeps_links:
  assumes "callback_by_library K (global_on_sysenter H)" "callback_by_library K (global_on_sysexit H)"
  shows "application_keeps_links (with_execve U K X kill H)"
  unfolding application_keeps_links_def
proof (intro conjI allI impI)
  fix f d t os user t' os'
  assume "global_on_sysenter (with_execve U K X kill H) = Some f" "f d t os = (user, t', os')"
  then have "by_library K t t'" using assms(1)
    by (auto simp: callback_by_library_def with_execve_def) (metis fst_conv snd_conv)
  then show "skel t' = skel t" by (rule skel_by_library)
next
  fix f d t os user t' os'
  assume "global_on_sysexit (with_execve U K X kill H) = Some f" "f d t os = (user, t', os')"
  then have "by_library K t t'" using assms(2)
    by (auto simp: callback_by_library_def with_execve_def) (metis fst_conv snd_conv)
  then show "skel t' = skel t" by (rule skel_by_library)
next
  fix t os st t' os'
  assume "h_execve_enter (with_execve U K X kill H) t os = Some (st, t', os')"
  then show "skel t' = skel t" using postD [OF post_execve_enter] by (fastforce simp: with_execve_def)
next
  fix t os t' os'
  assume "h_execve_exit (with_execve U K X kill H) t os = Some (t', os')"
  then show "skel t' = skel t" using postD [OF post_execve_exit] by (fastforce simp: with_execve_def)
qed

text \<open>
  C4: the state of the tracer is well formed between two iterations of the event loop, whatever
  the kernel reports, the files contain and the processes ask for: the list of tracees holds live
  objects once each, no parent or ptracer link of them dangles, and the zombies of a ptracer are
  live objects attached to it.  The handlers are those of the program (\<open>execve\<close>, \<open>ptrace\<close>,
  \<open>wait\<close>); the callbacks of the application change tracees by the operations of the library only.
\<close>

theorem tracer_state_ok:
  assumes "callback_by_library K (global_on_sysenter H)" "callback_by_library K (global_on_sysexit H)"
    and "reachable depth K P (with_execve USE_LOADER_EXE K X kill_SIGTRAP H) w"
  shows "world_ok w"
  using reachable_ok [OF execve_keeps_links [OF assms(1,2)] assms(3)] by (simp add: ok_def)

text \<open>An application whose callback changes an argument of every call.\<close>

definition demo_handlers :: "Script Handlers" where
  "demo_handlers = no_handlers\<lparr>global_on_sysenter := Some (\<lambda>d t os. (1, syscall_poke_reg t SYSARG_3 0, os))\<rparr>"

lemma demo_by_library: "callback_by_library K (global_on_sysenter demo_handlers)"
    "callback_by_library K (global_on_sysexit demo_handlers)"
  by (simp_all add: callback_by_library_def demo_handlers_def no_handlers_def by_library.poke [OF by_library.start])

definition demo_program :: "Script Handlers" where
  "demo_program = with_execve False script_kernel (\<lambda>os. demo_sys) (\<lambda>p os. os) demo_handlers"

lemma demo_reachable: "reachable 1 script_kernel script_procs demo_program attached_world"
proof -
  have "event_iteration script_kernel script_procs
      (handle_tracee_event 1 script_kernel script_procs demo_program)
      (ask_attach 7 (boot (script_boot script_events))) = Some (None, attached_world)"
    unfolding attached_world_def
    by (simp add: script_iterate_def script_events_def iteration_simps script_simps)
  then show ?thesis
    by (rule reachable_iteration [OF reachable_ask [OF reachable_boot], rotated])
      (auto simp: script_events_def plausible_report_def free_terminated_tracees_def boot_def ask_attach_def script_simps)
qed

theorem tracer_state_ok_witness: "world_ok attached_world \<and> tracees attached_world = [1]"
proof
  show "world_ok attached_world"
    by (rule tracer_state_ok [OF demo_by_library demo_reachable [unfolded demo_program_def]])
  show "tracees attached_world = [1]"
    unfolding attached_world_def by (simp add: script_iterate_def script_events_def iteration_simps script_simps)
qed

end
