(* ===== verification/Exec_Enter.thy ===== *)
theory Exec_Enter
  imports Execve
begin

text \<open>
  What the enter stage of an execve lets through (execve/enter.c): the composition of the
  expansion of scripts with the reading of the load information of a program and its interpreter,
  and the header tables behind 2 GiB, which it does not read.
\<close>

unbundle bit_operations_syntax

section \<open>Errors\<close>

text \<open>A call that fails sets \<open>errno\<close> to a positive number; then the errors are negative.\<close>

definition errnos_ok :: "Elf_sys \<Rightarrow> bool" where
  "errnos_ok X \<longleftrightarrow>
     (\<forall>e. fs_getcwd (ex_fs (es_exec X)) = Inl e \<longrightarrow> 0 < e) \<and>
     (\<forall>p e. ex_open (es_exec X) p = Inl e \<longrightarrow> 0 < e) \<and>
     (\<forall>p f e. ex_open (es_exec X) p = Inr f \<longrightarrow> f_error f = Some e \<longrightarrow> 0 < e) \<and>
     (\<forall>p e. es_open X p = Inl e \<longrightarrow> 0 < e) \<and>
     (\<forall>p fd. es_open X p = Inr fd \<longrightarrow>
        (\<forall>a e. fd_lseek fd a = Some e \<longrightarrow> 0 < e) \<and> (\<forall>a n e. fd_pread fd a n = Inl e \<longrightarrow> 0 < e))"

definition fails :: "'a result \<Rightarrow> bool" where
  "fails r \<longleftrightarrow> (\<forall>status. r = Some (Inl status) \<longrightarrow> status < 0)"

lemma fails_simps [simp]:
  "fails None" "fails (Some (Inr x))" "fails (Some (Inl status)) \<longleftrightarrow> status < 0"
  "fails (bind_ok m f) \<longleftrightarrow> fails m \<and> (\<forall>x. m = Some (Inr x) \<longrightarrow> fails (f x))"
  by (auto simp: fails_def bind_ok_def split: option.splits sum.splits)

lemma join_fails: "join_paths ps = (status, p) \<Longrightarrow> status \<le> 0"
proof -
  have "fst (join_loop ps r) \<le> 0" for r by (induction ps r rule: join_loop.induct) auto
  then show "join_paths ps = (status, p) \<Longrightarrow> ?thesis" by (metis fst_conv join_paths_def)
qed

lemma translate_fails:
  assumes "errnos_ok X"
  shows "fails (translate_and_check_exec (es_exec X) tracee p)"
  using assms
  by (auto simp: translate_and_check_exec_def translate_path_def translate_base_def errnos_ok_def
      split: sum.splits prod.splits)

lemma at_end_fails: "at_end e eof = Inl status \<Longrightarrow> (\<And>n. e = Some n \<Longrightarrow> 0 < n) \<Longrightarrow>
    (\<And>s. eof = Inl s \<Longrightarrow> s < 0) \<Longrightarrow> status < 0"
  by (auto simp: at_end_def split: option.splits)

lemma skip_fails:
  assumes "\<And>n. e = Some n \<Longrightarrow> 0 < n"
  shows "skip_spaces B e cs n = Inl status \<Longrightarrow> status < 0"
  by (induction cs arbitrary: n)
    (use assms at_end_fails [of e "Inl (- ENOEXEC)"] in \<open>auto split: if_splits\<close>)

lemma slurp_argument_fails:
  assumes "\<And>n. e = Some n \<Longrightarrow> 0 < n"
  shows "slurp_argument B e p c cs n a = Inl status \<Longrightarrow> status < 0"
proof (induction cs arbitrary: c n a)
  case Nil
  then show ?case using assms at_end_fails [of e "Inr (c_string p, [])" status]
    by (subst (asm) slurp_argument.simps) (auto split: if_splits)
next
  case (Cons d cs)
  then show ?case by (subst (asm) (2) slurp_argument.simps) (auto split: if_splits)
qed

lemma slurp_path_fails:
  assumes "\<And>n. e = Some n \<Longrightarrow> 0 < n"
  shows "slurp_path B e c cs n p = Inl status \<Longrightarrow> status < 0"
proof (induction cs arbitrary: c n p)
  case Nil
  then show ?case using assms at_end_fails [of e "Inr (c_string p, [])" status] slurp_argument_fails [of e]
    by (subst (asm) slurp_path.simps) (auto split: if_splits)
next
  case (Cons d cs)
  then show ?case using assms slurp_argument_fails [of e]
    by (subst (asm) (2) slurp_path.simps) (auto split: if_splits)
qed

lemma extract_fails:
  assumes "errnos_ok X"
  shows "fails (extract_shebang (es_exec X) p)"
proof (cases "ex_open (es_exec X) p")
  case (Inl e)
  then show ?thesis using assms by (auto simp: extract_shebang_def errnos_ok_def)
next
  case (Inr f)
  then have e: "\<And>n. f_error f = Some n \<Longrightarrow> 0 < n" using assms by (auto simp: errnos_ok_def)
  show ?thesis using Inr e at_end_fails [of "f_error f" "Inr None"] skip_fails [OF e] slurp_path_fails [OF e]
    by (auto simp: extract_shebang_def fails_def split: list.splits sum.splits)
qed

lemma expand_fails:
  assumes "errnos_ok X"
  shows "fails (expand_shebang (es_exec X) tracee p)"
proof -
  have "fails (expand_loop (es_exec X) tracee k has p)" for k has p
    by (induction k arbitrary: has p)
      (use translate_fails [OF assms] extract_fails [OF assms] in \<open>auto split: option.splits\<close>)
  then show ?thesis by (simp add: expand_shebang_def)
qed

section \<open>Load information\<close>

text \<open>What a file must be to be loaded: an ELF program, executable or position independent.\<close>

definition loadable :: "LoadInfo \<Rightarrow> bool" where
  "loadable load_info \<longleftrightarrow>
     ELF_IDENT (li_elf_header load_info) 0 = 0x7f \<and> ELF_IDENT (li_elf_header load_info) 1 = 0x45 \<and>
     ELF_IDENT (li_elf_header load_info) 2 = 0x4c \<and> ELF_IDENT (li_elf_header load_info) 3 = 0x46 \<and>
     (IS_CLASS32 (li_elf_header load_info) \<or> IS_CLASS64 (li_elf_header load_info)) \<and>
     ELF_FIELD (li_elf_header load_info) e_type \<in> {ET_EXEC, ET_DYN}"

text \<open>An interpreter that was found: its path was checked; it is not loaded yet.\<close>

definition interp_found :: "Elf_sys \<Rightarrow> Tracee \<Rightarrow> LoadInfo \<Rightarrow> bool" where
  "interp_found X tracee i \<longleftrightarrow> (\<exists>user host. li_user_path i = Some user \<and> li_host_path i = Some host \<and>
     translate_and_check_exec (es_exec X) tracee user = Some (Inr host))"

text \<open>What one header keeps, and an error is negative.\<close>

definition keeps_info :: "Elf_sys \<Rightarrow> Tracee \<Rightarrow> LoadInfo \<Rightarrow> int \<times> LoadInfo \<Rightarrow> bool" where
  "keeps_info X tracee l = (\<lambda>(status, l'). status \<le> 0 \<and>
     (status = 0 \<longrightarrow> li_host_path l' = li_host_path l \<and> li_user_path l' = li_user_path l \<and>
        li_raw_path l' = li_raw_path l \<and> li_elf_header l' = li_elf_header l \<and>
        (li_interp l' = li_interp l \<or> (\<exists>i. li_interp l' = Some i \<and> li_interp i = None \<and> interp_found X tracee i))))"

lemma calloc_no_interp: "li_interp calloc_LoadInfo = None"
  by (simp add: calloc_LoadInfo_def)

lemma add_mapping_keeps_info: "add_mapping X l ph = Some r \<Longrightarrow> keeps_info X tracee l r"
  by (auto simp: add_mapping_def keeps_info_def Let_def split: if_split_asm option.split_asm)

lemma add_interp_keeps_info:
  assumes "errnos_ok X" "add_interp X tracee fd l ph = Some r"
  shows "keeps_info X tracee l r"
  using assms(2) translate_fails [OF assms(1), of tracee]
  by (auto simp: add_interp_def keeps_info_def interp_found_def fails_def Let_def calloc_no_interp
      split: if_split_asm option.split_asm sum.split_asm intro: less_imp_le)

lemma add_load_info_keeps_info:
  assumes "errnos_ok X" "add_load_info X tracee fd h ph l = Some r"
  shows "keeps_info X tracee l r"
  using assms(2) add_mapping_keeps_info [of X l ph r tracee] add_interp_keeps_info [OF assms(1), of tracee fd l ph r]
  by (auto simp: add_load_info_def Let_def split: if_split_asm) (auto simp: keeps_info_def)

lemma keeps_info_trans: "keeps_info X tracee l (0, l1) \<Longrightarrow> keeps_info X tracee l1 r \<Longrightarrow> keeps_info X tracee l r"
  by (cases r) (auto simp: keeps_info_def)

lemma iterate_keeps_info:
  assumes ok: "errnos_ok X" "\<And>a n e. fd_pread fd a n = Inl e \<Longrightarrow> 0 < e"
  shows "iterate_loop n fd sz position (add_load_info X tracee fd h) l = Some r \<Longrightarrow> keeps_info X tracee l r"
proof (induction n arbitrary: position l)
  case 0
  then show ?case by (auto simp: keeps_info_def)
next
  case (Suc n)
  show ?case
  proof (cases "fd_pread fd position (of_nat sz)")
    case (Inl e)
    then show ?thesis using Suc.prems ok(2) [OF Inl] by (auto simp: keeps_info_def)
  next
    case (Inr ph)
    show ?thesis
    proof (cases "length ph = sz")
      case True
      obtain st l1 where c: "add_load_info X tracee fd h ph l = Some (st, l1)"
        using Suc.prems Inr True by (auto split: option.splits)
      note k = add_load_info_keeps_info [OF ok(1) c]
      show ?thesis
      proof (cases "st = 0")
        case True
        then have "keeps_info X tracee l1 r" using Suc.prems Inr c \<open>length ph = sz\<close> by (auto intro: Suc.IH)
        then show ?thesis using k True keeps_info_trans by blast
      next
        case False
        then show ?thesis using Suc.prems Inr c \<open>length ph = sz\<close> k by auto
      qed
    qed (use Suc.prems Inr in \<open>auto simp: keeps_info_def\<close>)
  qed
qed

lemma extract_loadable:
  assumes ok: "errnos_ok X" "0 \<le> errno" and e: "extract_load_info X tracee errno l = Some (status, l')" "0 \<le> status"
  shows "loadable l' \<and> li_host_path l' = li_host_path l \<and> li_user_path l' = li_user_path l \<and>
    li_raw_path l' = li_raw_path l \<and>
    (li_interp l' = li_interp l \<or> (\<exists>i. li_interp l' = Some i \<and> li_interp i = None \<and> interp_found X tracee i))"
proof -
  obtain host where host: "li_host_path l = Some host" using e(1) by (auto simp: extract_load_info_def split: option.splits)
  obtain fd h where o: "open_elf X host (li_elf_header l) = (Inr fd, h)"
    using e host ok(1)
    by (fastforce simp: extract_load_info_def open_elf_def errnos_ok_def Let_def split: sum.split_asm if_split_asm)
  have fd: "es_open X host = Inr fd" and m: "loadable (set_elf_header h l)" and t: "ELF_FIELD h e_type \<in> {ET_EXEC, ET_DYN}"
    using o e host by (auto simp: extract_load_info_def open_elf_def loadable_def Let_def split: sum.split_asm if_split_asm)
  have i: "iterate_program_headers fd h errno (add_load_info X tracee fd h) (set_elf_header h l) = Some (status, l')"
    using e(1) o t host by (auto simp: extract_load_info_def)
  have p: "\<And>a n e. fd_pread fd a n = Inl e \<Longrightarrow> 0 < e" "\<And>a e. fd_lseek fd a = Some e \<Longrightarrow> 0 < e"
    using ok(1) fd by (auto simp: errnos_ok_def)
  have "keeps_info X tracee (set_elf_header h l) (status, l') \<or> l' = set_elf_header h l"
    using i p iterate_keeps_info [OF ok(1) p(1)]
    by (auto simp: iterate_program_headers_def Let_def split: if_split_asm option.split_asm)
  then show ?thesis using m e(2) by (auto simp: keeps_info_def loadable_def)
qed

section \<open>The enter stage\<close>

text \<open>What the load information of a program has that is let through.\<close>

definition program_found :: "Elf_sys \<Rightarrow> Tracee \<Rightarrow> string \<Rightarrow> string \<Rightarrow> Raw_path \<Rightarrow> LoadInfo \<Rightarrow> bool" where
  "program_found X tracee host user raw l \<longleftrightarrow>
     li_host_path l = Some host \<and> li_user_path l = Some user \<and> li_raw_path l = raw \<and> loadable l \<and>
     (\<forall>i. li_interp l = Some i \<longrightarrow> loadable i \<and> li_interp i = None \<and> interp_found X tracee i)"

lemma new_load_info_found:
  assumes ok: "errnos_ok X" "0 \<le> errno" and n: "new_load_info X tracee errno host user raw = Some (status, r)" "0 \<le> status"
  shows "\<exists>l. status = 0 \<and> r = Some l \<and> program_found X tracee host user raw l"
proof -
  define l0 where "l0 = set_raw_path raw (set_user_path (Some user) (set_host_path (Some host) calloc_LoadInfo))"
  have l0: "li_host_path l0 = Some host" "li_user_path l0 = Some user" "li_raw_path l0 = raw" "li_interp l0 = None"
    by (simp_all add: l0_def calloc_LoadInfo_def)
  obtain st1 l1 where e1: "extract_load_info X tracee errno l0 = Some (st1, l1)" "0 \<le> st1"
    using n by (auto simp: new_load_info_def Let_def l0_def bind_eq_Some_conv split: if_split_asm)
  note f1 = extract_loadable [OF ok e1]
  show ?thesis
  proof (cases "li_interp l1")
    case None
    then have "status = 0" "r = Some l1"
      using n e1 by (auto simp: new_load_info_def Let_def l0_def bind_eq_Some_conv split: if_split_asm)
    then show ?thesis using f1 l0 None by (simp add: program_found_def)
  next
    case (Some i)
    obtain st2 i2 where e2: "extract_load_info X tracee errno i = Some (st2, i2)" "0 \<le> st2" "li_interp i2 = None"
        "status = 0" "r = Some (set_interp (Some i2) l1)"
      using n e1 Some by (auto simp: new_load_info_def Let_def l0_def bind_eq_Some_conv split: if_split_asm)
    have "interp_found X tracee i2" using f1 l0 Some extract_loadable [OF ok e2(1,2)] by (auto simp: interp_found_def)
    then show ?thesis using f1 l0 e2 extract_loadable [OF ok e2(1,2)] by (auto simp: program_found_def loadable_def)
  qed
qed


text \<open>A tracee that executes \<open>hi\<close> in the working directory of the tracer.\<close>

definition hi_tracee :: Tracee where
  "hi_tracee = poke_reg calloc_tracee SYSARG_1 0x5000"

lemma hi_facts: "t_pid hi_tracee = 0" "peek_reg hi_tracee CURRENT SYSARG_1 = 0x5000"
    "\<not> IS_NOTIFICATION_PTRACED_LOAD_DONE hi_tracee"
  by code_simp+

lemma hi_path: "\<exists>path. get_sysarg_path ram_kernel hi_tracee SYSARG_1 hi = Some (3, path, hi) \<and> string_of_bytes path = ''hi''"
proof -
  have b: "bytes_at (v_mem ram_view (os_kern hi) 0) 0x5000 3 = [104, 105, 0]"
    by (rule nth_equalityI) (use hi_mem in \<open>auto simp: nth_bytes_at\<close>)
  have "\<exists>dest. read_string ram_kernel hi_tracee 0x5000 PATH_MAX hi = Some (int (Suc 2), dest, hi) \<and>
      take (Suc 2) dest = bytes_at (v_mem ram_view (os_kern hi) (t_pid hi_tracee)) 0x5000 (Suc 2)"
  proof -
    obtain bs where "read_chunks ram_kernel (t_pid hi_tracee) 0x5000 PATH_MAX 0 hi = (Terminator (Suc 2), bs, hi)"
      "take (Suc 2) bs = bytes_at (v_mem ram_view (os_kern hi) (t_pid hi_tracee)) 0x5000 (Suc 2)"
      using read_chunks_terminator [OF ram_kernel_memory, of 2 PATH_MAX hi "0" "0x5000" 0]
        hi_readable hi_nonzero hi_zero unfolding hi_facts by auto
    then show ?thesis by (simp add: read_string_def c_int_small)
  qed
  then obtain dest where d: "read_string ram_kernel hi_tracee 0x5000 PATH_MAX hi = Some (3, dest, hi)"
      "take 3 dest = [104, 105, 0]" using b by (auto simp: hi_facts)
  have "char_of (0 :: nat) = CHR 0x00" "char_of (104 :: nat) = CHR ''h''" "char_of (105 :: nat) = CHR ''i''" by code_simp+
  then have "string_of_bytes (take 3 dest @ 0 # drop 4 dest) = ''hi''" unfolding d(2) by (simp add: string_of_bytes_def c_string_def)
  then show ?thesis using d(1) by (simp add: get_sysarg_path_def read_path_def hi_facts)
qed

lemma hi_expand: "expand_shebang (es_exec demo_sys) hi_tracee ''hi'' = Some (Inr (False, ''/hi'', ''hi''))"
  by code_simp

lemma hi_enter: "\<exists>l. translate_execve_enter False ram_kernel demo_sys hi_tracee hi =
    Some (0, hi_tracee\<lparr>t_new_exe := Some ''/hi'', t_load_info := Some l\<rparr>, hi)"
proof -
  obtain path where p: "get_sysarg_path ram_kernel hi_tracee SYSARG_1 hi = Some (3, path, hi)" "string_of_bytes path = ''hi''"
    using hi_path by blast
  let ?t = "hi_tracee\<lparr>t_new_exe := Some ''/hi''\<rparr>"
  have e: "os_errno hi = 0" by (simp add: hi_def ram_store_def ram_boot_def)
  let ?l = "set_raw_path Raw_freed (set_user_path (Some ''hi'') (set_host_path (Some ''/hi'') calloc_LoadInfo))"
  obtain l where "extract_load_info demo_sys ?t 0 ?l = Some (0, l)" "li_interp l = None"
    using demo_extract_any [of ?l "''/hi''" ?t] by (auto simp: calloc_LoadInfo_def)
  then have "new_load_info demo_sys ?t 0 ''/hi'' ''hi'' Raw_freed = Some (0, Some l)"
    by (simp add: new_load_info_def Let_def) (simp add: demo_sys_def demo_exec_def)
  moreover have "ex_strdup (es_exec demo_sys) x" for x by (simp add: demo_sys_def demo_exec_def)
  ultimately show ?thesis
    by (intro exI [of _ l]) (simp add: translate_execve_enter_def hi_facts p hi_expand e Let_def)
qed


section \<open>Headers beyond 2 GiB\<close>

lemma far_load_info:
  assumes mem: "\<And>p. ex_strdup (es_exec X) p" "es_malloc X sizeof_LoadInfo"
    and header: "open_elf X host (li_elf_header calloc_LoadInfo) = (Inr fd, h)" "ELF_FIELD h e_type \<in> {ET_EXEC, ET_DYN}"
      "unat (ELF_FIELD h e_phnum) < 0xffff" "KNOWN_PHENTSIZE h (unat (ELF_FIELD h e_phentsize))"
    and far: "fd_lseek fd (ELF_FIELD h e_phoff) = None" "c_int (uint (ELF_FIELD h e_phoff)) < 0"
    and errno: "0 \<le> errno"
  shows "\<exists>l. new_load_info X tracee errno host user raw = Some (- errno, Some l) \<and>
    li_mappings l = None \<and> li_interp l = None \<and> li_elf_header l = h"
proof -
  define l0 where "l0 = set_raw_path raw (set_user_path (Some user) (set_host_path (Some host) calloc_LoadInfo))"
  have l0: "li_host_path l0 = Some host" "li_mappings l0 = None" "li_interp l0 = None"
    "li_elf_header l0 = li_elf_header calloc_LoadInfo"
    by (simp_all add: l0_def calloc_LoadInfo_def)
  have "iterate_program_headers fd h errno f d = Some (- errno, d)" for f and d :: LoadInfo
    using header(3,4) far by (simp add: iterate_program_headers_def)
  then have "extract_load_info X tracee errno l0 = Some (- errno, set_elf_header h l0)"
    using l0 header(1,2) by (auto simp: extract_load_info_def)
  then show ?thesis
    using mem errno l0 by (simp add: new_load_info_def Let_def l0_def [symmetric])
qed

text \<open>
  C40: a program whose header table is at an offset that is negative as an \<open>int\<close> is not read: the
  result of a seek that succeeds is taken for an error, and the status is what \<open>errno\<close> happens to
  hold, negated.  With an error left there by an earlier call, the execve fails with it.  With 0
  the call is let through, with load information that has no mapping and no interpreter; in the
  configuration that computes the load addresses at the entry, this is undefined for a position
  independent program.
\<close>

theorem phoff_truncated:
  assumes N: "\<not> IS_NOTIFICATION_PTRACED_LOAD_DONE tracee"
    and path: "get_sysarg_path K tracee SYSARG_1 os = Some (len, path, os')" "0 \<le> len"
    and found: "expand_shebang (es_exec X) tracee (string_of_bytes path) = Some (Inr (has, host, user))"
    and mem: "\<And>p. ex_strdup (es_exec X) p" "es_malloc X sizeof_LoadInfo"
    and header: "open_elf X host (li_elf_header calloc_LoadInfo) = (Inr fd, h)" "ELF_FIELD h e_type \<in> {ET_EXEC, ET_DYN}"
      "unat (ELF_FIELD h e_phnum) < 0xffff" "KNOWN_PHENTSIZE h (unat (ELF_FIELD h e_phentsize))"
    and far: "fd_lseek fd (ELF_FIELD h e_phoff) = None" "c_int (uint (ELF_FIELD h e_phoff)) < 0"
  shows "(0 < os_errno os' \<longrightarrow>
      (\<exists>tracee'. translate_execve_enter loader K X tracee os = Some (- os_errno os', tracee', os'))) \<and>
    (os_errno os' = 0 \<longrightarrow>
      (\<exists>l. translate_execve_enter False K X tracee os =
           Some (0, tracee\<lparr>t_new_exe := Some host, t_load_info := Some l\<rparr>, os') \<and>
         li_mappings l = None \<and> li_interp l = None) \<and>
      (IS_POSITION_INDENPENDANT h \<longrightarrow> translate_execve_enter True K X tracee os = None))"
proof -
  let ?t = "tracee\<lparr>t_new_exe := Some host\<rparr>"
  let ?raw = "if has then Raw_own (string_of_bytes path) else Raw_freed"
  have e: "translate_execve_enter loader K X tracee os =
      new_load_info X ?t (os_errno os') host user ?raw \<bind> (\<lambda>(status, load_info).
        if status < 0 then Some (status, ?t\<lparr>t_load_info := load_info\<rparr>, os')
        else if loader then use_loader_enter K (?t\<lparr>t_load_info := load_info\<rparr>) os'
        else Some (0, ?t\<lparr>t_load_info := load_info\<rparr>, os'))" for loader
    using N path found mem(1) by (simp add: translate_execve_enter_def Let_def)
  show ?thesis
  proof (intro conjI impI)
    assume "0 < os_errno os'"
    then show "\<exists>tracee'. translate_execve_enter loader K X tracee os = Some (- os_errno os', tracee', os')"
      using far_load_info [OF mem header far, of "os_errno os'" ?t user ?raw] unfolding e by auto
  next
    assume z: "os_errno os' = 0"
    obtain l where l: "new_load_info X ?t (os_errno os') host user ?raw = Some (0, Some l)"
      "li_mappings l = None" "li_interp l = None" "li_elf_header l = h"
      using far_load_info [OF mem header far, of "os_errno os'" ?t user ?raw] z by auto
    then show "\<exists>l. translate_execve_enter False K X tracee os =
        Some (0, tracee\<lparr>t_new_exe := Some host, t_load_info := Some l\<rparr>, os') \<and>
        li_mappings l = None \<and> li_interp l = None"
      unfolding e by auto
    show "translate_execve_enter True K X tracee os = None" if "IS_POSITION_INDENPENDANT h"
      unfolding e using l that by (simp add: use_loader_enter_def compute_load_addresses_def place_def)
  qed
qed

text \<open>A position independent program with its header table at 2 GiB.\<close>

definition far_header :: ElfHeader where
  "far_header = put_field (put_field demo_header (32, 8) 0x80000000) (16, 2) ET_DYN"

definition far_fd :: Fd where
  "far_fd = \<lparr>fd_lseek = (\<lambda>a. None), fd_pread = (\<lambda>a n. Inr (take (unat n) (drop (unat a) far_header)))\<rparr>"

definition far_sys :: Elf_sys where
  "far_sys = demo_sys\<lparr>es_open := (\<lambda>_. Inr far_fd)\<rparr>"

theorem phoff_truncated_witness:
  "(\<exists>l. translate_execve_enter False ram_kernel far_sys hi_tracee hi =
      Some (0, hi_tracee\<lparr>t_new_exe := Some ''/hi'', t_load_info := Some l\<rparr>, hi) \<and> li_mappings l = None) \<and>
   translate_execve_enter True ram_kernel far_sys hi_tracee hi = None"
proof -
  obtain path where p: "get_sysarg_path ram_kernel hi_tracee SYSARG_1 hi = Some (3, path, hi)" "string_of_bytes path = ''hi''"
    using hi_path by blast
  have x: "es_exec far_sys = es_exec demo_sys" "es_malloc far_sys n" "es_open far_sys q = Inr far_fd"
    "ex_strdup (es_exec far_sys) q" for n q
    by (simp_all add: far_sys_def demo_sys_def demo_exec_def)
  have h: "ELF_FIELD far_header e_phoff = 0x80000000" "ELF_FIELD far_header e_phnum = 2"
    "ELF_FIELD far_header e_phentsize = 56" "KNOWN_PHENTSIZE far_header 56" "IS_POSITION_INDENPENDANT far_header"
    "ELF_FIELD far_header e_type \<in> {ET_EXEC, ET_DYN}" "IS_CLASS64 far_header" "length far_header = 64"
    "ELF_IDENT far_header 0 = 0x7f" "ELF_IDENT far_header 1 = 0x45" "ELF_IDENT far_header 2 = 0x4c" "ELF_IDENT far_header 3 = 0x46"
    by code_simp+
  have o: "open_elf far_sys ''/hi'' (li_elf_header calloc_LoadInfo) = (Inr far_fd, far_header)"
    using h(7-12) by (simp add: open_elf_def x far_fd_def calloc_LoadInfo_def)
  have r: "expand_shebang (es_exec far_sys) hi_tracee (string_of_bytes path) = Some (Inr (False, ''/hi'', ''hi''))"
    using hi_expand p(2) x(1) by simp
  have e: "os_errno hi = 0" by (simp add: hi_def ram_store_def ram_boot_def)
  have seek: "fd_lseek far_fd (ELF_FIELD far_header e_phoff) = None" by (simp add: far_fd_def)
  have k: "unat (ELF_FIELD far_header e_phnum) < 0xffff" "KNOWN_PHENTSIZE far_header (unat (ELF_FIELD far_header e_phentsize))"
    "c_int (uint (ELF_FIELD far_header e_phoff)) < 0" "(0 :: int) \<le> 3"
    using h(1-4) by (simp_all add: c_int_def)
  show ?thesis
    using phoff_truncated [OF hi_facts(3) p(1) k(4) r x(4) x(2) o h(6) k(1,2) seek k(3), of True] e h(5) by auto
qed

end
