(* ===== verification/Library.thy ===== *)
theory Library
  imports Seccomp "HOL-Library.Monad_Syntax"
begin

text \<open>
  The side of the tracee (library.c): which system calls the application asks for, and the
  installation of the filter in its own process, before it is traced.
\<close>

section \<open>library.c\<close>

definition FILTERED_FUNC_OPEN :: u32 where
  "FILTERED_FUNC_OPEN = 0x1"

definition FILTERED_FUNC_CLOSE :: u32 where
  "FILTERED_FUNC_CLOSE = 0x2"

text \<open>The array \<open>g_add_filtered_sysnums\<close>; a store behind it is undefined.\<close>

definition fill_filtered_sysnum :: "nat \<Rightarrow> Sysnum \<Rightarrow> FilteredSysnum list \<Rightarrow> FilteredSysnum list option" where
  "fill_filtered_sysnum cur_index sysnum g =
     (if cur_index < length g then Some (g[cur_index := \<lparr>fs_value = sysnum, fs_flags = 0\<rparr>]) else None)"

definition mark_filtered_sysnum_end :: "nat \<Rightarrow> FilteredSysnum list \<Rightarrow> FilteredSysnum list option" where
  "mark_filtered_sysnum_end cur_index g =
     (if cur_index < length g then Some (g[cur_index := \<lparr>fs_value = PR_void, fs_flags = 0\<rparr>]) else None)"

text \<open>One of the two functions that can be asked for, behind those that were.\<close>

definition add_func ::
    "u32 \<Rightarrow> u32 \<Rightarrow> Sysnum \<Rightarrow> nat \<times> FilteredSysnum list \<Rightarrow> (nat \<times> FilteredSysnum list) option" where
  "add_func flags func sysnum ag =
     (case ag of (add_index, g) \<Rightarrow>
        if flags AND func \<noteq> 0 then do {
          g \<leftarrow> fill_filtered_sysnum add_index sysnum g;
          g \<leftarrow> mark_filtered_sysnum_end (add_index + 1) g;
          Some (add_index + 1, g)
        } else Some (add_index, g))"

definition filtered_funcs :: "u32 \<Rightarrow> FilteredSysnum list \<Rightarrow> FilteredSysnum list option" where
  "filtered_funcs flags g = do {
     g \<leftarrow> mark_filtered_sysnum_end 0 g;
     ag \<leftarrow> add_func flags FILTERED_FUNC_OPEN PR_openat (0, g);
     ag \<leftarrow> add_func flags FILTERED_FUNC_CLOSE PR_close ag;
     Some (snd ag)
   }"

text \<open>
  \<open>calloc\<close> tells whether there is memory for the record of the own process, which is only tested
  and freed; the status of the installation is dropped.
\<close>

definition tracee_init ::
    "'k prctl \<Rightarrow> (nat \<Rightarrow> bool) \<Rightarrow> bool \<Rightarrow> seccomp_statics \<Rightarrow> (u64 \<times> u64) option \<Rightarrow> FilteredSysnum list \<Rightarrow>
     bool \<Rightarrow> 'k \<Rightarrow> (bool \<times> seccomp_statics \<times> 'k) option" where
  "tracee_init P alloc calloc st maps add_filtered_sysnums exclude_libc k =
     (if \<not> calloc then Some (False, st, k)
      else map_option (\<lambda>(status, st, k). (True, st, k))
             (enable_syscall_filtering P alloc st maps add_filtered_sysnums exclude_libc k))"

definition tracee_init_native ::
    "'k prctl \<Rightarrow> (nat \<Rightarrow> bool) \<Rightarrow> bool \<Rightarrow> seccomp_statics \<Rightarrow> (u64 \<times> u64) option \<Rightarrow> u32 \<Rightarrow> FilteredSysnum list \<Rightarrow>
     'k \<Rightarrow> (bool \<times> FilteredSysnum list \<times> seccomp_statics \<times> 'k) option" where
  "tracee_init_native P alloc calloc st maps flags g k = do {
     g \<leftarrow> filtered_funcs flags g;
     (ok, st, k) \<leftarrow> tracee_init P alloc calloc st maps g False k;
     Some (ok, g, st, k)
   }"

section \<open>What is reported\<close>

text \<open>The numbers the flags stand for.\<close>

definition wanted :: "u32 \<Rightarrow> FilteredSysnum list" where
  "wanted flags =
     (if flags AND FILTERED_FUNC_OPEN \<noteq> 0 then [filtered PR_openat 0] else []) @
     (if flags AND FILTERED_FUNC_CLOSE \<noteq> 0 then [filtered PR_close 0] else [])"

lemma filtered_funcs_wanted:
  assumes "length g = 3"
  shows "\<exists>g'. filtered_funcs flags g = Some g' \<and> takeWhile (\<lambda>s. fs_value s \<noteq> PR_void) g' = wanted flags"
proof -
  obtain a b c where "g = [a, b, c]" using assms by (auto simp: length_Suc_conv eval_nat_numeral)
  then show ?thesis
    by (simp add: filtered_funcs_def add_func_def mark_filtered_sysnum_end_def fill_filtered_sysnum_def wanted_def
        filtered_def eval_nat_numeral)
qed

lemma wanted_values: "fs_value ` set (wanted flags) \<subseteq> {PR_openat, PR_close}"
  by (auto simp: wanted_def filtered_def)

lemma wanted_apart: "filter (\<lambda>s. fs_value s \<notin> fs_value ` set (wanted flags)) internal_sysnums = internal_sysnums"
proof -
  have "fs_value s \<notin> {PR_openat, PR_close}" if "s \<in> set internal_sysnums" for s
    using that by (auto simp: internal_sysnums_def filtered_def)
  then show ?thesis using wanted_values [of flags] by (metis (no_types, lifting) filter_True subsetD)
qed

lemma add_internal_wanted:
  assumes "takeWhile (\<lambda>s. fs_value s \<noteq> PR_void) g = wanted flags"
  shows "add_internal_sysnums g = Some (wanted flags @ internal_sysnums)"
proof -
  have "\<not> (\<exists>v \<in> set (map fs_value (wanted flags)). 512 \<le> v)"
    using wanted_values [of flags] by auto
  then show ?thesis using assms wanted_apart [of flags] by (simp add: add_internal_sysnums_def Let_def)
qed

text \<open>What the kernel answers to the filter.\<close>

definition installed :: "'k prctl \<Rightarrow> sock_fprog \<Rightarrow> seccomp_statics \<Rightarrow> 'k \<Rightarrow> int \<times> seccomp_statics \<times> 'k" where
  "installed P prog st k =
     (case set_no_new_privs P k of (s1, k1) \<Rightarrow>
        if s1 < 0 then (s1, st\<lparr>s_exclude_libc := False\<rparr>, k1)
        else case set_seccomp P prog k1 of (s2, k2) \<Rightarrow>
          (if s2 < 0 then s2 else 0, st\<lparr>s_exclude_libc := False\<rparr>, k2))"

text \<open>With memory the filtering goes as far as the calls of the kernel.\<close>

lemma enable_runs:
  assumes "add_internal_sysnums g = Some added" "length added \<le> 10000" "bpf_machine exec"
  shows "\<exists>prog. (\<forall>d. exec (fp_filter prog) d 0 0 = Some (requested added d)) \<and>
    enable_syscall_filtering P (\<lambda>_. True) st maps g False k =
      Some (installed P prog st k)"
proof -
  let ?st = "st\<lparr>s_exclude_libc := False\<rparr>"
  obtain ss where ss: "merge_filtered_sysnums (\<lambda>_. True) [] added = Some (Inr ss)" "length ss \<le> length added"
    using merge_total [of "[]" added] by auto
  then obtain prog where b: "build_filter (\<lambda>_. True) ?st ss = Some (Inr prog)"
    using build_filter_total [of ss ?st] assms(2) by fastforce
  have "exec (fp_filter prog) d 0 0 = Some (requested added d)" for d
    using bpf_machine.exec_filter [OF assms(3) b] merged_verdict [OF ss(1) added_not_void [OF assms(1)]] by simp
  moreover have "enable_syscall_filtering P (\<lambda>_. True) st maps g False k =
      map_option (\<lambda>(status, k). (status, ?st, k)) (set_seccomp_filters P (\<lambda>_. True) ?st ss k)"
    using assms(1) ss(1) by (simp add: enable_syscall_filtering_def Let_def)
  moreover have "set_seccomp_filters P (\<lambda>_. True) ?st ss k =
      Some (case set_no_new_privs P k of (s1, k1) \<Rightarrow>
        if s1 < 0 then (s1, k1) else case set_seccomp P prog k1 of (s2, k2) \<Rightarrow> (if s2 < 0 then s2 else 0, k2))"
    using b by (simp add: set_seccomp_filters_def new_program_filter_def split: prod.split)
  ultimately show ?thesis by (intro exI [of _ prog] conjI allI) (simp_all add: installed_def split: prod.split)
qed

text \<open>
  C16: a process that is prepared for tracing reports exactly the calls its flags stand for
  (\<open>openat\<close>, \<open>close\<close>) and those the tracer needs, in both ABIs, once the kernel takes the filter.
  The answer is true even when the kernel refuses it.
\<close>

theorem tracee_init_reports:
  assumes "bpf_machine exec" "length g = 3"
  shows "\<exists>prog g' st' k'. tracee_init_native P (\<lambda>_. True) True st maps flags g k = Some (True, g', st', k') \<and>
    (\<forall>d. exec (fp_filter prog) d 0 0 = Some (requested (wanted flags @ internal_sysnums) d)) \<and>
    (case set_no_new_privs P k of (s1, k1) \<Rightarrow>
       if s1 < 0 then k' = k1 else k' = snd (set_seccomp P prog k1))"
proof -
  obtain g' where g': "filtered_funcs flags g = Some g'"
      "takeWhile (\<lambda>s. fs_value s \<noteq> PR_void) g' = wanted flags"
    using filtered_funcs_wanted [OF assms(2)] by blast
  have l: "length (wanted flags @ internal_sysnums) \<le> 10000" by (simp add: wanted_def internal_sysnums_def)
  obtain prog where p: "\<forall>d. exec (fp_filter prog) d 0 0 = Some (requested (wanted flags @ internal_sysnums) d)"
      "enable_syscall_filtering P (\<lambda>_. True) st maps g' False k = Some (installed P prog st k)"
    using enable_runs [OF add_internal_wanted [OF g'(2)] l assms(1), of P st maps k] by (elim exE conjE)
  obtain s1 k1 where 1: "set_no_new_privs P k = (s1, k1)" by (metis prod.exhaust)
  obtain s2 k2 where 2: "set_seccomp P prog k1 = (s2, k2)" by (metis prod.exhaust)
  have "tracee_init_native P (\<lambda>_. True) True st maps flags g k =
      Some (True, g', st\<lparr>s_exclude_libc := False\<rparr>, if s1 < 0 then k1 else k2)"
    using p(2) g'(1) 1 2 by (simp add: tracee_init_native_def tracee_init_def installed_def)
  then show ?thesis using p(1) 1 2 by (intro exI [of _ prog]) simp
qed

text \<open>A kernel that keeps the last filter.\<close>

theorem tracee_init_reports_witness:
  "\<exists>prog g' st'. tracee_init_native
      \<lparr>set_no_new_privs = (\<lambda>k. (0, k)), set_seccomp = (\<lambda>p (k :: sock_fprog option). (0, Some p))\<rparr>
      (\<lambda>_. True) True plain_statics None 0x1 (replicate 3 (filtered PR_void 0)) None = Some (True, g', st', Some prog) \<and>
    (\<forall>d. bpf_exec (fp_filter prog) d 0 0 = Some (requested (wanted 0x1 @ internal_sysnums) d))"
  using tracee_init_reports [OF bpf.bpf_machine_axioms, of "replicate 3 (filtered PR_void 0)"
      "\<lparr>set_no_new_privs = (\<lambda>k. (0, k)), set_seccomp = (\<lambda>p (k :: sock_fprog option). (0, Some p))\<rparr>"
      plain_statics None "0x1" None]
  by auto

end
