(* ===== verification/Launch.thy ===== *)
theory Launch
  imports Main
begin

text \<open>
  The hand-over between threads (library.c, cmn/cmn_pthread_cond.c): the thread that asks for a
  process to be traced, the tracing thread, and the thread that forks the helper.  Each is a
  program counter with a step function; the relation \<open>step\<close> interleaves them on the shared
  state.  A step is what a thread does between two points where another one may run.
  One request is followed, from the start of the tracing thread; the threads are created.
\<close>

section \<open>Mutexes and condition variables\<close>

text \<open>A thread is a number; the state is the holder of the mutex and the threads that sleep.\<close>

record PCond_Context =
  holder :: "nat option"
  sleepers :: "nat list"

definition cmn_pt_context_init :: PCond_Context where
  "cmn_pt_context_init = \<lparr>holder = None, sleepers = []\<rparr>"

definition mutex_lock :: "nat \<Rightarrow> PCond_Context \<Rightarrow> PCond_Context option" where
  "mutex_lock i c = (if holder c = None then Some (c\<lparr>holder := Some i\<rparr>) else None)"

definition mutex_unlock :: "PCond_Context \<Rightarrow> PCond_Context" where
  "mutex_unlock c = c\<lparr>holder := None\<rparr>"

text \<open>
  \<open>pthread_cond_wait\<close> releases the mutex and falls asleep in one step; a thread that was woken
  takes the mutex again before it goes on.
\<close>

definition cond_sleep :: "nat \<Rightarrow> PCond_Context \<Rightarrow> PCond_Context" where
  "cond_sleep i c = c\<lparr>holder := None, sleepers := sleepers c @ [i]\<rparr>"

definition cond_resume :: "nat \<Rightarrow> PCond_Context \<Rightarrow> PCond_Context option" where
  "cond_resume i c = (if i \<in> set (sleepers c) then None else mutex_lock i c)"

definition cmn_pt_signal :: "PCond_Context \<Rightarrow> PCond_Context" where
  "cmn_pt_signal c = c\<lparr>sleepers := tl (sleepers c)\<rparr>"

definition cmn_pt_broadcast :: "PCond_Context \<Rightarrow> PCond_Context" where
  "cmn_pt_broadcast c = c\<lparr>sleepers := []\<rparr>"

text \<open>The steps of the functions that wait and signal; \<open>Finished\<close> is behind their return.\<close>

datatype Pt = Locking | Checking | Sleeping | Signalling | Unlocking | Finished

fun cmn_pt_wait2 :: "nat \<Rightarrow> bool \<Rightarrow> Pt \<Rightarrow> PCond_Context \<Rightarrow> (Pt \<times> PCond_Context) option" where
  "cmn_pt_wait2 i check Locking c = map_option (Pair Checking) (mutex_lock i c)"
| "cmn_pt_wait2 i check Checking c = Some (if check then (Sleeping, cond_sleep i c) else (Unlocking, c))"
| "cmn_pt_wait2 i check Sleeping c = map_option (Pair Unlocking) (cond_resume i c)"
| "cmn_pt_wait2 i check Unlocking c = Some (Finished, mutex_unlock c)"
| "cmn_pt_wait2 i check _ c = None"

definition cmn_pt_wait :: "nat \<Rightarrow> Pt \<Rightarrow> PCond_Context \<Rightarrow> (Pt \<times> PCond_Context) option" where
  "cmn_pt_wait i = cmn_pt_wait2 i True"

text \<open>The function \<open>check\<close> may change a state.\<close>

fun cmn_pt_signal2 ::
    "nat \<Rightarrow> ('g \<Rightarrow> bool \<times> 'g) \<Rightarrow> Pt \<Rightarrow> PCond_Context \<Rightarrow> 'g \<Rightarrow> (Pt \<times> PCond_Context \<times> 'g) option" where
  "cmn_pt_signal2 i check Locking c g = map_option (\<lambda>c. (Checking, c, g)) (mutex_lock i c)"
| "cmn_pt_signal2 i check Checking c g =
     (case check g of (b, g) \<Rightarrow> Some (if b then Signalling else Unlocking, c, g))"
| "cmn_pt_signal2 i check Signalling c g = Some (Unlocking, cmn_pt_signal c, g)"
| "cmn_pt_signal2 i check Unlocking c g = Some (Finished, mutex_unlock c, g)"
| "cmn_pt_signal2 i check _ c g = None"

section \<open>Threads\<close>

datatype Launcher = Test_work | Wait_work Pt | Ask | Create | Join | Returned

datatype Worker = Signal_launch Pt | Event_loop | Attached | Attach_reset

datatype Internal = Not_created | Fork | Wait_new Pt | Reset | Exited

text \<open>
  The globals of library.c, the threads, the helper processes that exited and were not waited
  for, and the processes the tracer attached.
\<close>

record Launch =
  s_work_launch_sync :: PCond_Context
  spctx :: PCond_Context
  s_work_thread_doing :: bool
  snew_attach_pid :: int
  launcher :: Launcher
  worker :: Worker
  internal :: Internal
  helpers :: nat
  attached :: "int list"

definition need_signal_launch :: "bool \<Rightarrow> bool \<times> bool" where
  "need_signal_launch doing = (True, True)"

definition need_wait_work :: "bool \<Rightarrow> bool" where
  "need_wait_work doing \<longleftrightarrow> \<not> doing"

text \<open>\<open>tracer_init\<close>, with the call of \<open>trace_new_pid\<close> behind it: the threads start.\<close>

definition tracer_init :: Launch where
  "tracer_init = \<lparr>s_work_launch_sync = cmn_pt_context_init, spctx = cmn_pt_context_init,
     s_work_thread_doing = False, snew_attach_pid = -1, launcher = Test_work,
     worker = Signal_launch Locking, internal = Not_created, helpers = 0, attached = []\<rparr>"

text \<open>\<open>trace_new_pid\<close>, in thread 0.\<close>

fun trace_new_pid :: "int \<Rightarrow> Launcher \<Rightarrow> Launch \<Rightarrow> Launch option" where
  "trace_new_pid pid Test_work s =
     Some (s\<lparr>launcher := (if \<not> s_work_thread_doing s then Wait_work Locking else Ask)\<rparr>)"
| "trace_new_pid pid (Wait_work pc) s =
     map_option (\<lambda>(pc, c). s\<lparr>s_work_launch_sync := c,
                             launcher := (if pc = Finished then Ask else Wait_work pc)\<rparr>)
       (cmn_pt_wait2 0 (need_wait_work (s_work_thread_doing s)) pc (s_work_launch_sync s))"
| "trace_new_pid pid Ask s = Some (s\<lparr>snew_attach_pid := pid, launcher := Create\<rparr>)"
| "trace_new_pid pid Create s = Some (s\<lparr>internal := Fork, launcher := Join\<rparr>)"
| "trace_new_pid pid Join s = (if internal s = Exited then Some (s\<lparr>launcher := Returned\<rparr>) else None)"
| "trace_new_pid pid Returned s = None"

text \<open>
  \<open>work_main\<close>, in thread 1, with the part of the event loop that handles the exit of a helper;
  \<open>attach\<close> tells whether \<open>PTRACE_ATTACH\<close> succeeds and there is memory for a tracee.
\<close>

fun work_main :: "(int \<Rightarrow> bool) \<Rightarrow> Worker \<Rightarrow> Launch \<Rightarrow> Launch option" where
  "work_main attach (Signal_launch pc) s =
     map_option (\<lambda>(pc, c, doing). s\<lparr>s_work_launch_sync := c, s_work_thread_doing := doing,
                                    worker := (if pc = Finished then Event_loop else Signal_launch pc)\<rparr>)
       (cmn_pt_signal2 1 need_signal_launch pc (s_work_launch_sync s) (s_work_thread_doing s))"
| "work_main attach Event_loop s =
     (if helpers s = 0 then None
      else Some (if snew_attach_pid s \<noteq> -1 \<and> attach (snew_attach_pid s)
                 then s\<lparr>helpers := helpers s - 1, attached := snew_attach_pid s # attached s,
                        worker := Attached\<rparr>
                 else s\<lparr>helpers := helpers s - 1\<rparr>))"
| "work_main attach Attached s = Some (s\<lparr>spctx := cmn_pt_signal (spctx s), worker := Attach_reset\<rparr>)"
| "work_main attach Attach_reset s = Some (s\<lparr>snew_attach_pid := -1, worker := Event_loop\<rparr>)"

text \<open>\<open>trace_new_pid_internal\<close>, in thread 2; \<open>fork\<close> tells whether the fork succeeds.\<close>

fun trace_new_pid_internal :: "bool \<Rightarrow> Internal \<Rightarrow> Launch \<Rightarrow> Launch option" where
  "trace_new_pid_internal fork Not_created s = None"
| "trace_new_pid_internal fork Fork s =
     Some (if fork then s\<lparr>helpers := helpers s + 1, internal := Wait_new Locking\<rparr>
           else s\<lparr>internal := Reset\<rparr>)"
| "trace_new_pid_internal fork (Wait_new pc) s =
     map_option (\<lambda>(pc, c). s\<lparr>spctx := c, internal := (if pc = Finished then Reset else Wait_new pc)\<rparr>)
       (cmn_pt_wait 2 pc (spctx s))"
| "trace_new_pid_internal fork Reset s = Some (s\<lparr>snew_attach_pid := -1, internal := Exited\<rparr>)"
| "trace_new_pid_internal fork Exited s = None"

section \<open>Interleaving\<close>

definition thread_step :: "int \<Rightarrow> (int \<Rightarrow> bool) \<Rightarrow> bool \<Rightarrow> nat \<Rightarrow> Launch \<Rightarrow> Launch option" where
  "thread_step pid attach fork i s =
     (if i = 0 then trace_new_pid pid (launcher s) s
      else if i = 1 then work_main attach (worker s) s
      else trace_new_pid_internal fork (internal s) s)"

text \<open>
  A condition variable may also wake its threads without a signal (\<open>spurious\<close>), as POSIX allows.
\<close>

inductive step :: "int \<Rightarrow> (int \<Rightarrow> bool) \<Rightarrow> bool \<Rightarrow> bool \<Rightarrow> Launch \<Rightarrow> Launch \<Rightarrow> bool"
  for pid attach fork spurious where
  thread: "thread_step pid attach fork i s = Some s' \<Longrightarrow> step pid attach fork spurious s s'"
| wake_launch: "spurious \<Longrightarrow> sleepers (s_work_launch_sync s) \<noteq> [] \<Longrightarrow> step pid attach fork spurious s
    (s\<lparr>s_work_launch_sync := cmn_pt_broadcast (s_work_launch_sync s)\<rparr>)"
| wake_new: "spurious \<Longrightarrow> sleepers (spctx s) \<noteq> [] \<Longrightarrow> step pid attach fork spurious s
    (s\<lparr>spctx := cmn_pt_broadcast (spctx s)\<rparr>)"

abbreviation steps :: "int \<Rightarrow> (int \<Rightarrow> bool) \<Rightarrow> bool \<Rightarrow> bool \<Rightarrow> Launch \<Rightarrow> Launch \<Rightarrow> bool" where
  "steps pid attach fork spurious \<equiv> (step pid attach fork spurious)\<^sup>*\<^sup>*"

inductive_simps step_without_spurious: "step pid attach fork False s s'"

text \<open>A schedule: the threads in the order of their steps.\<close>

fun run_schedule :: "int \<Rightarrow> (int \<Rightarrow> bool) \<Rightarrow> bool \<Rightarrow> nat list \<Rightarrow> Launch \<Rightarrow> Launch option" where
  "run_schedule pid attach fork [] s = Some s"
| "run_schedule pid attach fork (i # is) s =
     (case thread_step pid attach fork i s of None \<Rightarrow> None | Some s \<Rightarrow> run_schedule pid attach fork is s)"

lemma run_schedule_steps: "run_schedule pid attach fork is s = Some s' \<Longrightarrow> steps pid attach fork spurious s s'"
  by (induction "is" arbitrary: s)
    (auto split: option.splits intro: converse_rtranclp_into_rtranclp step.thread)

section \<open>The first hand-over\<close>

text \<open>
  What holds in every state without spurious wake-ups.  Who holds the mutex, and whether the flag
  is set, can be read off the program counters; the launching thread sleeps only while the tracing
  thread has still to signal; the other threads start behind the hand-over.
\<close>

fun launcher_holds :: "Launcher \<Rightarrow> bool" where
  "launcher_holds (Wait_work Checking) = True"
| "launcher_holds (Wait_work Unlocking) = True"
| "launcher_holds _ = False"

fun launcher_before :: "Launcher \<Rightarrow> bool" where
  "launcher_before Test_work = True"
| "launcher_before (Wait_work pc) = (pc = Locking \<or> pc = Checking)"
| "launcher_before _ = False"

fun worker_holds :: "Worker \<Rightarrow> bool" where
  "worker_holds (Signal_launch pc) = (pc = Checking \<or> pc = Signalling \<or> pc = Unlocking)"
| "worker_holds _ = False"

fun flag_set :: "Worker \<Rightarrow> bool" where
  "flag_set (Signal_launch pc) = (pc = Signalling \<or> pc = Unlocking)"
| "flag_set _ = True"

fun signalled :: "Worker \<Rightarrow> bool" where
  "signalled (Signal_launch pc) = (pc = Unlocking)"
| "signalled _ = True"

fun serves :: "Worker \<Rightarrow> bool" where
  "serves (Signal_launch pc) = False"
| "serves Event_loop = False"
| "serves _ = True"

definition mutex_ok :: "Launch \<Rightarrow> bool" where
  "mutex_ok s \<longleftrightarrow> holder (s_work_launch_sync s) =
     (if launcher_holds (launcher s) then Some 0 else if worker_holds (worker s) then Some 1 else None) \<and>
     \<not> (launcher_holds (launcher s) \<and> worker_holds (worker s))"

definition sleep_ok :: "Launch \<Rightarrow> bool" where
  "sleep_ok s \<longleftrightarrow> s_work_thread_doing s = flag_set (worker s) \<and>
     (sleepers (s_work_launch_sync s) = [] \<and> (launcher_before (launcher s) \<or> flag_set (worker s)) \<or>
      sleepers (s_work_launch_sync s) = [0] \<and> launcher s = Wait_work Sleeping \<and> \<not> signalled (worker s))"

definition idle_ok :: "Launch \<Rightarrow> bool" where
  "idle_ok s \<longleftrightarrow> (internal s = Not_created \<longleftrightarrow> launcher s \<noteq> Join \<and> launcher s \<noteq> Returned) \<and>
     (internal s = Not_created \<longrightarrow> helpers s = 0 \<and> \<not> serves (worker s)) \<and>
     (\<forall>pc. worker s = Signal_launch pc \<longrightarrow> pc \<noteq> Sleeping \<and> pc \<noteq> Finished) \<and>
     (\<forall>pc. launcher s = Wait_work pc \<longrightarrow> pc \<noteq> Signalling \<and> pc \<noteq> Finished)"

definition launch_ok :: "Launch \<Rightarrow> bool" where
  "launch_ok s \<longleftrightarrow> mutex_ok s \<and> sleep_ok s \<and> idle_ok s"

lemmas launch_ok_defs = launch_ok_def mutex_ok_def sleep_ok_def idle_ok_def

lemma signalled_set: "signalled w \<Longrightarrow> flag_set w"
  by (cases w) auto

lemmas pt_simps = mutex_lock_def mutex_unlock_def cond_sleep_def cond_resume_def cmn_pt_signal_def cmn_pt_wait_def
  need_wait_work_def need_signal_launch_def

lemma launch_ok_init: "launch_ok tracer_init"
  by (simp add: launch_ok_defs tracer_init_def cmn_pt_context_init_def)

lemma not_signalled: "\<not> flag_set w \<Longrightarrow> \<not> signalled w"
  using signalled_set by blast

text \<open>The steps of the waiting functions, one by one.\<close>

lemma trace_new_pid_Wait:
  "trace_new_pid pid (Wait_work Locking) s = Some s' \<longleftrightarrow> holder (s_work_launch_sync s) = None \<and>
     s' = s\<lparr>s_work_launch_sync := (s_work_launch_sync s)\<lparr>holder := Some 0\<rparr>, launcher := Wait_work Checking\<rparr>"
  "trace_new_pid pid (Wait_work Checking) s = Some s' \<longleftrightarrow>
     s' = (if s_work_thread_doing s then s\<lparr>launcher := Wait_work Unlocking\<rparr>
           else s\<lparr>s_work_launch_sync := cond_sleep 0 (s_work_launch_sync s), launcher := Wait_work Sleeping\<rparr>)"
  "trace_new_pid pid (Wait_work Sleeping) s = Some s' \<longleftrightarrow>
     0 \<notin> set (sleepers (s_work_launch_sync s)) \<and> holder (s_work_launch_sync s) = None \<and>
     s' = s\<lparr>s_work_launch_sync := (s_work_launch_sync s)\<lparr>holder := Some 0\<rparr>, launcher := Wait_work Unlocking\<rparr>"
  "trace_new_pid pid (Wait_work Unlocking) s = Some s' \<longleftrightarrow>
     s' = s\<lparr>s_work_launch_sync := (s_work_launch_sync s)\<lparr>holder := None\<rparr>, launcher := Ask\<rparr>"
  by (auto simp: pt_simps)

lemma work_main_Signal:
  "work_main attach (Signal_launch Locking) s = Some s' \<longleftrightarrow> holder (s_work_launch_sync s) = None \<and>
     s' = s\<lparr>s_work_launch_sync := (s_work_launch_sync s)\<lparr>holder := Some 1\<rparr>, worker := Signal_launch Checking\<rparr>"
  "work_main attach (Signal_launch Checking) s = Some s' \<longleftrightarrow>
     s' = s\<lparr>s_work_thread_doing := True, worker := Signal_launch Signalling\<rparr>"
  "work_main attach (Signal_launch Signalling) s = Some s' \<longleftrightarrow>
     s' = s\<lparr>s_work_launch_sync := cmn_pt_signal (s_work_launch_sync s), worker := Signal_launch Unlocking\<rparr>"
  "work_main attach (Signal_launch Unlocking) s = Some s' \<longleftrightarrow>
     s' = s\<lparr>s_work_launch_sync := (s_work_launch_sync s)\<lparr>holder := None\<rparr>, worker := Event_loop\<rparr>"
  by (auto simp: pt_simps)

declare trace_new_pid.simps(2) [simp del] work_main.simps(1) [simp del]

lemma internal_frame:
  assumes "trace_new_pid_internal fork (internal s) s = Some s'"
  shows "s_work_launch_sync s' = s_work_launch_sync s \<and> s_work_thread_doing s' = s_work_thread_doing s \<and>
    launcher s' = launcher s \<and> worker s' = worker s \<and> internal s \<noteq> Not_created \<and> internal s' \<noteq> Not_created"
proof (cases "internal s")
  case (Wait_new pc)
  obtain r where "cmn_pt_wait 2 pc (spctx s) = Some r" using assms Wait_new by auto
  then show ?thesis using assms Wait_new by (cases r) (auto split: if_split_asm)
qed (use assms in \<open>auto split: if_split_asm\<close>)

lemma launch_ok_launcher:
  assumes "launch_ok s" "trace_new_pid pid (launcher s) s = Some s'"
  shows "launch_ok s'"
proof (cases "launcher s")
  case (Wait_work pc)
  show ?thesis
    using assms(2)
  proof (cases pc)
    case Locking
    then show ?thesis using assms
      by (auto simp: Wait_work trace_new_pid_Wait launch_ok_defs split: if_split_asm)
  next
    case Checking
    then show ?thesis using assms
      by (simp add: Wait_work trace_new_pid_Wait launch_ok_defs cond_sleep_def not_signalled split: if_split_asm)
  next
    case Sleeping
    then show ?thesis using assms
      by (auto simp: Wait_work trace_new_pid_Wait launch_ok_defs split: if_split_asm)
  next
    case Unlocking
    then show ?thesis using assms by (simp add: Wait_work trace_new_pid_Wait launch_ok_defs)
  qed (use assms in \<open>simp_all add: Wait_work launch_ok_defs\<close>)
qed (use assms(1) assms(2) [symmetric] in \<open>simp_all add: launch_ok_defs split: if_split_asm\<close>)

lemma launch_ok_worker:
  assumes "launch_ok s" "work_main attach (worker s) s = Some s'"
  shows "launch_ok s'"
proof (cases "worker s")
  case (Signal_launch pc)
  show ?thesis
    using assms(2)
  proof (cases pc)
    case Signalling
    then show ?thesis using assms
      by (auto simp add: Signal_launch work_main_Signal launch_ok_defs cmn_pt_signal_def split: if_split_asm)
  qed (use assms in \<open>auto simp: Signal_launch work_main_Signal launch_ok_defs split: if_split_asm\<close>)
qed (use assms(1) assms(2) [symmetric] in \<open>auto simp: launch_ok_defs split: if_split_asm\<close>)

lemma launch_ok_internal:
  assumes "launch_ok s" "trace_new_pid_internal fork (internal s) s = Some s'"
  shows "launch_ok s'"
proof -
  note f = internal_frame [OF assms(2)]
  have "mutex_ok s'" using assms(1) f by (simp add: launch_ok_def mutex_ok_def)
  moreover have "sleep_ok s'" using assms(1) f by (simp add: launch_ok_def sleep_ok_def)
  moreover have "idle_ok s'"
  proof -
    have "launcher s = Join \<or> launcher s = Returned" using assms(1) f by (auto simp: launch_ok_def idle_ok_def)
    then show ?thesis using assms(1) f by (auto simp: launch_ok_def idle_ok_def)
  qed
  ultimately show ?thesis by (simp add: launch_ok_def)
qed

lemma launch_ok_step: "launch_ok s \<Longrightarrow> thread_step pid attach fork i s = Some s' \<Longrightarrow> launch_ok s'"
  using launch_ok_launcher [of s pid s'] launch_ok_worker [of s attach s'] launch_ok_internal [of s fork s']
  by (simp add: thread_step_def split: if_split_asm)

lemma launch_ok_reachable: "steps pid attach fork False tracer_init s \<Longrightarrow> launch_ok s"
proof (induction rule: rtranclp_induct)
  case (step s s')
  then obtain i where "thread_step pid attach fork i s = Some s'" unfolding step_without_spurious by blast
  then show ?case using step.IH launch_ok_step by blast
qed (rule launch_ok_init)

text \<open>The steps left until the launching thread is behind the hand-over.\<close>

fun launcher_rank :: "Launcher \<Rightarrow> nat" where
  "launcher_rank Test_work = 6"
| "launcher_rank (Wait_work Locking) = 5"
| "launcher_rank (Wait_work Checking) = 4"
| "launcher_rank (Wait_work Sleeping) = 3"
| "launcher_rank (Wait_work _) = 2"
| "launcher_rank _ = 0"

fun worker_rank :: "Worker \<Rightarrow> nat" where
  "worker_rank (Signal_launch Locking) = 4"
| "worker_rank (Signal_launch Checking) = 3"
| "worker_rank (Signal_launch Signalling) = 2"
| "worker_rank (Signal_launch _) = 1"
| "worker_rank _ = 0"

definition launching :: "Launch \<Rightarrow> bool" where
  "launching s \<longleftrightarrow> launcher s = Test_work \<or> (\<exists>pc. launcher s = Wait_work pc)"

definition launch_rank :: "Launch \<Rightarrow> nat" where
  "launch_rank s = launcher_rank (launcher s) + worker_rank (worker s)"

lemma launching_idle:
  assumes "launch_ok s" "launching s"
  shows "internal s = Not_created" "helpers s = 0" "\<exists>pc. worker s = Signal_launch pc \<and> pc \<noteq> Finished \<and> pc \<noteq> Sleeping \<or> worker s = Event_loop"
proof -
  show "internal s = Not_created" using assms by (auto simp: launch_ok_def idle_ok_def launching_def)
  then show "helpers s = 0" using assms by (simp add: launch_ok_def idle_ok_def)
  show "\<exists>pc. worker s = Signal_launch pc \<and> pc \<noteq> Finished \<and> pc \<noteq> Sleeping \<or> worker s = Event_loop"
    using assms \<open>internal s = Not_created\<close> by (cases "worker s") (auto simp: launch_ok_def idle_ok_def)
qed

lemma launcher_rank_less:
  assumes "launching s" "trace_new_pid pid (launcher s) s = Some s'"
  shows "launcher_rank (launcher s') < launcher_rank (launcher s) \<and> worker s' = worker s"
proof (cases "launcher s")
  case (Wait_work pc)
  then show ?thesis using assms(2)
    by (cases pc) (auto simp: trace_new_pid_Wait trace_new_pid.simps(2) split: if_split_asm)
qed (use assms(1) assms(2) [symmetric] in \<open>auto simp: launching_def\<close>)

lemma worker_rank_less:
  assumes "worker s = Signal_launch pc" "work_main attach (worker s) s = Some s'"
  shows "worker_rank (worker s') < worker_rank (worker s) \<and> launcher s' = launcher s"
proof -
  have "work_main attach (Signal_launch Sleeping) s = None" "work_main attach (Signal_launch Finished) s = None"
    by (simp_all add: work_main.simps(1))
  then show ?thesis using assms by (cases pc) (auto simp: work_main_Signal)
qed

lemma rank_decreases:
  assumes ok: "launch_ok s" and l: "launching s" and s: "step pid attach fork False s s'"
  shows "launch_rank s' < launch_rank s"
proof -
  obtain i where i: "thread_step pid attach fork i s = Some s'" using s unfolding step_without_spurious by blast
  consider "trace_new_pid pid (launcher s) s = Some s'" | "work_main attach (worker s) s = Some s'"
    | "trace_new_pid_internal fork (internal s) s = Some s'"
    using i by (auto simp: thread_step_def split: if_split_asm)
  then show ?thesis
  proof cases
    case 1
    then show ?thesis using launcher_rank_less [OF l] by (simp add: launch_rank_def)
  next
    case 2
    then obtain pc where "worker s = Signal_launch pc"
      using launching_idle [OF ok l] by auto
    then show ?thesis using worker_rank_less [OF _ 2] by (simp add: launch_rank_def)
  next
    case 3
    then show ?thesis using launching_idle(1) [OF ok l] by simp
  qed
qed

lemma worker_goes_on:
  assumes "worker s = Signal_launch pc" "pc \<noteq> Finished" "pc \<noteq> Sleeping"
    "pc = Locking \<Longrightarrow> holder (s_work_launch_sync s) = None"
  shows "\<exists>s'. work_main attach (worker s) s = Some s'"
  using assms by (cases pc) (auto simp: work_main_Signal)

lemma launch_progress:
  assumes ok: "launch_ok s" and l: "launching s"
  shows "\<exists>s'. step pid attach fork False s s'"
proof -
  have "(\<exists>s'. trace_new_pid pid (launcher s) s = Some s') \<or> (\<exists>s'. work_main attach (worker s) s = Some s')"
  proof (cases "worker_holds (worker s)")
    case True
    then obtain pc where "worker s = Signal_launch pc" "pc = Checking \<or> pc = Signalling \<or> pc = Unlocking"
      by (cases "worker s") auto
    then show ?thesis using worker_goes_on [of s pc] by auto
  next
    case free: False
    show ?thesis
    proof (cases "launcher s")
      case (Wait_work pc)
      show ?thesis
      proof (cases pc)
        case Sleeping
        then have h: "holder (s_work_launch_sync s) = None"
          using ok free Wait_work by (simp add: launch_ok_def mutex_ok_def)
        show ?thesis
        proof (cases "sleepers (s_work_launch_sync s) = []")
          case True
          then show ?thesis using h Wait_work Sleeping by (auto simp: trace_new_pid_Wait)
        next
          case False
          then have "\<not> signalled (worker s)" using ok by (simp add: launch_ok_def sleep_ok_def)
          then obtain pc where "worker s = Signal_launch pc" "pc \<noteq> Finished" "pc \<noteq> Sleeping"
            using launching_idle(3) [OF ok l] by auto
          then show ?thesis using worker_goes_on [of s pc] h by auto
        qed
      qed (use ok free Wait_work in \<open>auto simp: trace_new_pid_Wait launch_ok_def mutex_ok_def idle_ok_def\<close>)
    qed (use l in \<open>auto simp: launching_def\<close>)
  qed
  moreover have "thread_step pid attach fork 0 s = trace_new_pid pid (launcher s) s"
    "thread_step pid attach fork 1 s = work_main attach (worker s) s" by (simp_all add: thread_step_def)
  ultimately show ?thesis using step.thread by metis
qed

text \<open>
  C13: the first hand-over loses no wake-up.  Without spurious wake-ups, the launching thread goes
  on only when the tracing thread works; as long as it has not, some thread can make a step, and
  every step brings it closer: under any schedule it is behind the hand-over after ten steps at
  most.
\<close>

theorem launch_no_lost_wakeup:
  assumes "steps pid attach fork False tracer_init s"
  shows "(\<not> launching s \<longrightarrow> s_work_thread_doing s) \<and>
    (launching s \<longrightarrow> (\<exists>s'. step pid attach fork False s s') \<and>
      (\<forall>s'. step pid attach fork False s s' \<longrightarrow> launch_rank s' < launch_rank s)) \<and>
    launch_rank tracer_init = 10"
proof -
  have ok: "launch_ok s" using assms by (rule launch_ok_reachable)
  have "\<not> launcher_before (launcher s)" if "\<not> launching s"
    using that by (cases "launcher s") (auto simp: launching_def)
  then have "\<not> launching s \<longrightarrow> s_work_thread_doing s"
    using ok by (auto simp: launch_ok_def sleep_ok_def launching_def)
  then show ?thesis
    using launch_progress [OF ok] rank_decreases [OF ok] by (auto simp: launch_rank_def tracer_init_def)
qed

theorem launch_no_lost_wakeup_witness: "\<exists>s'. step 7 (\<lambda>_. True) True False tracer_init s'"
  using launch_no_lost_wakeup [of 7 "\<lambda>_. True" True tracer_init] by (simp add: launching_def tracer_init_def)

section \<open>The second hand-over\<close>

text \<open>Without an attached process nothing signals, and the second thread does not get behind its wait.\<close>

definition unsignalled :: "Launch \<Rightarrow> bool" where
  "unsignalled s \<longleftrightarrow> worker s \<noteq> Attached \<and> launcher s \<noteq> Returned \<and>
     (internal s \<in> {Not_created, Fork, Wait_new Locking, Wait_new Checking} \<or>
      internal s = Wait_new Sleeping \<and> 2 \<in> set (sleepers (spctx s)))"

lemma unsignalled_step:
  assumes "unsignalled s" "thread_step pid (\<lambda>_. False) fork i s = Some s'"
  shows "fork \<longrightarrow> unsignalled s'"
proof -
  consider "trace_new_pid pid (launcher s) s = Some s'" | "work_main (\<lambda>_. False) (worker s) s = Some s'"
    | "trace_new_pid_internal fork (internal s) s = Some s'"
    using assms(2) by (auto simp: thread_step_def split: if_split_asm)
  then show ?thesis
  proof cases
    case 1
    have "worker s' = worker s \<and> spctx s' = spctx s \<and> launcher s' \<noteq> Returned \<and>
        (internal s' = internal s \<or> internal s' = Fork)"
    proof (cases "launcher s")
      case (Wait_work pc)
      then show ?thesis using 1 by (auto simp: trace_new_pid.simps(2) split: if_split_asm)
    qed (use 1 [symmetric] assms(1) in \<open>auto simp: unsignalled_def split: if_split_asm\<close>)
    then show ?thesis using assms(1) by (auto simp: unsignalled_def)
  next
    case 2
    have "worker s' \<noteq> Attached \<and> spctx s' = spctx s \<and> launcher s' = launcher s \<and> internal s' = internal s"
    proof (cases "worker s")
      case (Signal_launch pc)
      then show ?thesis using 2 by (auto simp: work_main.simps(1) split: if_split_asm)
    qed (use 2 [symmetric] assms(1) in \<open>auto simp: unsignalled_def split: if_split_asm\<close>)
    then show ?thesis using assms(1) by (auto simp: unsignalled_def)
  next
    case 3
    show ?thesis
    proof (cases "internal s")
      case (Wait_new pc)
      then show ?thesis using 3 assms(1)
        by (cases pc) (auto simp: unsignalled_def cmn_pt_wait_def pt_simps split: if_split_asm)
    qed (use 3 [symmetric] assms(1) in \<open>auto simp: unsignalled_def\<close>)
  qed
qed

lemma unsignalled_reachable: "steps pid (\<lambda>_. False) True False tracer_init s \<Longrightarrow> unsignalled s"
proof (induction rule: rtranclp_induct)
  case base
  show ?case by (simp add: unsignalled_def tracer_init_def)
next
  case (step s s')
  then obtain i where "thread_step pid (\<lambda>_. False) True i s = Some s'" unfolding step_without_spurious by blast
  then show ?case using step.IH unsignalled_step by blast
qed

text \<open>
  The signal may also come before the wait: the tracing thread has attached the process, and
  every later wait sleeps for ever.
\<close>

definition overtaken :: "Launch \<Rightarrow> bool" where
  "overtaken s \<longleftrightarrow> launcher s = Join \<and> (worker s = Event_loop \<or> worker s = Attach_reset) \<and> helpers s = 0 \<and>
     (internal s = Wait_new Locking \<or> internal s = Wait_new Checking \<or>
      internal s = Wait_new Sleeping \<and> 2 \<in> set (sleepers (spctx s)))"

lemma overtaken_step: "overtaken s \<Longrightarrow> step pid attach fork False s s' \<Longrightarrow> overtaken s'"
  by (auto simp: overtaken_def step_without_spurious thread_step_def pt_simps split: if_split_asm)

lemma overtaken_stays: "steps pid attach fork False s s' \<Longrightarrow> overtaken s \<Longrightarrow> overtaken s'"
  by (induction rule: rtranclp_induct) (auto intro: overtaken_step)

text \<open>The tracing thread has signalled, and the helper thread has not started to sleep.\<close>

definition signalled_before_wait :: "Launch \<Rightarrow> bool" where
  "signalled_before_wait s \<longleftrightarrow> attached s \<noteq> [] \<and> worker s \<noteq> Attached \<and>
     (internal s = Wait_new Locking \<or> internal s = Wait_new Checking)"

text \<open>There is one helper process at most, and it is there before a process is attached.\<close>

definition hand_ok :: "Launch \<Rightarrow> bool" where
  "hand_ok s \<longleftrightarrow> (launcher s = Returned \<longrightarrow> internal s = Exited) \<and>
     (launcher s \<noteq> Join \<and> launcher s \<noteq> Returned \<longrightarrow> internal s = Not_created) \<and>
     (internal s = Not_created \<or> internal s = Fork \<longrightarrow> helpers s = 0 \<and> attached s = []) \<and>
     helpers s + length (attached s) \<le> 1 \<and>
     (attached s \<noteq> [] \<longrightarrow> (\<forall>pc. worker s \<noteq> Signal_launch pc))"

lemma hand_ok_step: "hand_ok s \<Longrightarrow> thread_step pid attach fork i s = Some s' \<Longrightarrow> hand_ok s'"
proof -
  assume ok: "hand_ok s" and "thread_step pid attach fork i s = Some s'"
  then consider "trace_new_pid pid (launcher s) s = Some s'" | "work_main attach (worker s) s = Some s'"
    | "trace_new_pid_internal fork (internal s) s = Some s'"
    by (auto simp: thread_step_def split: if_split_asm)
  then show "hand_ok s'"
  proof cases
    case 1
    have "worker s' = worker s \<and> helpers s' = helpers s \<and> attached s' = attached s \<and>
        (launcher s \<noteq> Join \<and> launcher s \<noteq> Returned \<and>
           (internal s' = internal s \<and> launcher s' \<noteq> Join \<and> launcher s' \<noteq> Returned \<or>
            internal s' = Fork \<and> launcher s' = Join) \<or>
         internal s = Exited \<and> internal s' = Exited \<and> launcher s' = Returned)"
    proof (cases "launcher s")
      case (Wait_work pc)
      then show ?thesis using 1 by (auto simp: trace_new_pid.simps(2) split: if_split_asm)
    qed (use 1 [symmetric] in \<open>auto split: if_split_asm\<close>)
    then show ?thesis using ok unfolding hand_ok_def by auto
  next
    case 2
    show ?thesis
    proof (cases "worker s")
      case (Signal_launch pc)
      have "launcher s' = launcher s \<and> internal s' = internal s \<and> helpers s' = helpers s \<and> attached s' = attached s"
        using 2 Signal_launch by (auto simp: work_main.simps(1) split: if_split_asm)
      moreover have "attached s = []" using ok Signal_launch by (auto simp: hand_ok_def)
      ultimately show ?thesis using ok by (simp add: hand_ok_def)
    next
      case Event_loop
      then have "launcher s' = launcher s \<and> internal s' = internal s \<and> 0 < helpers s \<and>
          (\<forall>pc. worker s' \<noteq> Signal_launch pc) \<and> helpers s' = helpers s - 1 \<and>
          length (attached s') \<le> length (attached s) + 1"
        using 2 [symmetric] by (auto split: if_split_asm)
      then show ?thesis using ok by (simp add: hand_ok_def)
    qed (use 2 [symmetric] ok in \<open>simp_all add: hand_ok_def\<close>)
  next
    case 3
    show ?thesis
    proof (cases "internal s")
      case (Wait_new pc)
      then obtain pc' c where "s' = s\<lparr>spctx := c, internal := (if pc' = Finished then Reset else Wait_new pc')\<rparr>"
        using 3 by auto
      then show ?thesis using ok Wait_new unfolding hand_ok_def by auto
    qed (use 3 [symmetric] ok in \<open>auto simp: hand_ok_def split: if_split_asm\<close>)
  qed
qed

lemma hand_ok_reachable: "steps pid attach fork False tracer_init s \<Longrightarrow> hand_ok s"
proof (induction rule: rtranclp_induct)
  case base
  show ?case by (simp add: hand_ok_def tracer_init_def)
next
  case (step s s')
  then show ?case unfolding step_without_spurious using hand_ok_step by blast
qed

lemma signalled_overtaken: "hand_ok s \<Longrightarrow> signalled_before_wait s \<Longrightarrow> overtaken s"
  by (cases "worker s"; cases "attached s")
    (auto simp: hand_ok_def signalled_before_wait_def overtaken_def)

text \<open>Three schedules: all of it goes well, the signal overtakes the wait, and a spurious wake-up.\<close>

definition good_schedule :: "nat list" where
  "good_schedule = [1, 1, 1, 1, 0, 0, 0, 2, 2, 2, 1, 1, 2, 2, 1, 2, 0]"

definition overtaking_schedule :: "nat list" where
  "overtaking_schedule = [1, 1, 1, 1, 0, 0, 0, 2, 1, 1, 1]"

lemmas schedule_simps = tracer_init_def thread_step_def work_main.simps(1) trace_new_pid.simps(2)
  pt_simps cmn_pt_context_init_def

lemma good_schedule_returns:
  assumes "pid \<noteq> -1" "attach pid"
  shows "\<exists>s. run_schedule pid attach True good_schedule tracer_init = Some s \<and>
     launcher s = Returned \<and> attached s = [pid] \<and> snew_attach_pid s = -1"
  using assms by (simp add: good_schedule_def schedule_simps)

lemma overtaking_schedule_overtakes:
  assumes "pid \<noteq> -1" "attach pid"
  shows "\<exists>s. run_schedule pid attach True overtaking_schedule tracer_init = Some s \<and>
     signalled_before_wait s \<and> attached s = [pid]"
  using assms by (simp add: overtaking_schedule_def schedule_simps signalled_before_wait_def)

text \<open>A launching thread that sleeps is woken by no one: it goes on before the tracing thread works.\<close>

lemma spurious_goes_on:
  "\<exists>s. steps pid attach fork True tracer_init s \<and> launcher s = Ask \<and> \<not> s_work_thread_doing s"
proof -
  obtain s where s: "run_schedule pid attach fork [0, 0, 0] tracer_init = Some s"
    "launcher s = Wait_work Sleeping" "sleepers (s_work_launch_sync s) = [0]" "holder (s_work_launch_sync s) = None"
    "\<not> s_work_thread_doing s"
    by (simp add: schedule_simps)
  define w where "w = s\<lparr>s_work_launch_sync := cmn_pt_broadcast (s_work_launch_sync s)\<rparr>"
  have "steps pid attach fork True tracer_init w"
    unfolding w_def
    by (rule rtranclp.rtrancl_into_rtrancl [OF run_schedule_steps [OF s(1)]]) (simp add: step.wake_launch s(3))
  moreover have "\<exists>s'. run_schedule pid attach fork [0, 0] w = Some s' \<and> launcher s' = Ask \<and> \<not> s_work_thread_doing s'"
    using s by (simp add: w_def cmn_pt_broadcast_def thread_step_def trace_new_pid.simps(2) pt_simps)
  ultimately show ?thesis using run_schedule_steps by (meson rtranclp_trans)
qed

text \<open>
  C26: without spurious wake-ups and when the fork of the helper process succeeds, the second
  hand-over can succeed, and can hang.  The tracing thread may attach the process and signal
  before the helper thread sleeps in its wait; from every state where it did, \<open>trace_new_pid\<close>
  returns under no schedule.  Nor does it ever return when the process cannot be attached.  A
  spurious wake-up lets the launching thread go on before the tracing thread works.
\<close>

theorem second_hand_over:
  assumes "pid \<noteq> -1" "attach pid"
  shows "(\<exists>s. steps pid attach True False tracer_init s \<and> launcher s = Returned \<and> attached s = [pid]) \<and>
    (\<exists>s. steps pid attach True False tracer_init s \<and> signalled_before_wait s \<and> attached s = [pid]) \<and>
    (\<forall>s s'. steps pid attach True False tracer_init s \<and> signalled_before_wait s \<and>
      steps pid attach True False s s' \<longrightarrow> launcher s' = Join) \<and>
    (\<forall>s. steps pid (\<lambda>_. False) True False tracer_init s \<longrightarrow> launcher s \<noteq> Returned) \<and>
    (\<exists>s. steps pid attach True True tracer_init s \<and> launcher s = Ask \<and> \<not> s_work_thread_doing s)"
proof (intro conjI)
  show "\<exists>s. steps pid attach True False tracer_init s \<and> launcher s = Returned \<and> attached s = [pid]"
    using good_schedule_returns [of pid attach, OF assms] run_schedule_steps by blast
  show "\<exists>s. steps pid attach True False tracer_init s \<and> signalled_before_wait s \<and> attached s = [pid]"
    using overtaking_schedule_overtakes [of pid attach, OF assms] run_schedule_steps by blast
  show "\<forall>s s'. steps pid attach True False tracer_init s \<and> signalled_before_wait s \<and>
      steps pid attach True False s s' \<longrightarrow> launcher s' = Join"
    using hand_ok_reachable signalled_overtaken overtaken_stays overtaken_def by blast
  show "\<forall>s. steps pid (\<lambda>_. False) True False tracer_init s \<longrightarrow> launcher s \<noteq> Returned"
    using unsignalled_reachable unsignalled_def by blast
qed (rule spurious_goes_on)

theorem second_hand_over_witness: "\<exists>s. steps 7 (\<lambda>_. True) True False tracer_init s \<and> attached s = [7]"
  using second_hand_over [of 7 "\<lambda>_. True"] by fastforce

end
