(* ===== verification/VlArray.thy ===== *)
theory VlArray
  imports Prelude
begin

text \<open>
  Arrays with a length header (cmn/cmn_vlarray.c): a block of \<open>malloc\<close> that starts with the
  number of the elements, an \<open>int\<close>; the pointer the clients hold is the one behind it.  The
  models of the clients have lists; the properties here say what such an array keeps.

  The heap is the map from the address of a live block to its bytes.  Where a block is put, and
  what is in it, is a parameter.
\<close>

unbundle bit_operations_syntax

section \<open>The allocator\<close>

type_synonym Heap = "u64 \<Rightarrow> byte list option"

record Allocator =
  al_place :: "Heap \<Rightarrow> u64 \<Rightarrow> u64"
  al_fill :: "u64 \<Rightarrow> nat \<Rightarrow> byte"

text \<open>The bytes of a new block; a block that fits is kept, and cut or filled up.\<close>

definition contents :: "Allocator \<Rightarrow> u64 \<Rightarrow> nat \<Rightarrow> byte list \<Rightarrow> byte list" where
  "contents A p n bs = take n bs @ map (al_fill A p) [length bs..<n]"

definition malloc :: "Allocator \<Rightarrow> u64 \<Rightarrow> Heap \<Rightarrow> u64 \<times> Heap" where
  "malloc A n h =
     (let p = al_place A h n in if p = 0 then (0, h) else (p, h(p \<mapsto> contents A p (unat n) [])))"

text \<open>
  \<open>realloc\<close> of what is not a block, or to no bytes, is undefined.  The old block counts as free
  when the place of the new one is chosen; on a failure it stays.
\<close>

definition realloc :: "Allocator \<Rightarrow> u64 \<Rightarrow> u64 \<Rightarrow> Heap \<Rightarrow> (u64 \<times> Heap) option" where
  "realloc A p n h =
     (case h p of None \<Rightarrow> None
      | Some bs \<Rightarrow>
          if n = 0 then None
          else let h' = h(p := None);
                   p' = al_place A h' n
               in Some (if p' = 0 then (0, h) else (p', h'(p' \<mapsto> contents A p' (unat n) bs))))"

definition free_block :: "u64 \<Rightarrow> Heap \<Rightarrow> Heap option" where
  "free_block p h = (if h p = None then None else Some (h(p := None)))"

section \<open>Integers in memory\<close>

definition int_bytes :: "int \<Rightarrow> byte list" where
  "int_bytes n = take 4 (le_bytes (of_int n))"

definition load_int :: "byte list \<Rightarrow> int option" where
  "load_int bs = (if length bs < 4 then None else Some (sint (ucast (of_le (take 4 bs)) :: u32)))"

definition store_int :: "int \<Rightarrow> byte list \<Rightarrow> byte list option" where
  "store_int n bs = (if length bs < 4 then None else Some (int_bytes n @ drop 4 bs))"

section \<open>cmn/cmn_vlarray.c\<close>

definition head_size :: int where
  "head_size = 4"

definition org_ptr :: "u64 \<Rightarrow> u64" where
  "org_ptr ctx = ctx - of_int head_size"

definition arr_ptr :: "u64 \<Rightarrow> u64" where
  "arr_ptr org = org + of_int head_size"

definition set_arr_length :: "u64 \<Rightarrow> int \<Rightarrow> Heap \<Rightarrow> Heap option" where
  "set_arr_length org n h =
     (case h org of None \<Rightarrow> None | Some bs \<Rightarrow> map_option (\<lambda>bs. h(org \<mapsto> bs)) (store_int n bs))"

text \<open>The size of an array; the product and the sum are of \<open>int\<close>s, where an overflow is undefined.\<close>

definition vl_capacity :: "int \<Rightarrow> int \<Rightarrow> int option" where
  "vl_capacity ele_size count =
     (if ele_size * count \<in> {-(2 ^ 31)..<2 ^ 31} \<and> ele_size * count + head_size < 2 ^ 31
      then Some (ele_size * count + head_size) else None)"

definition vl_new_array :: "Allocator \<Rightarrow> int \<Rightarrow> int \<Rightarrow> Heap \<Rightarrow> (u64 \<times> Heap) option" where
  "vl_new_array A ele_size count h =
     (case vl_capacity ele_size count of None \<Rightarrow> None
      | Some cap \<Rightarrow>
          case malloc A (of_int cap) h of (p, h) \<Rightarrow>
            if p = 0 then Some (0, h)
            else map_option (Pair (arr_ptr p)) (set_arr_length p count h))"

definition vl_array_length :: "u64 \<Rightarrow> Heap \<Rightarrow> int option" where
  "vl_array_length ctx h = (case h (org_ptr ctx) of None \<Rightarrow> None | Some bs \<Rightarrow> load_int bs)"

definition vl_array_realloc :: "Allocator \<Rightarrow> u64 \<Rightarrow> int \<Rightarrow> int \<Rightarrow> Heap \<Rightarrow> (u64 \<times> Heap) option" where
  "vl_array_realloc A ctx ele_size count h =
     (case vl_capacity ele_size count of None \<Rightarrow> None
      | Some except \<Rightarrow>
          case realloc A (org_ptr ctx) (of_int except) h of None \<Rightarrow> None
          | Some (p, h) \<Rightarrow>
              if p = 0 then Some (0, h)
              else map_option (Pair (arr_ptr p)) (set_arr_length p count h))"

definition vl_array_free :: "u64 \<Rightarrow> Heap \<Rightarrow> Heap option" where
  "vl_array_free ctx h = free_block (org_ptr ctx) h"

section \<open>The array a pointer stands for\<close>

text \<open>
  \<open>vl_array h ctx ele_size count\<close>: behind the pointer there are \<open>count\<close> elements of a block
  that has no others, and the number in front of them is right.
\<close>

definition vl_array :: "Heap \<Rightarrow> u64 \<Rightarrow> int \<Rightarrow> int \<Rightarrow> bool" where
  "vl_array h ctx ele_size count \<longleftrightarrow> ctx \<noteq> 0 \<and> 0 \<le> count \<and> count < 2 ^ 31 \<and>
     (\<exists>bs. h (org_ptr ctx) = Some bs \<and> int (length bs) = ele_size * count + head_size \<and>
        take 4 bs = int_bytes count)"

definition vl_element :: "Heap \<Rightarrow> u64 \<Rightarrow> int \<Rightarrow> nat \<Rightarrow> byte list" where
  "vl_element h ctx ele_size i =
     take (nat ele_size) (drop (4 + nat ele_size * i) (case h (org_ptr ctx) of None \<Rightarrow> [] | Some bs \<Rightarrow> bs))"

text \<open>A block of \<open>malloc\<close> is aligned, and it is put where no block is.\<close>

definition places_ok :: "Allocator \<Rightarrow> bool" where
  "places_ok A \<longleftrightarrow> (\<forall>h n. al_place A h n = 0 \<or> 16 dvd unat (al_place A h n) \<and> h (al_place A h n) = None)"

section \<open>Correctness\<close>

lemma length_int_bytes [simp]: "length (int_bytes n) = 4"
  by (simp add: int_bytes_def)

lemma low_half_bytes: "(ucast (of_le (take 4 (le_bytes w))) :: u32) = ucast w"
proof (rule bit_eqI)
  fix i :: nat
  assume "possible_bit TYPE(u32) i"
  then have i: "i < 32" by simp
  then have d: "i div 8 < 4" "8 * (i div 8) + i mod 8 = i" by simp_all
  show "bit (ucast (of_le (take 4 (le_bytes w))) :: u32) i \<longleftrightarrow> bit (ucast w :: u32) i"
    using i d by (auto simp: bit_ucast_iff bit_of_le nth_le_bytes bit_drop_bit_eq)
qed

lemma low_half_of_int: "(ucast (of_int n :: u64) :: u32) = of_int n"
  by (rule bit_eqI) (simp add: bit_ucast_iff bit_of_int_iff)

lemma load_int_bytes:
  assumes "-(2 ^ 31) \<le> n" "n < 2 ^ 31" "4 \<le> length bs" "take 4 bs = int_bytes n"
  shows "load_int bs = Some n"
proof -
  have "(ucast (of_le (take 4 bs)) :: u32) = of_int n"
    by (simp only: assms(4) int_bytes_def low_half_bytes low_half_of_int)
  moreover have "sint (of_int n :: u32) = n"
    using assms(1,2) by (simp add: signed_of_int signed_take_bit_int_eq_self)
  ultimately show ?thesis using assms(3) by (simp add: load_int_def)
qed

lemma org_arr_ptr [simp]: "org_ptr (arr_ptr p) = p" "arr_ptr (org_ptr p) = p"
  by (simp_all add: org_ptr_def arr_ptr_def)

lemma length_contents: "length (contents A p n bs) = n"
  by (simp add: contents_def)

lemma unat_capacity: "0 \<le> cap \<Longrightarrow> cap < 2 ^ 31 \<Longrightarrow> unat (of_int cap :: u64) = nat cap"
  using unat_of_nat_u64 [of "nat cap"] by simp

text \<open>The element of an index lies behind the header and inside of the block.\<close>

lemma element_inside:
  assumes "0 \<le> es" "int i < n" "int (length bs) = es * n + 4"
  shows "4 + nat es * i + nat es \<le> length bs"
proof -
  obtain k where k: "es = int k" using assms(1) nonneg_int_cases by blast
  have "es * (int i + 1) \<le> es * n" using assms(1,2) by (simp add: mult_left_mono)
  then have "int (4 + k * i + k) \<le> int (length bs)" using assms(3) k by (simp add: algebra_simps)
  then have "4 + k * i + k \<le> length bs" by (simp only: of_nat_le_iff)
  then show ?thesis using k by simp
qed

lemma take_drop_agree: "take m bs = take m cs \<Longrightarrow> k + l \<le> m \<Longrightarrow> take l (drop k bs) = take l (drop k cs)"
  by (metis (no_types) add.commute min.absorb1 take_drop take_take)

section \<open>What the operations keep\<close>

lemma capacity: "0 \<le> es \<Longrightarrow> 0 \<le> n \<Longrightarrow> es * n + 4 < 2 ^ 31 \<Longrightarrow> vl_capacity es n = Some (es * n + 4)"
  by (simp add: vl_capacity_def head_size_def mult_nonneg_nonneg order_trans [of _ 0])

lemma take_header:
  "4 \<le> length bs \<Longrightarrow> take 4 (int_bytes n @ drop 4 bs) = int_bytes n \<and> length (int_bytes n @ drop 4 bs) = length bs"
  by simp

text \<open>A block of the right size in which the length was set.\<close>

lemma set_arr_length_array:
  assumes "h p = Some bs" "int (length bs) = es * n + 4" "0 \<le> es" "0 \<le> n" "n < 2 ^ 31" "arr_ptr p \<noteq> 0"
  shows "\<exists>h'. set_arr_length p n h = Some h' \<and> vl_array h' (arr_ptr p) es n \<and>
    (\<forall>i. vl_element h' (arr_ptr p) es i = vl_element h (arr_ptr p) es i) \<and> (\<forall>q. q \<noteq> p \<longrightarrow> h' q = h q)"
proof -
  have four: "4 \<le> length bs" using assms(2-4) mult_nonneg_nonneg [of es n] by linarith
  let ?bs = "int_bytes n @ drop 4 bs"
  have "set_arr_length p n h = Some (h(p \<mapsto> ?bs))"
    using assms(1) four by (simp add: set_arr_length_def store_int_def)
  moreover have "vl_array (h(p \<mapsto> ?bs)) (arr_ptr p) es n"
    using assms four by (simp add: vl_array_def head_size_def)
  moreover have "vl_element (h(p \<mapsto> ?bs)) (arr_ptr p) es i = vl_element h (arr_ptr p) es i" for i
    using assms(1) by (simp add: vl_element_def add.commute)
  ultimately show ?thesis by auto
qed

lemma aligned_arr_ptr:
  assumes "16 dvd unat p"
  shows "arr_ptr p \<noteq> 0" "unat (arr_ptr p) mod 16 = 4"
proof -
  have "unat p < 2 ^ 64" using unsigned_less [of p, where ?'a = nat] by simp
  then have "unat p + 4 < 2 ^ 64" using assms by (auto elim!: dvdE)
  then have u: "unat (arr_ptr p) = unat p + 4"
    using unat_plus_nowrap [of p 4] by (simp add: arr_ptr_def head_size_def)
  then show "arr_ptr p \<noteq> 0" by (metis add_is_0 unat_0 zero_neq_numeral)
  show "unat (arr_ptr p) mod 16 = 4" using u assms by (simp add: mod_add_left_eq [symmetric] dvd_eq_mod_eq_0)
qed

lemma new_array_kept:
  assumes A: "places_ok A" and es: "0 \<le> es" and n: "0 \<le> n" "n < 2 ^ 31" "es * n + 4 < 2 ^ 31"
  shows "\<exists>ctx h'. vl_new_array A es n h = Some (ctx, h') \<and>
    (if ctx = 0 then h' = h
     else vl_array h' ctx es n \<and> unat ctx mod 16 = 4 \<and> h (org_ptr ctx) = None \<and>
       (\<forall>q. q \<noteq> org_ptr ctx \<longrightarrow> h' q = h q))"
proof (cases "al_place A h (of_int (es * n + 4)) = 0")
  case True
  then show ?thesis using capacity [OF es n(1,3)] by (simp add: vl_new_array_def malloc_def)
next
  case False
  define p where "p = al_place A h (of_int (es * n + 4))"
  define h1 where "h1 = h(p \<mapsto> contents A p (nat (es * n + 4)) [])"
  have p: "p \<noteq> 0" "16 dvd unat p" "h p = None" using A False by (auto simp: places_ok_def p_def)
  have nn: "0 \<le> es * n + 4" using es n(1) by simp
  have len: "int (length (contents A p (nat (es * n + 4)) [])) = es * n + 4" using nn by (simp only: length_contents nat_0_le)
  have m: "malloc A (of_int (es * n + 4)) h = (p, h1)"
    using False unat_capacity [OF nn n(3)] by (simp add: malloc_def Let_def p_def h1_def)
  obtain h' where h': "set_arr_length p n h1 = Some h'" "vl_array h' (arr_ptr p) es n" "\<forall>q. q \<noteq> p \<longrightarrow> h' q = h1 q"
    using set_arr_length_array [of h1 p _ es n] aligned_arr_ptr(1) [OF p(2)] len es n unfolding h1_def by auto
  have "vl_new_array A es n h = Some (arr_ptr p, h')"
    using m h'(1) p(1) capacity [OF es n(1,3)] by (simp add: vl_new_array_def)
  then show ?thesis using h' p aligned_arr_ptr [OF p(2)] by (auto simp: h1_def)
qed

lemma contents_prefix: "take (min n (length bs)) (contents A p n bs) = take (min n (length bs)) bs"
  by (simp add: contents_def)

lemma realloc_kept:
  assumes A: "places_ok A" and a: "vl_array h ctx es m"
    and es: "0 \<le> es" and n: "0 \<le> n" "n < 2 ^ 31" "es * n + 4 < 2 ^ 31"
  shows "\<exists>ctx' h'. vl_array_realloc A ctx es n h = Some (ctx', h') \<and>
    (if ctx' = 0 then h' = h
     else vl_array h' ctx' es n \<and> unat ctx' mod 16 = 4 \<and>
       (\<forall>i. int i < min m n \<longrightarrow> vl_element h' ctx' es i = vl_element h ctx es i) \<and>
       (\<forall>q. q \<noteq> org_ptr ctx \<longrightarrow> q \<noteq> org_ptr ctx' \<longrightarrow> h' q = h q))"
proof -
  obtain bs where bs: "h (org_ptr ctx) = Some bs" "int (length bs) = es * m + 4" "0 \<le> m"
    using a by (auto simp: vl_array_def head_size_def)
  define h0 where "h0 = h(org_ptr ctx := None)"
  define p where "p = al_place A h0 (of_int (es * n + 4))"
  define h1 where "h1 = h0(p \<mapsto> contents A p (nat (es * n + 4)) bs)"
  have nn: "0 < es * n + 4" using es n(1) by (simp add: add_nonneg_pos)
  have c: "(of_int (es * n + 4) :: u64) \<noteq> 0"
    using unat_capacity [of "es * n + 4"] nn n(3) by (metis less_le unat_0 zero_less_nat_eq nat_0 less_imp_le not_less_iff_gr_or_eq)
  have r: "realloc A (org_ptr ctx) (of_int (es * n + 4)) h = Some (if p = 0 then (0, h) else (p, h1))"
    using bs(1) c unat_capacity [OF less_imp_le [OF nn] n(3)] by (simp add: realloc_def Let_def p_def h1_def h0_def)
  show ?thesis
  proof (cases "p = 0")
    case True
    then show ?thesis using r capacity [OF es n(1,3)] by (simp add: vl_array_realloc_def)
  next
    case False
    then have p: "16 dvd unat p" using A by (auto simp: places_ok_def p_def)
    have len: "int (length (contents A p (nat (es * n + 4)) bs)) = es * n + 4"
      using nn by (simp only: length_contents nat_0_le)
    obtain h' where h': "set_arr_length p n h1 = Some h'" "vl_array h' (arr_ptr p) es n"
        "\<forall>i. vl_element h' (arr_ptr p) es i = vl_element h1 (arr_ptr p) es i" "\<forall>q. q \<noteq> p \<longrightarrow> h' q = h1 q"
      using set_arr_length_array [of h1 p _ es n] aligned_arr_ptr(1) [OF p] len es n unfolding h1_def by auto
    have "vl_element h1 (arr_ptr p) es i = vl_element h ctx es i" if "int i < min m n" for i
    proof -
      have "4 + nat es * i + nat es \<le> min (nat (es * n + 4)) (length bs)"
        using element_inside [OF es _ bs(2)] element_inside [OF es _ len] that by (simp add: length_contents)
      then show ?thesis
        using take_drop_agree [OF contents_prefix] bs(1) by (simp add: vl_element_def h1_def)
    qed
    moreover have "vl_array_realloc A ctx es n h = Some (arr_ptr p, h')"
      using r h'(1) False capacity [OF es n(1,3)] by (simp add: vl_array_realloc_def)
    ultimately show ?thesis using h' aligned_arr_ptr [OF p] by (auto simp: h1_def h0_def)
  qed
qed

text \<open>
  C27: the arrays are what the pointers say.  A new array has the number of elements asked for; an
  array gives this number, can be given back, and after a change of its number it has the elements
  that both have in common; other blocks are left alone, and a failure leaves everything as it is.
  The pointer is never aligned to more than 4 bytes.
\<close>

theorem arrays_kept:
  assumes "places_ok A" "0 \<le> es" "0 \<le> n" "n < 2 ^ 31" "es * n + 4 < 2 ^ 31"
  shows "(\<exists>ctx h'. vl_new_array A es n h = Some (ctx, h') \<and>
      (if ctx = 0 then h' = h
       else vl_array h' ctx es n \<and> unat ctx mod 16 = 4 \<and> h (org_ptr ctx) = None \<and>
         (\<forall>q. q \<noteq> org_ptr ctx \<longrightarrow> h' q = h q))) \<and>
    (\<forall>ctx m. vl_array h ctx es m \<longrightarrow>
      vl_array_length ctx h = Some m \<and> vl_array_free ctx h = Some (h(org_ptr ctx := None)) \<and>
      (\<exists>ctx' h'. vl_array_realloc A ctx es n h = Some (ctx', h') \<and>
        (if ctx' = 0 then h' = h
         else vl_array h' ctx' es n \<and> unat ctx' mod 16 = 4 \<and>
           (\<forall>i. int i < min m n \<longrightarrow> vl_element h' ctx' es i = vl_element h ctx es i) \<and>
           (\<forall>q. q \<noteq> org_ptr ctx \<longrightarrow> q \<noteq> org_ptr ctx' \<longrightarrow> h' q = h q))))"
proof (intro conjI allI impI)
  fix ctx m
  assume a: "vl_array h ctx es m"
  then obtain bs where bs: "h (org_ptr ctx) = Some bs" "int (length bs) = es * m + 4" "0 \<le> m" "m < 2 ^ 31"
      "take 4 bs = int_bytes m"
    by (auto simp: vl_array_def head_size_def)
  have "0 \<le> es * m" using assms(2) bs(3) by (rule mult_nonneg_nonneg)
  then have "4 \<le> length bs" using bs(2) by linarith
  then show "vl_array_length ctx h = Some m" using bs load_int_bytes [of m bs] by (simp add: vl_array_length_def)
  show "vl_array_free ctx h = Some (h(org_ptr ctx := None))" using bs(1) by (simp add: vl_array_free_def free_block_def)
qed (use new_array_kept [OF assms] realloc_kept [OF assms(1) _ assms(2-5)] in blast)+

text \<open>An allocator that has one place, and fills with ones.\<close>

definition one_place :: Allocator where
  "one_place = \<lparr>al_place = (\<lambda>h n. if h 0x1000 = None then 0x1000 else 0), al_fill = (\<lambda>p i. 1)\<rparr>"

theorem arrays_kept_witness:
  "\<exists>ctx h'. vl_new_array one_place 4 3 Map.empty = Some (ctx, h') \<and> ctx = 0x1004 \<and> vl_array h' ctx 4 3"
proof -
  have "places_ok one_place" by (simp add: places_ok_def one_place_def)
  then obtain ctx h' where "vl_new_array one_place 4 3 Map.empty = Some (ctx, h')"
      "ctx \<noteq> 0 \<longrightarrow> vl_array h' ctx 4 3"
    using arrays_kept [of one_place 4 3 Map.empty] by auto
  moreover have "map_option fst (vl_new_array one_place 4 3 Map.empty) = Some 0x1004"
    by (simp add: vl_new_array_def vl_capacity_def head_size_def malloc_def one_place_def set_arr_length_def
        store_int_def contents_def arr_ptr_def)
  ultimately show ?thesis by simp
qed

end
