(* ===== verification/Spec2Isabelle.thy ===== *)
theory Spec2Isabelle
  imports CmnUtils Auxv Shebang Tracer Exec_Enter Library Launch VlArray
begin

text \<open>
  A development for abyss, a library that intercepts the system calls of Android processes with
  \<open>ptrace\<close> and a seccomp filter.  The program is the C code below src/library/src/main/jni, a
  descendant of PRoot; the paths below are relative to that directory.

  \<^bold>\<open>The program.\<close>  A process that is to be traced installs a seccomp filter which reports the
  calls the tracer asked for (library.c, syscall/seccomp.c).  The tracing thread attaches it
  and runs the event loop (tracee/event.c): it waits for a stop, finds the tracee
  (tracee/tracee.c), fetches its registers (tracee/reg.c) and translates the two stages of a call
  (syscall/syscall.c, syscall/enter.c, syscall/exit.c), in which callbacks of the application and
  the handlers of \<open>execve\<close>, \<open>ptrace\<close> and \<open>wait\<close> may change the call.  A handler may
  chain other calls behind it (syscall/chain.c), and works on the memory of the tracee
  (tracee/mem.c).  The tracees may be debuggers of each other: the requests and events between
  them are emulated (ptrace/ptrace.c, ptrace/wait.c).  For an execve the tracer reads the ELF file
  (execve/elf.c, execve/enter.c), has the kernel execute a loader instead, and leaves it a load
  script on the stack (execve/exit.c), which the loader interprets in the new process
  (loader/loader.c).  The launching thread and the tracing thread meet at condition variables
  (cmn/cmn_pthread_cond.c).

  \<^bold>\<open>Conventions.\<close>  A C \<open>int\<close> status is an \<open>int\<close>, an error the negated errno; words, sizes and
  addresses are machine words that wrap.  Memory is a list of bytes, or a partial map from
  addresses to bytes.  Undefined behaviour, a failed assertion, the exit of the tracer and a
  fault are the value \<open>None\<close>: a property with a value on its right hand side states that none of
  them happens.  A call of the kernel is a function over a kernel state of any type, in a record
  of parameters (\<open>Kernel\<close>, \<open>Procs\<close>, \<open>Fs\<close>, \<open>Exec\<close>, \<open>Elf_sys\<close>); what its documentation promises
  is a predicate on that record (\<open>kernel_memory\<close> of Kernel, \<open>svc_ok\<close> of Loader, and others), which is a
  hypothesis of the properties that need it, and which the witnesses prove of a concrete kernel.
  Names are those of the sources, with a prefix where a field or a function would clash.
\<close>

text \<open>
  \<^bold>\<open>Theories.\<close>

  \<^item> Prelude: machine types, errno values, results, little-endian words.
  \<^item> Sysnum_Enum, Sysnum: the neutral numbers and the tables of the two ABIs (syscall/sysnum.c).
    Both translations are inverse to each other.
  \<^item> CmnUtils, VlArray: cmn/cmn_utils.c, and cmn/cmn_vlarray.c with its blocks of memory; the
    operations on arrays keep the representation, so that the clients' models have lists.
  \<^item> Tracee, Kernel, Regs, Mem: the record of a tracee, the kernel's interface, the cached
    registers and their exchange (tracee/reg.c), the access to memory (tracee/mem.c): what is
    written, read and reserved, on every branch of the fallbacks.
  \<^item> Chain, Syscall, Frame: the chain of calls is a queue where its blocks have room for an element,
    which the code does not ask for; the two stages alternate, a failed translation gives its error
    where the call has an exit stage; what a stage leaves alone.
  \<^item> Seccomp, Library: the compiler of filters against a specification of the verdicts, on a
    machine for the instructions it uses; the installation, and the flags of the application.
  \<^item> Path, Shebang: path/path.c against lists of components; the expansion of scripts.
  \<^item> Tracees, Wait, Ptrace, Event: the heap of tracees and their links, the emulation of wait and
    ptrace, and the event loop; Invariant, Steps: the invariant of that state, and every
    operation and event keeps it; Script: a kernel for witnesses; Lifecycle: what follows for
    every reachable state, the selection and the waking of a ptracer.
  \<^item> Elf, Load_Info, Auxv, Execve, Exec_Enter: headers, load information against the image of the
    file, the auxiliary vectors, both stages of execve, which calls the first lets through, and what it
    makes of a header table behind 2 GiB.
  \<^item> Loader, Loader_Run, Program: the interpreter of load scripts on the memory of the process, a
    whole run of it, and the composition: the script that the tracer leaves loads the program.
  \<^item> Tracer: the event loop with the program's own handlers of execve, and callbacks that use the
    library: its state is well formed.
  \<^item> Launch: the threads and condition variables, as an interleaving of steps: the first hand-over
    loses no wake-up and ends, the second can hang.

  \<^bold>\<open>State.\<close>  The globals of the event loop and the heap of \<open>struct tracee\<close> are the record \<open>world\<close>
  of theory Tracees: an object is found by its address, the list \<open>tracees\<close> and the lists of
  zombies are lists of addresses, freed objects are not in the map, so that a dangling pointer is
  \<open>None\<close>.  A single tracee is the record \<open>Tracee\<close>; its registers are the three banks of reg.c.

  \<^bold>\<open>Interfaces.\<close>  \<open>register_file\<close> (Regs) for reading a register after a write;
  \<open>tracee_memory\<close> (Mem) for memory after a store; \<open>fifo\<close> (Chain) for the queue of calls;
  \<open>bpf_machine\<close> (Seccomp) for the kernel that runs a filter; \<open>kernel_frame\<close>, \<open>enter_frame\<close> and
  \<open>stage_frame\<close> (Frame) for what the calls of the kernel and the handlers leave alone.  Each is
  interpreted on the model: \<open>current\<close>, \<open>data\<close>, \<open>chain\<close>, \<open>bpf\<close>, \<open>lifted\<close> and \<open>stages\<close>.

  \<^bold>\<open>Loops.\<close>  Loops over lists and counters are recursive functions.  Those that follow memory or
  the events of the kernel (\<open>skip_envp\<close>, \<open>fetch_loop\<close>, the loops of the loader, \<open>event_loop\<close>) are
  partial functions where not ending is \<open>None\<close>; the properties prove that they end.  The
  recursion between the handling of an event and the release of pending events has its depth as
  an argument; the invariant of theory Invariant is proved for every depth.

  \<^bold>\<open>Configuration.\<close>  The arm64 build: \<open>ARCH_ARM64\<close>, \<open>HAVE_PROCESS_VM\<close>, \<open>HAVE_SECCOMP_FILTER\<close>,
  \<open>HANDLE_SYSCALL\<close>, \<open>ENABLE_LOG\<close> and the \<open>TEST_ONLY\<close> of tracee/event.c; \<open>USE_LOADER_EXE\<close>, undefined in
  build.h, is an argument of the handlers of execve.  loader/loader.c is built on its own.

  \<^bold>\<open>Not modelled.\<close>  execve/aoxp.c, execve/ldso.c, path/binding.c, path/canon.c, path/glue.c,
  path/proc.c, syscall/heap.c, syscall/rlimit.c and syscall/socket.c are not in the build;
  path/temp.c is, but its calls are commented out.  The log, the crash handler and
  the printing of maps have no effect on the tracees, but for the reads and undefined accesses
  some lines of the log make, which are modelled (a buffer that was never set in the enter stage
  of \<open>open\<close>, the buffer of 1024 bytes of note.c for the paths of \<open>translate_path\<close>); an integer of
  no certain value that the log of \<open>PTRACE_GETEVENTMSG\<close> prints, and a change of errno by the log
  itself, are not.  \<open>find_libc_exec_maps\<close>, which reads its own
  memory map, is an argument (the bounds it finds).  The tables of other architectures are not
  compiled for arm64; the headers linux_syscalls_*.h of src/svcer are generated tables of names;
  src/app holds a demonstration with copies of the sources.  \<open>pthread_create\<close> is assumed to
  succeed in theory Launch, as the code does not test it where the hand-over begins, and there the
  thread in waitpid blocks where the code calls it again at once (tracee/event.c, \<open>ECHILD\<close>).
  \<open>kernel_memory\<close> states that a write changes the memory of one process: threads that share
  theirs are idealised.  The stack frame of the loader itself is not part of its process, and the
  pointer to a buffer of the stack that execve/enter.c keeps in \<open>new_exe\<close> is the string it was
  given; it is only tested against \<open>NULL\<close> later.
\<close>

end
